(* ===== verification/Prelude.thy ===== *)
theory Prelude
  imports Main "HOL-Library.Word"
begin

text \<open>
  Shared vocabulary of the development: the machine integers of the C++ sources as words, the
  exceptions the sources throw as values of \<open>exn\<close>, the \<open>exn + 'a\<close> result type with its bind,
  and the conversions between bytes, characters and digit strings that several components use
  (\<open>std::to_string\<close>, the hexadecimal digit table). A \<open>std::string\<close> is a \<open>string\<close>: an Isabelle
  \<open>char\<close> is one of the 256 byte values, as a C++ \<open>char\<close> is.
\<close>

unbundle bit_operations_syntax

type_synonym u8 = "8 word"
type_synonym u16 = "16 word"
type_synonym u32 = "32 word"
type_synonym u64 = "64 word"
type_synonym bytes = "u8 list"

section \<open>Exceptions and results\<close>

text \<open>
  \<open>UCIException\<close> derives from \<open>std::runtime_error\<close>; \<open>InvalidArgument\<close>, \<open>OutOfRange\<close> and
  \<open>LengthError\<close> are the standard library's \<open>std::invalid_argument\<close>, \<open>std::out_of_range\<close> and
  \<open>std::length_error\<close>, which derive from \<open>std::logic_error\<close>; \<open>JsonException\<close> is \<open>nlohmann::json::exception\<close>, which derives from
  \<open>std::exception\<close> directly, as does \<open>std::bad_cast\<close>, which a \<open>dynamic_cast\<close> to a reference
  throws. The string is what \<open>what()\<close> returns.
\<close>

datatype exn =
    UCIException string
  | RuntimeError string
  | InvalidArgument string
  | OutOfRange string
  | LengthError string
  | JsonException string
  | BadCast

type_synonym 'a res = "exn + 'a"

fun what :: "exn \<Rightarrow> string" where
  "what (UCIException s) = s"
| "what (RuntimeError s) = s"
| "what (InvalidArgument s) = s"
| "what (OutOfRange s) = s"
| "what (LengthError s) = s"
| "what (JsonException s) = s"
| "what BadCast = ''std::bad_cast''"

text \<open>Which handler clauses a thrown exception matches.\<close>

fun is_uci_exception :: "exn \<Rightarrow> bool" where
  "is_uci_exception (UCIException _) = True"
| "is_uci_exception _ = False"

fun is_runtime_error :: "exn \<Rightarrow> bool" where
  "is_runtime_error (UCIException _) = True"
| "is_runtime_error (RuntimeError _) = True"
| "is_runtime_error _ = False"

fun is_json_exception :: "exn \<Rightarrow> bool" where
  "is_json_exception (JsonException _) = True"
| "is_json_exception _ = False"

definition rbind :: "'a res \<Rightarrow> ('a \<Rightarrow> 'b res) \<Rightarrow> 'b res" where
  "rbind m f = (case m of Inl e \<Rightarrow> Inl e | Inr x \<Rightarrow> f x)"

lemma rbind_Inl [simp]: "rbind (Inl e) f = Inl e"
  by (simp add: rbind_def)

lemma rbind_Inr [simp]: "rbind (Inr x) f = f x"
  by (simp add: rbind_def)

lemma rbind_assoc: "rbind (rbind m f) g = rbind m (\<lambda>x. rbind (f x) g)"
  by (cases m) simp_all

lemma rbind_eq_Inr_iff: "rbind m f = Inr y \<longleftrightarrow> (\<exists>x. m = Inr x \<and> f x = Inr y)"
  by (cases m) simp_all

lemma rbind_eq_Inl_iff: "rbind m f = Inl e \<longleftrightarrow> m = Inl e \<or> (\<exists>x. m = Inr x \<and> f x = Inl e)"
  by (cases m) simp_all

lemma rbind_cong [fundef_cong]:
  "m = m' \<Longrightarrow> (\<And>x. m' = Inr x \<Longrightarrow> f x = g x) \<Longrightarrow> rbind m f = rbind m' g"
  by (cases m') simp_all

definition map_res :: "('a \<Rightarrow> 'b) \<Rightarrow> 'a res \<Rightarrow> 'b res" where
  "map_res f m = rbind m (\<lambda>x. Inr (f x))"

lemma map_res_simps [simp]: "map_res f (Inr x) = Inr (f x)" "map_res f (Inl e) = Inl e"
  by (simp_all add: map_res_def)

lemma map_res_eq_Inl [simp]: "map_res f m = Inl e \<longleftrightarrow> m = Inl e"
  by (cases m) simp_all

text \<open>\<open>catch p m h\<close>: the handler \<open>h\<close> runs on the exceptions its clause \<open>p\<close> matches.\<close>

definition catch :: "(exn \<Rightarrow> bool) \<Rightarrow> 'a res \<Rightarrow> (exn \<Rightarrow> 'a res) \<Rightarrow> 'a res" where
  "catch p m h = (case m of Inl e \<Rightarrow> if p e then h e else Inl e | Inr x \<Rightarrow> Inr x)"

lemma catch_Inr [simp]: "catch p (Inr x) h = Inr x"
  by (simp add: catch_def)

lemma catch_Inl [simp]: "catch p (Inl e) h = (if p e then h e else Inl e)"
  by (simp add: catch_def)

lemma runtime_error_cases:
  "is_runtime_error e \<longleftrightarrow> (\<exists>s. e = UCIException s \<or> e = RuntimeError s)"
  by (cases e) simp_all

text \<open>\<open>mapR f xs\<close>: a loop that calls \<open>f\<close> on each element and stops at the first exception.\<close>

fun mapR :: "('a \<Rightarrow> 'b res) \<Rightarrow> 'a list \<Rightarrow> 'b list res" where
  "mapR f [] = Inr []"
| "mapR f (x # xs) = rbind (f x) (\<lambda>y. rbind (mapR f xs) (\<lambda>ys. Inr (y # ys)))"

lemma mapR_Inr: "(\<And>x. x \<in> set xs \<Longrightarrow> f x = Inr (g x)) \<Longrightarrow> mapR f xs = Inr (map g xs)"
  by (induction xs) simp_all

lemma mapR_eq_Inr_iff: "mapR f xs = Inr ys \<longleftrightarrow> list_all2 (\<lambda>x y. f x = Inr y) xs ys"
proof (induction xs arbitrary: ys)
  case Nil
  then show ?case by auto
next
  case (Cons x xs)
  then show ?case by (auto simp: rbind_eq_Inr_iff list_all2_Cons1)
qed

lemma mapR_length: "mapR f xs = Inr ys \<Longrightarrow> length ys = length xs"
  by (auto simp: mapR_eq_Inr_iff dest: list_all2_lengthD)

lemma mapR_Inl: "mapR f xs = Inl e \<Longrightarrow> \<exists>x \<in> set xs. f x = Inl e"
  by (induction xs) (auto simp: rbind_eq_Inl_iff)

text \<open>\<open>foldR f s xs\<close>: a loop that threads a state and stops at the first exception.\<close>

fun foldR :: "('a \<Rightarrow> 's \<Rightarrow> 's res) \<Rightarrow> 'a list \<Rightarrow> 's \<Rightarrow> 's res" where
  "foldR f [] s = Inr s"
| "foldR f (x # xs) s = rbind (f x s) (foldR f xs)"

lemma foldR_append: "foldR f (xs @ ys) s = rbind (foldR f xs s) (foldR f ys)"
proof (induction xs arbitrary: s)
  case Nil
  then show ?case by simp
next
  case (Cons x xs)
  then show ?case by (cases "f x s") simp_all
qed

lemma foldR_invariant:
  assumes "foldR f xs s = Inr t" and "I s"
    and "\<And>x s t. x \<in> set xs \<Longrightarrow> I s \<Longrightarrow> f x s = Inr t \<Longrightarrow> I t"
  shows "I t"
  using assms by (induction xs arbitrary: s) (auto simp: rbind_eq_Inr_iff)

section \<open>Outcomes\<close>

text \<open>What a computation may end with: an exception in \<open>E\<close> or a value in \<open>S\<close>.\<close>

definition outcome :: "(exn \<Rightarrow> bool) \<Rightarrow> ('a \<Rightarrow> bool) \<Rightarrow> 'a res \<Rightarrow> bool" where
  "outcome E S r = (case r of Inl e \<Rightarrow> E e | Inr w \<Rightarrow> S w)"

lemma outcome_simps [simp]: "outcome E S (Inl e) = E e" "outcome E S (Inr w) = S w"
  by (simp_all add: outcome_def)

lemma outcome_rbind: "outcome E S m \<Longrightarrow> (\<And>x. m = Inr x \<Longrightarrow> S x \<Longrightarrow> outcome E R (f x)) \<Longrightarrow> outcome E R (rbind m f)"
  by (cases m) simp_all

lemma outcome_map: "outcome E (\<lambda>x. S (f x)) m \<Longrightarrow> outcome E S (map_res f m)"
  by (cases m) simp_all

lemma outcome_map_iff: "outcome E S (map_res f m) \<longleftrightarrow> outcome E (\<lambda>x. S (f x)) m"
  by (cases m) simp_all

lemma outcome_weaken: "outcome E R m \<Longrightarrow> (\<And>x. R x \<Longrightarrow> S x) \<Longrightarrow> outcome E S m"
  by (cases m) simp_all

lemma outcome_foldR:
  "(\<And>x s. x \<in> set xs \<Longrightarrow> S s \<Longrightarrow> outcome E S (f x s)) \<Longrightarrow> S s \<Longrightarrow> outcome E S (foldR f xs s)"
proof (induction xs arbitrary: s)
  case (Cons x xs)
  then show ?case by (auto intro!: outcome_rbind [where S = S])
qed simp

section \<open>Bytes and characters\<close>

lemma unat_u8_less: "unat (b :: u8) < 256"
proof -
  have "unat b < 2 ^ LENGTH(8)" by (rule unsigned_less)
  then show ?thesis by simp
qed

lemma less_8_cases: "(n::nat) < 8 \<Longrightarrow> n \<in> {0, 1, 2, 3, 4, 5, 6, 7}"
  by simp presburger

text \<open>Octets are equal when their eight bits are: decides bit-mask identities by \<open>simp\<close>.\<close>

lemma u8_eq_bits:
  "(a :: u8) = b \<longleftrightarrow> bit a 0 = bit b 0 \<and> bit a 1 = bit b 1 \<and> bit a 2 = bit b 2 \<and> bit a 3 = bit b 3 \<and>
     bit a 4 = bit b 4 \<and> bit a 5 = bit b 5 \<and> bit a 6 = bit b 6 \<and> bit a 7 = bit b 7"
proof
  assume *: "bit a 0 = bit b 0 \<and> bit a 1 = bit b 1 \<and> bit a 2 = bit b 2 \<and> bit a 3 = bit b 3 \<and>
     bit a 4 = bit b 4 \<and> bit a 5 = bit b 5 \<and> bit a 6 = bit b 6 \<and> bit a 7 = bit b 7"
  show "a = b"
  proof (rule bit_word_eqI)
    fix k assume "k < LENGTH(8)"
    then have "k \<in> {0, 1, 2, 3, 4, 5, 6, 7}" by (intro less_8_cases) simp
    with * show "bit a k = bit b k" by (elim insertE emptyE) simp_all
  qed
qed simp

definition byte_of_char :: "char \<Rightarrow> u8" where
  "byte_of_char c = of_char c"

definition char_of_byte :: "u8 \<Rightarrow> char" where
  "char_of_byte b = char_of (unat b)"

lemma byte_of_char_alt: "byte_of_char c = word_of_nat (of_char c)"
  by (simp add: byte_of_char_def of_nat_of_char)

lemma char_of_byte_of_char [simp]: "char_of_byte (byte_of_char c) = c"
proof -
  have "(of_char c :: nat) < 256" by simp
  then have "unat (word_of_nat (of_char c) :: u8) = of_char c"
    by (simp add: unat_of_nat)
  then show ?thesis by (simp add: char_of_byte_def byte_of_char_alt)
qed

lemma byte_of_char_of_byte [simp]: "byte_of_char (char_of_byte b) = b"
proof -
  have "unat b < 256" by (rule unat_u8_less)
  then show ?thesis by (simp add: char_of_byte_def byte_of_char_alt of_char_of)
qed

lemma byte_of_char_inject [simp]: "byte_of_char c = byte_of_char d \<longleftrightarrow> c = d"
  by (metis char_of_byte_of_char)

lemma map_char_of_byte_of_char [simp]: "map (char_of_byte \<circ> byte_of_char) s = s"
  by (induction s) simp_all

lemma map_byte_of_char_of_byte [simp]: "map (byte_of_char \<circ> char_of_byte) bs = bs"
  by (induction bs) simp_all

end
