(* ===== verification/Digits.thy ===== *)
theory Digits
  imports Prelude
begin

text \<open>
  Digit strings: the hexadecimal digits that \<open>UUID::toString\<close> and the JSON byte encoder print,
  \<open>std::to_string\<close> on integers, and \<open>std::stoul(s, nullptr, 16)\<close> as \<open>UUID::fromString\<close> calls it.
\<close>

section \<open>Hexadecimal\<close>

definition hex_digit :: "nat \<Rightarrow> char" where
  "hex_digit n = ''0123456789abcdef'' ! n"

definition hex_val :: "char \<Rightarrow> nat option" where
  "hex_val c = (let n = of_char c :: nat in
     if 48 \<le> n \<and> n \<le> 57 then Some (n - 48)
     else if 97 \<le> n \<and> n \<le> 102 then Some (n - 87)
     else if 65 \<le> n \<and> n \<le> 70 then Some (n - 55)
     else None)"

lemma less_16_cases:
  "(n::nat) < 16 \<Longrightarrow> n \<in> {0, 1, 2, 3, 4, 5, 6, 7, 8, 9, 10, 11, 12, 13, 14, 15}"
  by simp presburger

lemma hex_val_digit [simp]: "n < 16 \<Longrightarrow> hex_val (hex_digit n) = Some n"
  by (drule less_16_cases) (auto simp: hex_digit_def hex_val_def)

lemma hex_val_bound: "hex_val c = Some n \<Longrightarrow> n < 16"
  by (auto simp: hex_val_def Let_def split: if_splits)

lemma hex_digit_not_dash: "n < 16 \<Longrightarrow> hex_digit n \<noteq> CHR ''-''"
  by (drule less_16_cases) (auto simp: hex_digit_def)

text \<open>Two lowercase digits of a byte, high nibble first.\<close>

definition hex2 :: "u8 \<Rightarrow> string" where
  "hex2 b = [hex_digit (unat (drop_bit 4 b)), hex_digit (unat (b AND 0x0F))]"

lemma unat_high_nibble: "unat (drop_bit 4 (b :: u8)) = unat b div 16"
  by (simp add: drop_bit_eq_div unat_div)

lemma unat_low_nibble: "unat ((b :: u8) AND 0x0F) = unat b mod 16"
proof -
  have "b AND 0x0F = take_bit 4 b"
    by (simp add: take_bit_eq_mask mask_eq_exp_minus_1)
  then show ?thesis by (simp add: take_bit_eq_mod unat_mod)
qed

lemma high_nibble_bound [simp]: "unat (drop_bit 4 (b :: u8)) < 16"
  using unat_u8_less [of b] by (simp add: unat_high_nibble)

lemma low_nibble_bound [simp]: "unat ((b :: u8) AND 0x0F) < 16"
  by (simp add: unat_low_nibble)

lemma hex2_value: "16 * unat (drop_bit 4 (b :: u8)) + unat (b AND 0x0F) = unat b"
  by (simp add: unat_high_nibble unat_low_nibble)

lemma length_hex2 [simp]: "length (hex2 b) = 2"
  by (simp add: hex2_def)

section \<open>Decimal: std::to_string\<close>

fun dec_of_nat :: "nat \<Rightarrow> string" where
  "dec_of_nat n = (if n < 10 then [hex_digit n] else dec_of_nat (n div 10) @ [hex_digit (n mod 10)])"

declare dec_of_nat.simps [simp del]

definition dec_of_int :: "int \<Rightarrow> string" where
  "dec_of_int i = (if i < 0 then CHR ''-'' # dec_of_nat (nat (- i)) else dec_of_nat (nat i))"

definition dec_digit :: "char \<Rightarrow> nat option" where
  "dec_digit c = (let n = of_char c :: nat in if 48 \<le> n \<and> n \<le> 57 then Some (n - 48) else None)"

definition nat_of_dec :: "string \<Rightarrow> nat" where
  "nat_of_dec s = foldl (\<lambda>a c. 10 * a + (case dec_digit c of Some d \<Rightarrow> d | None \<Rightarrow> 0)) 0 s"

lemma less_10_cases: "(n::nat) < 10 \<Longrightarrow> n \<in> {0, 1, 2, 3, 4, 5, 6, 7, 8, 9}"
  by auto

lemma dec_digit_digit [simp]: "n < 10 \<Longrightarrow> dec_digit (hex_digit n) = Some n"
  by (drule less_10_cases) (auto simp: hex_digit_def dec_digit_def)

lemma nat_of_dec_of_nat [simp]: "nat_of_dec (dec_of_nat n) = n"
proof (induction n rule: dec_of_nat.induct)
  case (1 n)
  show ?case
  proof (cases "n < 10")
    case True
    then show ?thesis by (subst dec_of_nat.simps) (simp add: nat_of_dec_def)
  next
    case False
    with 1 have "nat_of_dec (dec_of_nat (n div 10)) = n div 10" by simp
    with False show ?thesis
      by (subst dec_of_nat.simps) (simp add: nat_of_dec_def)
  qed
qed

lemma dec_of_nat_inject [simp]: "dec_of_nat m = dec_of_nat n \<longleftrightarrow> m = n"
  by (metis nat_of_dec_of_nat)

lemma dec_of_nat_digits: "c \<in> set (dec_of_nat n) \<Longrightarrow> dec_digit c \<noteq> None"
proof (induction n rule: dec_of_nat.induct)
  case (1 n)
  then show ?case
    by (subst (asm) (2) dec_of_nat.simps) (auto split: if_splits)
qed

lemma dec_of_nat_nonempty [simp]: "dec_of_nat n \<noteq> []"
  by (subst dec_of_nat.simps) simp

lemma dec_digit_not_minus [simp]: "dec_digit CHR ''-'' = None"
  by (simp add: dec_digit_def)

lemma dec_of_nat_not_minus: "dec_of_nat n \<noteq> CHR ''-'' # s"
  using dec_of_nat_digits [of "CHR ''-''" n] by auto

lemma dec_of_int_inject: "dec_of_int i = dec_of_int j \<longleftrightarrow> i = j"
  by (auto simp: dec_of_int_def dec_of_nat_not_minus dec_of_nat_not_minus [symmetric])

section \<open>std::stoul in base 16\<close>

text \<open>
  The C library's \<open>strtoul\<close> with base 16: skip white space, one optional sign, an optional
  \<open>0x\<close> before a hexadecimal digit, then the longest run of hexadecimal digits; whatever follows is
  ignored. \<open>std::stoul\<close> throws \<open>std::invalid_argument\<close> when there is no digit and
  \<open>std::out_of_range\<close> when the value does not fit 64 bits; a minus sign negates the result
  modulo \<open>2^64\<close>.
\<close>

definition isspace :: "char \<Rightarrow> bool" where
  "isspace c \<longleftrightarrow> c = CHR '' '' \<or> c = CHR 0x09 \<or> c = CHR 0x0A \<or> c = CHR 0x0B \<or> c = CHR 0x0C \<or> c = CHR 0x0D"

fun split_sign :: "string \<Rightarrow> bool \<times> string" where
  "split_sign [] = (False, [])"
| "split_sign (c # s) =
     (if c = CHR ''-'' then (True, s) else if c = CHR ''+'' then (False, s) else (False, c # s))"

fun skip_0x :: "string \<Rightarrow> string" where
  "skip_0x (z # x # d # s) =
     (if z = CHR ''0'' \<and> (x = CHR ''x'' \<or> x = CHR ''X'') \<and> hex_val d \<noteq> None then d # s
      else z # x # d # s)"
| "skip_0x s = s"

definition hex_value :: "string \<Rightarrow> nat" where
  "hex_value s = foldl (\<lambda>a c. 16 * a + the (hex_val c)) 0 s"

definition stoul16 :: "string \<Rightarrow> u64 res" where
  "stoul16 s =
     (let (neg, r) = split_sign (dropWhile isspace s);
          ds = takeWhile (\<lambda>c. hex_val c \<noteq> None) (skip_0x r)
      in if ds = [] then Inl (InvalidArgument ''stoul'')
         else if 2 ^ 64 \<le> hex_value ds then Inl (OutOfRange ''stoul'')
         else Inr (if neg then - word_of_nat (hex_value ds) else word_of_nat (hex_value ds)))"

lemma hex_val_not_special:
  "hex_val c = Some n \<Longrightarrow> \<not> isspace c \<and> c \<noteq> CHR ''-'' \<and> c \<noteq> CHR ''+'' \<and> c \<noteq> CHR ''x'' \<and> c \<noteq> CHR ''X''"
  by (auto simp: hex_val_def isspace_def Let_def)

text \<open>On two hexadecimal digits \<open>stoul\<close> returns the byte they spell.\<close>

lemma stoul16_two_digits:
  assumes "hex_val a = Some m" and "hex_val b = Some n"
  shows "stoul16 [a, b] = Inr (word_of_nat (16 * m + n))"
proof -
  have "m < 16" and "n < 16" using assms by (auto dest: hex_val_bound)
  then have "16 * m + n < 2 ^ 64" by simp
  with assms hex_val_not_special [OF assms(1)] show ?thesis
    by (simp add: stoul16_def hex_value_def)
qed

lemma stoul16_hex2: "stoul16 (hex2 b) = Inr (word_of_nat (unat b))"
  using stoul16_two_digits [of "hex_digit (unat (drop_bit 4 b))" "unat (drop_bit 4 b)"
      "hex_digit (unat (b AND 0x0F))" "unat (b AND 0x0F)"]
  by (simp add: hex2_def hex2_value)

end
