(* ===== verification/Big_Endian.thy ===== *)
theory Big_Endian
  imports Prelude
begin

text \<open>
  Big-endian octets of a word and back. \<open>UUID\<close> stores its two 64-bit halves this way and the CDR
  codec all its integers; both components reduce their shift-and-or code to \<open>be_octets\<close> and
  \<open>be_word\<close> and take the round trips and the order lemma from here.
\<close>

definition be_octets :: "nat \<Rightarrow> 'a::len word \<Rightarrow> bytes" where
  "be_octets n w = map (\<lambda>i. ucast (drop_bit (8 * (n - 1 - i)) w)) [0..<n]"

definition be_word :: "bytes \<Rightarrow> 'a::len word" where
  "be_word bs = foldl (\<lambda>v b. push_bit 8 v OR ucast b) 0 bs"

lemma length_be_octets [simp]: "length (be_octets n w) = n"
  by (simp add: be_octets_def)

lemma be_word_Nil [simp]: "be_word [] = 0"
  by (simp add: be_word_def)

lemma be_word_snoc: "be_word (bs @ [b]) = push_bit 8 (be_word bs) OR ucast b"
  by (simp add: be_word_def)

lemma bit_u8_bound: "bit (b :: u8) k \<Longrightarrow> k < 8"
  using bit_imp_le_length [of b k] by simp

lemma bit_be_octets:
  "i < n \<Longrightarrow> bit (be_octets n w ! i) k \<longleftrightarrow> k < 8 \<and> bit w (8 * (n - 1 - i) + k)"
  by (auto simp: be_octets_def bit_simps dest: bit_u8_bound)

lemma bit_be_word:
  "bit (be_word bs :: 'a::len word) k \<longleftrightarrow>
     k < LENGTH('a) \<and> k < 8 * length bs \<and> bit (bs ! (length bs - 1 - k div 8)) (k mod 8)"
proof (induction bs arbitrary: k rule: rev_induct)
  case Nil
  then show ?case by simp
next
  case (snoc b bs)
  show ?case
  proof (cases "k < 8")
    case True
    then show ?thesis
      by (auto simp: be_word_snoc bit_simps nth_append dest: bit_imp_le_length)
  next
    case False
    then have "k div 8 = Suc ((k - 8) div 8)" by (simp add: le_div_geq)
    then have idx: "length bs - Suc ((k - 8) div 8) = length bs - k div 8" by simp
    from False have md: "(k - 8) mod 8 = k mod 8" by (simp add: le_mod_geq)
    from False have nb: "\<not> bit b k" using bit_u8_bound [of b k] by auto
    have "bit (be_word (bs @ [b]) :: 'a word) k \<longleftrightarrow>
        k < LENGTH('a) \<and> bit (be_word bs :: 'a word) (k - 8)"
      using False nb by (auto simp: be_word_snoc bit_simps dest: bit_imp_le_length)
    also have "\<dots> \<longleftrightarrow> k < LENGTH('a) \<and> k - 8 < 8 * length bs \<and>
        bit (bs ! (length bs - k div 8)) (k mod 8)"
      by (auto simp: snoc.IH idx md)
    also have "\<dots> \<longleftrightarrow> k < LENGTH('a) \<and> k < 8 * length (bs @ [b]) \<and>
        bit ((bs @ [b]) ! (length (bs @ [b]) - 1 - k div 8)) (k mod 8)"
    proof -
      have "length bs - k div 8 < length bs" if "k < 8 + 8 * length bs"
        using that False by (cases "length bs") auto
      with False show ?thesis by (auto simp: nth_append)
    qed
    finally show ?thesis .
  qed
qed

lemma be_word_be_octets:
  assumes "LENGTH('a) = 8 * n"
  shows "be_word (be_octets n (w :: 'a::len word)) = w"
proof (rule bit_word_eqI)
  fix k assume k: "k < LENGTH('a)"
  then have d: "k div 8 < n" using assms by auto
  have "8 * (n - 1 - (n - 1 - k div 8)) + k mod 8 = k"
    using d by simp
  with k d show "bit (be_word (be_octets n w) :: 'a word) k = bit w k"
    using assms by (simp add: bit_be_word bit_be_octets)
qed

lemma be_octets_be_word:
  assumes "LENGTH('a) = 8 * n" and "length bs = n"
  shows "be_octets n (be_word bs :: 'a::len word) = bs"
proof (rule nth_equalityI)
  show "length (be_octets n (be_word bs :: 'a word)) = length bs"
    using assms by simp
next
  fix i assume "i < length (be_octets n (be_word bs :: 'a word))"
  then have i: "i < n" by simp
  show "be_octets n (be_word bs :: 'a word) ! i = bs ! i"
  proof (rule bit_word_eqI)
    fix k assume "k < LENGTH(8)"
    then have k: "k < 8" by simp
    have "8 * (n - 1 - i) + k < 8 * n" using i k by linarith
    moreover have "n - 1 - (8 * (n - 1 - i) + k) div 8 = i" using i k by simp
    ultimately show "bit (be_octets n (be_word bs :: 'a word) ! i) k = bit (bs ! i) k"
      using i k assms by (simp add: bit_be_octets bit_be_word)
  qed
qed

text \<open>The value of the octets as a number, and the order it induces.\<close>

definition be_nat :: "bytes \<Rightarrow> nat" where
  "be_nat bs = foldl (\<lambda>v b. 256 * v + unat b) 0 bs"

lemma be_nat_snoc: "be_nat (bs @ [b]) = 256 * be_nat bs + unat b"
  by (simp add: be_nat_def)

lemma be_nat_Nil [simp]: "be_nat [] = 0"
  by (simp add: be_nat_def)

lemma be_nat_append: "be_nat (xs @ ys) = be_nat xs * 256 ^ length ys + be_nat ys"
  by (induction ys rule: rev_induct) (simp_all add: be_nat_snoc append_assoc [symmetric] algebra_simps del: append_assoc)

lemma be_nat_bound: "be_nat bs < 256 ^ length bs"
proof (induction bs rule: rev_induct)
  case Nil
  then show ?case by simp
next
  case (snoc b bs)
  then show ?case using unat_u8_less [of b] by (simp add: be_nat_snoc)
qed

lemma be_nat_Cons: "be_nat (b # bs) = unat b * 256 ^ length bs + be_nat bs"
  using be_nat_append [of "[b]" bs] by (simp add: be_nat_def)

text \<open>\<open>std::lexicographical_compare\<close> on octets: \<open>operator<\<close> of \<open>std::array\<close>.\<close>

fun lex_lt :: "bytes \<Rightarrow> bytes \<Rightarrow> bool" where
  "lex_lt [] [] = False"
| "lex_lt [] (y # ys) = True"
| "lex_lt (x # xs) [] = False"
| "lex_lt (x # xs) (y # ys) = (x < y \<or> x = y \<and> lex_lt xs ys)"

lemma lex_lt_irrefl [simp]: "\<not> lex_lt xs xs"
  by (induction xs) simp_all

lemma lex_lt_trans: "lex_lt xs ys \<Longrightarrow> lex_lt ys zs \<Longrightarrow> lex_lt xs zs"
proof (induction xs ys arbitrary: zs rule: lex_lt.induct)
  case (4 x xs y ys)
  then show ?case by (cases zs) auto
next
  case (2 y ys)
  then show ?case by (cases zs) auto
qed simp_all

lemma lex_lt_total: "lex_lt xs ys \<or> xs = ys \<or> lex_lt ys xs"
  by (induction xs ys rule: lex_lt.induct) auto

lemma lex_lt_asym: "lex_lt xs ys \<Longrightarrow> \<not> lex_lt ys xs"
  using lex_lt_trans by force

lemma lex_lt_be_nat:
  "length xs = length ys \<Longrightarrow> lex_lt xs ys \<longleftrightarrow> be_nat xs < be_nat ys"
proof (induction xs ys rule: list_induct2)
  case Nil
  then show ?case by simp
next
  case (Cons x xs y ys)
  let ?B = "256 ^ length ys :: nat"
  have bx: "be_nat xs < ?B" and by': "be_nat ys < ?B"
    using be_nat_bound [of xs] be_nat_bound [of ys] Cons.hyps by simp_all
  consider "x < y" | "x = y" | "y < x" by (rule linorder_cases)
  then show ?case
  proof cases
    case 1
    then have "Suc (unat x) \<le> unat y" by (simp add: word_less_nat_alt)
    then have "Suc (unat x) * ?B \<le> unat y * ?B" by (rule mult_le_mono1)
    with bx 1 Cons.hyps show ?thesis by (simp add: be_nat_Cons)
  next
    case 2
    with Cons show ?thesis by (simp add: be_nat_Cons)
  next
    case 3
    then have "Suc (unat y) \<le> unat x" by (simp add: word_less_nat_alt)
    then have "Suc (unat y) * ?B \<le> unat x * ?B" by (rule mult_le_mono1)
    with by' 3 Cons.hyps show ?thesis by (auto simp: be_nat_Cons)
  qed
qed

lemma unat_be_word:
  assumes "8 * length bs \<le> LENGTH('a)"
  shows "unat (be_word bs :: 'a::len word) = be_nat bs"
  using assms
proof (induction bs rule: rev_induct)
  case Nil
  then show ?case by simp
next
  case (snoc b bs)
  then have IH: "unat (be_word bs :: 'a word) = be_nat bs" by simp
  have "push_bit 8 (be_word bs) OR ucast b = (push_bit 8 (be_word bs) + ucast b :: 'a word)"
    by (rule disjunctive_add_eq_or [symmetric])
      (auto intro!: bit_word_eqI simp: bit_simps dest!: bit_u8_bound)
  then have eq: "be_word (bs @ [b]) = (of_nat (256 * be_nat bs + unat b) :: 'a word)"
    by (simp add: be_word_snoc push_bit_eq_mult IH [symmetric] mult.commute)
  have "256 * be_nat bs + unat b < 256 ^ length (bs @ [b])"
    using be_nat_bound [of "bs @ [b]"] by (simp add: be_nat_snoc)
  also have "(256::nat) ^ length (bs @ [b]) = 2 ^ (8 * length (bs @ [b]))"
    by (simp only: power_mult) simp
  also have "\<dots> \<le> 2 ^ LENGTH('a)"
    using snoc.prems by (intro power_increasing) simp_all
  finally show ?case
    by (simp only: eq be_nat_snoc unat_of_nat mod_less)
qed

lemma lex_lt_be_word:
  assumes "length xs = length ys" and "8 * length ys \<le> LENGTH('a)"
  shows "lex_lt xs ys \<longleftrightarrow> (be_word xs :: 'a::len word) < be_word ys"
  using assms by (simp add: lex_lt_be_nat word_less_nat_alt unat_be_word)

end
