(* ===== verification/Uuid.thy ===== *)
theory Uuid
  imports Digits Big_Endian
begin

text \<open>
  \<open>uci::base::UUID\<close> (\<open>include/uci/base/UUID.h\<close>, \<open>src/UUID.cpp\<close>): sixteen octets in big-endian
  order, their construction from two 64-bit words, from a string and from an octet vector, the
  version and variant queries, the comparison operators and the name-based constructor.
  \<open>std::array<uint8_t, 16>\<close> is a list of octets with the length as the invariant \<open>wf_uuid\<close>.
  The octets that \<open>generateUUID\<close> draws from \<open>std::random_device\<close> are an argument, and so is
  \<open>std::hash<uint8_t>\<close>.
\<close>

section \<open>The type and its constructors\<close>

datatype uuid = UUID (octets: bytes)

datatype uuid_variant =
    variantNCS | variantMicrosoft | variantCurrent | variantFuture | variantUnknown

datatype uuid_version =
    versionNil | versionTimeBased | versionDceSecurity
  | versionNameBasedMD5 | versionRandomNumber | versionNameBasedSHA1 | versionUnknown

record value_uuid =
  mostSignificantBits :: u64
  leastSignificantBits :: u64

definition wf_uuid :: "uuid \<Rightarrow> bool" where
  "wf_uuid u \<longleftrightarrow> length (octets u) = 16"

definition uuid_of_words :: "u64 \<Rightarrow> u64 \<Rightarrow> uuid" where
  "uuid_of_words msb lsb = UUID
     (map (\<lambda>i. ucast (drop_bit (56 - 8 * i) msb AND 0xFF)) [0..<8] @
      map (\<lambda>i. ucast (drop_bit (56 - 8 * i) lsb AND 0xFF)) [0..<8])"

definition uuid_of_value :: "value_uuid \<Rightarrow> uuid" where
  "uuid_of_value v = UUID
     (map (\<lambda>i. ucast (drop_bit (56 - 8 * i) (mostSignificantBits v) AND 0xFF)) [0..<8] @
      map (\<lambda>i. ucast (drop_bit (56 - 8 * i) (leastSignificantBits v) AND 0xFF)) [0..<8])"

text \<open>\<open>OctetArray octets_{}\<close>: what a UUID holds before its octets are written.\<close>

definition zero_octets :: bytes where
  "zero_octets = replicate 16 0"

definition fromString :: "string \<Rightarrow> uuid res" where
  "fromString str =
     (if length str \<noteq> 36 \<or> str ! 8 \<noteq> CHR ''-'' \<or> str ! 13 \<noteq> CHR ''-'' \<or>
         str ! 18 \<noteq> CHR ''-'' \<or> str ! 23 \<noteq> CHR ''-''
      then Inl (UCIException (''UUID::fromString: invalid format: '' @ str))
      else let hex = filter (\<lambda>c. c \<noteq> CHR ''-'') str in
        if length hex \<noteq> 32 then Inl (UCIException ''UUID::fromString: invalid hex length'')
        else rbind (mapR (\<lambda>i. rbind (stoul16 (take 2 (drop (i * 2) hex))) (\<lambda>v. Inr (ucast v))) [0..<16])
               (\<lambda>os. Inr (UUID os)))"

definition uuid_of_cstring :: "string \<Rightarrow> uuid res" where
  "uuid_of_cstring stringified = fromString stringified"

definition fromOctets :: "bytes \<Rightarrow> uuid" where
  "fromOctets os = (let n = min (length os) 16 in UUID (take n os @ drop n zero_octets))"

definition generateUUID :: "bytes \<Rightarrow> uuid" where
  "generateUUID random =
     (let os = random;
          os = os[6 := (os ! 6 AND 0x0F) OR 0x40];
          os = os[8 := (os ! 8 AND 0x3F) OR 0x80]
      in UUID os)"

definition getNamespaceUUID :: "uuid res" where
  "getNamespaceUUID = fromString ''6ba7b810-9dad-11d1-80b4-00c04fd430c8''"

section \<open>The name-based constructor\<close>

text \<open>One iteration of the loop of \<open>simpleNameHash\<close>: exclusive or, then rotate left by one.\<close>

definition hash_step :: "u8 \<Rightarrow> u8 \<Rightarrow> u8" where
  "hash_step old c = (let x = old XOR c; carry = drop_bit 7 x in push_bit 1 x OR carry)"

fun hash_loop :: "nat \<Rightarrow> bytes \<Rightarrow> bytes \<Rightarrow> bytes" where
  "hash_loop i out [] = out"
| "hash_loop i out (c # name) =
     hash_loop (Suc i) (out[i mod 16 := hash_step (out ! (i mod 16)) c]) name"

definition simpleNameHash :: "bytes \<Rightarrow> bytes \<Rightarrow> bytes" where
  "simpleNameHash ns name =
     (let out = hash_loop 0 ns name;
          out = out[6 := (out ! 6 AND 0x0F) OR 0x30];
          out = out[8 := (out ! 8 AND 0x3F) OR 0x80]
      in out)"

definition createVersion3UUID :: "uuid \<Rightarrow> string \<Rightarrow> uuid" where
  "createVersion3UUID ns name = UUID (simpleNameHash (octets ns) (map byte_of_char name))"

definition createVersion3UUID_default :: "string \<Rightarrow> uuid res" where
  "createVersion3UUID_default name = rbind getNamespaceUUID (\<lambda>ns. Inr (createVersion3UUID ns name))"

section \<open>Queries\<close>

definition toString :: "uuid \<Rightarrow> string" where
  "toString u = concat (map (\<lambda>i.
     (if i = 4 \<or> i = 6 \<or> i = 8 \<or> i = 10 then ''-'' else '''') @ hex2 (octets u ! i)) [0..<16])"

definition getOctets :: "uuid \<Rightarrow> bytes" where
  "getOctets u = octets u"

definition getValueUUID :: "uuid \<Rightarrow> value_uuid" where
  "getValueUUID u =
     \<lparr>mostSignificantBits =
        foldl (\<lambda>v i. push_bit 8 v OR ucast (octets u ! i)) 0 [0..<8],
      leastSignificantBits =
        foldl (\<lambda>v i. push_bit 8 v OR ucast (octets u ! i)) 0 [8..<16]\<rparr>"

definition getVersion :: "uuid \<Rightarrow> uuid_version" where
  "getVersion u =
     (let raw = drop_bit 4 (octets u ! 6) AND 0x0F in
      if raw = 0 then versionNil
      else if raw = 1 then versionTimeBased
      else if raw = 2 then versionDceSecurity
      else if raw = 3 then versionNameBasedMD5
      else if raw = 4 then versionRandomNumber
      else if raw = 5 then versionNameBasedSHA1
      else versionUnknown)"

definition getVariant :: "uuid \<Rightarrow> uuid_variant" where
  "getVariant u =
     (let v = octets u ! 8 in
      if v AND 0x80 = 0x00 then variantNCS
      else if v AND 0xC0 = 0x80 then variantCurrent
      else if v AND 0xE0 = 0xC0 then variantMicrosoft
      else if v AND 0xE0 = 0xE0 then variantFuture
      else variantUnknown)"

definition getTimestamp :: "uuid \<Rightarrow> u64" where
  "getTimestamp u =
     (let os = octets u;
          low = push_bit 24 (ucast (os ! 0)) OR push_bit 16 (ucast (os ! 1)) OR
                push_bit 8 (ucast (os ! 2)) OR ucast (os ! 3);
          mid = push_bit 8 (ucast (os ! 4)) OR ucast (os ! 5);
          high = push_bit 8 (ucast (os ! 6 AND 0x0F)) OR ucast (os ! 7)
      in push_bit 48 high OR push_bit 32 mid OR low)"

definition getClockSequence :: "uuid \<Rightarrow> u16" where
  "getClockSequence u = push_bit 8 (ucast (octets u ! 8 AND 0x3F)) OR ucast (octets u ! 9)"

definition getNodeAddress :: "uuid \<Rightarrow> bytes" where
  "getNodeAddress u = drop 10 (octets u)"

definition isNil :: "uuid \<Rightarrow> bool" where
  "isNil u \<longleftrightarrow> list_all (\<lambda>b. b = 0) (octets u)"

definition isValid :: "uuid \<Rightarrow> bool" where
  "isValid u \<longleftrightarrow> \<not> isNil u"

fun variant_toString :: "uuid_variant \<Rightarrow> string" where
  "variant_toString variantNCS = ''NCS''"
| "variant_toString variantMicrosoft = ''Microsoft''"
| "variant_toString variantCurrent = ''RFC4122''"
| "variant_toString variantFuture = ''Future''"
| "variant_toString variantUnknown = ''Unknown''"

fun version_toString :: "uuid_version \<Rightarrow> string" where
  "version_toString versionNil = ''Nil''"
| "version_toString versionTimeBased = ''TimeBased''"
| "version_toString versionDceSecurity = ''DCESecurity''"
| "version_toString versionNameBasedMD5 = ''NameBasedMD5''"
| "version_toString versionRandomNumber = ''RandomNumber''"
| "version_toString versionNameBasedSHA1 = ''NameBasedSHA1''"
| "version_toString versionUnknown = ''Unknown''"

definition uuid_hash :: "(u8 \<Rightarrow> u64) \<Rightarrow> uuid \<Rightarrow> u64" where
  "uuid_hash h u =
     foldl (\<lambda>seed b. seed XOR (h b + 0x9e3779b9 + push_bit 6 seed + drop_bit 2 seed)) 0 (getOctets u)"

section \<open>Comparison operators\<close>

text \<open>
  \<open>operator<\<close> and \<open>operator<=\<close> compare the octet arrays lexicographically; they are the type's
  order, so that the library's facts on linear orders hold of identifiers.
\<close>

definition uuid_less :: "uuid \<Rightarrow> uuid \<Rightarrow> bool" where
  "uuid_less u v \<longleftrightarrow> lex_lt (octets u) (octets v)"

definition uuid_less_eq :: "uuid \<Rightarrow> uuid \<Rightarrow> bool" where
  "uuid_less_eq u v \<longleftrightarrow> \<not> lex_lt (octets v) (octets u)"

instantiation uuid :: linorder
begin

definition less_uuid :: "uuid \<Rightarrow> uuid \<Rightarrow> bool" where
  "less_uuid = uuid_less"

definition less_eq_uuid :: "uuid \<Rightarrow> uuid \<Rightarrow> bool" where
  "less_eq_uuid = uuid_less_eq"

lemmas uuid_order_defs = less_uuid_def less_eq_uuid_def uuid_less_def uuid_less_eq_def

instance
proof
  fix u v w :: uuid
  show "u < v \<longleftrightarrow> u \<le> v \<and> \<not> v \<le> u"
    by (auto simp: uuid_order_defs dest: lex_lt_asym)
  show "u \<le> u" by (simp add: uuid_order_defs)
  show "u \<le> v \<Longrightarrow> v \<le> w \<Longrightarrow> u \<le> w"
    unfolding uuid_order_defs using lex_lt_total lex_lt_trans by metis
  show "u \<le> v \<Longrightarrow> v \<le> u \<Longrightarrow> u = v"
    unfolding uuid_order_defs using lex_lt_total uuid.expand by blast
  show "u \<le> v \<or> v \<le> u"
    unfolding uuid_order_defs using lex_lt_asym by blast
qed

end

section \<open>Well-formedness of every constructor\<close>

lemma length_hash_loop [simp]: "length (hash_loop i out name) = length out"
  by (induction i out name rule: hash_loop.induct) simp_all

lemma wf_uuid_of_words [intro, simp]: "wf_uuid (uuid_of_words msb lsb)"
  by (simp add: wf_uuid_def uuid_of_words_def)

lemma uuid_of_value_words: "uuid_of_value v = uuid_of_words (mostSignificantBits v) (leastSignificantBits v)"
  by (simp add: uuid_of_value_def uuid_of_words_def)

lemma wf_fromString [dest]: "fromString s = Inr u \<Longrightarrow> wf_uuid u"
  by (auto simp: fromString_def wf_uuid_def Let_def rbind_eq_Inr_iff dest: mapR_length split: if_splits)

lemma wf_fromOctets [intro, simp]: "wf_uuid (fromOctets os)"
  by (simp add: wf_uuid_def fromOctets_def zero_octets_def Let_def min_def)

lemma wf_generateUUID [intro]: "length random = 16 \<Longrightarrow> wf_uuid (generateUUID random)"
  by (simp add: wf_uuid_def generateUUID_def Let_def)

lemma wf_createVersion3UUID [intro]: "wf_uuid ns \<Longrightarrow> wf_uuid (createVersion3UUID ns name)"
  by (simp add: wf_uuid_def createVersion3UUID_def simpleNameHash_def Let_def)

section \<open>Words and octets\<close>

lemma ucast_and_FF: "(ucast ((w :: u64) AND 0xFF) :: u8) = ucast w"
proof -
  have "w AND 0xFF = take_bit 8 w"
    by (simp only: take_bit_eq_mask mask_eq_exp_minus_1) simp
  then show ?thesis
    by (auto intro!: bit_word_eqI simp: bit_simps)
qed

lemma octets_uuid_of_words: "octets (uuid_of_words msb lsb) = be_octets 8 msb @ be_octets 8 lsb"
  by (simp add: uuid_of_words_def be_octets_def ucast_and_FF diff_mult_distrib2 del: upt_rec_numeral)

lemma foldl_nth_upt:
  "i \<le> j \<Longrightarrow> j \<le> length xs \<Longrightarrow>
     foldl (\<lambda>v k. f v (xs ! k)) a [i..<j] = foldl f a (take (j - i) (drop i xs))"
proof -
  assume "i \<le> j" and "j \<le> length xs"
  then have "map ((!) xs) [i..<j] = take (j - i) (drop i xs)"
    by (intro nth_equalityI) auto
  then show ?thesis by (metis foldl_map)
qed

lemma getValueUUID_be_word:
  "wf_uuid u \<Longrightarrow> getValueUUID u =
     \<lparr>mostSignificantBits = be_word (take 8 (octets u)),
      leastSignificantBits = be_word (drop 8 (octets u))\<rparr>"
  by (simp add: getValueUUID_def wf_uuid_def be_word_def foldl_nth_upt
      [where f = "\<lambda>v b. push_bit 8 v OR ucast b"] del: upt_rec_numeral)

lemma value_of_words:
  "getValueUUID (uuid_of_words msb lsb) =
     \<lparr>mostSignificantBits = msb, leastSignificantBits = lsb\<rparr>"
  by (simp add: getValueUUID_be_word octets_uuid_of_words be_word_be_octets)

lemma words_of_value:
  assumes "wf_uuid u"
  shows "uuid_of_value (getValueUUID u) = u"
  using assms
  by (simp add: uuid_of_value_words getValueUUID_be_word uuid.expand octets_uuid_of_words
      be_octets_be_word wf_uuid_def)

lemma fromOctets_getOctets: "wf_uuid u \<Longrightarrow> fromOctets (getOctets u) = u"
  by (cases u) (simp add: fromOctets_def getOctets_def wf_uuid_def zero_octets_def)

end
