(* ===== verification/Uuid_Bits.thy ===== *)
theory Uuid_Bits
  imports Uuid
begin

text \<open>
  The bit fields of a UUID: the version and variant the constructors set, the field accessors
  against the two 64-bit words, the comparison operators against the 128-bit number, and the
  behaviour of the name-based constructor on equal and on different names.
\<close>

section \<open>Version and variant of the constructors\<close>

lemma version_3_bits: "drop_bit 4 ((x AND 0x0F) OR 0x30 :: u8) AND 0x0F = 3"
  by (simp add: u8_eq_bits bit_simps)

lemma version_4_bits: "drop_bit 4 ((x AND 0x0F) OR 0x40 :: u8) AND 0x0F = 4"
  by (simp add: u8_eq_bits bit_simps)

lemma variant_bits:
  "((x AND 0x3F) OR 0x80 :: u8) AND 0x80 \<noteq> 0" "((x AND 0x3F) OR 0x80 :: u8) AND 0xC0 = 0x80"
  by (simp_all add: u8_eq_bits bit_simps)

text \<open>
  A generated UUID is a well-formed version 4 UUID of the RFC 4122 variant and a name-based one
  a well-formed version 3 UUID of that variant, whatever the random octets, namespace and name.
\<close>

theorem constructors_set_version_and_variant:
  assumes "length random = 16" and "wf_uuid ns"
  shows "wf_uuid (generateUUID random) \<and> getVersion (generateUUID random) = versionRandomNumber \<and>
      getVariant (generateUUID random) = variantCurrent \<and>
      wf_uuid (createVersion3UUID ns name) \<and>
      getVersion (createVersion3UUID ns name) = versionNameBasedMD5 \<and>
      getVariant (createVersion3UUID ns name) = variantCurrent"
  using assms
  by (auto simp: generateUUID_def createVersion3UUID_def simpleNameHash_def getVersion_def
      getVariant_def wf_uuid_def version_3_bits version_4_bits variant_bits Let_def)

theorem constructors_set_version_and_variant_witness:
  "getVersion (createVersion3UUID (UUID (replicate 16 0)) ''a'') = versionNameBasedMD5"
  using constructors_set_version_and_variant [of "replicate 16 0" "UUID (replicate 16 0)" "''a''"]
  by (simp add: wf_uuid_def)

text \<open>
  The four variant tests are exhaustive: the last return of \<open>getVariant\<close>,
  \<open>variantUnknown\<close>, is unreachable.
\<close>

theorem getVariant_never_unknown: "getVariant u \<noteq> variantUnknown"
  by (auto simp: getVariant_def Let_def u8_eq_bits bit_simps)

section \<open>Field accessors on the two words\<close>

lemma nth_uuid_of_words:
  "i < 8 \<Longrightarrow> octets (uuid_of_words msb lsb) ! i = be_octets 8 msb ! i"
  "8 \<le> i \<Longrightarrow> octets (uuid_of_words msb lsb) ! i = be_octets 8 lsb ! (i - 8)"
  by (simp_all add: octets_uuid_of_words nth_append)

lemma and_mask_bits:
  "(x :: u8) AND 0x3F = take_bit 6 x" "(x :: u8) AND 0x0F = take_bit 4 x"
  "(w :: u64) AND 0x3FFF = take_bit 14 w" "(w :: u64) AND 0xFFF = take_bit 12 w"
  "(w :: u64) AND 0xFFFF = take_bit 16 w"
  by (simp_all add: take_bit_eq_mask mask_eq_exp_minus_1)

lemma getClockSequence_word:
  "getClockSequence (uuid_of_words msb lsb) = ucast (drop_bit 48 lsb AND 0x3FFF)"
  unfolding getClockSequence_def and_mask_bits
  by (rule bit_word_eqI)
    (auto simp: nth_uuid_of_words bit_be_octets bit_simps add.commute dest: bit_u8_bound)

lemma timestamp_low:
  "push_bit 24 (ucast (be_octets 8 w ! 0)) OR push_bit 16 (ucast (be_octets 8 w ! 1)) OR
   push_bit 8 (ucast (be_octets 8 w ! 2)) OR ucast (be_octets 8 w ! 3) = (drop_bit 32 w :: u64)"
proof (rule bit_word_eqI)
  fix k assume "k < LENGTH(64)"
  consider "k < 8" | "8 \<le> k" "k < 16" | "16 \<le> k" "k < 24" | "24 \<le> k" "k < 32" | "32 \<le> k"
    by linarith
  then show "bit (push_bit 24 (ucast (be_octets 8 w ! 0)) OR push_bit 16 (ucast (be_octets 8 w ! 1)) OR
      push_bit 8 (ucast (be_octets 8 w ! 2)) OR ucast (be_octets 8 w ! 3) :: u64) k = bit (drop_bit 32 w) k"
    by cases (auto simp: bit_be_octets bit_simps add.commute dest: bit_u8_bound bit_imp_le_length)
qed

lemma timestamp_mid:
  "push_bit 8 (ucast (be_octets 8 w ! 4)) OR ucast (be_octets 8 w ! 5) = (take_bit 16 (drop_bit 16 w) :: u64)"
  by (rule bit_word_eqI) (auto simp: bit_be_octets bit_simps add.commute dest: bit_u8_bound)

lemma timestamp_high:
  "push_bit 8 (ucast (take_bit 4 (be_octets 8 w ! 6))) OR ucast (be_octets 8 w ! 7) = (take_bit 12 w :: u64)"
  by (rule bit_word_eqI) (auto simp: bit_be_octets bit_simps add.commute dest: bit_u8_bound)

lemma getTimestamp_word:
  "getTimestamp (uuid_of_words msb lsb) =
     push_bit 48 (msb AND 0xFFF) OR push_bit 32 (drop_bit 16 msb AND 0xFFFF) OR drop_bit 32 msb"
  unfolding getTimestamp_def and_mask_bits Let_def
  by (simp only: nth_uuid_of_words timestamp_low timestamp_mid timestamp_high)

lemma getNodeAddress_word: "getNodeAddress (uuid_of_words msb lsb) = be_octets 6 lsb"
  by (simp add: getNodeAddress_def octets_uuid_of_words be_octets_def drop_map diff_mult_distrib2
      upt_conv_Cons)

text \<open>
  The field accessors read the RFC 4122 layout off the two words a UUID was built from: the
  timestamp is time_high (12 bits), time_mid and time_low, the clock sequence the top 14 bits below
  the variant, the node the low 48 bits.
\<close>

theorem field_accessors_on_words:
  "getTimestamp (uuid_of_words msb lsb) =
     push_bit 48 (msb AND 0xFFF) OR push_bit 32 (drop_bit 16 msb AND 0xFFFF) OR drop_bit 32 msb \<and>
   getClockSequence (uuid_of_words msb lsb) = ucast (drop_bit 48 lsb AND 0x3FFF) \<and>
   getNodeAddress (uuid_of_words msb lsb) = be_octets 6 lsb \<and>
   getValueUUID (uuid_of_words msb lsb) =
     \<lparr>mostSignificantBits = msb, leastSignificantBits = lsb\<rparr>"
  by (simp only: getTimestamp_word getClockSequence_word getNodeAddress_word value_of_words)

section \<open>Comparison\<close>

lemma lex_lt_append:
  "length a = length c \<Longrightarrow> lex_lt (a @ b) (c @ d) \<longleftrightarrow> lex_lt a c \<or> a = c \<and> lex_lt b d"
  by (induction a c rule: list_induct2) auto

lemma be_word_inject:
  assumes "LENGTH('a) = 8 * length xs" and "length ys = length xs"
  shows "(be_word xs :: 'a::len word) = be_word ys \<longleftrightarrow> xs = ys"
  using be_octets_be_word [OF assms(1)] assms by metis

text \<open>
  \<open>operator<\<close> orders well-formed UUIDs by their value as a 128-bit number: the most significant
  words decide, and the least significant ones where these are equal.
\<close>

theorem uuid_order_is_numeric:
  assumes "wf_uuid u" and "wf_uuid v"
  shows "u < v \<longleftrightarrow>
    mostSignificantBits (getValueUUID u) < mostSignificantBits (getValueUUID v) \<or>
    mostSignificantBits (getValueUUID u) = mostSignificantBits (getValueUUID v) \<and>
    leastSignificantBits (getValueUUID u) < leastSignificantBits (getValueUUID v)"
proof -
  let ?a = "take 8 (octets u)" and ?b = "drop 8 (octets u)"
  let ?c = "take 8 (octets v)" and ?d = "drop 8 (octets v)"
  have len: "length ?a = 8" "length ?b = 8" "length ?c = 8" "length ?d = 8"
    using assms by (simp_all add: wf_uuid_def)
  have "u < v \<longleftrightarrow> lex_lt (?a @ ?b) (?c @ ?d)"
    by (simp add: less_uuid_def uuid_less_def)
  also have "\<dots> \<longleftrightarrow> lex_lt ?a ?c \<or> ?a = ?c \<and> lex_lt ?b ?d"
    using len by (intro lex_lt_append) simp
  also have "\<dots> \<longleftrightarrow> (be_word ?a :: u64) < be_word ?c \<or>
      (be_word ?a :: u64) = be_word ?c \<and> (be_word ?b :: u64) < be_word ?d"
    using len lex_lt_be_word [of ?a ?c, where 'a = 64] lex_lt_be_word [of ?b ?d, where 'a = 64]
      be_word_inject [of ?a ?c, where 'a = 64] by simp
  finally show ?thesis using assms by (simp add: getValueUUID_be_word)
qed

theorem uuid_order_is_numeric_witness:
  "uuid_of_words 1 2 < uuid_of_words 1 3 \<longleftrightarrow> (1 :: u64) < 1 \<or> (1 :: u64) = 1 \<and> (2 :: u64) < 3"
  using uuid_order_is_numeric [of "uuid_of_words 1 2" "uuid_of_words 1 3"]
  by (simp add: value_of_words)

section \<open>The name-based constructor\<close>

text \<open>
  The loop touches octet \<open>p\<close> only with the characters at positions \<open>p\<close>, \<open>p + 16\<close>, and so on.
\<close>

lemma hash_loop_nth:
  "p < 16 \<Longrightarrow> length out = 16 \<Longrightarrow>
     hash_loop i out name ! p = foldl hash_step (out ! p) (nths name {j. (i + j) mod 16 = p})"
proof (induction i out name rule: hash_loop.induct)
  case (1 i out)
  then show ?case by simp
next
  case (2 i out c name)
  then show ?case by (cases "i mod 16 = p") (simp_all add: nths_Cons)
qed

definition v3_mask :: "nat \<Rightarrow> u8 \<Rightarrow> u8" where
  "v3_mask p x = (if p = 6 then (x AND 0x0F) OR 0x30 else if p = 8 then (x AND 0x3F) OR 0x80 else x)"

lemma createVersion3UUID_nth:
  assumes "wf_uuid ns" and "p < 16"
  shows "octets (createVersion3UUID ns name) ! p =
    v3_mask p (foldl hash_step (octets ns ! p) (nths (map byte_of_char name) {j. j mod 16 = p}))"
  using assms hash_loop_nth [of p "octets ns" 0 "map byte_of_char name"]
  by (auto simp: createVersion3UUID_def simpleNameHash_def v3_mask_def wf_uuid_def Let_def)

lemma uuid_eqI:
  "wf_uuid u \<Longrightarrow> wf_uuid v \<Longrightarrow> (\<And>p. p < 16 \<Longrightarrow> octets u ! p = octets v ! p) \<Longrightarrow> u = v"
  by (intro uuid.expand nth_equalityI) (simp_all add: wf_uuid_def)

lemma bit_hash_step:
  "k < 8 \<Longrightarrow> bit (hash_step old c) k = bit (old XOR c) (if k = 0 then 7 else k - 1)"
  unfolding hash_step_def Let_def
  by (simp only: bit_or_iff bit_push_bit_iff bit_drop_bit_eq possible_bit_word comp_def)
    (auto dest: bit_u8_bound)

lemma hash_step_low_nibble:
  "c AND 0x87 = d AND 0x87 \<Longrightarrow> hash_step old c AND 0x0F = hash_step old d AND 0x0F"
  by (simp add: u8_eq_bits [of "_ AND _"] bit_and_iff bit_hash_step bit_xor_iff)

lemma hash_step_inject [simp]: "hash_step old c = hash_step old d \<longleftrightarrow> c = d"
proof
  assume *: "hash_step old c = hash_step old d"
  have "bit (old XOR c) k = bit (old XOR d) k" if "k < 8" for k
  proof (cases "k = 7")
    case True
    then show ?thesis using * bit_hash_step [of 0 old c] bit_hash_step [of 0 old d] by simp
  next
    case False
    with that show ?thesis
      using * bit_hash_step [of "Suc k" old c] bit_hash_step [of "Suc k" old d] by simp
  qed
  then have "bit c k = bit d k" if "k < 8" for k
    using that by (auto simp: bit_xor_iff)
  then show "c = d" by (intro bit_word_eqI) simp
qed simp

lemma nths_none: "(\<And>j. j < length xs \<Longrightarrow> j \<notin> A) \<Longrightarrow> nths xs A = []"
proof (induction xs arbitrary: A)
  case Nil
  then show ?case by simp
next
  case (Cons x xs)
  have "0 \<notin> A" using Cons.prems [of 0] by simp
  moreover have "nths xs {j. Suc j \<in> A} = []"
    using Cons.prems by (intro Cons.IH) force
  ultimately show ?case by (simp add: nths_Cons)
qed

lemma nths_split:
  assumes "length pre < 16"
  shows "nths (pre @ x # post) {j. j mod 16 = p} =
    nths pre {j. j mod 16 = p} @ (if length pre = p then [x] else []) @
    nths post {j. (j + Suc (length pre)) mod 16 = p}"
  using assms by (simp add: nths_append nths_Cons)

text \<open>
  Two names that differ only in their seventh character, and there only in the bits 3 to 6 that
  the version field overwrites, get the same name-based UUID when they have at most 22 characters:
  the constructor is not injective on the names of one length.
\<close>

theorem version3_seventh_character_collision:
  assumes "wf_uuid ns" and "length pre = 6" and "length post \<le> 15"
    and "byte_of_char c AND 0x87 = byte_of_char d AND 0x87"
  shows "createVersion3UUID ns (pre @ c # post) = createVersion3UUID ns (pre @ d # post)"
proof (rule uuid_eqI)
  fix p :: nat assume p: "p < 16"
  have "nths (map byte_of_char pre) {j. j mod 16 = 6} = []"
    using assms by (intro nths_none) auto
  moreover have "nths (map byte_of_char post) {j. (j + 7) mod 16 = 6} = []"
  proof (rule nths_none)
    fix j assume "j < length (map byte_of_char post)"
    then have "j < 15" using assms by simp
    then show "j \<notin> {j. (j + 7) mod 16 = 6}" by simp presburger
  qed
  ultimately have six: "nths (map byte_of_char (pre @ x # post)) {j. j mod 16 = 6} = [byte_of_char x]" for x
    using assms nths_split [of "map byte_of_char pre" "byte_of_char x" "map byte_of_char post" 6] by simp
  show "octets (createVersion3UUID ns (pre @ c # post)) ! p = octets (createVersion3UUID ns (pre @ d # post)) ! p"
  proof (cases "p = 6")
    case True
    with six assms(1) hash_step_low_nibble [OF assms(4)] show ?thesis
      by (simp add: createVersion3UUID_nth v3_mask_def)
  next
    case False
    with p assms show ?thesis
      by (simp add: createVersion3UUID_nth nths_split)
  qed
qed (use assms in \<open>auto\<close>)

theorem version3_seventh_character_collision_witness:
  "createVersion3UUID (UUID (replicate 16 7)) ''sensor1'' =
   createVersion3UUID (UUID (replicate 16 7)) ''sensor9''"
  using version3_seventh_character_collision
    [of "UUID (replicate 16 7)" "''sensor''" "[]" "CHR ''1''" "CHR ''9''"]
  by (simp add: wf_uuid_def byte_of_char_def)

text \<open>
  Below the version field there is no such loss: among names of one length of at most six
  characters the name-based UUIDs of a namespace are distinct.
\<close>

theorem version3_injective_on_short_names:
  assumes "wf_uuid ns" and "length m = length n" and "length n \<le> 6"
    and "createVersion3UUID ns m = createVersion3UUID ns n"
  shows "m = n"
proof (rule nth_equalityI)
  fix p assume p: "p < length m"
  have one: "nths (map byte_of_char s) {j. j mod 16 = p} = [byte_of_char (s ! p)]"
    if "length s = length m" for s
  proof -
    have s: "map byte_of_char s =
        map byte_of_char (take p s) @ byte_of_char (s ! p) # map byte_of_char (drop (Suc p) s)"
      using p that by (metis id_take_nth_drop list.simps(9) map_append)
    have "nths (map byte_of_char (take p s)) {j. j mod 16 = p} = []"
      using p that assms by (intro nths_none) auto
    moreover have "nths (map byte_of_char (drop (Suc p) s)) {j. (j + Suc p) mod 16 = p} = []"
      using p that assms by (intro nths_none) auto
    ultimately show ?thesis
      using p that assms nths_split [of "map byte_of_char (take p s)" "byte_of_char (s ! p)"
          "map byte_of_char (drop (Suc p) s)" p]
      by (subst s) simp
  qed
  have "octets (createVersion3UUID ns m) ! p = octets (createVersion3UUID ns n) ! p"
    using assms(4) by simp
  then show "m ! p = n ! p"
    using p assms(1-3) one [of m] one [of n] by (simp add: createVersion3UUID_nth v3_mask_def)
qed (rule assms(2))

theorem version3_injective_on_short_names_witness:
  "createVersion3UUID (UUID (replicate 16 7)) ''radar1'' \<noteq>
   createVersion3UUID (UUID (replicate 16 7)) ''radar9''"
  using version3_injective_on_short_names [of "UUID (replicate 16 7)" "''radar1''" "''radar9''"]
  by (auto simp: wf_uuid_def)

end
