(* ===== verification/Uuid_String.thy ===== *)
theory Uuid_String
  imports Uuid
begin

text \<open>
  The textual form of a UUID: \<open>toString\<close> and \<open>fromString\<close> are inverse on well-formed UUIDs and
  canonical strings, and \<open>fromString\<close> is characterised on every other input (which strings it
  rejects, with which exception, and what it lets through).
\<close>

section \<open>What the parser accepts\<close>

text \<open>The format check of \<open>fromString\<close>, and with it the check on the digit count.\<close>

definition uuid_format :: "string \<Rightarrow> bool" where
  "uuid_format s \<longleftrightarrow> length s = 36 \<and> s ! 8 = CHR ''-'' \<and> s ! 13 = CHR ''-'' \<and>
     s ! 18 = CHR ''-'' \<and> s ! 23 = CHR ''-''"

definition uuid_shape :: "string \<Rightarrow> bool" where
  "uuid_shape s \<longleftrightarrow> uuid_format s \<and> length (filter (\<lambda>c. c \<noteq> CHR ''-'') s) = 32"

lemmas shape_defs = uuid_shape_def uuid_format_def

definition lower_hex :: "char \<Rightarrow> bool" where
  "lower_hex c \<longleftrightarrow> (\<exists>n<16. c = hex_digit n)"

definition canonical :: "string \<Rightarrow> bool" where
  "canonical s \<longleftrightarrow> uuid_shape s \<and> (\<forall>c \<in> set s. c = CHR ''-'' \<or> lower_hex c)"

definition digit_pair :: "string \<Rightarrow> nat \<Rightarrow> string" where
  "digit_pair s i = take 2 (drop (i * 2) (filter (\<lambda>c. c \<noteq> CHR ''-'') s))"

lemma fromString_shape:
  "uuid_shape s \<Longrightarrow> fromString s =
     rbind (mapR (\<lambda>i. rbind (stoul16 (digit_pair s i)) (\<lambda>v. Inr (ucast v))) [0..<16])
       (\<lambda>os. Inr (UUID os))"
  by (simp add: fromString_def shape_defs digit_pair_def Let_def del: upt_rec_numeral)

lemma fromString_bad_shape: "\<not> uuid_shape s \<Longrightarrow> \<exists>m. fromString s = Inl (UCIException m)"
  by (auto simp: fromString_def shape_defs Let_def)

lemma length_digit_pair: "uuid_shape s \<Longrightarrow> i < 16 \<Longrightarrow> length (digit_pair s i) = 2"
  by (simp add: digit_pair_def shape_defs)

section \<open>Printing\<close>

lemma upt_16: "[0..<16] = [0, 1, 2, 3, 4, 5, 6, 7, 8, 9, 10, 11, 12, 13, 14, 15 :: nat]"
  by (simp add: upt_conv_Cons)

lemma filter_hex2 [simp]: "filter (\<lambda>c. c \<noteq> CHR ''-'') (hex2 b) = hex2 b"
  by (simp add: hex2_def hex_digit_not_dash)

lemma filter_toString:
  assumes "wf_uuid u"
  shows "filter (\<lambda>c. c \<noteq> CHR ''-'') (toString u) = concat (map hex2 (octets u))"
proof -
  have "filter (\<lambda>c. c \<noteq> CHR ''-'') (toString u) = concat (map (\<lambda>i. hex2 (octets u ! i)) [0..<16])"
    by (simp add: toString_def filter_concat comp_def del: upt_rec_numeral)
  also have "map (\<lambda>i. hex2 (octets u ! i)) [0..<16] = map hex2 (map ((!) (octets u)) [0..<16])"
    by (simp add: comp_def del: upt_rec_numeral)
  also have "map ((!) (octets u)) [0..<16] = octets u"
    using assms map_nth [of "octets u"] by (simp add: wf_uuid_def)
  finally show ?thesis .
qed

lemma take_drop_hex2:
  "i < length bs \<Longrightarrow> take 2 (drop (i * 2) (concat (map hex2 bs))) = hex2 (bs ! i)"
proof (induction bs arbitrary: i)
  case Nil
  then show ?case by simp
next
  case (Cons b bs)
  then show ?case by (cases i) simp_all
qed

lemma length_concat_hex2 [simp]: "length (concat (map hex2 bs)) = 2 * length bs"
  by (induction bs) simp_all

lemma uuid_shape_toString:
  assumes "wf_uuid u"
  shows "uuid_shape (toString u)"
proof -
  have "length (filter (\<lambda>c. c \<noteq> CHR ''-'') (toString u)) = 32"
    using assms by (simp add: filter_toString wf_uuid_def)
  moreover have "length (toString u) = 36"
    by (simp add: toString_def upt_16)
  moreover have "toString u ! 8 = CHR ''-''" "toString u ! 13 = CHR ''-''"
      "toString u ! 18 = CHR ''-''" "toString u ! 23 = CHR ''-''"
    by (simp_all add: toString_def hex2_def upt_16)
  ultimately show ?thesis by (simp add: shape_defs)
qed

lemma canonical_toString:
  assumes "wf_uuid u"
  shows "canonical (toString u)"
proof -
  have "\<forall>c \<in> set (hex2 b). lower_hex c" for b
    using high_nibble_bound [of b] low_nibble_bound [of b] by (auto simp: hex2_def lower_hex_def simp del: high_nibble_bound low_nibble_bound)
  then have "\<forall>c \<in> set (toString u). c = CHR ''-'' \<or> lower_hex c"
    by (auto simp: toString_def simp del: upt_rec_numeral split: if_splits)
  with assms show ?thesis by (simp add: canonical_def uuid_shape_toString)
qed

lemma fromString_toString:
  assumes "wf_uuid u"
  shows "fromString (toString u) = Inr u"
proof -
  have len: "length (octets u) = 16" using assms by (simp add: wf_uuid_def)
  have pair: "stoul16 (digit_pair (toString u) i) = Inr (ucast (octets u ! i))" if "i < 16" for i
    using that assms len by (simp add: digit_pair_def filter_toString take_drop_hex2 stoul16_hex2)
  have narrow: "ucast (ucast b :: u64) = b" for b :: u8
    by (rule bit_word_eqI) (simp add: bit_simps)
  have "mapR (\<lambda>i. rbind (stoul16 (digit_pair (toString u) i)) (\<lambda>v. Inr (ucast v))) [0..<16] =
      Inr (map ((!) (octets u)) [0..<16])"
    by (intro mapR_Inr) (simp add: pair narrow)
  moreover have "map ((!) (octets u)) [0..<16] = octets u"
    using len map_nth [of "octets u"] by simp
  ultimately show ?thesis
    using assms by (simp add: fromString_shape uuid_shape_toString del: upt_rec_numeral)
qed

section \<open>Parsing\<close>

lemma hex_digit_pair:
  "m < 16 \<Longrightarrow> n < 16 \<Longrightarrow> hex2 (word_of_nat (16 * m + n)) = [hex_digit m, hex_digit n]"
proof -
  assume mn: "m < 16" "n < 16"
  then have "unat (word_of_nat (16 * m + n) :: u8) = 16 * m + n"
    by (simp only: unat_of_nat) simp
  with mn show ?thesis
    by (simp only: hex2_def unat_high_nibble unat_low_nibble) simp
qed

text \<open>A run of \<open>2 n\<close> lowercase digits is the printing of \<open>n\<close> bytes.\<close>

lemma lower_hex_run:
  "length s = 2 * n \<Longrightarrow> \<forall>c \<in> set s. lower_hex c \<Longrightarrow> \<exists>bs. length bs = n \<and> s = concat (map hex2 bs)"
proof (induction n arbitrary: s)
  case 0
  then show ?case by simp
next
  case (Suc n)
  then obtain a b r where s: "s = a # b # r"
    by (auto simp: length_Suc_conv numeral_eq_Suc)
  with Suc.prems obtain m k where mk: "m < 16" "k < 16" "a = hex_digit m" "b = hex_digit k"
    by (auto simp: lower_hex_def)
  from s Suc obtain bs where "length bs = n" "r = concat (map hex2 bs)" by force
  with s mk show ?case
    by (intro exI [of _ "word_of_nat (16 * m + k) # bs"])
      (simp add: hex_digit_pair del: of_nat_add of_nat_mult)
qed

lemma split_at: "n < length t \<Longrightarrow> t ! n = c \<Longrightarrow> take n t @ c # drop (Suc n) t = t"
  by (metis id_take_nth_drop)

lemma length_filter_full: "length (filter P xs) = length xs \<Longrightarrow> x \<in> set xs \<Longrightarrow> P x"
  using length_filter_less [of x xs P] by fastforce

text \<open>The five groups of digits of a well-shaped string.\<close>

lemma uuid_shape_groups:
  assumes "uuid_shape s"
  shows "\<exists>g1 g2 g3 g4 g5. s = g1 @ ''-'' @ g2 @ ''-'' @ g3 @ ''-'' @ g4 @ ''-'' @ g5 \<and>
    length g1 = 8 \<and> length g2 = 4 \<and> length g3 = 4 \<and> length g4 = 4 \<and> length g5 = 12 \<and>
    CHR ''-'' \<notin> set (g1 @ g2 @ g3 @ g4 @ g5)"
proof -
  let ?P = "\<lambda>c. c \<noteq> CHR ''-''"
  define g1 where "g1 = take 8 s"
  define g2 where "g2 = take 4 (drop 9 s)"
  define g3 where "g3 = take 4 (drop 14 s)"
  define g4 where "g4 = take 4 (drop 19 s)"
  define g5 where "g5 = drop 24 s"
  note g = g1_def g2_def g3_def g4_def g5_def
  have len: "length s = 36" and fl: "length (filter ?P s) = 32"
    using assms by (simp_all add: shape_defs)
  have dash: "s ! 8 = CHR ''-''" "s ! 13 = CHR ''-''" "s ! 18 = CHR ''-''" "s ! 23 = CHR ''-''"
    using assms by (simp_all add: shape_defs)
  have e1: "g1 @ CHR ''-'' # drop 9 s = s"
    using split_at [of 8 s "CHR ''-''"] len dash by (simp add: g)
  have e2: "g2 @ CHR ''-'' # drop 14 s = drop 9 s"
    using split_at [of 4 "drop 9 s" "CHR ''-''"] len dash by (simp add: g)
  have e3: "g3 @ CHR ''-'' # drop 19 s = drop 14 s"
    using split_at [of 4 "drop 14 s" "CHR ''-''"] len dash by (simp add: g)
  have e4: "g4 @ CHR ''-'' # g5 = drop 19 s"
    using split_at [of 4 "drop 19 s" "CHR ''-''"] len dash by (simp add: g)
  have s: "s = g1 @ ''-'' @ g2 @ ''-'' @ g3 @ ''-'' @ g4 @ ''-'' @ g5"
    by (simp only: append.simps e4 e3 e2 e1)
  have lens: "length g1 = 8" "length g2 = 4" "length g3 = 4" "length g4 = 4" "length g5 = 12"
    using len by (simp_all add: g)
  have "length (filter ?P (g1 @ g2 @ g3 @ g4 @ g5)) = length (g1 @ g2 @ g3 @ g4 @ g5)"
    using fl lens by (subst (asm) s) simp
  then have "CHR ''-'' \<notin> set (g1 @ g2 @ g3 @ g4 @ g5)"
    using length_filter_full by fastforce
  with s lens show ?thesis by blast
qed

lemma toString_groups:
  assumes "length b1 = 4" "length b2 = 2" "length b3 = 2" "length b4 = 2" "length b5 = 6"
  shows "toString (UUID (b1 @ b2 @ b3 @ b4 @ b5)) =
    concat (map hex2 b1) @ ''-'' @ concat (map hex2 b2) @ ''-'' @ concat (map hex2 b3) @ ''-'' @
    concat (map hex2 b4) @ ''-'' @ concat (map hex2 b5)"
proof -
  from assms obtain a1 a2 a3 a4 where "b1 = [a1, a2, a3, a4]"
    by (auto simp: length_Suc_conv numeral_eq_Suc)
  moreover from assms obtain c1 c2 where "b2 = [c1, c2]"
    by (auto simp: length_Suc_conv numeral_eq_Suc)
  moreover from assms obtain d1 d2 where "b3 = [d1, d2]"
    by (auto simp: length_Suc_conv numeral_eq_Suc)
  moreover from assms obtain e1 e2 where "b4 = [e1, e2]"
    by (auto simp: length_Suc_conv numeral_eq_Suc)
  moreover from assms obtain f1 f2 f3 f4 f5 f6 where "b5 = [f1, f2, f3, f4, f5, f6]"
    by (auto simp: length_Suc_conv numeral_eq_Suc)
  ultimately show ?thesis by (simp add: toString_def upt_16)
qed

lemma canonical_is_printed:
  assumes "canonical s"
  shows "\<exists>u. wf_uuid u \<and> toString u = s"
proof -
  from assms have "uuid_shape s" by (simp add: canonical_def)
  then obtain g1 g2 g3 g4 g5 where s: "s = g1 @ ''-'' @ g2 @ ''-'' @ g3 @ ''-'' @ g4 @ ''-'' @ g5"
    and len: "length g1 = 8" "length g2 = 4" "length g3 = 4" "length g4 = 4" "length g5 = 12"
    and nd: "CHR ''-'' \<notin> set (g1 @ g2 @ g3 @ g4 @ g5)"
    using uuid_shape_groups by blast
  have low: "\<forall>c \<in> set (g1 @ g2 @ g3 @ g4 @ g5). lower_hex c"
  proof
    fix c assume c: "c \<in> set (g1 @ g2 @ g3 @ g4 @ g5)"
    then have "c \<in> set s" unfolding s by (simp only: set_append) blast
    with assms have "c = CHR ''-'' \<or> lower_hex c" unfolding canonical_def by blast
    with c nd show "lower_hex c" by metis
  qed
  obtain b1 where b1: "length b1 = 4" "g1 = concat (map hex2 b1)"
    using lower_hex_run [of g1 4] len low by auto
  obtain b2 where b2: "length b2 = 2" "g2 = concat (map hex2 b2)"
    using lower_hex_run [of g2 2] len low by auto
  obtain b3 where b3: "length b3 = 2" "g3 = concat (map hex2 b3)"
    using lower_hex_run [of g3 2] len low by auto
  obtain b4 where b4: "length b4 = 2" "g4 = concat (map hex2 b4)"
    using lower_hex_run [of g4 2] len low by auto
  obtain b5 where b5: "length b5 = 6" "g5 = concat (map hex2 b5)"
    using lower_hex_run [of g5 6] len low by auto
  have "toString (UUID (b1 @ b2 @ b3 @ b4 @ b5)) = s"
    using b1 b2 b3 b4 b5 by (simp add: toString_groups s)
  moreover have "wf_uuid (UUID (b1 @ b2 @ b3 @ b4 @ b5))"
    using b1 b2 b3 b4 b5 by (simp add: wf_uuid_def)
  ultimately show ?thesis by blast
qed

lemma fromString_eq_Inr_iff:
  "fromString s = Inr u \<longleftrightarrow> uuid_shape s \<and> wf_uuid u \<and>
     (\<forall>i<16. \<exists>v. stoul16 (digit_pair s i) = Inr v \<and> octets u ! i = ucast v)"
proof (cases "uuid_shape s")
  case True
  then show ?thesis
    by (cases u) (auto simp: fromString_shape rbind_eq_Inr_iff mapR_eq_Inr_iff wf_uuid_def
        list_all2_conv_all_nth simp del: upt_rec_numeral; blast)
next
  case False
  then show ?thesis using fromString_bad_shape [of s] by auto
qed

section \<open>Round trip and acceptance\<close>

text \<open>
  The byte that \<open>std::stoul\<close> makes of two characters other than a dash: two digits give the byte;
  one leading digit gives its value, whatever follows; a white space or plus sign before a digit is
  skipped; anything else throws.
\<close>

definition lenient_byte :: "string \<Rightarrow> u8 option" where
  "lenient_byte p =
     (case (hex_val (p ! 0), hex_val (p ! 1)) of
        (Some m, Some n) \<Rightarrow> Some (word_of_nat (16 * m + n))
      | (Some m, None) \<Rightarrow> Some (word_of_nat m)
      | (None, Some n) \<Rightarrow> if isspace (p ! 0) \<or> p ! 0 = CHR ''+'' then Some (word_of_nat n) else None
      | (None, None) \<Rightarrow> None)"

lemma isspace_not_plus: "isspace c \<Longrightarrow> c \<noteq> CHR ''+''"
  by (auto simp: isspace_def)

lemma stoul16_pair:
  assumes "a \<noteq> CHR ''-''" and "b \<noteq> CHR ''-''"
  shows "stoul16 [a, b] = (case lenient_byte [a, b] of
     None \<Rightarrow> Inl (InvalidArgument ''stoul'') | Some v \<Rightarrow> Inr (ucast v))"
proof (cases "hex_val a")
  case None
  then show ?thesis
  proof (cases "hex_val b")
    case None
    with \<open>hex_val a = None\<close> assms show ?thesis
      by (auto simp: stoul16_def lenient_byte_def)
  next
    case (Some n)
    then have "n < 16" by (rule hex_val_bound)
    then have "ucast (word_of_nat n :: u8) = (word_of_nat n :: u64)"
      by (intro word_unat_eq_iff [THEN iffD2]) (simp add: unat_of_nat unsigned_ucast_eq take_bit_eq_mod)
    with Some \<open>hex_val a = None\<close> \<open>n < 16\<close> hex_val_not_special [OF Some] assms show ?thesis
      by (auto simp: stoul16_def lenient_byte_def hex_value_def dest: isspace_not_plus)
  qed
next
  case (Some m)
  note a = this
  then have m: "m < 16" by (rule hex_val_bound)
  show ?thesis
  proof (cases "hex_val b")
    case None
    have "ucast (word_of_nat m :: u8) = (word_of_nat m :: u64)"
      using m by (intro word_unat_eq_iff [THEN iffD2]) (simp add: unat_of_nat unsigned_ucast_eq take_bit_eq_mod)
    with None a m hex_val_not_special [OF a] show ?thesis
      by (simp add: stoul16_def lenient_byte_def hex_value_def)
  next
    case (Some n)
    then have n: "n < 16" by (rule hex_val_bound)
    have "ucast (word_of_nat (16 * m + n) :: u8) = (word_of_nat (16 * m + n) :: u64)"
      using m n by (intro word_unat_eq_iff [THEN iffD2])
        (simp add: unat_of_nat unsigned_ucast_eq take_bit_eq_mod del: of_nat_add of_nat_mult)
    then show ?thesis
      using stoul16_two_digits [OF a Some] a Some by (simp add: lenient_byte_def)
  qed
qed

lemma digit_pair_chars:
  assumes "uuid_shape s" and "i < 16"
  obtains a b where "digit_pair s i = [a, b]" and "a \<noteq> CHR ''-''" and "b \<noteq> CHR ''-''"
proof -
  have "length (digit_pair s i) = 2" using assms by (rule length_digit_pair)
  then obtain a b where ab: "digit_pair s i = [a, b]"
    by (auto simp: length_Suc_conv numeral_eq_Suc)
  have "set (digit_pair s i) \<subseteq> {c. c \<noteq> CHR ''-''}"
    unfolding digit_pair_def using set_take_subset set_drop_subset set_filter by fastforce
  with ab that show ?thesis by simp
qed

lemma stoul16_digit_pair:
  assumes "uuid_shape s" and "i < 16"
  shows "stoul16 (digit_pair s i) = (case lenient_byte (digit_pair s i) of
     None \<Rightarrow> Inl (InvalidArgument ''stoul'') | Some v \<Rightarrow> Inr (ucast v))"
  using digit_pair_chars [OF assms] stoul16_pair by metis

lemma ucast_u64_u8 [simp]: "ucast (ucast b :: u64) = (b :: u8)"
  by (rule bit_word_eqI) (simp add: bit_simps)

text \<open>
  C37: Printing and parsing a UUID are inverse to each other: a well-formed UUID prints to a string
  exactly when that string is canonical (36 characters, dashes at 8, 13, 18 and 23, lowercase
  hexadecimal digits elsewhere) and parses back to the same UUID.
\<close>

theorem uuid_string_bijection:
  "wf_uuid u \<and> toString u = s \<longleftrightarrow> canonical s \<and> fromString s = Inr u"
proof
  assume "wf_uuid u \<and> toString u = s"
  then show "canonical s \<and> fromString s = Inr u"
    using canonical_toString fromString_toString by blast
next
  assume *: "canonical s \<and> fromString s = Inr u"
  then obtain v where v: "wf_uuid v" "toString v = s" using canonical_is_printed by blast
  with * fromString_toString [of v] show "wf_uuid u \<and> toString u = s" by simp
qed

lemma fromString_eq_Inr_lenient:
  "fromString s = Inr u \<longleftrightarrow> uuid_shape s \<and> wf_uuid u \<and>
     (\<forall>i<16. lenient_byte (digit_pair s i) = Some (octets u ! i))"
proof (cases "uuid_shape s")
  case True
  have "(\<exists>v. stoul16 (digit_pair s i) = Inr v \<and> octets u ! i = ucast v) \<longleftrightarrow>
      lenient_byte (digit_pair s i) = Some (octets u ! i)" if "i < 16" for i
    using stoul16_digit_pair [OF True that]
    by (cases "lenient_byte (digit_pair s i)") auto
  then show ?thesis using True by (auto simp: fromString_eq_Inr_iff)
next
  case False
  then show ?thesis by (simp add: fromString_eq_Inr_iff)
qed

text \<open>A digit followed by another character passes: here \<open>1g\<close> is read as the octet 1.\<close>

text \<open>
  What \<open>fromString\<close> accepts: exactly the strings of the right shape in which every pair of
  characters starts with a hexadecimal digit, or has a digit after white space or a plus sign, and
  the octets are the values of these pairs; so the accepted set is larger than the UUID syntax.
\<close>

theorem fromString_accepts:
  "fromString s = Inr u \<longleftrightarrow> uuid_shape s \<and> wf_uuid u \<and>
     (\<forall>i<16. lenient_byte (digit_pair s i) = Some (octets u ! i))"
  by (rule fromString_eq_Inr_lenient)

text \<open>A string that is no UUID and is accepted: the second character of a pair is not looked at.\<close>

lemma fromString_accepts_1g:
  "fromString ''1g000000-0000-0000-0000-000000000000'' = Inr (UUID [1, 0, 0, 0, 0, 0, 0, 0, 0, 0, 0, 0, 0, 0, 0, 0])"
  by (simp add: fromString_def upt_16 stoul16_def hex_val_def isspace_def hex_value_def
      upt_conv_Cons)

theorem fromString_accepts_witness:
  "lenient_byte (digit_pair ''1g000000-0000-0000-0000-000000000000'' 0) = Some 1"
  using fromString_accepts [of "''1g000000-0000-0000-0000-000000000000''" "UUID [1, 0, 0, 0, 0, 0, 0, 0, 0, 0, 0, 0, 0, 0, 0, 0]"]
  by (simp add: fromString_accepts_1g)

lemma fromString_eq_Inl_iff:
  "fromString s = Inl e \<longleftrightarrow>
     \<not> uuid_format s \<and> e = UCIException (''UUID::fromString: invalid format: '' @ s)
   \<or> uuid_format s \<and> \<not> uuid_shape s \<and> e = UCIException ''UUID::fromString: invalid hex length''
   \<or> uuid_shape s \<and> (\<exists>i<16. lenient_byte (digit_pair s i) = None) \<and> e = InvalidArgument ''stoul''"
proof (cases "uuid_shape s")
  case True
  have err: "fromString s = Inl e' \<Longrightarrow> e' = InvalidArgument ''stoul''" for e'
    using True stoul16_digit_pair [OF True]
    by (fastforce simp: fromString_shape rbind_eq_Inl_iff dest!: mapR_Inl split: option.splits
        simp del: upt_rec_numeral)
  have "(\<exists>u. fromString s = Inr u) \<longleftrightarrow> (\<forall>i<16. lenient_byte (digit_pair s i) \<noteq> None)"
  proof
    assume "\<exists>u. fromString s = Inr u"
    then show "\<forall>i<16. lenient_byte (digit_pair s i) \<noteq> None"
      by (auto simp: fromString_eq_Inr_lenient)
  next
    assume *: "\<forall>i<16. lenient_byte (digit_pair s i) \<noteq> None"
    have "fromString s = Inr (UUID (map (\<lambda>i. the (lenient_byte (digit_pair s i))) [0..<16]))"
      using * True by (auto simp: fromString_eq_Inr_lenient wf_uuid_def simp del: upt_rec_numeral)
    then show "\<exists>u. fromString s = Inr u" ..
  qed
  with True err show ?thesis by (cases "fromString s") (auto simp: uuid_shape_def)
next
  case False
  then show ?thesis by (auto simp: fromString_def uuid_shape_def uuid_format_def Let_def)
qed

lemma fromString_raises: "fromString s = Inl e \<Longrightarrow> is_uci_exception e \<or> e = InvalidArgument ''stoul''"
  by (auto simp: fromString_eq_Inl_iff)

text \<open>
  The failures of \<open>fromString\<close>: a string of the wrong shape raises \<open>UCIException\<close>, a string of
  the right shape with an unreadable pair lets the \<open>std::invalid_argument\<close> of \<open>std::stoul\<close> escape,
  which is not a \<open>std::runtime_error\<close>, and there is no other failure.
\<close>

theorem fromString_errors:
  "fromString s = Inl e \<longleftrightarrow>
     \<not> uuid_format s \<and> e = UCIException (''UUID::fromString: invalid format: '' @ s)
   \<or> uuid_format s \<and> \<not> uuid_shape s \<and> e = UCIException ''UUID::fromString: invalid hex length''
   \<or> uuid_shape s \<and> (\<exists>i<16. lenient_byte (digit_pair s i) = None) \<and> e = InvalidArgument ''stoul''"
  by (rule fromString_eq_Inl_iff)

end
