(* ===== verification/Cdr_Primitives.thy ===== *)
theory Cdr_Primitives
  imports Uuid_String
begin

text \<open>
  The CDR encode and decode helpers of \<open>externalizer/cdr/CdrPrimitives.h\<close>. An encoder takes the
  buffer and a value and returns the buffer it leaves; a decoder takes the buffer and the cursor and
  returns the value with the advanced cursor, or the exception of \<open>check_bounds\<close>. A \<open>float\<close> or
  \<open>double\<close> is its bit pattern, which is all the code looks at (\<open>memcpy\<close>). A signed integer has the
  bits of its unsigned counterpart (\<open>static_cast\<close>), \<open>sint\<close> reads it. Cursors and sizes are natural
  numbers: a buffer is shorter than \<open>2^63\<close> bytes and no decoder asks for more than \<open>2^32\<close>, so the
  64-bit sum in \<open>check_bounds\<close> does not wrap.
\<close>

type_synonym 'a decoder = "bytes \<Rightarrow> nat \<Rightarrow> ('a \<times> nat) res"

section \<open>Alignment\<close>

text \<open>
  \<open>align(buf, alignment)\<close> pads with zeros. The code calls it with 2, 4 and 8; an alignment of 0
  would divide by zero and is a no-op here.
\<close>

function align_buf :: "bytes \<Rightarrow> nat \<Rightarrow> bytes" where
  "align_buf buf a = (if a \<noteq> 0 \<and> length buf mod a \<noteq> 0 then align_buf (buf @ [0]) a else buf)"
  by pat_completeness auto
termination
proof (relation "measure (\<lambda>(buf, a). (a - length buf mod a) mod a)", goal_cases)
  case 1
  show ?case by simp
next
  case (2 buf a)
  let ?r = "length buf mod a"
  from 2 have r: "0 < ?r" "?r < a" by auto
  have s: "Suc (length buf) mod a = (if Suc ?r = a then 0 else Suc ?r)"
    by (simp add: mod_Suc)
  from r have "(a - ?r) mod a = a - ?r" by simp
  moreover have "(a - Suc (length buf) mod a) mod a < a - ?r"
    using r by (auto simp: s)
  ultimately show ?case by simp
qed

declare align_buf.simps [simp del]

definition align_off :: "nat \<Rightarrow> nat \<Rightarrow> nat" where
  "align_off off a = (if 1 < a \<and> off mod a \<noteq> 0 then off + (a - off mod a) else off)"

section \<open>Encode\<close>

definition encode_bool :: "bytes \<Rightarrow> bool \<Rightarrow> bytes" where
  "encode_bool buf v = buf @ [if v then 1 else 0]"

definition encode_uint8 :: "bytes \<Rightarrow> u8 \<Rightarrow> bytes" where
  "encode_uint8 buf v = buf @ [v]"

definition encode_int8 :: "bytes \<Rightarrow> u8 \<Rightarrow> bytes" where
  "encode_int8 buf v = buf @ [v]"

definition encode_uint16 :: "bytes \<Rightarrow> u16 \<Rightarrow> bytes" where
  "encode_uint16 buf v = align_buf buf 2 @ [ucast (drop_bit 8 v), ucast v]"

definition encode_int16 :: "bytes \<Rightarrow> u16 \<Rightarrow> bytes" where
  "encode_int16 buf v = encode_uint16 buf v"

definition encode_uint32 :: "bytes \<Rightarrow> u32 \<Rightarrow> bytes" where
  "encode_uint32 buf v =
     align_buf buf 4 @ [ucast (drop_bit 24 v), ucast (drop_bit 16 v), ucast (drop_bit 8 v), ucast v]"

definition encode_int32 :: "bytes \<Rightarrow> u32 \<Rightarrow> bytes" where
  "encode_int32 buf v = encode_uint32 buf v"

definition encode_uint64 :: "bytes \<Rightarrow> u64 \<Rightarrow> bytes" where
  "encode_uint64 buf v =
     align_buf buf 8 @ map (\<lambda>i. ucast (drop_bit i v)) [56, 48, 40, 32, 24, 16, 8, 0]"

definition encode_int64 :: "bytes \<Rightarrow> u64 \<Rightarrow> bytes" where
  "encode_int64 buf v = encode_uint64 buf v"

definition encode_float :: "bytes \<Rightarrow> u32 \<Rightarrow> bytes" where
  "encode_float buf bits = encode_uint32 buf bits"

definition encode_double :: "bytes \<Rightarrow> u64 \<Rightarrow> bytes" where
  "encode_double buf bits = encode_uint64 buf bits"

definition encode_string :: "bytes \<Rightarrow> string \<Rightarrow> bytes" where
  "encode_string buf s =
     encode_uint32 buf (word_of_nat (length s + 1)) @ map byte_of_char s @ [0]"

definition encode_uuid :: "bytes \<Rightarrow> uuid \<Rightarrow> bytes" where
  "encode_uuid buf u = encode_string buf (toString u)"

definition encode_bytes :: "bytes \<Rightarrow> bytes \<Rightarrow> bytes" where
  "encode_bytes buf v = encode_uint32 buf (word_of_nat (length v)) @ v"

definition encode_optional_flag :: "bytes \<Rightarrow> bool \<Rightarrow> bytes" where
  "encode_optional_flag buf present = encode_bool buf present"

definition encode_sequence_length :: "bytes \<Rightarrow> u32 \<Rightarrow> bytes" where
  "encode_sequence_length buf count = encode_uint32 buf count"

section \<open>Decode\<close>

definition check_bounds :: "bytes \<Rightarrow> nat \<Rightarrow> nat \<Rightarrow> unit res" where
  "check_bounds buf off needed =
     (if length buf < off + needed
      then Inl (UCIException (''CDR decode: buffer underrun at offset '' @ dec_of_nat off @
             '' need '' @ dec_of_nat needed @ '' have '' @ dec_of_nat (length buf)))
      else Inr ())"

definition decode_bool :: "bool decoder" where
  "decode_bool buf off = rbind (check_bounds buf off 1) (\<lambda>_. Inr (buf ! off \<noteq> 0, off + 1))"

definition decode_uint8 :: "u8 decoder" where
  "decode_uint8 buf off = rbind (check_bounds buf off 1) (\<lambda>_. Inr (buf ! off, off + 1))"

definition decode_int8 :: "u8 decoder" where
  "decode_int8 buf off = decode_uint8 buf off"

definition decode_uint16 :: "u16 decoder" where
  "decode_uint16 buf off =
     (let off = align_off off 2 in
      rbind (check_bounds buf off 2) (\<lambda>_.
        Inr (push_bit 8 (ucast (buf ! off)) OR ucast (buf ! (off + 1)), off + 2)))"

definition decode_int16 :: "u16 decoder" where
  "decode_int16 buf off = decode_uint16 buf off"

definition decode_uint32 :: "u32 decoder" where
  "decode_uint32 buf off =
     (let off = align_off off 4 in
      rbind (check_bounds buf off 4) (\<lambda>_.
        Inr (push_bit 24 (ucast (buf ! off)) OR push_bit 16 (ucast (buf ! (off + 1))) OR
             push_bit 8 (ucast (buf ! (off + 2))) OR ucast (buf ! (off + 3)), off + 4)))"

definition decode_int32 :: "u32 decoder" where
  "decode_int32 buf off = decode_uint32 buf off"

definition decode_uint64 :: "u64 decoder" where
  "decode_uint64 buf off =
     (let off = align_off off 8 in
      rbind (check_bounds buf off 8) (\<lambda>_.
        Inr (foldl (\<lambda>v i. push_bit 8 v OR ucast (buf ! (off + i))) 0 [0..<8], off + 8)))"

definition decode_int64 :: "u64 decoder" where
  "decode_int64 buf off = decode_uint64 buf off"

definition decode_float :: "u32 decoder" where
  "decode_float buf off = decode_uint32 buf off"

definition decode_double :: "u64 decoder" where
  "decode_double buf off = decode_uint64 buf off"

definition decode_string :: "string decoder" where
  "decode_string buf off =
     rbind (decode_uint32 buf off) (\<lambda>(len, off).
       if len = 0 then Inr ([], off)
       else rbind (check_bounds buf off (unat len)) (\<lambda>_.
         Inr (map char_of_byte (take (unat len - 1) (drop off buf)), off + unat len)))"

definition decode_uuid :: "uuid decoder" where
  "decode_uuid buf off =
     rbind (decode_string buf off) (\<lambda>(s, off). rbind (fromString s) (\<lambda>u. Inr (u, off)))"

definition decode_bytes :: "bytes decoder" where
  "decode_bytes buf off =
     rbind (decode_uint32 buf off) (\<lambda>(len, off).
       rbind (check_bounds buf off (unat len)) (\<lambda>_.
         Inr (take (unat len) (drop off buf), off + unat len)))"

definition decode_optional_flag :: "bool decoder" where
  "decode_optional_flag buf off = decode_bool buf off"

definition decode_sequence_length :: "u32 decoder" where
  "decode_sequence_length buf off = decode_uint32 buf off"

end
