(* ===== verification/Cdr_Codec.thy ===== *)
theory Cdr_Codec
  imports Cdr_Primitives
begin

text \<open>
  The contract between the CDR primitives and the code that composes them (the generated handlers
  call one helper after another on a shared buffer and a shared cursor): what an encoder appended, the
  decoder reads back at the position where it was appended, alignment included, whatever precedes
  and follows; the decoder never reads past the end; a truncated buffer is reported. The contract is
  the locale \<open>cdr_codec\<close>, interpreted on every pair of helpers.
\<close>

section \<open>Alignment\<close>

lemma align_buf_replicate:
  "align_buf buf a = buf @ replicate ((a - length buf mod a) mod a) 0"
proof (induction buf a rule: align_buf.induct)
  case (1 buf a)
  show ?case
  proof (cases "a \<noteq> 0 \<and> length buf mod a \<noteq> 0")
    case True
    let ?r = "length buf mod a"
    from True have r: "0 < ?r" "?r < a" by auto
    have s: "Suc (length buf) mod a = (if Suc ?r = a then 0 else Suc ?r)"
      by (simp add: mod_Suc)
    have "(a - ?r) mod a = Suc ((a - Suc (length buf) mod a) mod a)"
      using r by (auto simp: s)
    then have "replicate ((a - ?r) mod a) (0 :: u8) =
        0 # replicate ((a - length (buf @ [0]) mod a) mod a) 0"
      by simp
    with 1 True show ?thesis by (subst align_buf.simps) simp
  next
    case False
    then show ?thesis by (subst align_buf.simps) auto
  qed
qed

lemma length_align_buf: "length (align_buf buf a) = align_off (length buf) a"
  by (cases "a = 1") (auto simp: align_buf_replicate align_off_def)

lemma align_off_ge: "off \<le> align_off off a"
  unfolding align_off_def by (split if_split) (intro conjI impI le_add1 order_refl)

lemma align_off_less: "0 < a \<Longrightarrow> align_off off a < off + a"
  by (auto simp: align_off_def)

lemma align_off_dvd: "0 < a \<Longrightarrow> a dvd align_off off a"
proof (cases "1 < a \<and> off mod a \<noteq> 0")
  case True
  assume "0 < a"
  then have "off mod a < a" by simp
  then have "off + (a - off mod a) = a * (off div a) + a"
    by (metis add_diff_assoc add_diff_inverse_nat diff_add_inverse less_imp_le_nat mult_div_mod_eq
        nat_less_le not_less add.commute add.assoc mod_mult_div_eq)
  with True show ?thesis by (simp add: align_off_def)
next
  case False
  assume "0 < a"
  with False show ?thesis by (cases "a = 1") (auto simp: align_off_def)
qed

text \<open>
  Padding the buffer on the way out and skipping the cursor on the way in agree: both move to
  the least multiple of the alignment that is not before the current position, and padding only
  appends zeros.
\<close>

theorem alignment_agrees:
  assumes "0 < a"
  shows "length (align_buf buf a) = align_off (length buf) a \<and>
    (\<exists>n. align_buf buf a = buf @ replicate n 0) \<and>
    a dvd align_off off a \<and> off \<le> align_off off a \<and>
    (\<forall>m. a dvd m \<and> off \<le> m \<longrightarrow> align_off off a \<le> m)"
proof -
  have "align_off off a \<le> m" if "a dvd m" "off \<le> m" for m
  proof (rule ccontr)
    assume "\<not> align_off off a \<le> m"
    moreover have "align_off off a < m + a"
      using align_off_less [OF assms, of off] that by simp
    moreover have "a dvd align_off off a - m"
      using align_off_dvd [OF assms, of off] that by (simp add: dvd_diff_nat)
    ultimately show False by (auto dest: dvd_imp_le)
  qed
  moreover have "\<exists>n. align_buf buf a = buf @ replicate n 0"
    using align_buf_replicate by blast
  ultimately show ?thesis
    using align_off_dvd [OF assms] align_off_ge by (simp add: length_align_buf)
qed

theorem alignment_agrees_witness: "align_off 5 4 = 8 \<and> length (align_buf [1, 2, 3, 4, 5] 4) = 8"
  using alignment_agrees [of 4 "[1, 2, 3, 4, 5]" 5] by (simp add: align_off_def)

section \<open>Integers as aligned big-endian octets\<close>

definition enc_be :: "nat \<Rightarrow> bytes \<Rightarrow> 'a::len word \<Rightarrow> bytes" where
  "enc_be n buf v = align_buf buf n @ be_octets n v"

definition dec_be :: "nat \<Rightarrow> 'a::len word decoder" where
  "dec_be n buf off = rbind (check_bounds buf (align_off off n) n)
     (\<lambda>_. Inr (be_word (take n (drop (align_off off n) buf)), align_off off n + n))"

lemma encode_uint16_be: "encode_uint16 buf v = enc_be 2 buf v"
  by (simp add: encode_uint16_def enc_be_def be_octets_def upt_conv_Cons)

lemma encode_uint32_be: "encode_uint32 buf v = enc_be 4 buf v"
  by (simp add: encode_uint32_def enc_be_def be_octets_def upt_conv_Cons)

lemma encode_uint64_be: "encode_uint64 buf v = enc_be 8 buf v"
  by (simp add: encode_uint64_def enc_be_def be_octets_def upt_conv_Cons)

lemma check_bounds_Inr: "check_bounds buf off n = Inr () \<longleftrightarrow> off + n \<le> length buf"
  by (simp add: check_bounds_def)

lemma check_bounds_Inl: "length buf < off + n \<Longrightarrow> \<exists>m. check_bounds buf off n = Inl (UCIException m)"
  by (simp add: check_bounds_def)

lemma check_bounds_cases:
  obtains (ok) "off + n \<le> length buf" "check_bounds buf off n = Inr ()"
  | (underrun) m where "length buf < off + n" "check_bounds buf off n = Inl (UCIException m)"
  by (cases "off + n \<le> length buf") (auto simp: check_bounds_def)

lemma take_drop_2: "i + 2 \<le> length xs \<Longrightarrow> take 2 (drop i xs) = [xs ! i, xs ! (i + 1)]"
  by (intro nth_equalityI) (auto simp: less_2_cases_iff)

lemma less_4_cases: "(n::nat) < 4 \<Longrightarrow> n \<in> {0, 1, 2, 3}"
  by auto

lemma take_drop_4:
  "i + 4 \<le> length xs \<Longrightarrow> take 4 (drop i xs) = [xs ! i, xs ! (i + 1), xs ! (i + 2), xs ! (i + 3)]"
  by (intro nth_equalityI) (auto dest!: less_4_cases)

lemma decode_uint16_be: "decode_uint16 buf off = dec_be 2 buf off"
proof -
  have "be_word [a, b] = (push_bit 8 (ucast a) OR ucast b :: u16)" for a b
    by (simp add: be_word_def)
  then show ?thesis
    by (cases rule: check_bounds_cases [of "align_off off 2" 2 buf])
      (simp_all add: decode_uint16_def dec_be_def Let_def take_drop_2)
qed

lemma be_word_4:
  "be_word [a, b, c, d] = (push_bit 24 (ucast a) OR push_bit 16 (ucast b) OR push_bit 8 (ucast c) OR ucast d :: u32)"
  by (simp add: be_word_def push_bit_or push_bit_push_bit or.assoc)

lemma decode_uint32_be: "decode_uint32 buf off = dec_be 4 buf off"
  by (cases rule: check_bounds_cases [of "align_off off 4" 4 buf])
    (simp_all add: decode_uint32_def dec_be_def Let_def take_drop_4 be_word_4)

lemma decode_uint64_be: "decode_uint64 buf off = dec_be 8 buf off"
proof (cases rule: check_bounds_cases [of "align_off off 8" 8 buf])
  case ok
  let ?d = "drop (align_off off 8) buf"
  have "foldl (\<lambda>v i. push_bit 8 v OR ucast (buf ! (align_off off 8 + i))) (0 :: u64) [0..<8] =
      foldl (\<lambda>v i. push_bit 8 v OR ucast (?d ! i)) 0 [0..<8]"
    using ok by (intro foldl_cong) auto
  also have "\<dots> = be_word (take 8 ?d)"
    using ok by (subst foldl_nth_upt) (simp_all add: be_word_def)
  finally show ?thesis using ok by (simp add: decode_uint64_def dec_be_def Let_def)
next
  case underrun
  then show ?thesis by (simp add: decode_uint64_def dec_be_def Let_def)
qed

section \<open>The interface\<close>

text \<open>
  A decoder alone: it moves the cursor forward and never past the end of the buffer, so no byte
  outside the buffer is read. A codec: additionally the encoder only appends, and the decoder started
  where the encoder started returns the value and stops where the encoder stopped, in any larger
  buffer; cut short, the encoding is reported as an underrun.
\<close>

locale cdr_decoder =
  fixes dec :: "'a decoder"
  assumes dec_bounded: "dec buf off = Inr (v, off') \<Longrightarrow> off \<le> off' \<and> off' \<le> length buf"

locale cdr_codec = cdr_decoder dec for dec :: "'a decoder" +
  fixes enc :: "bytes \<Rightarrow> 'a \<Rightarrow> bytes" and valid :: "'a \<Rightarrow> bool"
  assumes enc_extends: "\<exists>t. enc buf v = buf @ t"
    and dec_enc: "valid v \<Longrightarrow> dec (enc buf v @ rest) (length buf) = Inr (v, length (enc buf v))"
    and dec_truncated: "valid v \<Longrightarrow> n < length (enc buf v) \<Longrightarrow>
      \<exists>m. dec (take n (enc buf v)) (length buf) = Inl (UCIException m)"

text \<open>
  Code that runs several codecs in turn: \<open>codes d e R\<close> says that the reader \<open>d\<close> reads back, as
  something in \<open>R\<close>, what the writer \<open>e\<close> appended to any buffer, and reports the buffer cut short.
\<close>

definition codes :: "'a decoder \<Rightarrow> (bytes \<Rightarrow> bytes) \<Rightarrow> ('a \<Rightarrow> bool) \<Rightarrow> bool" where
  "codes d e R = (\<forall>buf. (\<exists>t. e buf = buf @ t) \<and>
     (\<forall>rest. \<exists>x. d (e buf @ rest) (length buf) = Inr (x, length (e buf)) \<and> R x) \<and>
     (\<forall>n. length buf \<le> n \<longrightarrow> n < length (e buf) \<longrightarrow>
       (\<exists>m. d (take n (e buf)) (length buf) = Inl (UCIException m))))"

lemma codes_return [intro]: "R x \<Longrightarrow> codes (\<lambda>buf off. Inr (x, off)) (\<lambda>buf. buf) R"
  by (simp add: codes_def)

lemma codes_extends: "codes d e R \<Longrightarrow> \<exists>t. e buf = buf @ t"
  by (simp add: codes_def)

lemma codes_whole:
  assumes "codes d e R"
  obtains x where "d (e buf @ rest) (length buf) = Inr (x, length (e buf))" "R x"
  using assms unfolding codes_def by blast

lemma codes_cut:
  assumes "codes d e R" "length buf \<le> n" "n < length (e buf)"
  obtains m where "d (take n (e buf)) (length buf) = Inl (UCIException m)"
  using assms unfolding codes_def by blast

lemma codes_bind:
  assumes 1: "codes d e R" and 2: "\<And>x. R x \<Longrightarrow> codes (d' x) e' S"
  shows "codes (\<lambda>buf off. rbind (d buf off) (\<lambda>(x, off). d' x buf off)) (\<lambda>buf. e' (e buf)) S"
  unfolding codes_def
proof (intro allI conjI impI)
  fix buf
  obtain x0 where "R x0" using codes_whole [OF 1, of buf "[]"] by blast
  then obtain t2 where t2: "e' (e buf) = e buf @ t2" using codes_extends [OF 2] by blast
  obtain t1 where t1: "e buf = buf @ t1" using codes_extends [OF 1] by blast
  show "\<exists>t. e' (e buf) = buf @ t" using t1 t2 by simp
  show "\<exists>y. rbind (d (e' (e buf) @ rest) (length buf)) (\<lambda>(x, off). d' x (e' (e buf) @ rest) off)
      = Inr (y, length (e' (e buf))) \<and> S y" for rest
  proof -
    obtain x where x: "d (e buf @ t2 @ rest) (length buf) = Inr (x, length (e buf))" "R x"
      using codes_whole [OF 1] by blast
    obtain y where "d' x (e' (e buf) @ rest) (length (e buf)) = Inr (y, length (e' (e buf)))" "S y"
      using codes_whole [OF 2 [OF x(2)]] by blast
    with x(1) show ?thesis by (simp add: t2)
  qed
  show "\<exists>m. rbind (d (take n (e' (e buf))) (length buf)) (\<lambda>(x, off). d' x (take n (e' (e buf))) off)
      = Inl (UCIException m)" if n: "length buf \<le> n" "n < length (e' (e buf))" for n
  proof (cases "n < length (e buf)")
    case True
    with codes_cut [OF 1 n(1)] obtain m where "d (take n (e buf)) (length buf) = Inl (UCIException m)"
      by blast
    with True show ?thesis by (simp add: t2)
  next
    case False
    then have split: "take n (e' (e buf)) = e buf @ take (n - length (e buf)) t2" by (simp add: t2)
    obtain x where x: "d (take n (e' (e buf))) (length buf) = Inr (x, length (e buf))" "R x"
      using codes_whole [OF 1] unfolding split by blast
    from False n(2) codes_cut [OF 2 [OF x(2)], of "e buf" n] obtain m where
      "d' x (take n (e' (e buf))) (length (e buf)) = Inl (UCIException m)" by auto
    with x(1) show ?thesis by simp
  qed
qed

lemma codes_weaken: "codes d e R \<Longrightarrow> (\<And>x. R x \<Longrightarrow> S x) \<Longrightarrow> codes d e S"
  unfolding codes_def by meson

text \<open>Contract and calculus meet: a codec codes each of its valid values.\<close>

context cdr_codec begin

lemma codes: "valid v \<Longrightarrow> codes dec (\<lambda>buf. enc buf v) (\<lambda>x. x = v)"
  using enc_extends dec_enc dec_truncated by (simp add: codes_def)

end

section \<open>The helpers are codecs\<close>

lemma dec_be_enc_be:
  assumes "LENGTH('a) = 8 * n"
  shows "dec_be n (enc_be n buf (v :: 'a::len word) @ rest) (length buf) = Inr (v, length (enc_be n buf v))"
proof -
  have "drop (align_off (length buf) n) (align_buf buf n @ be_octets n v @ rest) = be_octets n v @ rest"
    by (simp add: length_align_buf)
  then show ?thesis
    by (simp add: dec_be_def enc_be_def check_bounds_def length_align_buf be_word_be_octets [OF assms])
qed

lemma be_codec:
  assumes "LENGTH('a) = 8 * n"
  shows "cdr_codec (dec_be n :: 'a::len word decoder) (enc_be n) (\<lambda>_. True)"
proof
  show "off \<le> off' \<and> off' \<le> length buf" if "dec_be n buf off = Inr (v :: 'a word, off')" for buf off v off'
    using that align_off_ge [of off n] by (auto simp: dec_be_def check_bounds_def split: if_splits)
  show "\<exists>t. enc_be n buf v = buf @ t" for buf and v :: "'a word"
    by (simp add: enc_be_def align_buf_replicate)
  show "dec_be n (enc_be n buf v @ rest) (length buf) = Inr (v, length (enc_be n buf v))"
    for buf rest and v :: "'a word"
    by (rule dec_be_enc_be [OF assms])
  show "\<exists>m. (dec_be n :: 'a word decoder) (take k (enc_be n buf v)) (length buf) = Inl (UCIException m)"
    if "k < length (enc_be n buf v)" for k buf and v :: "'a word"
    using that by (auto simp: dec_be_def enc_be_def length_align_buf check_bounds_def)
qed

lemma byte_codec: "cdr_codec decode_uint8 encode_uint8 (\<lambda>_. True)"
  by standard (auto simp: decode_uint8_def encode_uint8_def check_bounds_def split: if_splits)

interpretation uint8: cdr_codec decode_uint8 encode_uint8 "\<lambda>_. True"
  by (rule byte_codec)

interpretation int8: cdr_codec decode_int8 encode_int8 "\<lambda>_. True"
  by standard (auto simp: decode_int8_def encode_int8_def decode_uint8_def check_bounds_def split: if_splits)

interpretation bool: cdr_codec decode_bool encode_bool "\<lambda>_. True"
  by standard (auto simp: decode_bool_def encode_bool_def check_bounds_def split: if_splits)

interpretation uint16: cdr_codec decode_uint16 encode_uint16 "\<lambda>_. True"
  using be_codec [where 'a = 16, of 2] by (simp add: decode_uint16_be [abs_def] encode_uint16_be [abs_def])

interpretation int16: cdr_codec decode_int16 encode_int16 "\<lambda>_. True"
  using uint16.cdr_codec_axioms by (simp add: decode_int16_def [abs_def] encode_int16_def [abs_def])

interpretation uint32: cdr_codec decode_uint32 encode_uint32 "\<lambda>_. True"
  using be_codec [where 'a = 32, of 4] by (simp add: decode_uint32_be [abs_def] encode_uint32_be [abs_def])

interpretation int32: cdr_codec decode_int32 encode_int32 "\<lambda>_. True"
  using uint32.cdr_codec_axioms by (simp add: decode_int32_def [abs_def] encode_int32_def [abs_def])

interpretation uint64: cdr_codec decode_uint64 encode_uint64 "\<lambda>_. True"
  using be_codec [where 'a = 64, of 8] by (simp add: decode_uint64_be [abs_def] encode_uint64_be [abs_def])

interpretation int64: cdr_codec decode_int64 encode_int64 "\<lambda>_. True"
  using uint64.cdr_codec_axioms by (simp add: decode_int64_def [abs_def] encode_int64_def [abs_def])

interpretation float: cdr_codec decode_float encode_float "\<lambda>_. True"
  using uint32.cdr_codec_axioms by (simp add: decode_float_def [abs_def] encode_float_def [abs_def])

interpretation double: cdr_codec decode_double encode_double "\<lambda>_. True"
  using uint64.cdr_codec_axioms by (simp add: decode_double_def [abs_def] encode_double_def [abs_def])

interpretation flag: cdr_codec decode_optional_flag encode_optional_flag "\<lambda>_. True"
  using bool.cdr_codec_axioms by (simp add: decode_optional_flag_def [abs_def] encode_optional_flag_def [abs_def])

interpretation count: cdr_codec decode_sequence_length encode_sequence_length "\<lambda>_. True"
  using uint32.cdr_codec_axioms
  by (simp add: decode_sequence_length_def [abs_def] encode_sequence_length_def [abs_def])

text \<open>A length word and as many raw bytes, whole or cut short.\<close>

lemma length_word: "n < 2 ^ 32 \<Longrightarrow> unat (word_of_nat n :: u32) = n"
  by (simp add: unat_of_nat)

lemma block_whole:
  "decode_uint32 (encode_uint32 buf v @ rest) (length buf) = Inr (v, length (encode_uint32 buf v))"
  by (rule uint32.dec_enc) simp

lemma block_truncated:
  assumes "n < length (encode_uint32 buf v @ body)"
  obtains (header) m where "decode_uint32 (take n (encode_uint32 buf v @ body)) (length buf) = Inl (UCIException m)"
  | (body) k where "k < length body" "take n (encode_uint32 buf v @ body) = encode_uint32 buf v @ take k body"
proof (cases "n < length (encode_uint32 buf v)")
  case True
  then show ?thesis using uint32.dec_truncated [OF TrueI True] header by auto
next
  case False
  with assms show ?thesis by (intro body [of "n - length (encode_uint32 buf v)"]) auto
qed

lemma decode_string_bounded:
  "decode_string buf off = Inr (v, off') \<Longrightarrow> off \<le> off' \<and> off' \<le> length buf"
  by (auto simp: decode_string_def rbind_eq_Inr_iff check_bounds_def split: if_splits
      dest!: uint32.dec_bounded)

lemma decode_string_encode_string:
  assumes "length s + 1 < 2 ^ 32"
  shows "decode_string (encode_string buf s @ rest) (length buf) = Inr (s, length (encode_string buf s))"
proof -
  let ?L = "word_of_nat (length s + 1) :: u32"
  have L: "unat ?L = length s + 1" using assms by (rule length_word)
  then have "?L \<noteq> 0" by (metis Suc_eq_plus1 Zero_neq_Suc unat_0)
  moreover have "decode_uint32 (encode_string buf s @ rest) (length buf) = Inr (?L, length (encode_uint32 buf ?L))"
    using block_whole [of buf ?L "map byte_of_char s @ [0] @ rest"] by (simp only: encode_string_def append_assoc)
  ultimately show ?thesis
    by (simp only: decode_string_def rbind_Inr prod.case if_False L)
      (simp add: encode_string_def check_bounds_def comp_def del: of_nat_Suc)
qed

lemma decode_string_truncated:
  assumes "length s + 1 < 2 ^ 32" and "n < length (encode_string buf s)"
  shows "\<exists>m. decode_string (take n (encode_string buf s)) (length buf) = Inl (UCIException m)"
proof -
  let ?L = "word_of_nat (length s + 1) :: u32"
  have L: "unat ?L = length s + 1" using assms(1) by (rule length_word)
  then have nz: "?L \<noteq> 0" by (metis Suc_eq_plus1 Zero_neq_Suc unat_0)
  have "n < length (encode_uint32 buf ?L @ map byte_of_char s @ [0])"
    using assms(2) by (simp only: encode_string_def)
  then show ?thesis
  proof (cases rule: block_truncated)
    case header
    then show ?thesis by (auto simp: decode_string_def encode_string_def)
  next
    case (body k)
    have "length (take k (map byte_of_char s @ [0])) \<le> k" by simp
    also have "k < unat ?L" using body(1) unfolding L by simp
    finally have "length (encode_uint32 buf ?L @ take k (map byte_of_char s @ [0])) <
        length (encode_uint32 buf ?L) + unat ?L"
      by (simp only: length_append nat_add_left_cancel_less)
    with check_bounds_Inl obtain m where
      "check_bounds (encode_uint32 buf ?L @ take k (map byte_of_char s @ [0])) (length (encode_uint32 buf ?L)) (unat ?L)
        = Inl (UCIException m)" by blast
    with nz show ?thesis
      by (simp only: decode_string_def encode_string_def body(2) block_whole rbind_Inr rbind_Inl prod.case if_False)
        blast
  qed
qed

interpretation str: cdr_codec decode_string encode_string "\<lambda>s. length s + 1 < 2 ^ 32"
proof
  show "\<exists>t. encode_string buf v = buf @ t" for buf v
    using uint32.enc_extends [of buf "word_of_nat (length v + 1)"] by (auto simp: encode_string_def)
qed (rule decode_string_bounded decode_string_encode_string decode_string_truncated; assumption)+

lemma length_toString: "wf_uuid u \<Longrightarrow> length (toString u) = 36"
  using uuid_shape_toString [of u] by (simp add: shape_defs)

interpretation uuid: cdr_codec decode_uuid encode_uuid wf_uuid
proof
  show "off \<le> off' \<and> off' \<le> length buf" if "decode_uuid buf off = Inr (v, off')" for buf off v off'
    using that by (auto simp: decode_uuid_def rbind_eq_Inr_iff dest: str.dec_bounded)
  show "\<exists>t. encode_uuid buf v = buf @ t" for buf v
    unfolding encode_uuid_def by (rule str.enc_extends)
  show "decode_uuid (encode_uuid buf v @ rest) (length buf) = Inr (v, length (encode_uuid buf v))"
    if "wf_uuid v" for buf v rest
    using that by (simp add: decode_uuid_def encode_uuid_def str.dec_enc length_toString fromString_toString)
  show "\<exists>m. decode_uuid (take n (encode_uuid buf v)) (length buf) = Inl (UCIException m)"
    if "wf_uuid v" "n < length (encode_uuid buf v)" for n buf v
    using that str.dec_truncated [of "toString v" n buf]
    by (auto simp: decode_uuid_def encode_uuid_def length_toString)
qed

interpretation raw: cdr_codec decode_bytes encode_bytes "\<lambda>v. length v < 2 ^ 32"
proof
  show "off \<le> off' \<and> off' \<le> length buf" if "decode_bytes buf off = Inr (v, off')" for buf off v off'
    using that by (auto simp: decode_bytes_def rbind_eq_Inr_iff check_bounds_def split: if_splits
        dest!: uint32.dec_bounded)
  show "\<exists>t. encode_bytes buf v = buf @ t" for buf v
    using uint32.enc_extends [of buf "word_of_nat (length v)"] by (auto simp: encode_bytes_def)
  show "decode_bytes (encode_bytes buf v @ rest) (length buf) = Inr (v, length (encode_bytes buf v))"
    if "length v < 2 ^ 32" for buf v rest
    using that by (simp add: decode_bytes_def encode_bytes_def block_whole length_word check_bounds_def)
  show "\<exists>m. decode_bytes (take n (encode_bytes buf v)) (length buf) = Inl (UCIException m)"
    if "length v < 2 ^ 32" "n < length (encode_bytes buf v)" for n buf v
  proof -
    from that(2) have "n < length (encode_uint32 buf (word_of_nat (length v)) @ v)"
      by (simp only: encode_bytes_def)
    then show ?thesis
    proof (cases rule: block_truncated)
      case header
      then show ?thesis by (auto simp: decode_bytes_def encode_bytes_def)
    next
      case (body k)
      with that(1) show ?thesis
        by (simp add: decode_bytes_def encode_bytes_def block_whole length_word check_bounds_def
            del: take_append)
    qed
  qed
qed

end
