(* ===== verification/Cdr_Handlers.thy ===== *)
theory Cdr_Handlers
  imports Cdr_Codec
begin

text \<open>
  The CDR handlers the schema compiler generates for every message type
  (\<open>CDR_CPP_TEMPLATE\<close> in \<open>tools/schema_compiler/compiler.py\<close>). The schema of a message is a \<open>ty\<close>: what
  the template branches on. A message object is an \<open>obj\<close>: the storage of the generated \<open>Impl\<close> class,
  which keeps the storage of an optional field while the field is absent and the storage of every
  variant of a choice. A base type is the first field of the derived type, as the template
  serialises it first.

  The handlers of nested types are found in the registry by type tag; here a nested type is part of
  the \<open>ty\<close>, so the lookup of a registered type is the recursive call.
\<close>

section \<open>Primitive fields\<close>

text \<open>The primitive C++ types of \<open>CDR_ENCODE_MAP\<close>, and the enumerations, which travel as \<open>uint32_t\<close>.\<close>

datatype prim =
    PBool | PInt8 | PUint8 | PInt16 | PUint16 | PInt32 | PUint32 | PInt64 | PUint64
  | PFloat | PDouble | PString | PBytes | PUuid | PEnum

datatype pval =
    VBool bool | VInt8 u8 | VUint8 u8 | VInt16 u16 | VUint16 u16 | VInt32 u32 | VUint32 u32
  | VInt64 u64 | VUint64 u64 | VFloat u32 | VDouble u64 | VString string | VBytes bytes
  | VUuid uuid | VEnum u32

fun prim_of :: "pval \<Rightarrow> prim" where
  "prim_of (VBool _) = PBool"
| "prim_of (VInt8 _) = PInt8"
| "prim_of (VUint8 _) = PUint8"
| "prim_of (VInt16 _) = PInt16"
| "prim_of (VUint16 _) = PUint16"
| "prim_of (VInt32 _) = PInt32"
| "prim_of (VUint32 _) = PUint32"
| "prim_of (VInt64 _) = PInt64"
| "prim_of (VUint64 _) = PUint64"
| "prim_of (VFloat _) = PFloat"
| "prim_of (VDouble _) = PDouble"
| "prim_of (VString _) = PString"
| "prim_of (VBytes _) = PBytes"
| "prim_of (VUuid _) = PUuid"
| "prim_of (VEnum _) = PEnum"

fun encode_prim :: "bytes \<Rightarrow> pval \<Rightarrow> bytes" where
  "encode_prim buf (VBool v) = encode_bool buf v"
| "encode_prim buf (VInt8 v) = encode_int8 buf v"
| "encode_prim buf (VUint8 v) = encode_uint8 buf v"
| "encode_prim buf (VInt16 v) = encode_int16 buf v"
| "encode_prim buf (VUint16 v) = encode_uint16 buf v"
| "encode_prim buf (VInt32 v) = encode_int32 buf v"
| "encode_prim buf (VUint32 v) = encode_uint32 buf v"
| "encode_prim buf (VInt64 v) = encode_int64 buf v"
| "encode_prim buf (VUint64 v) = encode_uint64 buf v"
| "encode_prim buf (VFloat v) = encode_float buf v"
| "encode_prim buf (VDouble v) = encode_double buf v"
| "encode_prim buf (VString v) = encode_string buf v"
| "encode_prim buf (VBytes v) = encode_bytes buf v"
| "encode_prim buf (VUuid v) = encode_uuid buf v"
| "encode_prim buf (VEnum v) = encode_uint32 buf v"

definition map_decoder :: "('a \<Rightarrow> 'b) \<Rightarrow> 'a decoder \<Rightarrow> 'b decoder" where
  "map_decoder f dec buf off = rbind (dec buf off) (\<lambda>(v, off). Inr (f v, off))"

fun decode_prim :: "prim \<Rightarrow> pval decoder" where
  "decode_prim PBool = map_decoder VBool decode_bool"
| "decode_prim PInt8 = map_decoder VInt8 decode_int8"
| "decode_prim PUint8 = map_decoder VUint8 decode_uint8"
| "decode_prim PInt16 = map_decoder VInt16 decode_int16"
| "decode_prim PUint16 = map_decoder VUint16 decode_uint16"
| "decode_prim PInt32 = map_decoder VInt32 decode_int32"
| "decode_prim PUint32 = map_decoder VUint32 decode_uint32"
| "decode_prim PInt64 = map_decoder VInt64 decode_int64"
| "decode_prim PUint64 = map_decoder VUint64 decode_uint64"
| "decode_prim PFloat = map_decoder VFloat decode_float"
| "decode_prim PDouble = map_decoder VDouble decode_double"
| "decode_prim PString = map_decoder VString decode_string"
| "decode_prim PBytes = map_decoder VBytes decode_bytes"
| "decode_prim PUuid = map_decoder VUuid decode_uuid"
| "decode_prim PEnum = map_decoder VEnum decode_uint32"

text \<open>What fits its length word, and 16-octet uuids, the only ones the class can hold.\<close>

fun valid_pval :: "pval \<Rightarrow> bool" where
  "valid_pval (VString s) = (length s + 1 < 2 ^ 32)"
| "valid_pval (VBytes b) = (length b < 2 ^ 32)"
| "valid_pval (VUuid u) = wf_uuid u"
| "valid_pval _ = True"

section \<open>Messages\<close>

text \<open>
  A list has the \<open>maxOccurs\<close> its \<open>push_back\<close> enforces (None for an unbounded list). A choice has
  its variants in the order of the schema; the ordinal 0 is \<open>CHOICE_NONE\<close>.
\<close>

datatype ty = TPrim prim | TRec "ty list" | TOpt ty | TList "nat option" ty | TChoice "ty list"

datatype obj = OPrim pval | ORec "obj list" | OOpt bool obj | OList "obj list" | OChoice u32 "obj list"

text \<open>
  The object \<open>Impl{}\<close>: absent optionals, empty lists, no choice. A scalar member has no initialiser,
  so its value is whatever \<open>g\<close> says.
\<close>

fun fresh_prim :: "(prim \<Rightarrow> pval) \<Rightarrow> prim \<Rightarrow> pval" where
  "fresh_prim g PString = VString []"
| "fresh_prim g PBytes = VBytes []"
| "fresh_prim g PUuid = VUuid (UUID zero_octets)"
| "fresh_prim g PEnum = VEnum 0"
| "fresh_prim g p = g p"

fun fresh :: "(prim \<Rightarrow> pval) \<Rightarrow> ty \<Rightarrow> obj" where
  "fresh g (TPrim p) = OPrim (fresh_prim g p)"
| "fresh g (TRec ts) = ORec (map (fresh g) ts)"
| "fresh g (TOpt t) = OOpt False (fresh g t)"
| "fresh g (TList mx t) = OList []"
| "fresh g (TChoice ts) = OChoice 0 (map (fresh g) ts)"

fun serialize :: "bytes \<Rightarrow> obj \<Rightarrow> bytes"
  and serialize_fields :: "bytes \<Rightarrow> obj list \<Rightarrow> bytes"
  and serialize_variants :: "u32 \<Rightarrow> u32 \<Rightarrow> bytes \<Rightarrow> obj list \<Rightarrow> bytes" where
  "serialize buf (OPrim v) = encode_prim buf v"
| "serialize buf (ORec vs) = serialize_fields buf vs"
| "serialize buf (OOpt has v) =
     (if has then serialize (encode_optional_flag buf has) v else encode_optional_flag buf has)"
| "serialize buf (OList vs) =
     serialize_fields (encode_sequence_length buf (word_of_nat (length vs))) vs"
| "serialize buf (OChoice ord vs) = serialize_variants ord 1 (encode_uint32 buf ord) vs"
| "serialize_fields buf [] = buf"
| "serialize_fields buf (v # vs) = serialize_fields (serialize buf v) vs"
| "serialize_variants ord k buf [] = buf"
| "serialize_variants ord k buf (v # vs) =
     serialize_variants ord (k + 1) (if ord = k then serialize buf v else buf) vs"

text \<open>
  The loop over a sequence: decode an item into a fresh one, \<open>push_back\<close> it on what the list holds.
\<close>

fun push_items :: "nat option \<Rightarrow> obj decoder \<Rightarrow> nat \<Rightarrow> obj list \<Rightarrow> obj list decoder" where
  "push_items mx dec 0 vs buf off = Inr (vs, off)"
| "push_items mx dec (Suc n) vs buf off =
     rbind (dec buf off) (\<lambda>(v, off).
       if (case mx of None \<Rightarrow> False | Some m \<Rightarrow> m \<le> length vs)
       then Inl (UCIException (''BoundedList::push_back exceeds maxOccurs='' @ dec_of_nat (the mx)))
       else push_items mx dec n (vs @ [v]) buf off)"

text \<open>What the template emits for an optional field, a list field and a choice.\<close>

definition read_optional :: "obj decoder \<Rightarrow> obj \<Rightarrow> obj decoder" where
  "read_optional dec old buf off =
     rbind (decode_optional_flag buf off) (\<lambda>(present, off).
       if present then map_decoder (OOpt True) dec buf off else Inr (old, off))"

definition read_list :: "nat option \<Rightarrow> obj decoder \<Rightarrow> obj decoder" where
  "read_list mx dec buf off =
     rbind (decode_sequence_length buf off) (\<lambda>(cnt, off).
       map_decoder OList (push_items mx dec (unat cnt) []) buf off)"

definition read_choice :: "(u32 \<Rightarrow> (bool \<times> obj list) decoder) \<Rightarrow> u32 \<Rightarrow> obj decoder" where
  "read_choice dec old buf off =
     rbind (decode_uint32 buf off) (\<lambda>(ord, off).
       map_decoder (\<lambda>(c, ws). OChoice (if c then ord else old) ws) (dec ord) buf off)"

text \<open>
  \<open>deserialize_at\<close> into the object \<open>old\<close>. An object of another type is \<open>std::bad_cast\<close>, an
  ordinal that names no variant is the \<open>default\<close> of the \<open>switch\<close>.
\<close>

fun deserialize_at :: "(prim \<Rightarrow> pval) \<Rightarrow> ty \<Rightarrow> obj \<Rightarrow> obj decoder"
  and deserialize_fields :: "(prim \<Rightarrow> pval) \<Rightarrow> ty list \<Rightarrow> obj list \<Rightarrow> obj list decoder"
  and deserialize_variant :: "(prim \<Rightarrow> pval) \<Rightarrow> u32 \<Rightarrow> u32 \<Rightarrow> ty list \<Rightarrow> obj list \<Rightarrow> (bool \<times> obj list) decoder" where
  "deserialize_at g (TPrim p) (OPrim _) = map_decoder OPrim (decode_prim p)"
| "deserialize_at g (TRec ts) (ORec vs) = map_decoder ORec (deserialize_fields g ts vs)"
| "deserialize_at g (TOpt t) (OOpt has v) = read_optional (deserialize_at g t v) (OOpt has v)"
| "deserialize_at g (TList mx t) (OList _) = read_list mx (deserialize_at g t (fresh g t))"
| "deserialize_at g (TChoice ts) (OChoice ord vs) =
     read_choice (\<lambda>ord'. deserialize_variant g ord' 1 ts vs) ord"
| "deserialize_at g t old = (\<lambda>buf off. Inl BadCast)"
| "deserialize_fields g (t # ts) (v # vs) =
     (let dec = deserialize_at g t v; decs = deserialize_fields g ts vs
      in (\<lambda>buf off. rbind (dec buf off) (\<lambda>(w, off). map_decoder (Cons w) decs buf off)))"
| "deserialize_fields g [] [] = (\<lambda>buf off. Inr ([], off))"
| "deserialize_fields g _ _ = (\<lambda>buf off. Inl BadCast)"
| "deserialize_variant g ord k (t # ts) (v # vs) =
     (if ord = k then map_decoder (\<lambda>w. (True, w # vs)) (deserialize_at g t v)
      else map_decoder (\<lambda>(c, ws). (c, v # ws)) (deserialize_variant g ord (k + 1) ts vs))"
| "deserialize_variant g ord k [] [] = (\<lambda>buf off. Inr ((False, []), off))"
| "deserialize_variant g ord k _ _ = (\<lambda>buf off. Inl BadCast)"

end
