(* ===== verification/Cdr_Messages.thy ===== *)
theory Cdr_Messages
  imports Cdr_Handlers
begin

text \<open>
  What the generated CDR handlers promise: a message written by \<open>serialize\<close> and read into a blank
  object is the same message, at any position of any buffer; a payload cut short is reported; no
  handler reads past the end; and which exceptions a hostile payload can raise.
\<close>

section \<open>The primitive fields are codecs\<close>

lemmas prim_dec_enc =
  bool.dec_enc int8.dec_enc uint8.dec_enc int16.dec_enc uint16.dec_enc int32.dec_enc uint32.dec_enc
  int64.dec_enc uint64.dec_enc float.dec_enc double.dec_enc str.dec_enc raw.dec_enc uuid.dec_enc

lemmas prim_enc_extends =
  bool.enc_extends int8.enc_extends uint8.enc_extends int16.enc_extends uint16.enc_extends
  int32.enc_extends uint32.enc_extends int64.enc_extends uint64.enc_extends float.enc_extends
  double.enc_extends str.enc_extends raw.enc_extends uuid.enc_extends

lemmas prim_dec_bounded =
  bool.dec_bounded int8.dec_bounded uint8.dec_bounded int16.dec_bounded uint16.dec_bounded
  int32.dec_bounded uint32.dec_bounded int64.dec_bounded uint64.dec_bounded float.dec_bounded
  double.dec_bounded str.dec_bounded raw.dec_bounded uuid.dec_bounded

lemmas prim_dec_truncated =
  bool.dec_truncated int8.dec_truncated uint8.dec_truncated int16.dec_truncated
  uint16.dec_truncated int32.dec_truncated uint32.dec_truncated int64.dec_truncated
  uint64.dec_truncated float.dec_truncated double.dec_truncated str.dec_truncated
  raw.dec_truncated uuid.dec_truncated

lemma map_decoder_eq_Inr_iff:
  "map_decoder f dec buf off = Inr (y, off') \<longleftrightarrow> (\<exists>x. dec buf off = Inr (x, off') \<and> y = f x)"
  by (auto simp: map_decoder_def rbind_eq_Inr_iff)

lemma map_decoder_eq_Inl_iff [simp]:
  "map_decoder f dec buf off = Inl e \<longleftrightarrow> dec buf off = Inl e"
  by (auto simp: map_decoder_def rbind_eq_Inl_iff)

lemma map_decoder_Inr: "dec buf off = Inr (x, off') \<Longrightarrow> map_decoder f dec buf off = Inr (f x, off')"
  by (simp add: map_decoder_def)

interpretation prim: cdr_codec "decode_prim p" encode_prim "\<lambda>v. prim_of v = p \<and> valid_pval v" for p
proof
  show "off \<le> off' \<and> off' \<le> length buf" if "decode_prim p buf off = Inr (v, off')" for buf off v off'
    using that by (cases p) (auto simp: map_decoder_eq_Inr_iff dest!: prim_dec_bounded)
  show "\<exists>t. encode_prim buf v = buf @ t" for buf v
    by (cases v) (simp_all add: prim_enc_extends)
  show "decode_prim p (encode_prim buf v @ rest) (length buf) = Inr (v, length (encode_prim buf v))"
    if "prim_of v = p \<and> valid_pval v" for buf v rest
    using that by (cases v) (auto simp: map_decoder_def prim_dec_enc)
  show "\<exists>m. decode_prim p (take n (encode_prim buf v)) (length buf) = Inl (UCIException m)"
    if "prim_of v = p \<and> valid_pval v" "n < length (encode_prim buf v)" for n buf v
    using that by (cases v) (auto simp: prim_dec_truncated)
qed

section \<open>Messages, and the objects that hold them\<close>

text \<open>The message an object holds: the present optionals and the chosen variant, nothing else.\<close>

datatype msg = MPrim pval | MRec "msg list" | MOpt "msg option" | MList "msg list"
  | MChoice nat "msg option"

definition chosen :: "nat \<Rightarrow> 'a list \<Rightarrow> 'a option" where
  "chosen ord xs = (if 1 \<le> ord \<and> ord \<le> length xs then Some (xs ! (ord - 1)) else None)"

fun msg_of :: "obj \<Rightarrow> msg" where
  "msg_of (OPrim v) = MPrim v"
| "msg_of (ORec vs) = MRec (map msg_of vs)"
| "msg_of (OOpt has v) = MOpt (if has then Some (msg_of v) else None)"
| "msg_of (OList vs) = MList (map msg_of vs)"
| "msg_of (OChoice ord vs) = MChoice (unat ord) (chosen (unat ord) (map msg_of vs))"

lemma chosen_map: "chosen ord (map f xs) = map_option f (chosen ord xs)"
  by (auto simp: chosen_def)

lemma msg_of_choice:
  "msg_of (OChoice ord vs) = MChoice (unat ord) (map_option msg_of (chosen (unat ord) vs))"
  by (simp add: chosen_map)

text \<open>An object of a type whose visible part is well formed.\<close>

fun has_type :: "ty \<Rightarrow> obj \<Rightarrow> bool"
  and have_types :: "ty list \<Rightarrow> obj list \<Rightarrow> bool"
  and variant_has_type :: "u32 \<Rightarrow> u32 \<Rightarrow> ty list \<Rightarrow> obj list \<Rightarrow> bool" where
  "has_type (TPrim p) (OPrim v) = (prim_of v = p \<and> valid_pval v)"
| "has_type (TRec ts) (ORec vs) = have_types ts vs"
| "has_type (TOpt t) (OOpt has v) = (has \<longrightarrow> has_type t v)"
| "has_type (TList mx t) (OList vs) =
     (list_all (has_type t) vs \<and> length vs < 2 ^ 32 \<and> (case mx of None \<Rightarrow> True | Some m \<Rightarrow> length vs \<le> m))"
| "has_type (TChoice ts) (OChoice ord vs) =
     (length ts + 1 < 2 ^ 32 \<and> unat ord \<le> length ts \<and> variant_has_type ord 1 ts vs)"
| "has_type _ _ = False"
| "have_types (t # ts) (v # vs) = (has_type t v \<and> have_types ts vs)"
| "have_types [] [] = True"
| "have_types _ _ = False"
| "variant_has_type ord k (t # ts) (v # vs) =
     ((ord = k \<longrightarrow> has_type t v) \<and> variant_has_type ord (k + 1) ts vs)"
| "variant_has_type ord k [] [] = True"
| "variant_has_type ord k _ _ = False"

text \<open>A blank object: the right shape, and nothing set in it that a message could leave unset.\<close>

fun blank :: "ty \<Rightarrow> obj \<Rightarrow> bool" where
  "blank (TPrim p) old = (\<exists>v. old = OPrim v)"
| "blank (TRec ts) old = (\<exists>vs. old = ORec vs \<and> list_all2 blank ts vs)"
| "blank (TOpt t) old = (\<exists>v. old = OOpt False v \<and> blank t v)"
| "blank (TList mx t) old = (\<exists>vs. old = OList vs)"
| "blank (TChoice ts) old = (\<exists>vs. old = OChoice 0 vs \<and> list_all2 blank ts vs)"

lemma blank_fresh: "blank t (fresh g t)"
proof (induction t)
  case (TRec ts)
  then show ?case by (auto simp: list.rel_map intro: list.rel_refl_strong)
next
  case (TChoice ts)
  then show ?case by (auto simp: list.rel_map intro: list.rel_refl_strong)
qed auto

section \<open>Serialisation appends\<close>

lemma prefix_trans: "\<exists>t. b = a @ t \<Longrightarrow> \<exists>t. c = b @ t \<Longrightarrow> \<exists>t. c = a @ (t :: 'a list)"
  by auto

lemma serialize_extends:
  "\<exists>t. serialize buf v = buf @ t"
  "\<exists>t. serialize_fields buf vs = buf @ t"
  "\<exists>t. serialize_variants ord k buf vs = buf @ t"
proof (induction buf v and buf vs and ord k buf vs
    rule: serialize_serialize_fields_serialize_variants.induct)
  case (1 buf v)
  show ?case by (simp add: prim.enc_extends)
next
  case (3 buf has v)
  then show ?case
    by (auto intro: prefix_trans [OF flag.enc_extends] simp: flag.enc_extends)
next
  case (4 buf vs)
  then show ?case by (auto intro: prefix_trans [OF count.enc_extends])
next
  case (5 buf ord vs)
  then show ?case by (auto intro: prefix_trans [OF uint32.enc_extends])
next
  case (7 buf v vs)
  then show ?case by (auto intro: prefix_trans)
next
  case (9 ord k buf v vs)
  then show ?case by (cases "ord = k") (auto intro: prefix_trans)
qed auto

section \<open>Round trip and truncation\<close>

lemma codes_map:
  assumes "codes d e (\<lambda>x. R (f x))"
  shows "codes (map_decoder f d) e R"
proof -
  have "codes (\<lambda>buf off. rbind (d buf off) (\<lambda>(x, off). Inr (f x, off))) (\<lambda>buf. (\<lambda>b. b) (e buf)) R"
    using assms by (rule codes_bind) (rule codes_return)
  then show ?thesis by (simp add: map_decoder_def [abs_def])
qed

lemma codes_push_items:
  assumes "\<And>v. v \<in> set vs \<Longrightarrow> codes dec (\<lambda>buf. serialize buf v) (\<lambda>w. msg_of w = msg_of v)"
    and "\<And>m. mx = Some m \<Longrightarrow> length acc + length vs \<le> m"
  shows "codes (push_items mx dec (length vs) acc) (\<lambda>buf. serialize_fields buf vs)
    (\<lambda>ws. map msg_of ws = map msg_of acc @ map msg_of vs)"
  using assms
proof (induction vs arbitrary: acc)
  case Nil
  then show ?case by (simp add: codes_return)
next
  case (Cons v vs)
  have "codes (\<lambda>buf off. rbind (dec buf off) (\<lambda>(w, off).
         (\<lambda>buf off. if (case mx of None \<Rightarrow> False | Some m \<Rightarrow> m \<le> length acc)
          then Inl (UCIException (''BoundedList::push_back exceeds maxOccurs='' @ dec_of_nat (the mx)))
          else push_items mx dec (length vs) (acc @ [w]) buf off) buf off))
      (\<lambda>buf. serialize_fields (serialize buf v) vs)
      (\<lambda>ws. map msg_of ws = map msg_of acc @ map msg_of (v # vs))"
  proof (rule codes_bind [where R = "\<lambda>w. msg_of w = msg_of v" and e' = "\<lambda>buf. serialize_fields buf vs"])
    show "codes dec (\<lambda>buf. serialize buf v) (\<lambda>w. msg_of w = msg_of v)" by (simp add: Cons.prems)
    fix w assume w: "msg_of w = msg_of v"
    have room: "\<not> (case mx of None \<Rightarrow> False | Some m \<Rightarrow> m \<le> length acc)"
      using Cons.prems(2) by (cases mx) auto
    have "codes (push_items mx dec (length vs) (acc @ [w])) (\<lambda>buf. serialize_fields buf vs)
        (\<lambda>ws. map msg_of ws = map msg_of (acc @ [w]) @ map msg_of vs)"
      using Cons.prems by (intro Cons.IH) auto
    then show "codes (\<lambda>buf off. if (case mx of None \<Rightarrow> False | Some m \<Rightarrow> m \<le> length acc)
          then Inl (UCIException (''BoundedList::push_back exceeds maxOccurs='' @ dec_of_nat (the mx)))
          else push_items mx dec (length vs) (acc @ [w]) buf off) (\<lambda>buf. serialize_fields buf vs)
        (\<lambda>ws. map msg_of ws = map msg_of acc @ map msg_of (v # vs))"
      by (simp add: room w)
  qed
  then show ?case by simp
qed

lemma serialize_variants_past: 
  "unat ord < unat k \<Longrightarrow> unat k + length vs < 2 ^ 32 \<Longrightarrow> serialize_variants ord k buf vs = buf"
proof (induction vs arbitrary: k)
  case Nil
  then show ?case by simp
next
  case (Cons v vs)
  then have "unat (k + 1) = unat k + 1" by (simp add: unat_word_ariths)
  with Cons show ?case by auto
qed

text \<open>How the variants of a choice are read back: the one with the ordinal, and only it.\<close>

definition variants_read :: "u32 \<Rightarrow> u32 \<Rightarrow> obj list \<Rightarrow> bool \<times> obj list \<Rightarrow> bool" where
  "variants_read ord k vs r = (length (snd r) = length vs \<and>
     (fst r \<longleftrightarrow> unat k \<le> unat ord \<and> unat ord < unat k + length vs) \<and>
     (fst r \<longrightarrow> msg_of (snd r ! (unat ord - unat k)) = msg_of (vs ! (unat ord - unat k))))"

lemma variants_read_skip:
  assumes "variants_read ord (k + 1) vs r" "ord \<noteq> k" "unat k + length vs + 1 < 2 ^ 32"
  shows "variants_read ord k (v # vs) (fst r, w # snd r)"
proof -
  have "unat (k + 1) = unat k + 1" using assms(3) by (simp add: unat_word_ariths)
  moreover have "unat ord \<noteq> unat k" using assms(2) by (simp add: word_unat_eq_iff)
  ultimately show ?thesis using assms(1) by (auto simp: variants_read_def nth_Cons' Suc_le_eq)
qed

lemma variant_has_type_length: "variant_has_type ord k ts vs \<Longrightarrow> length vs = length ts"
proof (induction ts arbitrary: k vs)
  case Nil
  then show ?case by (cases vs) auto
next
  case (Cons t ts)
  then show ?case by (cases vs) auto
qed

lemma codes_message:
  "has_type t v \<Longrightarrow> blank t old \<Longrightarrow>
     codes (deserialize_at g t old) (\<lambda>buf. serialize buf v) (\<lambda>w. msg_of w = msg_of v)"
  "have_types ts vs \<Longrightarrow> list_all2 blank ts olds \<Longrightarrow>
     codes (deserialize_fields g ts olds) (\<lambda>buf. serialize_fields buf vs) (\<lambda>ws. map msg_of ws = map msg_of vs)"
  "variant_has_type ord k ts vs \<Longrightarrow> list_all2 blank ts olds \<Longrightarrow> unat k + length ts < 2 ^ 32 \<Longrightarrow>
     codes (deserialize_variant g ord k ts olds) (\<lambda>buf. serialize_variants ord k buf vs) (variants_read ord k vs)"
proof (induction t v and ts vs and ord k ts vs arbitrary: old and olds and olds
    rule: has_type_have_types_variant_has_type.induct)
  case (1 p v)
  then obtain u where "old = OPrim u" by auto
  moreover have "codes (decode_prim p) (\<lambda>buf. encode_prim buf v) (\<lambda>x. x = v)"
    using 1 by (intro prim.codes) simp
  ultimately show ?case by (auto intro!: codes_map elim: codes_weaken)
next
  case (2 ts vs)
  then show ?case by (auto intro!: codes_map)
next
  case (3 t has v)
  then obtain u where old: "old = OOpt False u" "blank t u" by auto
  have "codes (\<lambda>buf off. rbind (decode_optional_flag buf off) (\<lambda>(present, off).
        (\<lambda>buf off. if present then map_decoder (OOpt True) (deserialize_at g t u) buf off
        else Inr (OOpt False u, off)) buf off)) (\<lambda>buf. (\<lambda>buf. if has then serialize buf v else buf)
      (encode_optional_flag buf has)) (\<lambda>w. msg_of w = msg_of (OOpt has v))"
  proof (rule codes_bind [OF flag.codes [OF TrueI]])
    show "codes (\<lambda>buf off. if x then map_decoder (OOpt True) (deserialize_at g t u) buf off
        else Inr (OOpt False u, off)) (\<lambda>buf. if has then serialize buf v else buf)
        (\<lambda>w. msg_of w = msg_of (OOpt has v))" if "x = has" for x
      using that 3 old by (cases has) (auto intro!: codes_map)
  qed
  moreover have "(\<lambda>buf. if has then serialize (encode_optional_flag buf has) v else encode_optional_flag buf has)
    = (\<lambda>buf. (\<lambda>buf. if has then serialize buf v else buf) (encode_optional_flag buf has))"
    by auto
  ultimately show ?case by (simp add: old read_optional_def [abs_def])
next
  case (4 mx t vs)
  then obtain us where old: "old = OList us" by auto
  let ?len = "word_of_nat (length vs) :: u32"
  have len: "unat ?len = length vs" using 4 by (intro length_word) simp
  have "codes (\<lambda>buf off. rbind (decode_sequence_length buf off) (\<lambda>(cnt, off).
        map_decoder OList (push_items mx (deserialize_at g t (fresh g t)) (unat cnt) []) buf off))
      (\<lambda>buf. (\<lambda>buf. serialize_fields buf vs) (encode_sequence_length buf ?len))
      (\<lambda>w. msg_of w = msg_of (OList vs))"
  proof (rule codes_bind [OF count.codes [OF TrueI]])
    have "codes (push_items mx (deserialize_at g t (fresh g t)) (length vs) [])
        (\<lambda>buf. serialize_fields buf vs) (\<lambda>ws. map msg_of ws = map msg_of [] @ map msg_of vs)"
      using 4 by (intro codes_push_items) (auto simp: list_all_iff blank_fresh)
    then show "codes (map_decoder OList (push_items mx (deserialize_at g t (fresh g t)) (unat x) []))
        (\<lambda>buf. serialize_fields buf vs) (\<lambda>w. msg_of w = msg_of (OList vs))" if "x = ?len" for x
      using that by (intro codes_map) (simp add: len)
  qed
  then show ?case by (simp add: old read_list_def [abs_def])
next
  case (5 ts ord vs)
  then obtain us where old: "old = OChoice 0 us" "list_all2 blank ts us" by auto
  have "codes (\<lambda>buf off. rbind (decode_uint32 buf off) (\<lambda>(ord', off).
        map_decoder (\<lambda>(c, ws). OChoice (if c then ord' else 0) ws)
          (deserialize_variant g ord' 1 ts us) buf off))
      (\<lambda>buf. (\<lambda>buf. serialize_variants ord 1 buf vs) (encode_uint32 buf ord))
      (\<lambda>w. msg_of w = msg_of (OChoice ord vs))"
  proof (rule codes_bind [OF uint32.codes [OF TrueI]])
    have "codes (deserialize_variant g ord 1 ts us) (\<lambda>buf. serialize_variants ord 1 buf vs)
        (variants_read ord 1 vs)"
      using 5 old by simp
    moreover have "msg_of (case r of (c, ws) \<Rightarrow> OChoice (if c then ord else 0) ws) =
        msg_of (OChoice ord vs)" if "variants_read ord 1 vs r" for r
      using that 5(2) by (auto simp: variants_read_def msg_of_choice chosen_def variant_has_type_length Suc_le_eq unat_gt_0
            simp del: msg_of.simps split: prod.splits)
    ultimately show "codes (map_decoder (\<lambda>(c, ws). OChoice (if c then x else 0) ws)
        (deserialize_variant g x 1 ts us)) (\<lambda>buf. serialize_variants ord 1 buf vs)
        (\<lambda>w. msg_of w = msg_of (OChoice ord vs))" if "x = ord" for x
      unfolding that by (intro codes_map) (erule codes_weaken)
  qed
  then show ?case by (simp add: old read_choice_def [abs_def])
next
  case (7 t ts v vs)
  then obtain u us where olds: "olds = u # us" "blank t u" "list_all2 blank ts us"
    by (auto simp: list_all2_Cons1)
  have "codes (\<lambda>buf off. rbind (deserialize_at g t u buf off) (\<lambda>(w, off).
        map_decoder (Cons w) (deserialize_fields g ts us) buf off))
      (\<lambda>buf. (\<lambda>buf. serialize_fields buf vs) (serialize buf v)) (\<lambda>ws. map msg_of ws = map msg_of (v # vs))"
    using 7 olds
    by (intro codes_bind [where R = "\<lambda>w. msg_of w = msg_of v" and e' = "\<lambda>buf. serialize_fields buf vs"]
        codes_map) (auto elim: codes_weaken)
  then show ?case by (simp add: olds)
next
  case (10 ord k t ts v vs)
  then obtain u us where olds: "olds = u # us" "blank t u" "list_all2 blank ts us"
    by (auto simp: list_all2_Cons1)
  have len: "length vs = length ts" using 10 by (auto dest: variant_has_type_length)
  have "unat (k + 1) = unat k + 1" using 10 by (simp add: unat_word_ariths)
  show ?case
  proof (cases "ord = k")
    case True
    have "serialize_variants ord (k + 1) buf vs = buf" for buf
      using 10 True by (intro serialize_variants_past) (simp_all add: \<open>unat (k + 1) = unat k + 1\<close> len)
    moreover have "codes (deserialize_at g t u) (\<lambda>buf. serialize buf v) (\<lambda>w. msg_of w = msg_of v)"
      using 10 olds True by simp
    moreover have "length us = length ts" using olds(3) by (metis list_all2_lengthD)
    ultimately show ?thesis
      by (auto simp: olds True variants_read_def len intro!: codes_map elim: codes_weaken)
  next
    case False
    have "codes (deserialize_variant g ord (k + 1) ts us) (\<lambda>buf. serialize_variants ord (k + 1) buf vs)
        (variants_read ord (k + 1) vs)"
      using 10 olds by (simp add: \<open>unat (k + 1) = unat k + 1\<close>)
    then have "codes (deserialize_variant g ord (k + 1) ts us) (\<lambda>buf. serialize_variants ord (k + 1) buf vs)
        (\<lambda>r. variants_read ord k (v # vs) (case r of (c, ws) \<Rightarrow> (c, u # ws)))"
      by (rule codes_weaken) (use False 10 in \<open>auto simp: len dest: variants_read_skip split: prod.splits\<close>)
    with False show ?thesis by (simp add: olds codes_map)
  qed
qed (auto simp: codes_return variants_read_def)

text \<open>
  C1: A message round-trips: whatever was in the buffer before it and whatever follows it, the
  generated deserializer, started where the generated serializer started on a blank object of the
  type, leaves an object that holds the same message, with the cursor at the end of what was written.
\<close>

theorem message_round_trip:
  assumes "has_type t v" and "blank t old"
  shows "\<exists>w. deserialize_at g t old (serialize buf v @ rest) (length buf) = Inr (w, length (serialize buf v)) \<and>
    msg_of w = msg_of v"
  using codes_whole [OF codes_message(1) [OF assms]] by blast

text \<open>A record with an absent optional, a bounded list and a choice, after one byte of prefix.\<close>

definition sample_ty :: ty where
  "sample_ty = TRec [TPrim PUuid, TOpt (TPrim PString), TList (Some 2) (TPrim PInt16), TChoice [TPrim PBool, TPrim PUint8]]"

definition sample_obj :: obj where
  "sample_obj = ORec [OPrim (VUuid (UUID zero_octets)), OOpt True (OPrim (VString ''hi'')),
     OList [OPrim (VInt16 7), OPrim (VInt16 9)], OChoice 2 [OPrim (VBool False), OPrim (VUint8 5)]]"

lemma sample_has_type: "has_type sample_ty sample_obj"
  by (simp add: sample_ty_def sample_obj_def wf_uuid_def zero_octets_def)

theorem message_round_trip_witness:
  "\<exists>w. deserialize_at (\<lambda>_. VInt8 0) sample_ty (fresh (\<lambda>_. VInt8 0) sample_ty) (serialize [42] sample_obj) 1 =
      Inr (w, length (serialize [42] sample_obj)) \<and> msg_of w = msg_of sample_obj"
  using message_round_trip [OF sample_has_type blank_fresh, where buf = "[42]" and rest = "[]"] by simp

text \<open>
  C10: A payload cut short is never mistaken for a message: every proper prefix of what the
  serializer wrote makes the deserializer raise a UCIException.
\<close>

theorem message_truncated:
  assumes "has_type t v" and "blank t old" and "n < length (serialize [] v)"
  shows "\<exists>m. deserialize_at g t old (take n (serialize [] v)) 0 = Inl (UCIException m)"
  using codes_cut [OF codes_message(1) [OF assms(1,2)], of "[]" n] assms(3) by auto

theorem message_truncated_witness:
  "\<exists>m. deserialize_at (\<lambda>_. VInt8 0) (TPrim PUint16) (OPrim (VUint16 0)) (take 1 (serialize [] (OPrim (VUint16 513)))) 0 =
     Inl (UCIException m)"
  by (rule message_truncated) (simp_all add: encode_uint16_def)

text \<open>
  The serializer is injective on messages: two objects of a type with the same payload hold the
  same message.
\<close>

theorem payload_determines_message:
  assumes "has_type t v" and "has_type t w" and "serialize [] v = serialize [] w"
  shows "msg_of v = msg_of w"
proof -
  obtain x where "deserialize_at undefined t (fresh undefined t) (serialize [] v @ []) 0 = Inr (x, length (serialize [] v))"
      "msg_of x = msg_of v"
    using codes_whole [OF codes_message(1) [OF assms(1) blank_fresh], of undefined undefined "[]" "[]"] by auto
  moreover obtain y where "deserialize_at undefined t (fresh undefined t) (serialize [] w @ []) 0 = Inr (y, length (serialize [] w))"
      "msg_of y = msg_of w"
    using codes_whole [OF codes_message(1) [OF assms(2) blank_fresh], of undefined undefined "[]" "[]"] by auto
  ultimately show ?thesis by (simp add: assms(3))
qed

theorem payload_determines_message_witness:
  "msg_of (OOpt False (OPrim (VInt8 1))) = msg_of (OOpt False (OPrim (VInt8 2)))"
  by (rule payload_determines_message [of "TOpt (TPrim PInt8)"]) simp_all

section \<open>Hostile payloads\<close>

text \<open>
  \<open>safe E S d\<close>: whatever the buffer, \<open>d\<close> fails with an exception in \<open>E\<close> or returns a value in \<open>S\<close>
  with the cursor not moved back and not past the end.
\<close>

definition safe :: "(exn \<Rightarrow> bool) \<Rightarrow> ('a \<Rightarrow> bool) \<Rightarrow> 'a decoder \<Rightarrow> bool" where
  "safe E S d = (\<forall>buf off. off \<le> length buf \<longrightarrow>
     (\<exists>e. d buf off = Inl e \<and> E e) \<or>
     (\<exists>x off'. d buf off = Inr (x, off') \<and> S x \<and> off \<le> off' \<and> off' \<le> length buf))"

lemma safeE:
  assumes "safe E S d" "off \<le> length buf"
  obtains (raises) e where "d buf off = Inl e" "E e"
  | (returns) x off' where "d buf off = Inr (x, off')" "S x" "off \<le> off'" "off' \<le> length buf"
  using assms unfolding safe_def by blast

lemma safe_return: "S x \<Longrightarrow> safe E S (\<lambda>buf off. Inr (x, off))"
  by (simp add: safe_def)

lemma safe_throw: "E e \<Longrightarrow> safe E S (\<lambda>buf off. Inl e)"
  by (simp add: safe_def)

lemma safe_bind:
  assumes d: "safe E R d" and d': "\<And>x. R x \<Longrightarrow> safe E S (d' x)"
  shows "safe E S (\<lambda>buf off. rbind (d buf off) (\<lambda>(x, off). d' x buf off))"
  unfolding safe_def
proof (intro allI impI)
  fix buf off assume "off \<le> length (buf :: bytes)"
  with d show "(\<exists>e. rbind (d buf off) (\<lambda>(x, off). d' x buf off) = Inl e \<and> E e) \<or>
     (\<exists>x off'. rbind (d buf off) (\<lambda>(x, off). d' x buf off) = Inr (x, off') \<and> S x \<and> off \<le> off' \<and> off' \<le> length buf)"
  proof (cases rule: safeE)
    case raises
    then show ?thesis by simp
  next
    case (returns x o1)
    then show ?thesis by (cases rule: safeE [OF d' [OF returns(2)] returns(4)]) auto
  qed
qed

lemma safe_map: "safe E (\<lambda>x. S (f x)) d \<Longrightarrow> safe E S (map_decoder f d)"
  unfolding map_decoder_def [abs_def] by (erule safe_bind) (rule safe_return)

lemma safe_weaken: "safe E R d \<Longrightarrow> (\<And>x. R x \<Longrightarrow> S x) \<Longrightarrow> (\<And>e. E e \<Longrightarrow> F e) \<Longrightarrow> safe F S d"
  unfolding safe_def by meson

lemma safe_decoder:
  assumes "cdr_decoder d" and "\<And>buf off e. d buf off = Inl e \<Longrightarrow> E e"
    and "\<And>buf off x off'. d buf off = Inr (x, off') \<Longrightarrow> S x"
  shows "safe E S d"
  unfolding safe_def
proof (intro allI impI)
  fix buf off
  show "(\<exists>e. d buf off = Inl e \<and> E e) \<or>
     (\<exists>x off'. d buf off = Inr (x, off') \<and> S x \<and> off \<le> off' \<and> off' \<le> length buf)"
    using assms(2,3) [of buf off] cdr_decoder.dec_bounded [OF assms(1), of buf off] by (cases "d buf off") auto
qed

lemma check_bounds_raises: "check_bounds buf off n = Inl e \<Longrightarrow> is_uci_exception e"
  by (auto simp: check_bounds_def split: if_splits)

lemmas raises_defs = decode_bool_def decode_uint8_def decode_int8_def decode_uint16_def
  decode_int16_def decode_uint32_def decode_int32_def decode_uint64_def decode_int64_def
  decode_float_def decode_double_def decode_string_def decode_bytes_def decode_optional_flag_def
  decode_sequence_length_def

text \<open>Only a uuid can make a primitive decoder fail with anything but a buffer underrun.\<close>

lemma decode_prim_raises: "decode_prim p buf off = Inl e \<Longrightarrow> p \<noteq> PUuid \<Longrightarrow> is_uci_exception e"
  by (cases p) (auto simp: raises_defs Let_def rbind_eq_Inl_iff split: if_splits dest: check_bounds_raises)

lemma decode_prim_type: "decode_prim p buf off = Inr (v, off') \<Longrightarrow> prim_of v = p"
  by (cases p) (auto simp: map_decoder_eq_Inr_iff)

lemma safe_flag: "(\<And>m. E (UCIException m)) \<Longrightarrow> safe E (\<lambda>_. True) decode_optional_flag"
  by (rule safe_decoder [OF flag.cdr_decoder_axioms])
    (auto simp: raises_defs rbind_eq_Inl_iff check_bounds_def split: if_splits)

lemma safe_uint32: "(\<And>m. E (UCIException m)) \<Longrightarrow> safe E (\<lambda>_. True) decode_uint32"
  by (rule safe_decoder [OF uint32.cdr_decoder_axioms])
    (auto simp: raises_defs Let_def rbind_eq_Inl_iff check_bounds_def split: if_splits)

text \<open>The objects of a type: the invariant of the generated \<open>Impl\<close> classes, list bounds included.\<close>

fun shaped :: "ty \<Rightarrow> obj \<Rightarrow> bool" where
  "shaped (TPrim p) x = (\<exists>v. x = OPrim v \<and> prim_of v = p)"
| "shaped (TRec ts) x = (\<exists>vs. x = ORec vs \<and> list_all2 shaped ts vs)"
| "shaped (TOpt t) x = (\<exists>has v. x = OOpt has v \<and> shaped t v)"
| "shaped (TList mx t) x = (\<exists>vs. x = OList vs \<and> list_all (shaped t) vs \<and> (\<forall>m. mx = Some m \<longrightarrow> length vs \<le> m))"
| "shaped (TChoice ts) x = (\<exists>ord vs. x = OChoice ord vs \<and> list_all2 shaped ts vs)"

fun prims :: "ty \<Rightarrow> prim set" where
  "prims (TPrim p) = {p}"
| "prims (TRec ts) = (\<Union>t \<in> set ts. prims t)"
| "prims (TOpt t) = prims t"
| "prims (TList mx t) = prims t"
| "prims (TChoice ts) = (\<Union>t \<in> set ts. prims t)"

lemma shaped_fresh: "(\<And>p. prim_of (g p) = p) \<Longrightarrow> shaped t (fresh g t)"
proof (induction t)
  case (TPrim p)
  then show ?case by (cases p) auto
next
  case (TRec ts)
  then show ?case by (auto simp: list.rel_map intro: list.rel_refl_strong)
next
  case (TChoice ts)
  then show ?case by (auto simp: list.rel_map intro: list.rel_refl_strong)
qed auto

lemma safe_push_items:
  assumes d: "safe E (shaped t) d" and E: "\<And>m. E (UCIException m)"
  shows "list_all (shaped t) acc \<Longrightarrow> (\<And>m. mx = Some m \<Longrightarrow> length acc \<le> m) \<Longrightarrow>
    safe E (\<lambda>vs. shaped (TList mx t) (OList vs)) (push_items mx d n acc)"
proof (induction n arbitrary: acc)
  case 0
  then show ?case by (auto simp: safe_def)
next
  case (Suc n)
  let ?full = "case mx of None \<Rightarrow> False | Some m \<Rightarrow> m \<le> length acc"
  let ?next = "\<lambda>v buf off. if ?full
     then Inl (UCIException (''BoundedList::push_back exceeds maxOccurs='' @ dec_of_nat (the mx)))
     else push_items mx d n (acc @ [v]) buf off"
  have "push_items mx d (Suc n) acc = (\<lambda>buf off. rbind (d buf off) (\<lambda>(v, off). ?next v buf off))"
    by (intro ext) simp
  moreover have "safe E (\<lambda>vs. shaped (TList mx t) (OList vs)) (?next v)" if v: "shaped t v" for v
  proof (cases ?full)
    case True
    then show ?thesis by (simp add: safe_throw E)
  next
    case False
    have "safe E (\<lambda>vs. shaped (TList mx t) (OList vs)) (push_items mx d n (acc @ [v]))"
      using Suc.prems False v by (intro Suc.IH) auto
    with False show ?thesis by simp
  qed
  ultimately show ?case by (simp only: safe_bind [OF d])
qed

lemma safe_deserialize:
  assumes E: "\<And>m. E (UCIException m)"
  shows "\<forall>p. prim_of (g p) = p \<Longrightarrow> shaped t x \<Longrightarrow> \<forall>p \<in> prims t. safe E (\<lambda>v. prim_of v = p) (decode_prim p) \<Longrightarrow>
      safe E (shaped t) (deserialize_at g t x)"
    and "\<forall>p. prim_of (g p) = p \<Longrightarrow> list_all2 shaped ts xs \<Longrightarrow> \<forall>t \<in> set ts. \<forall>p \<in> prims t. safe E (\<lambda>v. prim_of v = p) (decode_prim p) \<Longrightarrow>
      safe E (list_all2 shaped ts) (deserialize_fields g ts xs)"
    and "\<forall>p. prim_of (g p) = p \<Longrightarrow> list_all2 shaped ts xs \<Longrightarrow> \<forall>t \<in> set ts. \<forall>p \<in> prims t. safe E (\<lambda>v. prim_of v = p) (decode_prim p) \<Longrightarrow>
      safe E (\<lambda>r. list_all2 shaped ts (snd r)) (deserialize_variant g ord k ts xs)"
proof (induction g t x and g ts xs and g ord k ts xs
    rule: deserialize_at_deserialize_fields_deserialize_variant.induct)
  case (1 g p v)
  then show ?case by (auto intro!: safe_map elim!: safe_weaken)
next
  case (2 g ts vs)
  then show ?case by (auto intro!: safe_map)
next
  case (3 g t has v)
  have "safe E (shaped (TOpt t)) (\<lambda>buf off. if present then map_decoder (OOpt True) (deserialize_at g t v) buf off
        else Inr (OOpt has v, off))" for present
    using 3 by (cases present) (auto intro!: safe_map safe_return elim!: safe_weaken)
  then show ?case unfolding read_optional_def [abs_def] deserialize_at.simps
    by (rule safe_bind [OF safe_flag [of E, OF E]])
next
  case (4 g mx t vs)
  have "safe E (shaped t) (deserialize_at g t (fresh g t))" using 4 by (simp add: shaped_fresh)
  then have "safe E (shaped (TList mx t)) (map_decoder OList (push_items mx (deserialize_at g t (fresh g t)) n []))" for n
    by (intro safe_map safe_push_items E) auto
  moreover have "safe E (\<lambda>_. True) decode_sequence_length"
    using safe_uint32 [of E, OF E] by (simp add: decode_sequence_length_def [abs_def])
  ultimately show ?case unfolding read_list_def [abs_def] deserialize_at.simps by (intro safe_bind)
next
  case (5 g ts ord vs)
  then have "safe E (\<lambda>r. list_all2 shaped ts (snd r)) (deserialize_variant g ord' 1 ts vs)" for ord' by auto
  then have "safe E (shaped (TChoice ts)) (map_decoder (\<lambda>(c, ws). OChoice (if c then ord' else ord) ws)
      (deserialize_variant g ord' 1 ts vs))" for ord'
    by (intro safe_map) (rule safe_weaken, assumption, auto split: prod.splits)
  then show ?case unfolding read_choice_def [abs_def] deserialize_at.simps
    by (rule safe_bind [OF safe_uint32 [of E, OF E]])
next
  case (7 g t ts v vs)
  have "safe E (list_all2 shaped (t # ts)) (map_decoder (Cons w) (deserialize_fields g ts vs))" if "shaped t w" for w
    using 7 that by (intro safe_map) (auto elim!: safe_weaken)
  moreover have "safe E (shaped t) (deserialize_at g t v)" using 7 by auto
  ultimately show ?case by (simp add: safe_bind)
next
  case (10 g ord k t ts v vs)
  then show ?case by (auto intro!: safe_map elim!: safe_weaken)
qed (auto simp: safe_return)

lemma decode_uuid_raises:
  "decode_uuid buf off = Inl e \<Longrightarrow> is_uci_exception e \<or> e = InvalidArgument ''stoul''"
  by (auto simp: decode_uuid_def raises_defs Let_def rbind_eq_Inl_iff
      split: if_splits dest: check_bounds_raises fromString_raises)

lemma safe_prim:
  "safe (\<lambda>e. is_uci_exception e \<or> (p = PUuid \<and> e = InvalidArgument ''stoul'')) (\<lambda>v. prim_of v = p) (decode_prim p)"
proof (rule safe_decoder)
  show "cdr_decoder (decode_prim p)" by (rule prim.cdr_decoder_axioms)
  show "is_uci_exception e \<or> (p = PUuid \<and> e = InvalidArgument ''stoul'')" if "decode_prim p buf off = Inl e" for buf off e
    using that decode_prim_raises [of p buf off e] decode_uuid_raises [of buf off e] by (cases "p = PUuid") auto
qed (rule decode_prim_type)

lemma deserialize_safe:
  assumes "\<forall>p. prim_of (g p) = p" and "shaped t x" and "off \<le> length buf"
  shows "case deserialize_at g t x buf off of
      Inl e \<Rightarrow> is_uci_exception e \<or> (PUuid \<in> prims t \<and> e = InvalidArgument ''stoul'')
    | Inr (w, off') \<Rightarrow> shaped t w \<and> off \<le> off' \<and> off' \<le> length buf"
proof -
  let ?E = "\<lambda>e. is_uci_exception e \<or> (PUuid \<in> prims t \<and> e = InvalidArgument ''stoul'')"
  have "safe ?E (\<lambda>v. prim_of v = p) (decode_prim p)" if "p \<in> prims t" for p
    using that by (auto intro: safe_weaken [OF safe_prim])
  then have "safe ?E (shaped t) (deserialize_at g t x)"
    using assms by (intro safe_deserialize) auto
  then show ?thesis using assms(3) by (cases rule: safeE) auto
qed

text \<open>
  C7: Whatever the payload, the deserializer of a type leaves an object of the type (list bounds
  included) with the cursor inside the buffer, or raises a UCIException, or, when the type holds a
  uuid, the std::invalid_argument of fromString; nothing else.
\<close>

theorem deserialize_any_payload:
  assumes "\<forall>p. prim_of (g p) = p" and "shaped t x" and "off \<le> length buf"
  shows "case deserialize_at g t x buf off of
      Inl e \<Rightarrow> is_uci_exception e \<or> (PUuid \<in> prims t \<and> e = InvalidArgument ''stoul'')
    | Inr (w, off') \<Rightarrow> shaped t w \<and> off \<le> off' \<and> off' \<le> length buf"
  using deserialize_safe [OF assms] .

definition scalar_zero :: "prim \<Rightarrow> pval" where
  "scalar_zero p = (case p of PBool \<Rightarrow> VBool False | PInt8 \<Rightarrow> VInt8 0 | PUint8 \<Rightarrow> VUint8 0
     | PInt16 \<Rightarrow> VInt16 0 | PUint16 \<Rightarrow> VUint16 0 | PInt32 \<Rightarrow> VInt32 0 | PUint32 \<Rightarrow> VUint32 0
     | PInt64 \<Rightarrow> VInt64 0 | PUint64 \<Rightarrow> VUint64 0 | PFloat \<Rightarrow> VFloat 0 | PDouble \<Rightarrow> VDouble 0
     | PString \<Rightarrow> VString [] | PBytes \<Rightarrow> VBytes [] | PUuid \<Rightarrow> VUuid (UUID zero_octets) | PEnum \<Rightarrow> VEnum 0)"

lemma prim_of_scalar_zero [simp]: "prim_of (scalar_zero p) = p"
  by (cases p) (simp_all add: scalar_zero_def)

theorem deserialize_any_payload_witness:
  "case deserialize_at scalar_zero sample_ty (fresh scalar_zero sample_ty) [1, 2, 3] 0 of
      Inl e \<Rightarrow> is_uci_exception e \<or> (PUuid \<in> prims sample_ty \<and> e = InvalidArgument ''stoul'')
    | Inr (w, off') \<Rightarrow> shaped sample_ty w \<and> 0 \<le> off' \<and> off' \<le> length [1, 2, 3 :: u8]"
  by (rule deserialize_any_payload) (simp_all add: shaped_fresh)

end
