(* ===== verification/Cdr_Registry.thy ===== *)
theory Cdr_Registry
  imports Cdr_Messages
begin

text \<open>
  Type tags (\<open>fnv1a32\<close>, \<open>include/arcal/CdrBridge.h\<close>), the registries that map tags and type names to
  handlers (\<open>externalizer/cdr/CdrRegistry.h\<close>, \<open>externalizer/json/JsonRegistry.h\<close>) and the loops of
  the generated \<open>register_all_*_handlers\<close> (\<open>CDR_REGISTER_ALL_TEMPLATE\<close> and
  \<open>JSON_REGISTER_ALL_TEMPLATE\<close> in \<open>tools/schema_compiler/compiler.py\<close>). Both registries satisfy the
  contract of the locale \<open>handler_registry\<close>, in which the registration loop is verified once.
\<close>

section \<open>FNV-1a type tags\<close>

text \<open>The recursion over a C string ends at the first NUL.\<close>

fun fnv1a32 :: "string \<Rightarrow> u32 \<Rightarrow> u32" where
  "fnv1a32 [] h = h"
| "fnv1a32 (c # s) h =
     (if byte_of_char c = 0 then h else fnv1a32 s ((h XOR ucast (byte_of_char c)) * 16777619))"

definition fnv_offset :: u32 where
  "fnv_offset = 2166136261"

definition type_tag :: "string \<Rightarrow> u32" where
  "type_tag name = fnv1a32 name fnv_offset"

definition c_string :: "string \<Rightarrow> bool" where
  "c_string s = list_all (\<lambda>c. byte_of_char c \<noteq> 0) s"

lemma c_string_simps [simp]:
  "c_string []" "c_string (c # s) \<longleftrightarrow> byte_of_char c \<noteq> 0 \<and> c_string s"
  "c_string (s @ t) \<longleftrightarrow> c_string s \<and> c_string t"
  by (simp_all add: c_string_def)

lemma fnv1a32_append: "c_string s \<Longrightarrow> fnv1a32 (s @ t) h = fnv1a32 t (fnv1a32 s h)"
  by (induction s arbitrary: h) simp_all

text \<open>The FNV prime is odd, so multiplying by it loses nothing; neither does the exclusive or.\<close>

lemma fnv_prime_inverse: "(16777619 :: u32) * 899433627 = 1"
  by simp

lemma fnv_mult_inject: "(a :: u32) * 16777619 = b * 16777619 \<longleftrightarrow> a = b"
proof
  assume "a * 16777619 = b * 16777619"
  then have "a * 16777619 * 899433627 = b * 16777619 * 899433627" by (rule arg_cong)
  then show "a = b" unfolding mult.assoc fnv_prime_inverse by (simp only: mult_1_right)
qed (rule arg_cong)

lemma xor_inject: "(a :: u32) XOR c = b XOR c \<longleftrightarrow> a = b"
proof
  assume "a XOR c = b XOR c"
  then have "(a XOR c) XOR c = (b XOR c) XOR c" by (rule arg_cong)
  then show "a = b" by (simp only: xor.assoc xor_self_eq xor.right_neutral)
qed (rule arg_cong)

lemma fnv1a32_inject: "fnv1a32 s h = fnv1a32 s k \<longleftrightarrow> h = k"
  by (induction s arbitrary: h k) (simp_all add: fnv_mult_inject xor_inject)

lemma ucast_u8_u32_inject: "(ucast (a :: u8) :: u32) = ucast b \<longleftrightarrow> a = b"
proof
  assume "(ucast a :: u32) = ucast b"
  then have "unat (ucast a :: u32) = unat (ucast b :: u32)" by (rule arg_cong)
  then have "unat a = unat b" by (simp add: unsigned_ucast_eq take_bit_nat_eq_self unat_u8_less [THEN less_trans])
  then show "a = b" by (simp only: unsigned_word_eqI)
qed (rule arg_cong)

lemma type_tag_one_character:
  assumes "c_string (p @ [c] @ q)" and "c_string (p @ [d] @ q)" and "c \<noteq> d"
  shows "type_tag (p @ [c] @ q) \<noteq> type_tag (p @ [d] @ q)"
proof -
  let ?h = "fnv1a32 p fnv_offset"
  have "?h XOR ucast (byte_of_char c) \<noteq> ?h XOR ucast (byte_of_char d)"
    using assms(3) by (metis xor_inject xor.commute ucast_u8_u32_inject byte_of_char_inject)
  then show ?thesis using assms by (simp add: type_tag_def fnv1a32_append fnv1a32_inject fnv_mult_inject)
qed

text \<open>
  A misspelt type name never has the tag of the right one: the tags of two names of the same
  length that differ in one character are different.
\<close>

theorem type_tag_detects_one_character:
  assumes "c_string (p @ [c] @ q)" and "c_string (p @ [d] @ q)" and "c \<noteq> d"
  shows "type_tag (p @ [c] @ q) \<noteq> type_tag (p @ [d] @ q)"
  using assms by (rule type_tag_one_character)

theorem type_tag_detects_one_character_witness: "type_tag ''EntityMDT'' \<noteq> type_tag ''EntitzMDT''"
  using type_tag_detects_one_character [of "''Entit''" "CHR ''y''" "''MDT''" "CHR ''z''"]
  by (simp add: byte_of_char_def)

section \<open>The contract of a handler registry\<close>

locale handler_registry =
  fixes inv :: "'r \<Rightarrow> bool" and register :: "'k \<Rightarrow> 'e \<Rightarrow> 'r \<Rightarrow> 'r res"
    and val :: "'e \<Rightarrow> 'h" and look :: "'r \<Rightarrow> 'k \<Rightarrow> 'h option"
  assumes register_free: "inv r \<Longrightarrow> look r k = None \<Longrightarrow> \<exists>r'. register k e r = Inr r'"
    and register_inv: "inv r \<Longrightarrow> register k e r = Inr r' \<Longrightarrow> inv r'"
    and look_register: "inv r \<Longrightarrow> register k e r = Inr r' \<Longrightarrow> look r' k' = (if k' = k then Some (val e) else look r k')"

text \<open>A registry that refuses a second handler for a key.\<close>

locale strict_registry = handler_registry +
  assumes register_taken: "inv r \<Longrightarrow> look r k \<noteq> None \<Longrightarrow> \<exists>m. register k e r = Inl (RuntimeError m)"

text \<open>The loop of the generated registration function.\<close>

definition register_all :: "('k \<Rightarrow> 'e \<Rightarrow> 'r \<Rightarrow> 'r res) \<Rightarrow> ('k \<times> 'e) list \<Rightarrow> 'r \<Rightarrow> 'r res" where
  "register_all register es = foldR (\<lambda>(k, e). register k e) es"

lemma register_all_simps [simp]:
  "register_all register [] r = Inr r"
  "register_all register ((k, e) # es) r = rbind (register k e r) (register_all register es)"
  by (simp_all add: register_all_def)

context handler_registry begin

lemma register_all_inv: "inv r \<Longrightarrow> register_all register es r = Inr r' \<Longrightarrow> inv r'"
proof (induction es arbitrary: r)
  case (Cons x es)
  then obtain r1 where "register (fst x) (snd x) r = Inr r1" "register_all register es r1 = Inr r'"
    by (cases x) (auto simp: rbind_eq_Inr_iff)
  with Cons register_inv show ?case by metis
qed simp

lemma register_all_other:
  "inv r \<Longrightarrow> register_all register es r = Inr r' \<Longrightarrow> k \<notin> fst ` set es \<Longrightarrow> look r' k = look r k"
proof (induction es arbitrary: r)
  case Nil
  then show ?case by simp
next
  case (Cons x es)
  then obtain r1 where r1: "register (fst x) (snd x) r = Inr r1" "register_all register es r1 = Inr r'"
    by (cases x) (auto simp: rbind_eq_Inr_iff)
  with Cons.IH [OF register_inv [OF Cons.prems(1) r1(1)]] Cons.prems look_register [OF Cons.prems(1) r1(1)]
  show ?case by simp
qed

lemma register_all_look:
  "inv r \<Longrightarrow> register_all register es r = Inr r' \<Longrightarrow> distinct (map fst es) \<Longrightarrow> (k, e) \<in> set es \<Longrightarrow>
     look r' k = Some (val e)"
proof (induction es arbitrary: r)
  case Nil
  then show ?case by simp
next
  case (Cons x es)
  obtain k1 e1 where x: "x = (k1, e1)" by (cases x)
  with Cons.prems obtain r1 where r1: "register k1 e1 r = Inr r1" "register_all register es r1 = Inr r'"
    by (auto simp: rbind_eq_Inr_iff)
  have inv: "inv r1" by (rule register_inv [OF Cons.prems(1) r1(1)])
  show ?case
  proof (cases "(k, e) \<in> set es")
    case True
    with Cons.IH [OF inv r1(2)] Cons.prems(3) show ?thesis by simp
  next
    case False
    with Cons.prems(4) x have ke: "k = k1" "e = e1" by auto
    then have "k \<notin> fst ` set es" using Cons.prems(3) x by auto
    then show ?thesis
      using register_all_other [OF inv r1(2)] look_register [OF Cons.prems(1) r1(1)] ke by simp
  qed
qed

lemma register_all_distinct:
  "inv r \<Longrightarrow> distinct (map fst es) \<Longrightarrow> (\<And>k. k \<in> fst ` set es \<Longrightarrow> look r k = None) \<Longrightarrow>
     \<exists>r'. register_all register es r = Inr r'"
proof (induction es arbitrary: r)
  case Nil
  then show ?case by simp
next
  case (Cons x es)
  obtain k e where x: "x = (k, e)" by (cases x)
  obtain r1 where r1: "register k e r = Inr r1" using register_free [OF Cons.prems(1), of k e] Cons.prems(3) x by auto
  have "look r1 k' = None" if "k' \<in> fst ` set es" for k'
    using that Cons.prems(2,3) look_register [OF Cons.prems(1) r1] by (auto simp: x)
  with Cons.IH [OF register_inv [OF Cons.prems(1) r1]] Cons.prems(2) r1 show ?case by (auto simp: x)
qed

end

context strict_registry begin

lemma register_all_succeeds_iff:
  "inv r \<Longrightarrow> (\<exists>r'. register_all register es r = Inr r') \<longleftrightarrow>
     distinct (map fst es) \<and> (\<forall>k \<in> fst ` set es. look r k = None)"
proof (induction es arbitrary: r)
  case Nil
  then show ?case by simp
next
  case (Cons x es)
  obtain k e where x: "x = (k, e)" by (cases x)
  show ?case
  proof (cases "look r k")
    case None
    then obtain r1 where r1: "register k e r = Inr r1" using register_free Cons.prems by blast
    have "look r1 k' = (if k' = k then Some (val e) else look r k')" for k'
      by (rule look_register [OF Cons.prems r1])
    with Cons.IH [OF register_inv [OF Cons.prems r1]] None show ?thesis by (auto simp: x r1)
  next
    case (Some y)
    with register_taken [OF Cons.prems, of k e] show ?thesis by (auto simp: x)
  qed
qed

end

section \<open>CdrRegistry\<close>

text \<open>The handlers of a type, as whatever \<open>'h\<close> stands for: the registry only stores them.\<close>

record 'h cdr_registry =
  table :: "string \<Rightarrow> 'h option"
  tagTable :: "u32 \<Rightarrow> 'h option"
  tagNameTable :: "u32 \<Rightarrow> string option"

definition empty_cdr_registry :: "'h cdr_registry" where
  "empty_cdr_registry = \<lparr>table = (\<lambda>_. None), tagTable = (\<lambda>_. None), tagNameTable = (\<lambda>_. None)\<rparr>"

definition registerHandler :: "string \<Rightarrow> 'h \<Rightarrow> 'h cdr_registry \<Rightarrow> 'h cdr_registry" where
  "registerHandler name h r = r\<lparr>table := (table r)(name \<mapsto> h)\<rparr>"

text \<open>\<open>emplace\<close> does nothing on a key that is present.\<close>

definition emplace :: "'k \<Rightarrow> 'v \<Rightarrow> ('k \<Rightarrow> 'v option) \<Rightarrow> ('k \<Rightarrow> 'v option)" where
  "emplace k v m = (case m k of None \<Rightarrow> m(k \<mapsto> v) | Some _ \<Rightarrow> m)"

definition registerByTag :: "u32 \<Rightarrow> string \<Rightarrow> 'h \<Rightarrow> 'h cdr_registry \<Rightarrow> 'h cdr_registry res" where
  "registerByTag tag name h r =
     (if tagTable r tag \<noteq> None
      then Inl (RuntimeError (''CdrRegistry: duplicate handler for type tag '' @ dec_of_nat (unat tag)))
      else Inr (r\<lparr>tagTable := emplace tag h (tagTable r), tagNameTable := emplace tag name (tagNameTable r)\<rparr>))"

definition lookup :: "'h cdr_registry \<Rightarrow> string \<Rightarrow> 'h res" where
  "lookup r name = (case table r name of
     None \<Rightarrow> Inl (RuntimeError (''CdrRegistry: no handler for type '' @ [CHR 0x27] @ name @ [CHR 0x27]))
   | Some h \<Rightarrow> Inr h)"

definition lookupByTag :: "'h cdr_registry \<Rightarrow> u32 \<Rightarrow> 'h res" where
  "lookupByTag r tag = (case tagTable r tag of
     None \<Rightarrow> Inl (RuntimeError (''CdrRegistry: no handler for type tag '' @ dec_of_nat (unat tag)))
   | Some h \<Rightarrow> Inr h)"

definition typeNameForTag :: "'h cdr_registry \<Rightarrow> u32 \<Rightarrow> string" where
  "typeNameForTag r tag = (case tagNameTable r tag of Some n \<Rightarrow> n | None \<Rightarrow> [])"

definition has_handler :: "'h cdr_registry \<Rightarrow> string \<Rightarrow> bool" where
  "has_handler r name = (table r name \<noteq> None)"

text \<open>One round of \<open>register_all_cdr_handlers\<close>: by name, then by tag.\<close>

definition register_type :: "u32 \<Rightarrow> string \<times> 'h \<Rightarrow> 'h cdr_registry \<Rightarrow> 'h cdr_registry res" where
  "register_type tag e r = registerByTag tag (fst e) (snd e) (registerHandler (fst e) (snd e) r)"

definition register_all_cdr_handlers :: "(string \<times> 'h) list \<Rightarrow> 'h cdr_registry \<Rightarrow> 'h cdr_registry res" where
  "register_all_cdr_handlers types = register_all register_type (map (\<lambda>e. (type_tag (fst e), e)) types)"

text \<open>The state of the registry: a tag has a handler exactly when it has a name.\<close>

definition registry_ok :: "'h cdr_registry \<Rightarrow> bool" where
  "registry_ok r = (\<forall>tag. tagTable r tag = None \<longleftrightarrow> tagNameTable r tag = None)"

lemma registry_ok_None: "registry_ok r \<Longrightarrow> tagNameTable r tag = None \<longleftrightarrow> tagTable r tag = None"
  by (simp add: registry_ok_def)

lemmas registry_defs = registerHandler_def registerByTag_def register_type_def emplace_def

lemma registry_ok_register_type: "registry_ok r \<Longrightarrow> register_type tag e r = Inr r' \<Longrightarrow> registry_ok r'"
proof -
  assume ok: "registry_ok r" and "register_type tag e r = Inr r'"
  then have "tagTable r tag = None"
    and "r' = r\<lparr>table := (table r)(fst e \<mapsto> snd e), tagTable := (tagTable r)(tag \<mapsto> snd e),
      tagNameTable := (tagNameTable r)(tag \<mapsto> fst e)\<rparr>"
    using registry_ok_None [OF ok, of tag] by (auto simp: registry_defs split: if_splits)
  with ok show "registry_ok r'" by (simp add: registry_ok_def)
qed

interpretation by_name: handler_registry "\<lambda>_. True" "\<lambda>name h r. Inr (registerHandler name h r)" "\<lambda>h. h" table
  by standard (auto simp: registry_defs)

interpretation by_tag: strict_registry registry_ok register_type snd tagTable
proof
  show "registry_ok r'" if "registry_ok r" "register_type k e r = Inr r'" for r r' k e
    using that by (rule registry_ok_register_type)
qed (auto simp: registry_defs split: if_splits)

interpretation name_by_tag: strict_registry registry_ok register_type fst tagNameTable
proof
  show "tagNameTable r' k' = (if k' = k then Some (fst e) else tagNameTable r k')"
    if "registry_ok r" "register_type k e r = Inr r'" for r r' k k' e
    using that registry_ok_None [OF that(1), of k] by (auto simp: registry_defs split: if_splits)
qed (auto simp: registry_defs registry_ok_None registry_ok_register_type split: if_splits)

section \<open>What the generated registration leaves\<close>

lemma registry_ok_empty: "registry_ok empty_cdr_registry"
  by (simp add: registry_ok_def empty_cdr_registry_def)

lemma tags_of_types: "map fst (map (\<lambda>e. (type_tag (fst e), e)) types) = map (\<lambda>e. type_tag (fst e)) types"
  by simp

text \<open>By name, the registration does what \<open>registerHandler\<close> alone does.\<close>

lemma register_all_by_name:
  "register_all_cdr_handlers types r = Inr r' \<Longrightarrow> table r = table s \<Longrightarrow>
     \<exists>s'. register_all (\<lambda>name h r. Inr (registerHandler name h r)) types s = Inr s' \<and> table r' = table s'"
proof (induction types arbitrary: r s)
  case Nil
  then show ?case by (simp add: register_all_cdr_handlers_def)
next
  case (Cons e types)
  then obtain r1 where r1: "register_type (type_tag (fst e)) e r = Inr r1" "register_all_cdr_handlers types r1 = Inr r'"
    by (auto simp: register_all_cdr_handlers_def rbind_eq_Inr_iff)
  then have "table r1 = table (registerHandler (fst e) (snd e) s)"
    using Cons.prems(2) by (auto simp: registry_defs split: if_splits)
  with Cons.IH [OF r1(2)] show ?case by (cases e) simp
qed

lemma register_all_cdr_handlers_iff:
  "(\<exists>r. register_all_cdr_handlers types empty_cdr_registry = Inr r) \<longleftrightarrow>
     distinct (map (\<lambda>e. type_tag (fst e)) types)"
  unfolding register_all_cdr_handlers_def by_tag.register_all_succeeds_iff [OF registry_ok_empty] tags_of_types
  by (simp add: empty_cdr_registry_def)

text \<open>
  The registration of the generated types succeeds exactly when no two type names have the same
  tag; a collision is an exception, never a handler silently replaced.
\<close>

theorem registration_succeeds_iff:
  "(\<exists>r. register_all_cdr_handlers types empty_cdr_registry = Inr r) \<longleftrightarrow>
     distinct (map (\<lambda>e. type_tag (fst e)) types)"
  by (rule register_all_cdr_handlers_iff)

lemma registered_types:
  assumes "register_all_cdr_handlers types empty_cdr_registry = Inr r"
  shows "(\<forall>(name, h) \<in> set types. lookup r name = Inr h \<and> lookupByTag r (type_tag name) = Inr h \<and>
      typeNameForTag r (type_tag name) = name \<and> has_handler r name) \<and>
    (\<forall>tag. tag \<notin> (\<lambda>e. type_tag (fst e)) ` set types \<longrightarrow>
      (\<exists>m. lookupByTag r tag = Inl (RuntimeError m)) \<and> typeNameForTag r tag = [])"
proof -
  let ?es = "map (\<lambda>e. (type_tag (fst e), e)) types"
  have reg: "register_all register_type ?es empty_cdr_registry = Inr r"
    using assms by (simp add: register_all_cdr_handlers_def)
  with by_tag.register_all_succeeds_iff [OF registry_ok_empty] have dist: "distinct (map fst ?es)" by blast
  then have "distinct (map type_tag (map fst types))" by (simp add: comp_def)
  then have names: "distinct (map fst types)" by (simp only: distinct_map)
  have "lookup r name = Inr h \<and> lookupByTag r (type_tag name) = Inr h \<and>
      typeNameForTag r (type_tag name) = name \<and> has_handler r name" if mem: "(name, h) \<in> set types" for name h
  proof -
    have es: "(type_tag name, (name, h)) \<in> set ?es" using mem by (auto intro: rev_image_eqI)
    have "tagTable r (type_tag name) = Some h"
      using by_tag.register_all_look [OF registry_ok_empty reg dist es] by simp
    moreover have "tagNameTable r (type_tag name) = Some name"
      using name_by_tag.register_all_look [OF registry_ok_empty reg dist es] by simp
    moreover have "table r name = Some h"
      using register_all_by_name [OF assms refl] by_name.register_all_look [OF TrueI _ names mem] by auto
    ultimately show ?thesis by (simp add: lookup_def lookupByTag_def typeNameForTag_def has_handler_def)
  qed
  moreover have "(\<exists>m. lookupByTag r tag = Inl (RuntimeError m)) \<and> typeNameForTag r tag = []"
    if "tag \<notin> (\<lambda>e. type_tag (fst e)) ` set types" for tag
  proof -
    have "tag \<notin> fst ` set ?es" using that by (auto simp: image_iff)
    then have "tagTable r tag = None" "tagNameTable r tag = None"
      using by_tag.register_all_other [OF registry_ok_empty reg] name_by_tag.register_all_other [OF registry_ok_empty reg]
      by (simp_all add: empty_cdr_registry_def)
    then show ?thesis by (simp add: lookupByTag_def typeNameForTag_def)
  qed
  ultimately show ?thesis by blast
qed

text \<open>
  C25: After the registration every type is found under its name and under its tag, with its own
  handlers, its tag gives its name back, and a tag of no type raises std::runtime_error.
\<close>

theorem registration_complete:
  assumes "register_all_cdr_handlers types empty_cdr_registry = Inr r"
  shows "(\<forall>(name, h) \<in> set types. lookup r name = Inr h \<and> lookupByTag r (type_tag name) = Inr h \<and>
      typeNameForTag r (type_tag name) = name \<and> has_handler r name) \<and>
    (\<forall>tag. tag \<notin> (\<lambda>e. type_tag (fst e)) ` set types \<longrightarrow>
      (\<exists>m. lookupByTag r tag = Inl (RuntimeError m)) \<and> typeNameForTag r tag = [])"
  using registered_types [OF assms] .

definition demo_types :: "(string \<times> nat) list" where
  "demo_types = [(''EntityMDT'', 1), (''EntitzMDT'', 2)]"

lemma demo_types_registered: "\<exists>r. register_all_cdr_handlers demo_types empty_cdr_registry = Inr r"
  unfolding register_all_cdr_handlers_iff
  using type_tag_one_character [of "''Entit''" "CHR ''y''" "''MDT''" "CHR ''z''"]
  by (simp add: demo_types_def byte_of_char_def)

theorem registration_complete_witness:
  "\<exists>r. register_all_cdr_handlers demo_types empty_cdr_registry = Inr r \<and>
    lookupByTag r (type_tag ''EntityMDT'') = Inr 1 \<and> lookup r ''EntitzMDT'' = Inr 2"
proof -
  obtain r where r: "register_all_cdr_handlers demo_types empty_cdr_registry = Inr r"
    using demo_types_registered by blast
  with registration_complete [OF r] show ?thesis by (auto simp: demo_types_def)
qed

section \<open>JsonRegistry\<close>

type_synonym 'h json_registry = "string \<Rightarrow> 'h option"

definition json_registerHandler :: "string \<Rightarrow> 'h \<Rightarrow> 'h json_registry \<Rightarrow> 'h json_registry" where
  "json_registerHandler name h r = r(name \<mapsto> h)"

definition json_lookup :: "'h json_registry \<Rightarrow> string \<Rightarrow> 'h res" where
  "json_lookup r name = (case r name of
     None \<Rightarrow> Inl (RuntimeError (''JsonRegistry: no handler for type '' @ [CHR 0x27] @ name @ [CHR 0x27]))
   | Some h \<Rightarrow> Inr h)"

definition json_has :: "'h json_registry \<Rightarrow> string \<Rightarrow> bool" where
  "json_has r name = (r name \<noteq> None)"

interpretation json: handler_registry "\<lambda>_. True" "\<lambda>name h r. Inr (json_registerHandler name h r)" "\<lambda>h. h" "\<lambda>r. r"
  by standard (auto simp: json_registerHandler_def)

definition register_all_json_handlers :: "(string \<times> 'h) list \<Rightarrow> 'h json_registry \<Rightarrow> 'h json_registry res" where
  "register_all_json_handlers = register_all (\<lambda>name h r. Inr (json_registerHandler name h r))"

lemma json_registration:
  assumes "distinct (map fst types)" and "(name, h) \<in> set types"
  shows "\<exists>r. register_all_json_handlers types (\<lambda>_. None) = Inr r \<and> json_lookup r name = Inr h"
proof -
  obtain r where r: "register_all_json_handlers types (\<lambda>_. None) = Inr r"
    using json.register_all_distinct [OF TrueI assms(1), of "\<lambda>_. None"] by (auto simp: register_all_json_handlers_def)
  then have "r name = Some h"
    using json.register_all_look [OF TrueI _ assms] by (simp only: register_all_json_handlers_def)
  with r show ?thesis by (simp add: json_lookup_def)
qed

end
