(* ===== verification/Cdr_Dispatch.thy ===== *)
theory Cdr_Dispatch
  imports Cdr_Registry
begin

text \<open>
  How a message reaches its CDR handlers: the transport bridge (\<open>src/dds/CdrBridge.cpp\<close>), the
  registration that runs when the library is loaded (\<open>externalizer/cdr/ExternalizerLoader.cpp\<close>), the
  externalizer (\<open>externalizer/cdr/CdrExternalizer.cpp\<close>) and the loader that chooses an externalizer by
  encoding (\<open>src/ExternalizerLoader.cpp\<close>). The dynamic linker is a parameter.
\<close>

section \<open>Accessors and their handlers\<close>

record accessor =
  typeName :: string
  body :: obj

definition getAccessorType :: "accessor \<Rightarrow> u32" where
  "getAccessorType a = type_tag (typeName a)"

text \<open>\<open>CdrHandlers\<close>: the functions take the accessor they change and return it changed.\<close>

record handlers =
  serialize_fn :: "accessor \<Rightarrow> bytes \<Rightarrow> bytes res"
  deserialize_fn :: "bytes \<Rightarrow> accessor \<Rightarrow> accessor res"
  deserialize_at_fn :: "bytes \<Rightarrow> nat \<Rightarrow> accessor \<Rightarrow> (accessor \<times> nat) res"

text \<open>
  The three functions the template emits for a type; the cast to the type fails on another type.
\<close>

definition gen_serialize :: "string \<Rightarrow> accessor \<Rightarrow> bytes \<Rightarrow> bytes res" where
  "gen_serialize name a buf = (if typeName a = name then Inr (serialize buf (body a)) else Inl BadCast)"

definition gen_deserialize_at ::
    "(prim \<Rightarrow> pval) \<Rightarrow> string \<Rightarrow> ty \<Rightarrow> bytes \<Rightarrow> nat \<Rightarrow> accessor \<Rightarrow> (accessor \<times> nat) res" where
  "gen_deserialize_at g name t buf off a =
     (if typeName a = name
      then rbind (deserialize_at g t (body a) buf off) (\<lambda>(w, off). Inr (a\<lparr>body := w\<rparr>, off))
      else Inl BadCast)"

definition gen_deserialize :: "(prim \<Rightarrow> pval) \<Rightarrow> string \<Rightarrow> ty \<Rightarrow> bytes \<Rightarrow> accessor \<Rightarrow> accessor res" where
  "gen_deserialize g name t buf a = rbind (gen_deserialize_at g name t buf 0 a) (\<lambda>(a, off). Inr a)"

definition gen_handlers :: "(prim \<Rightarrow> pval) \<Rightarrow> string \<times> ty \<Rightarrow> string \<times> handlers" where
  "gen_handlers g e = (fst e,
     \<lparr>serialize_fn = gen_serialize (fst e),
      deserialize_fn = gen_deserialize g (fst e) (snd e),
      deserialize_at_fn = gen_deserialize_at g (fst e) (snd e)\<rparr>)"

text \<open>\<open>MsgType::create\<close>.\<close>

definition create :: "(prim \<Rightarrow> pval) \<Rightarrow> string \<times> ty \<Rightarrow> accessor" where
  "create g e = \<lparr>typeName = fst e, body = fresh g (snd e)\<rparr>"

section \<open>The bridge\<close>

text \<open>
  The registry singleton and the three function pointers of \<open>CdrBridge.cpp\<close>. The bridge functions
  look at the registry when they are called. An externalizer is whatever \<open>'e\<close> stands for.
\<close>

record 'e bridge =
  registry :: "handlers cdr_registry"
  g_serialize :: "(handlers cdr_registry \<Rightarrow> accessor \<Rightarrow> bytes \<Rightarrow> bytes res) option"
  g_deserialize :: "(handlers cdr_registry \<Rightarrow> u32 \<Rightarrow> bytes \<Rightarrow> nat \<Rightarrow> accessor \<Rightarrow> accessor res) option"
  g_extFactory :: "'e option"

definition not_loaded :: "'e bridge" where
  "not_loaded = \<lparr>registry = empty_cdr_registry, g_serialize = None, g_deserialize = None, g_extFactory = None\<rparr>"

definition registerCdrBridge ::
    "(handlers cdr_registry \<Rightarrow> accessor \<Rightarrow> bytes \<Rightarrow> bytes res) \<Rightarrow>
     (handlers cdr_registry \<Rightarrow> u32 \<Rightarrow> bytes \<Rightarrow> nat \<Rightarrow> accessor \<Rightarrow> accessor res) \<Rightarrow> 'e bridge \<Rightarrow> 'e bridge" where
  "registerCdrBridge s d b = b\<lparr>g_serialize := Some s, g_deserialize := Some d\<rparr>"

definition registerCdrExternalizerFactory :: "'e \<Rightarrow> 'e bridge \<Rightarrow> 'e bridge" where
  "registerCdrExternalizerFactory f b = b\<lparr>g_extFactory := Some f\<rparr>"

definition arcalMakeCdrExternalizer :: "'e bridge \<Rightarrow> 'e res" where
  "arcalMakeCdrExternalizer b = (case g_extFactory b of
     None \<Rightarrow> Inl (UCIException ''CDR externalizer not available'') | Some f \<Rightarrow> Inr f)"

definition cdrSerialize :: "'e bridge \<Rightarrow> accessor \<Rightarrow> bytes \<Rightarrow> bytes res" where
  "cdrSerialize b a out = (case g_serialize b of
     None \<Rightarrow> Inl (UCIException ''CDR bridge not registered'') | Some s \<Rightarrow> s (registry b) a out)"

definition cdrTypeTag :: "accessor \<Rightarrow> u32" where
  "cdrTypeTag a = getAccessorType a"

definition cdrDeserialize :: "'e bridge \<Rightarrow> u32 \<Rightarrow> bytes \<Rightarrow> accessor \<Rightarrow> accessor res" where
  "cdrDeserialize b tag input a = (case g_deserialize b of
     None \<Rightarrow> Inl (UCIException ''CDR bridge not registered'') | Some d \<Rightarrow> d (registry b) tag input 0 a)"

definition bridge_serialize :: "handlers cdr_registry \<Rightarrow> accessor \<Rightarrow> bytes \<Rightarrow> bytes res" where
  "bridge_serialize r a out = rbind (lookupByTag r (getAccessorType a)) (\<lambda>h. serialize_fn h a out)"

definition bridge_deserialize_by_tag ::
    "handlers cdr_registry \<Rightarrow> u32 \<Rightarrow> bytes \<Rightarrow> nat \<Rightarrow> accessor \<Rightarrow> accessor res" where
  "bridge_deserialize_by_tag r tag input offset a =
     rbind (lookupByTag r tag) (\<lambda>h. rbind (deserialize_at_fn h input offset a) (\<lambda>(a, off). Inr a))"

text \<open>\<open>CdrAutoRegister\<close>: what the static initialiser does, once.\<close>

definition auto_register :: "(prim \<Rightarrow> pval) \<Rightarrow> (string \<times> ty) list \<Rightarrow> 'e \<Rightarrow> 'e bridge \<Rightarrow> 'e bridge res" where
  "auto_register g schema ext b =
     rbind (register_all_cdr_handlers (map (gen_handlers g) schema) (registry b)) (\<lambda>r.
       Inr (registerCdrExternalizerFactory ext
              (registerCdrBridge bridge_serialize bridge_deserialize_by_tag (b\<lparr>registry := r\<rparr>))))"

section \<open>The externalizer\<close>

definition cdr_read :: "handlers cdr_registry \<Rightarrow> bytes \<Rightarrow> accessor \<Rightarrow> accessor res" where
  "cdr_read r vec a =
     catch is_runtime_error
       (rbind (lookupByTag r (getAccessorType a)) (\<lambda>h. deserialize_fn h vec a))
       (\<lambda>e. Inl (UCIException (''CdrExternalizer::read: '' @ what e)))"

definition cdr_write :: "handlers cdr_registry \<Rightarrow> accessor \<Rightarrow> bytes \<Rightarrow> bytes res" where
  "cdr_write r a vec =
     catch is_runtime_error
       (rbind (lookupByTag r (getAccessorType a)) (\<lambda>h. serialize_fn h a vec))
       (\<lambda>e. Inl (UCIException (''CdrExternalizer::write: '' @ what e)))"

text \<open>The stream and string overloads; a stream is the characters it holds or has been given.\<close>

definition cdr_read_stream :: "handlers cdr_registry \<Rightarrow> string \<Rightarrow> accessor \<Rightarrow> accessor res" where
  "cdr_read_stream r istream a = cdr_read r (map byte_of_char istream) a"

definition cdr_read_string :: "handlers cdr_registry \<Rightarrow> string \<Rightarrow> accessor \<Rightarrow> accessor res" where
  "cdr_read_string r str a = cdr_read r (map byte_of_char str) a"

definition cdr_write_stream :: "handlers cdr_registry \<Rightarrow> accessor \<Rightarrow> string \<Rightarrow> string res" where
  "cdr_write_stream r a ostream = rbind (cdr_write r a []) (\<lambda>bytes. Inr (ostream @ map char_of_byte bytes))"

definition cdr_write_string :: "handlers cdr_registry \<Rightarrow> accessor \<Rightarrow> string \<Rightarrow> string res" where
  "cdr_write_string r a str = rbind (cdr_write r a []) (\<lambda>bytes. Inr (map char_of_byte bytes))"

section \<open>The externalizer loader\<close>

text \<open>\<open>PLUGIN_MAP\<close>.\<close>

definition plugin_map :: "string \<Rightarrow> string option" where
  "plugin_map = [''JSON'' \<mapsto> ''libarcal_externalizer_json.so'']"

text \<open>
  \<open>dlopen\<close> gives a handle or the message of \<open>dlerror\<close>, \<open>dlsym\<close> the factory if the symbol is there.
\<close>

definition loadPlugin ::
    "(string \<Rightarrow> string + 'hd) \<Rightarrow> ('hd \<Rightarrow> string \<Rightarrow> 'e option) \<Rightarrow> string \<Rightarrow> 'e res" where
  "loadPlugin dlopen dlsym soname = (case dlopen soname of
     Inl err \<Rightarrow> Inl (UCIException (''ExternalizerLoader: cannot load '' @ [CHR 0x27] @ soname @ [CHR 0x27] @ '': '' @ err))
   | Inr handle \<Rightarrow> (case dlsym handle ''arcal_create_externalizer'' of
       None \<Rightarrow> Inl (UCIException (''ExternalizerLoader: '' @ [CHR 0x27] @ soname @ [CHR 0x27] @
                 '' does not export arcal_create_externalizer''))
     | Some factory \<Rightarrow> Inr factory))"

definition getExternalizer ::
    "(string \<Rightarrow> string + 'hd) \<Rightarrow> ('hd \<Rightarrow> string \<Rightarrow> 'e option) \<Rightarrow> 'e bridge \<Rightarrow> string \<Rightarrow> string \<Rightarrow> string \<Rightarrow> 'e res" where
  "getExternalizer dlopen dlsym b encoding schemaVersion calApiVersion =
     (if encoding = ''CDR'' then arcalMakeCdrExternalizer b
      else (case plugin_map encoding of
        None \<Rightarrow> Inl (UCIException (''ExternalizerLoader: unknown encoding '' @ [CHR 0x27] @ encoding @ [CHR 0x27]))
      | Some soname \<Rightarrow> loadPlugin dlopen dlsym soname))"

section \<open>The loaded library\<close>

lemma auto_register_eq_Inr:
  "auto_register g schema ext b = Inr b' \<longleftrightarrow>
     (\<exists>r. register_all_cdr_handlers (map (gen_handlers g) schema) (registry b) = Inr r \<and>
       b' = \<lparr>registry = r, g_serialize = Some bridge_serialize, g_deserialize = Some bridge_deserialize_by_tag,
             g_extFactory = Some ext\<rparr>)"
  by (cases b) (auto simp: auto_register_def rbind_eq_Inr_iff registerCdrBridge_def registerCdrExternalizerFactory_def)

lemma loaded_lookup:
  assumes "auto_register g schema ext not_loaded = Inr b" and "(name, t) \<in> set schema"
  shows "lookupByTag (registry b) (type_tag name) = Inr (snd (gen_handlers g (name, t)))"
proof -
  from assms(1) have "register_all_cdr_handlers (map (gen_handlers g) schema) empty_cdr_registry = Inr (registry b)"
    by (auto simp: auto_register_eq_Inr not_loaded_def)
  from registered_types [OF this] assms(2) show ?thesis
    by (auto simp: gen_handlers_def)
qed

lemma auto_register_iff:
  "(\<exists>b. auto_register g schema ext not_loaded = Inr b) \<longleftrightarrow> distinct (map (\<lambda>e. type_tag (fst e)) schema)"
  using register_all_cdr_handlers_iff [of "map (gen_handlers g) schema"]
  by (auto simp: auto_register_eq_Inr not_loaded_def comp_def gen_handlers_def)

lemma cdr_write_loaded:
  assumes "auto_register g schema ext not_loaded = Inr b" and "(name, t) \<in> set schema"
  shows "cdr_write (registry b) \<lparr>typeName = name, body = v\<rparr> vec = Inr (serialize vec v)"
  using loaded_lookup [OF assms] by (simp add: cdr_write_def getAccessorType_def gen_handlers_def gen_serialize_def)

lemma cdr_read_loaded:
  assumes "auto_register g schema ext not_loaded = Inr b" and "(name, t) \<in> set schema"
  shows "cdr_read (registry b) vec \<lparr>typeName = name, body = x\<rparr> =
    (case deserialize_at g t x vec 0 of
       Inl e \<Rightarrow> if is_runtime_error e then Inl (UCIException (''CdrExternalizer::read: '' @ what e)) else Inl e
     | Inr (w, off) \<Rightarrow> Inr \<lparr>typeName = name, body = w\<rparr>)"
  using loaded_lookup [OF assms]
  by (simp add: cdr_read_def getAccessorType_def gen_handlers_def gen_deserialize_def gen_deserialize_at_def
      split: sum.splits)

text \<open>
  What the CDR externalizer writes it reads back: for every type of the schema, a message written
  to a byte vector (or to a string) and read into a blank accessor of the type is the same message.
\<close>

theorem cdr_externalizer_round_trip:
  assumes "auto_register g schema ext not_loaded = Inr b" and "(name, t) \<in> set schema"
    and "has_type t v" and "blank t old"
  shows "\<exists>vec str w. cdr_write (registry b) \<lparr>typeName = name, body = v\<rparr> [] = Inr vec \<and>
      cdr_write_string (registry b) \<lparr>typeName = name, body = v\<rparr> before = Inr str \<and>
      cdr_read (registry b) vec \<lparr>typeName = name, body = old\<rparr> = Inr \<lparr>typeName = name, body = w\<rparr> \<and>
      cdr_read_string (registry b) str \<lparr>typeName = name, body = old\<rparr> = Inr \<lparr>typeName = name, body = w\<rparr> \<and>
      msg_of w = msg_of v"
proof -
  obtain w where "deserialize_at g t old (serialize [] v) 0 = Inr (w, length (serialize [] v))" "msg_of w = msg_of v"
    using codes_whole [OF codes_message(1) [OF assms(3,4)], of g "[]" "[]"] by auto
  then show ?thesis
    by (simp add: cdr_write_string_def cdr_read_string_def cdr_write_loaded [OF assms(1,2)]
        cdr_read_loaded [OF assms(1,2)])
qed

text \<open>A schema with one type, loaded.\<close>

definition sample_schema :: "(string \<times> ty) list" where
  "sample_schema = [(''SampleMDT'', sample_ty)]"

lemma sample_loaded: "\<exists>b. auto_register g sample_schema ext not_loaded = Inr b"
  unfolding auto_register_iff by (simp add: sample_schema_def)

theorem cdr_externalizer_round_trip_witness:
  "\<exists>b vec w. auto_register scalar_zero sample_schema () not_loaded = Inr b \<and>
     cdr_write (registry b) \<lparr>typeName = ''SampleMDT'', body = sample_obj\<rparr> [] = Inr vec \<and>
     cdr_read (registry b) vec (create scalar_zero (''SampleMDT'', sample_ty)) = Inr \<lparr>typeName = ''SampleMDT'', body = w\<rparr> \<and>
     msg_of w = msg_of sample_obj"
proof -
  obtain b where b: "auto_register scalar_zero sample_schema () not_loaded = Inr b"
    by (rule exE [OF sample_loaded])
  have "(''SampleMDT'', sample_ty) \<in> set sample_schema" by (simp add: sample_schema_def)
  from cdr_externalizer_round_trip [OF b this sample_has_type blank_fresh] b
  show ?thesis unfolding create_def fst_conv snd_conv by blast
qed

text \<open>
  The errors of a read: for a type of the schema and an accessor of the type, a read of any bytes
  succeeds with an accessor of the type, or raises a UCIException, or, when the type holds a uuid,
  lets a std::invalid_argument through that the handler clause does not match.
\<close>

theorem cdr_read_any_bytes:
  assumes "auto_register g schema ext not_loaded = Inr b" and "(name, t) \<in> set schema"
    and "\<forall>p. prim_of (g p) = p" and "shaped t x"
  shows "case cdr_read (registry b) vec \<lparr>typeName = name, body = x\<rparr> of
      Inl e \<Rightarrow> is_uci_exception e \<or> (PUuid \<in> prims t \<and> e = InvalidArgument ''stoul'')
    | Inr a \<Rightarrow> typeName a = name \<and> shaped t (body a)"
  using deserialize_safe [OF assms(3,4), of 0 vec]
  by (simp add: cdr_read_loaded [OF assms(1,2)] split: sum.splits prod.splits if_splits)

theorem cdr_read_any_bytes_witness:
  "\<exists>b. auto_register scalar_zero sample_schema () not_loaded = Inr b \<and>
    (case cdr_read (registry b) [1, 2, 3] (create scalar_zero (''SampleMDT'', sample_ty)) of
      Inl e \<Rightarrow> is_uci_exception e \<or> (PUuid \<in> prims sample_ty \<and> e = InvalidArgument ''stoul'')
    | Inr a \<Rightarrow> typeName a = ''SampleMDT'' \<and> shaped sample_ty (body a))"
proof -
  obtain b where b: "auto_register scalar_zero sample_schema () not_loaded = Inr b"
    by (rule exE [OF sample_loaded])
  have "(''SampleMDT'', sample_ty) \<in> set sample_schema" by (simp add: sample_schema_def)
  have "shaped sample_ty (fresh scalar_zero sample_ty)" by (simp add: shaped_fresh)
  from cdr_read_any_bytes [OF b \<open>(''SampleMDT'', sample_ty) \<in> set sample_schema\<close> allI this,
      OF prim_of_scalar_zero] b
  show ?thesis unfolding create_def fst_conv snd_conv by (intro exI conjI)
qed

text \<open>
  The exception that escapes: a payload of a message with a uuid whose text is not hexadecimal
  makes \<open>CdrExternalizer::read\<close> raise std::invalid_argument, not the UCIException its handler clause is
  there to raise.
\<close>

theorem cdr_read_leaks_invalid_argument:
  "\<exists>vec b. auto_register scalar_zero [(''IdMDT'', TPrim PUuid)] () not_loaded = Inr b \<and>
     cdr_read (registry b) vec (create scalar_zero (''IdMDT'', TPrim PUuid)) = Inl (InvalidArgument ''stoul'')"
proof -
  let ?s = "''zz000000-0000-0000-0000-000000000000''"
  obtain b where b: "auto_register scalar_zero [(''IdMDT'', TPrim PUuid)] () not_loaded = Inr b"
    using auto_register_iff [of scalar_zero "[(''IdMDT'', TPrim PUuid)]" "()"] by auto
  have "fromString ?s = Inl (InvalidArgument ''stoul'')"
    by (simp add: fromString_def upt_16 stoul16_def hex_val_def isspace_def hex_value_def)
  moreover have "decode_string (encode_string [] ?s) 0 = Inr (?s, length (encode_string [] ?s))"
    using str.dec_enc [of ?s "[]" "[]"] by simp
  ultimately have "decode_uuid (encode_string [] ?s) 0 = Inl (InvalidArgument ''stoul'')"
    by (simp add: decode_uuid_def)
  then have "cdr_read (registry b) (encode_string [] ?s) (create scalar_zero (''IdMDT'', TPrim PUuid)) =
      Inl (InvalidArgument ''stoul'')"
    using cdr_read_loaded [OF b, of "''IdMDT''" "TPrim PUuid" "encode_string [] ?s" "fresh scalar_zero (TPrim PUuid)"]
    by (simp add: create_def map_decoder_def)
  with b show ?thesis by blast
qed

text \<open>
  \<open>CdrExternalizer::read\<close> does not reset the accessor it reads into: a message whose optional
  field is absent, read into an accessor in which the field is present, leaves the old value in place.
\<close>

theorem cdr_read_keeps_stale_optional:
  assumes "auto_register g schema ext not_loaded = Inr b" and "(name, TRec [TOpt t]) \<in> set schema"
  shows "\<exists>vec. cdr_write (registry b) \<lparr>typeName = name, body = ORec [OOpt False u]\<rparr> [] = Inr vec \<and>
    cdr_read (registry b) vec \<lparr>typeName = name, body = ORec [OOpt True v]\<rparr> =
      Inr \<lparr>typeName = name, body = ORec [OOpt True v]\<rparr>"
proof -
  have "decode_optional_flag (encode_optional_flag [] False @ []) 0 = Inr (False, length (encode_optional_flag [] False))"
    using flag.dec_enc [OF TrueI, of "[]" False "[]"] by simp
  then show ?thesis
    by (simp add: cdr_write_loaded [OF assms] cdr_read_loaded [OF assms] read_optional_def map_decoder_def)
qed

theorem cdr_read_keeps_stale_optional_witness:
  "\<exists>b :: nat bridge. \<exists>vec. auto_register scalar_zero [(''OptMDT'', TRec [TOpt (TPrim PInt8)])] 0 not_loaded = Inr b \<and>
    cdr_read (registry b) vec \<lparr>typeName = ''OptMDT'', body = ORec [OOpt True (OPrim (VInt8 7))]\<rparr> =
      Inr \<lparr>typeName = ''OptMDT'', body = ORec [OOpt True (OPrim (VInt8 7))]\<rparr>"
proof -
  obtain b where b: "auto_register scalar_zero [(''OptMDT'', TRec [TOpt (TPrim PInt8)])] (0 :: nat) not_loaded = Inr b"
    using auto_register_iff [of scalar_zero "[(''OptMDT'', TRec [TOpt (TPrim PInt8)])]" "0 :: nat"] by auto
  from cdr_read_keeps_stale_optional [OF b, where name = "''OptMDT''" and t = "TPrim PInt8"] b
  show ?thesis by (metis list.set_intros(1))
qed

section \<open>Choosing an externalizer\<close>

text \<open>
  The encoding string never names the library to load: the encodings are CDR and JSON, every
  other one is a UCIException, and two dynamic linkers that agree on the one fixed plugin give the same
  result on every encoding.
\<close>

theorem encoding_is_closed:
  assumes "dlopen ''libarcal_externalizer_json.so'' = dlopen' ''libarcal_externalizer_json.so''"
  shows "getExternalizer dlopen dlsym b encoding schemaVersion calApiVersion =
      getExternalizer dlopen' dlsym b encoding schemaVersion calApiVersion \<and>
    (encoding \<noteq> ''CDR'' \<longrightarrow> encoding \<noteq> ''JSON'' \<longrightarrow>
      (\<exists>m. getExternalizer dlopen dlsym b encoding schemaVersion calApiVersion = Inl (UCIException m)))"
  using assms by (simp add: getExternalizer_def plugin_map_def loadPlugin_def)

theorem encoding_is_closed_witness:
  "\<exists>m. getExternalizer (\<lambda>_. Inl ''no such file'') (\<lambda>(_ :: nat) _. Some (0 :: nat)) not_loaded ''../evil.so'' [] [] =
    Inl (UCIException m)"
  using encoding_is_closed [of "\<lambda>_. Inl ''no such file''" "\<lambda>_. Inl ''no such file''" "\<lambda>_ _. Some 0" not_loaded "''../evil.so''"]
  by simp

end
