(* ===== verification/Dds_Transport.thy ===== *)
theory Dds_Transport
  imports Cdr_Dispatch
begin

text \<open>
  Messages over DDS: the typed writer and reader (\<open>src/dds/DdsWriter.h\<close>, \<open>src/dds/DdsReader.h\<close>), their
  cores (\<open>DdsWriterCore.cpp\<close>, \<open>DdsReaderCore.cpp\<close>) and the QoS mapping (\<open>QosMapper.h\<close>). What the DDS
  middleware keeps for a data reader is the list \<open>queue\<close>; how samples get from a data writer into it is
  the middleware's business. The background thread of the reader is in \<open>Dds_Listeners\<close>.
\<close>

section \<open>Writer\<close>

text \<open>\<open>OpaquePayload\<close> with the \<open>valid\<close> flag of its sample info.\<close>

record sample =
  valid :: bool
  sample_tag :: u32
  sample_data :: bytes

record writer =
  w_closed :: bool
  w_core_closed :: bool
  written :: "sample list"

definition new_writer :: writer where
  "new_writer = \<lparr>w_closed = False, w_core_closed = False, written = []\<rparr>"

definition core_write :: "u32 \<Rightarrow> bytes \<Rightarrow> writer \<Rightarrow> writer" where
  "core_write tag bytes w =
     (if w_core_closed w then w
      else w\<lparr>written := written w @ [\<lparr>valid = True, sample_tag = tag, sample_data = bytes\<rparr>]\<rparr>)"

definition writer_write :: "'e bridge \<Rightarrow> accessor \<Rightarrow> writer \<Rightarrow> writer res" where
  "writer_write b a w =
     (if w_closed w then Inl (UCIException ''DdsWriter: write on closed writer'')
      else rbind (cdrSerialize b a []) (\<lambda>bytes. Inr (core_write (cdrTypeTag a) bytes w)))"

definition core_close :: "writer \<Rightarrow> writer" where
  "core_close w = w\<lparr>w_core_closed := True\<rparr>"

definition writer_close :: "writer \<Rightarrow> writer" where
  "writer_close w = core_close (w\<lparr>w_closed := True\<rparr>)"

section \<open>Reader\<close>

text \<open>
  The loop of \<open>take\<close> over the samples the middleware handed out: \<open>reader.take()\<close> has removed all of
  them from the queue.
\<close>

fun take_loop :: "nat \<Rightarrow> sample list \<Rightarrow> sample list \<Rightarrow> sample list" where
  "take_loop maxSamples out [] = out"
| "take_loop maxSamples out (s # ss) =
     (if \<not> valid s then take_loop maxSamples out ss
      else if 0 < maxSamples \<and> maxSamples \<le> length out then out
      else take_loop maxSamples (out @ [s]) ss)"

definition core_take :: "nat \<Rightarrow> sample list \<Rightarrow> sample list \<times> sample list" where
  "core_take maxSamples queue = (take_loop maxSamples [] queue, [])"

definition takeNow :: "nat \<Rightarrow> sample list \<Rightarrow> sample list \<times> sample list" where
  "takeNow maxSamples queue = core_take maxSamples queue"

text \<open>The wait ends with the samples that came in meanwhile, at the timeout or by an exception it swallows.\<close>

definition waitAndTake :: "sample list \<Rightarrow> nat \<Rightarrow> sample list \<Rightarrow> sample list \<times> sample list" where
  "waitAndTake arrived maxSamples queue = core_take maxSamples (queue @ arrived)"

text \<open>A listener is a pointer, here a number; a delivery is a call \<open>handleMessage(msg)\<close> on it.\<close>

type_synonym listener = nat
type_synonym delivery = "listener \<times> accessor"

text \<open>The message of a sample: None is the sample of another type, silently dropped.\<close>

definition decode_sample :: "'e bridge \<Rightarrow> (prim \<Rightarrow> pval) \<Rightarrow> string \<times> ty \<Rightarrow> sample \<Rightarrow> accessor option res" where
  "decode_sample b g e s =
     (let msg = create g e in
      if sample_tag s \<noteq> cdrTypeTag msg then Inr None
      else rbind (cdrDeserialize b (sample_tag s) (sample_data s) msg) (\<lambda>msg. Inr (Some msg)))"

definition dispatchOne :: "'e bridge \<Rightarrow> (prim \<Rightarrow> pval) \<Rightarrow> string \<times> ty \<Rightarrow> listener option \<Rightarrow> listener list \<Rightarrow> sample \<Rightarrow>
    delivery list res" where
  "dispatchOne b g e callListener listeners s =
     rbind (decode_sample b g e s) (\<lambda>m. case m of
       None \<Rightarrow> Inr []
     | Some msg \<Rightarrow> Inr (map (\<lambda>l. (l, msg)) ((case callListener of None \<Rightarrow> [] | Some l \<Rightarrow> [l]) @ listeners)))"

text \<open>The loop over the samples: the deliveries made, and the exception that ended it, if any.\<close>

fun dispatch_all :: "(sample \<Rightarrow> delivery list res) \<Rightarrow> sample list \<Rightarrow> delivery list \<times> exn option" where
  "dispatch_all f [] = ([], None)"
| "dispatch_all f (s # ss) = (case f s of
     Inl e \<Rightarrow> ([], Some e)
   | Inr ds \<Rightarrow> let (ds', e) = dispatch_all f ss in (ds @ ds', e))"

record reader =
  r_closed :: bool
  r_listeners :: "listener list"
  queue :: "sample list"

text \<open>
  \<open>read\<close> and \<open>readNoWait\<close>: what is returned, the deliveries, and the reader that is left. The wait
  is the middleware's: \<open>arrived\<close> are the samples that came in before the timeout.
\<close>

definition readNoWait :: "'e bridge \<Rightarrow> (prim \<Rightarrow> pval) \<Rightarrow> string \<times> ty \<Rightarrow> nat \<Rightarrow> listener \<Rightarrow> reader \<Rightarrow>
    nat res \<times> delivery list \<times> reader" where
  "readNoWait b g e n l r =
     (if r_closed r then (Inl (UCIException ''DdsReader: readNoWait on closed reader''), [], r)
      else let (raw, rest) = takeNow n (queue r);
               (ds, err) = dispatch_all (dispatchOne b g e (Some l) (r_listeners r)) raw
           in (case err of None \<Rightarrow> Inr (length raw) | Some x \<Rightarrow> Inl x, ds, r\<lparr>queue := rest\<rparr>))"

definition reader_read :: "'e bridge \<Rightarrow> (prim \<Rightarrow> pval) \<Rightarrow> string \<times> ty \<Rightarrow> sample list \<Rightarrow> nat \<Rightarrow> listener \<Rightarrow> reader \<Rightarrow>
    nat res \<times> delivery list \<times> reader" where
  "reader_read b g e arrived n l r =
     (if r_closed r then (Inl (UCIException ''DdsReader: read on closed reader''), [], r)
      else let (raw, rest) = waitAndTake arrived n (queue r);
               (ds, err) = dispatch_all (dispatchOne b g e (Some l) (r_listeners r)) raw
           in (case err of None \<Rightarrow> Inr (length raw) | Some x \<Rightarrow> Inl x, ds, r\<lparr>queue := rest\<rparr>))"

text \<open>The listeners of a reader and its \<open>close\<close>, as one thread sees them.\<close>

definition addListener :: "listener \<Rightarrow> reader \<Rightarrow> reader" where
  "addListener l r = r\<lparr>r_listeners := r_listeners r @ [l]\<rparr>"

definition removeListener :: "listener \<Rightarrow> reader \<Rightarrow> reader" where
  "removeListener l r = r\<lparr>r_listeners := filter (\<lambda>k. k \<noteq> l) (r_listeners r)\<rparr>"

definition reader_close :: "reader \<Rightarrow> reader" where
  "reader_close r = r\<lparr>r_closed := True\<rparr>"

section \<open>Taking samples\<close>

lemma take_loop_eq:
  "length out \<le> n \<or> n = 0 \<Longrightarrow>
     take_loop n out ss = out @ (if n = 0 then filter valid ss else take (n - length out) (filter valid ss))"
proof (induction ss arbitrary: out)
  case Nil
  then show ?case by simp
next
  case (Cons s ss)
  show ?case
  proof (cases "valid s \<and> 0 < n \<and> n \<le> length out")
    case True
    with Cons.prems have "n = length out" by simp
    with True show ?thesis by simp
  next
    case False
    with Cons.IH [of "out @ [s]"] Cons.IH [of out] Cons.prems show ?thesis
      by (auto simp: take_Cons' Suc_diff_le)
  qed
qed

text \<open>
  \<open>takeNow(n)\<close> returns the first n valid samples of the queue in order (all of them for n = 0) and
  leaves the queue empty: the valid samples after the first n are returned by no later call.
\<close>

theorem take_returns_a_prefix_and_drops_the_rest:
  "core_take n q = ((if n = 0 then filter valid q else take n (filter valid q)), [])"
  using take_loop_eq [of "[]" n q] by (simp add: core_take_def)

lemma take_drops_second_sample:
  "core_take 1 [\<lparr>valid = True, sample_tag = 1, sample_data = []\<rparr>, \<lparr>valid = True, sample_tag = 2, sample_data = []\<rparr>] =
     ([\<lparr>valid = True, sample_tag = 1, sample_data = []\<rparr>], [])"
  by (simp add: core_take_def)

section \<open>From writer to listener\<close>

lemma cdrSerialize_loaded:
  assumes "auto_register g schema ext not_loaded = Inr b" and "(name, t) \<in> set schema"
  shows "cdrSerialize b \<lparr>typeName = name, body = v\<rparr> out = Inr (serialize out v)"
proof -
  from assms(1) have "g_serialize b = Some bridge_serialize" by (auto simp: auto_register_eq_Inr)
  with loaded_lookup [OF assms] show ?thesis
    by (simp add: cdrSerialize_def bridge_serialize_def getAccessorType_def gen_handlers_def gen_serialize_def)
qed

lemma cdrDeserialize_loaded:
  assumes "auto_register g schema ext not_loaded = Inr b" and "(name, t) \<in> set schema"
  shows "cdrDeserialize b (type_tag name) vec \<lparr>typeName = name, body = x\<rparr> =
    rbind (deserialize_at g t x vec 0) (\<lambda>(w, off). Inr \<lparr>typeName = name, body = w\<rparr>)"
proof -
  from assms(1) have "g_deserialize b = Some bridge_deserialize_by_tag" by (auto simp: auto_register_eq_Inr)
  with loaded_lookup [OF assms] show ?thesis
    by (simp add: cdrDeserialize_def bridge_deserialize_by_tag_def gen_handlers_def gen_deserialize_at_def
        rbind_assoc split: sum.splits prod.splits) (cases "deserialize_at g t x vec 0"; auto)
qed

definition sample_of :: "string \<Rightarrow> obj \<Rightarrow> sample" where
  "sample_of name v = \<lparr>valid = True, sample_tag = type_tag name, sample_data = serialize [] v\<rparr>"

lemma write_all:
  assumes "auto_register g schema ext not_loaded = Inr b" and "(name, t) \<in> set schema"
  shows "\<not> w_closed w \<Longrightarrow> \<not> w_core_closed w \<Longrightarrow>
    foldR (writer_write b) (map (\<lambda>v. \<lparr>typeName = name, body = v\<rparr>) vs) w =
      Inr (w\<lparr>written := written w @ map (sample_of name) vs\<rparr>)"
proof (induction vs arbitrary: w)
  case Nil
  then show ?case by simp
next
  case (Cons v vs)
  then show ?case
    by (simp add: writer_write_def cdrSerialize_loaded [OF assms] core_write_def cdrTypeTag_def getAccessorType_def
        sample_of_def)
qed

lemma decode_sample_of:
  assumes "auto_register g schema ext not_loaded = Inr b" and "(name, t) \<in> set schema" and "has_type t v"
  obtains w where "decode_sample b g (name, t) (sample_of name v) = Inr (Some \<lparr>typeName = name, body = w\<rparr>)"
    "msg_of w = msg_of v"
proof -
  obtain w where w: "deserialize_at g t (fresh g t) (serialize [] v) 0 = Inr (w, length (serialize [] v))"
      "msg_of w = msg_of v"
    using codes_whole [OF codes_message(1) [OF assms(3) blank_fresh], of g g "[]" "[]"] by auto
  then have "decode_sample b g (name, t) (sample_of name v) = Inr (Some \<lparr>typeName = name, body = w\<rparr>)"
    by (simp add: decode_sample_def sample_of_def create_def cdrTypeTag_def getAccessorType_def
        cdrDeserialize_loaded [OF assms(1,2)])
  with w(2) that show thesis by blast
qed

lemma dispatch_all_samples_of:
  assumes "auto_register g schema ext not_loaded = Inr b" and "(name, t) \<in> set schema"
  shows "\<forall>v \<in> set vs. has_type t v \<Longrightarrow>
    \<exists>ds. dispatch_all (dispatchOne b g (name, t) (Some l) ls) (map (sample_of name) vs) = (ds, None) \<and>
      map (\<lambda>(k, a). (k, msg_of (body a))) ds = concat (map (\<lambda>v. map (\<lambda>k. (k, msg_of v)) (l # ls)) vs)"
proof (induction vs)
  case Nil
  then show ?case by simp
next
  case (Cons v vs)
  then obtain ds where ds:
    "dispatch_all (dispatchOne b g (name, t) (Some l) ls) (map (sample_of name) vs) = (ds, None)"
    "map (\<lambda>(k, a). (k, msg_of (body a))) ds = concat (map (\<lambda>v. map (\<lambda>k. (k, msg_of v)) (l # ls)) vs)"
    by auto
  obtain w where "decode_sample b g (name, t) (sample_of name v) = Inr (Some \<lparr>typeName = name, body = w\<rparr>)"
      "msg_of w = msg_of v"
    using decode_sample_of [OF assms] Cons.prems by (metis list.set_intros(1))
  then have "dispatchOne b g (name, t) (Some l) ls (sample_of name v) =
      Inr (map (\<lambda>k. (k, \<lparr>typeName = name, body = w\<rparr>)) (l # ls))"
    by (simp add: dispatchOne_def)
  with ds \<open>msg_of w = msg_of v\<close> show ?case by (simp add: comp_def)
qed

lemma core_take_samples_of: "core_take 0 (map (sample_of name) vs) = (map (sample_of name) vs, [])"
  using take_loop_eq [of "[]" 0] by (simp add: core_take_def sample_of_def comp_def)

text \<open>
  C3: End to end: messages of a type written in sequence and handed over by the middleware are, by one
  read of a reader of the type, delivered in order to the listener of the call and then to each
  registered listener, with the contents they were written with.
\<close>

theorem written_messages_are_delivered:
  assumes "auto_register g schema ext not_loaded = Inr b" and "(name, t) \<in> set schema"
    and "\<forall>v \<in> set vs. has_type t v"
  shows "\<exists>w ds r. foldR (writer_write b) (map (\<lambda>v. \<lparr>typeName = name, body = v\<rparr>) vs) new_writer = Inr w \<and>
    readNoWait b g (name, t) 0 l \<lparr>r_closed = False, r_listeners = ls, queue = written w\<rparr> = (Inr (length vs), ds, r) \<and>
    map (\<lambda>(k, a). (k, msg_of (body a))) ds = concat (map (\<lambda>v. map (\<lambda>k. (k, msg_of v)) (l # ls)) vs) \<and>
    queue r = []"
proof -
  obtain ds where ds: "dispatch_all (dispatchOne b g (name, t) (Some l) ls) (map (sample_of name) vs) = (ds, None)"
    "map (\<lambda>(k, a). (k, msg_of (body a))) ds = concat (map (\<lambda>v. map (\<lambda>k. (k, msg_of v)) (l # ls)) vs)"
    using dispatch_all_samples_of [OF assms] by blast
  have "foldR (writer_write b) (map (\<lambda>v. \<lparr>typeName = name, body = v\<rparr>) vs) new_writer =
      Inr (new_writer\<lparr>written := map (sample_of name) vs\<rparr>)"
    using write_all [OF assms(1,2), of new_writer vs] by (simp add: new_writer_def)
  with ds show ?thesis by (auto simp: readNoWait_def takeNow_def core_take_samples_of)
qed

theorem written_messages_are_delivered_witness:
  "\<exists>(b :: nat bridge) w ds r. auto_register scalar_zero sample_schema 0 not_loaded = Inr b \<and>
    foldR (writer_write b) [\<lparr>typeName = ''SampleMDT'', body = sample_obj\<rparr>] new_writer = Inr w \<and>
    readNoWait b scalar_zero (''SampleMDT'', sample_ty) 0 7 \<lparr>r_closed = False, r_listeners = [8], queue = written w\<rparr> =
      (Inr 1, ds, r) \<and>
    map (\<lambda>(k, a). (k, msg_of (body a))) ds = [(7, msg_of sample_obj), (8, msg_of sample_obj)]"
proof -
  obtain b :: "nat bridge" where b: "auto_register scalar_zero sample_schema 0 not_loaded = Inr b"
    by (rule exE [OF sample_loaded])
  have mem: "(''SampleMDT'', sample_ty) \<in> set sample_schema" by (simp add: sample_schema_def)
  have "\<forall>v \<in> set [sample_obj]. has_type sample_ty v" using sample_has_type by simp
  from written_messages_are_delivered [OF b mem this, of 7 "[8]"] show ?thesis
    unfolding list.map concat.simps append_Nil2 list.size One_nat_def add_0_right add_0
    by (elim exE conjE) (intro exI conjI, rule b)
qed

text \<open>
  A sample of another type of the schema is dropped: no listener is called for it, although the
  read counts it.
\<close>

theorem other_types_are_dropped:
  assumes "auto_register g schema ext not_loaded = Inr b" and "(name, t) \<in> set schema"
    and "(name', t') \<in> set schema" and "name \<noteq> name'"
  shows "readNoWait b g (name, t) 0 l \<lparr>r_closed = False, r_listeners = ls, queue = [sample_of name' v]\<rparr> =
    (Inr 1, [], \<lparr>r_closed = False, r_listeners = ls, queue = []\<rparr>)"
proof -
  have "distinct (map (\<lambda>e. type_tag (fst e)) schema)" by (rule iffD1 [OF auto_register_iff]) (rule exI, rule assms(1))
  then have "inj_on type_tag (fst ` set schema)"
    by (auto simp: distinct_map inj_on_def)
  with assms(2-4) have "type_tag name \<noteq> type_tag name'" by (force dest: inj_onD)
  then show ?thesis
    by (simp add: readNoWait_def takeNow_def core_take_def sample_of_def dispatchOne_def decode_sample_def create_def
        cdrTypeTag_def getAccessorType_def)
qed

theorem other_types_are_dropped_witness:
  "\<exists>(b :: nat bridge). auto_register scalar_zero [(''EntityMDT'', TPrim PInt8), (''EntitzMDT'', TPrim PInt8)] 0 not_loaded = Inr b \<and>
    readNoWait b scalar_zero (''EntityMDT'', TPrim PInt8) 0 7
      \<lparr>r_closed = False, r_listeners = [8], queue = [sample_of ''EntitzMDT'' (OPrim (VInt8 1))]\<rparr> =
    (Inr 1, [], \<lparr>r_closed = False, r_listeners = [8], queue = []\<rparr>)"
proof -
  have "type_tag ''EntityMDT'' \<noteq> type_tag ''EntitzMDT''"
    using type_tag_one_character [of "''Entit''" "CHR ''y''" "''MDT''" "CHR ''z''"] by (simp add: byte_of_char_def)
  then obtain b :: "nat bridge" where
    b: "auto_register scalar_zero [(''EntityMDT'', TPrim PInt8), (''EntitzMDT'', TPrim PInt8)] 0 not_loaded = Inr b"
    using auto_register_iff [of scalar_zero "[(''EntityMDT'', TPrim PInt8), (''EntitzMDT'', TPrim PInt8)]" "0 :: nat"]
    by auto
  have "(''EntityMDT'', TPrim PInt8) \<in> set [(''EntityMDT'', TPrim PInt8), (''EntitzMDT'', TPrim PInt8)]"
    "(''EntitzMDT'', TPrim PInt8) \<in> set [(''EntityMDT'', TPrim PInt8), (''EntitzMDT'', TPrim PInt8)]"
    "''EntityMDT'' \<noteq> ''EntitzMDT''" by simp_all
  from other_types_are_dropped [OF b this] b show ?thesis by blast
qed

end
