(* ===== verification/Dds_Listeners.thy ===== *)
theory Dds_Listeners
  imports Dds_Transport
begin

text \<open>
  The background delivery of a \<open>DdsReader\<close>: the application thread that calls \<open>addListener\<close>,
  \<open>removeListener\<close> and \<open>close\<close> (\<open>src/dds/DdsReader.h\<close>) and the reader's own thread that runs \<open>loop\<close>
  (\<open>src/dds/DdsReaderCore.cpp\<close>), as an interleaving of atomic steps. The two mutexes are \<open>mu_\<close>, which
  guards the listener list, and \<open>cbMutex\<close>, which guards the callback and is held while the callback
  runs. A block that locks a mutex, does only local work and unlocks it is one step that needs the
  mutex free. The decoding of a sample is the parameter \<open>dec\<close> (\<open>decode_sample\<close> for the code).
\<close>

section \<open>The two threads\<close>

datatype thread = App | Bg

text \<open>
  Where the application thread is: between calls; inside \<open>addListener\<close> or \<open>removeListener\<close> with \<open>mu_\<close>
  held, about to set the callback (\<open>WantCallback\<close>) or to return (\<open>Release\<close>); in \<open>close\<close> before its two
  last statements; in the destructor with the callback cleared, waiting for the thread to end, or past it.
\<close>

datatype app_pc = Idle | WantCallback bool | Release | CloseCallback | CloseCore | Destroying | Joining | Gone

text \<open>
  Where the background thread is: at the top of the loop; waiting for data; with samples, before the
  lock of \<open>cbMutex\<close>; in the callback, before a sample or calling the listeners of a snapshot; inside a
  \<open>removeListener\<close> called by such a listener, with \<open>mu_\<close> held, about to clear the callback; after the
  loop; or dead, because an exception left the thread function (\<open>std::terminate\<close>).
\<close>

datatype 'm bg_pc = Top | Waiting | Have "sample list" | Dispatch "sample list"
  | Calling "listener list" 'm "sample list" | WantClear "listener list" 'm "sample list"
  | Exited | Terminated

record 'm rstate =
  listeners :: "listener list"
  callback :: bool
  closed :: bool
  core_closed :: bool
  incoming :: "sample list"
  mu :: "thread option"
  cbMutex :: "thread option"
  app :: app_pc
  bg :: "'m bg_pc"
  log :: "(listener \<times> 'm) list"

definition init :: "'m rstate" where
  "init = \<lparr>listeners = [], callback = False, closed = False, core_closed = False, incoming = [],
     mu = None, cbMutex = None, app = Idle, bg = Top, log = []\<rparr>"

text \<open>\<open>removeListener\<close>: the erase, and whether the callback is to be cleared.\<close>

definition erase_listener :: "listener \<Rightarrow> listener list \<Rightarrow> listener list" where
  "erase_listener l ls = filter (\<lambda>k. k \<noteq> l) ls"

inductive app_step :: "'m rstate \<Rightarrow> 'm rstate \<Rightarrow> bool" where
  add_first: "app s = Idle \<Longrightarrow> mu s = None \<Longrightarrow> length (listeners s @ [l]) = 1 \<Longrightarrow>
    app_step s (s\<lparr>mu := Some App, listeners := listeners s @ [l], app := WantCallback True\<rparr>)"
| add_next: "app s = Idle \<Longrightarrow> mu s = None \<Longrightarrow> length (listeners s @ [l]) \<noteq> 1 \<Longrightarrow>
    app_step s (s\<lparr>mu := Some App, listeners := listeners s @ [l], app := Release\<rparr>)"
| remove_last: "app s = Idle \<Longrightarrow> mu s = None \<Longrightarrow> erase_listener l (listeners s) = [] \<Longrightarrow>
    app_step s (s\<lparr>mu := Some App, listeners := [], app := WantCallback False\<rparr>)"
| remove_other: "app s = Idle \<Longrightarrow> mu s = None \<Longrightarrow> erase_listener l (listeners s) \<noteq> [] \<Longrightarrow>
    app_step s (s\<lparr>mu := Some App, listeners := erase_listener l (listeners s), app := Release\<rparr>)"
| set_callback: "app s = WantCallback c \<Longrightarrow> cbMutex s = None \<Longrightarrow>
    app_step s (s\<lparr>callback := c, app := Release\<rparr>)"
| release: "app s = Release \<Longrightarrow> app_step s (s\<lparr>mu := None, app := Idle\<rparr>)"
| close: "app s = Idle \<Longrightarrow> app_step s (s\<lparr>closed := True, app := CloseCallback\<rparr>)"
| close_callback: "app s = CloseCallback \<Longrightarrow> cbMutex s = None \<Longrightarrow>
    app_step s (s\<lparr>callback := False, app := CloseCore\<rparr>)"
| close_core: "app s = CloseCore \<Longrightarrow> app_step s (s\<lparr>core_closed := True, app := Idle\<rparr>)"
| destroy: "app s = Idle \<Longrightarrow> cbMutex s = None \<Longrightarrow> app_step s (s\<lparr>callback := False, app := Destroying\<rparr>)"
| destroy_core: "app s = Destroying \<Longrightarrow> app_step s (s\<lparr>listeners := [], core_closed := True, app := Joining\<rparr>)"
| join: "app s = Joining \<Longrightarrow> bg s = Exited \<Longrightarrow> app_step s (s\<lparr>app := Gone\<rparr>)"

inductive bg_step :: "(sample \<Rightarrow> 'm option res) \<Rightarrow> 'm rstate \<Rightarrow> 'm rstate \<Rightarrow> bool" for dec where
  top_exit: "bg s = Top \<Longrightarrow> core_closed s \<Longrightarrow> bg_step dec s (s\<lparr>bg := Exited\<rparr>)"
| top_sleep: "bg s = Top \<Longrightarrow> \<not> core_closed s \<Longrightarrow> cbMutex s = None \<Longrightarrow> \<not> callback s \<Longrightarrow> bg_step dec s s"
| top_wait: "bg s = Top \<Longrightarrow> \<not> core_closed s \<Longrightarrow> cbMutex s = None \<Longrightarrow> callback s \<Longrightarrow>
    bg_step dec s (s\<lparr>bg := Waiting\<rparr>)"
| wait_exit: "bg s = Waiting \<Longrightarrow> core_closed s \<Longrightarrow> bg_step dec s (s\<lparr>bg := Exited\<rparr>)"
| wait_empty: "bg s = Waiting \<Longrightarrow> \<not> core_closed s \<Longrightarrow> fst (core_take 0 (incoming s)) = [] \<Longrightarrow>
    bg_step dec s (s\<lparr>incoming := snd (core_take 0 (incoming s)), bg := Top\<rparr>)"
| wait_take: "bg s = Waiting \<Longrightarrow> \<not> core_closed s \<Longrightarrow> fst (core_take 0 (incoming s)) \<noteq> [] \<Longrightarrow>
    bg_step dec s (s\<lparr>incoming := snd (core_take 0 (incoming s)), bg := Have (fst (core_take 0 (incoming s)))\<rparr>)"
| have_callback: "bg s = Have ss \<Longrightarrow> cbMutex s = None \<Longrightarrow> callback s \<Longrightarrow>
    bg_step dec s (s\<lparr>cbMutex := Some Bg, bg := Dispatch ss\<rparr>)"
| have_none: "bg s = Have ss \<Longrightarrow> cbMutex s = None \<Longrightarrow> \<not> callback s \<Longrightarrow> bg_step dec s (s\<lparr>bg := Top\<rparr>)"
| dispatch_done: "bg s = Dispatch [] \<Longrightarrow> bg_step dec s (s\<lparr>cbMutex := None, bg := Top\<rparr>)"
| dispatch_drop: "bg s = Dispatch (x # ss) \<Longrightarrow> dec x = Inr None \<Longrightarrow> bg_step dec s (s\<lparr>bg := Dispatch ss\<rparr>)"
| dispatch_call: "bg s = Dispatch (x # ss) \<Longrightarrow> dec x = Inr (Some m) \<Longrightarrow> mu s = None \<Longrightarrow>
    bg_step dec s (s\<lparr>bg := Calling (listeners s) m ss\<rparr>)"
| dispatch_throw: "bg s = Dispatch (x # ss) \<Longrightarrow> dec x = Inl e \<Longrightarrow> bg_step dec s (s\<lparr>bg := Terminated\<rparr>)"
| call: "bg s = Calling (l # ls) m ss \<Longrightarrow>
    bg_step dec s (s\<lparr>log := log s @ [(l, m)], bg := Calling ls m ss\<rparr>)"
| call_removes_last: "bg s = Calling (l # ls) m ss \<Longrightarrow> mu s = None \<Longrightarrow> erase_listener k (listeners s) = [] \<Longrightarrow>
    bg_step dec s (s\<lparr>log := log s @ [(l, m)], mu := Some Bg, listeners := [], bg := WantClear ls m ss\<rparr>)"
| call_removes_other: "bg s = Calling (l # ls) m ss \<Longrightarrow> mu s = None \<Longrightarrow> erase_listener k (listeners s) \<noteq> [] \<Longrightarrow>
    bg_step dec s (s\<lparr>log := log s @ [(l, m)], listeners := erase_listener k (listeners s), bg := Calling ls m ss\<rparr>)"
| clear: "bg s = WantClear ls m ss \<Longrightarrow> cbMutex s = None \<Longrightarrow>
    bg_step dec s (s\<lparr>callback := False, mu := None, bg := Calling ls m ss\<rparr>)"
| calls_done: "bg s = Calling [] m ss \<Longrightarrow> bg_step dec s (s\<lparr>bg := Dispatch ss\<rparr>)"

text \<open>Samples come in at any time.\<close>

definition arrive :: "sample list \<Rightarrow> 'm rstate \<Rightarrow> 'm rstate" where
  "arrive ss s = s\<lparr>incoming := incoming s @ ss\<rparr>"

inductive reach :: "(sample \<Rightarrow> 'm option res) \<Rightarrow> 'm rstate \<Rightarrow> bool" for dec where
  start: "reach dec init"
| app_move: "reach dec s \<Longrightarrow> app_step s s' \<Longrightarrow> reach dec s'"
| bg_move: "reach dec s \<Longrightarrow> bg_step dec s s' \<Longrightarrow> reach dec s'"
| arrival: "reach dec s \<Longrightarrow> reach dec (arrive ss s)"

inductive_cases app_stepE: "app_step s s'"
inductive_cases bg_stepE: "bg_step dec s s'"

section \<open>Invariants\<close>

text \<open>Who holds what, and what the background thread may assume while it delivers.\<close>

fun delivering :: "'m bg_pc \<Rightarrow> bool" where
  "delivering (Dispatch _) = True"
| "delivering (Calling _ _ _) = True"
| "delivering (WantClear _ _ _) = True"
| "delivering _ = False"

fun app_holds_mu :: "app_pc \<Rightarrow> bool" where
  "app_holds_mu (WantCallback _) = True"
| "app_holds_mu Release = True"
| "app_holds_mu _ = False"

fun bg_holds_mu :: "'m bg_pc \<Rightarrow> bool" where
  "bg_holds_mu (WantClear _ _ _) = True"
| "bg_holds_mu _ = False"

definition locks_ok :: "'m rstate \<Rightarrow> bool" where
  "locks_ok s = (
     (mu s = Some App \<longleftrightarrow> app_holds_mu (app s)) \<and>
     (mu s = Some Bg \<longleftrightarrow> bg_holds_mu (bg s)) \<and>
     cbMutex s \<noteq> Some App \<and>
     (delivering (bg s) \<longrightarrow> cbMutex s = Some Bg \<and> callback s) \<and>
     (cbMutex s = Some Bg \<longleftrightarrow> delivering (bg s) \<or> bg s = Terminated) \<and>
     (bg s = Terminated \<longrightarrow> callback s))"

lemma locks_ok_init: "locks_ok init"
  by (simp add: locks_ok_def init_def)

lemma locks_ok_app: "app_step s s' \<Longrightarrow> locks_ok s \<Longrightarrow> locks_ok s'"
  by (induction rule: app_step.induct) (auto simp: locks_ok_def)

lemma locks_ok_bg: "bg_step dec s s' \<Longrightarrow> locks_ok s \<Longrightarrow> locks_ok s'"
  by (induction rule: bg_step.induct) (auto simp: locks_ok_def)

lemma reach_locks_ok: "reach dec s \<Longrightarrow> locks_ok s"
  by (induction rule: reach.induct)
    (auto simp: locks_ok_init arrive_def dest: locks_ok_app locks_ok_bg, simp add: locks_ok_def)

text \<open>
  Clearing the callback ends background delivery: in every reachable state with no callback set
  (after \<open>close\<close>, after the destructor's first statement, after the last \<open>removeListener\<close>) no
  delivery is in progress, and no step of the background thread calls a listener or sets the callback.
\<close>

theorem no_delivery_without_callback:
  assumes "reach dec s" and "\<not> callback s" and "bg_step dec s s'"
  shows "\<not> delivering (bg s) \<and> log s' = log s \<and> \<not> callback s' \<and> listeners s' = listeners s"
proof -
  have "\<not> delivering (bg s)" using reach_locks_ok [OF assms(1)] assms(2) by (auto simp: locks_ok_def)
  with assms(3,2) show ?thesis by (auto elim: bg_stepE)
qed

theorem no_delivery_without_callback_witness: "log (init :: nat rstate) = [] \<and> \<not> delivering (bg (init :: nat rstate))"
  using no_delivery_without_callback [OF start, of "\<lambda>_. Inr None" "init :: nat rstate"]
  by (auto intro!: top_sleep simp: init_def)

text \<open>The callback follows the listener list, outside the critical sections that change both.\<close>

definition callback_ok :: "'m rstate \<Rightarrow> bool" where
  "callback_ok s = (\<not> closed s \<longrightarrow> (case app s of
     WantCallback c \<Rightarrow> c = (listeners s \<noteq> [])
   | CloseCallback \<Rightarrow> False
   | CloseCore \<Rightarrow> False
   | Destroying \<Rightarrow> True
   | Joining \<Rightarrow> True
   | Gone \<Rightarrow> True
   | _ \<Rightarrow> if bg_holds_mu (bg s) then listeners s = [] else callback s = (listeners s \<noteq> [])))"

lemma callback_ok_app: "app_step s s' \<Longrightarrow> locks_ok s \<Longrightarrow> callback_ok s \<Longrightarrow> callback_ok s'"
  by (induction rule: app_step.induct)
    (auto simp: callback_ok_def locks_ok_def erase_listener_def split: if_splits)

lemma callback_ok_bg: "bg_step dec s s' \<Longrightarrow> locks_ok s \<Longrightarrow> callback_ok s \<Longrightarrow> callback_ok s'"
  by (induction rule: bg_step.induct) (auto simp: callback_ok_def locks_ok_def split: if_splits app_pc.splits)

lemma reach_callback_ok: "reach dec s \<Longrightarrow> callback_ok s"
proof (induction rule: reach.induct)
  case start
  then show ?case by (simp add: callback_ok_def init_def)
next
  case (app_move s s')
  then show ?case by (blast intro: callback_ok_app reach_locks_ok)
next
  case (bg_move s s')
  then show ?case by (blast intro: callback_ok_bg reach_locks_ok)
next
  case (arrival s ss)
  then show ?case by (auto simp: callback_ok_def arrive_def split: app_pc.splits if_splits)
qed

text \<open>
  Until \<open>close\<close>, whenever the application thread is between calls and no mutex of the list is
  held, the background callback is set exactly when there is a listener: no message waits for a
  listener that is registered, and the thread sleeps when there is none.
\<close>

theorem callback_iff_listeners:
  assumes "reach dec s" and "app s = Idle" and "\<not> closed s" and "mu s = None"
  shows "callback s \<longleftrightarrow> listeners s \<noteq> []"
  using reach_callback_ok [OF assms(1)] reach_locks_ok [OF assms(1)] assms(2-4)
  by (auto simp: callback_ok_def locks_ok_def split: if_splits)

section \<open>The end of a reader\<close>

text \<open>
  From the first statement of \<open>~DdsReader\<close> on, the callback stays cleared; \<open>~Impl\<close> sets \<open>closed\<close> and joins.
\<close>

definition ending_ok :: "'m rstate \<Rightarrow> bool" where
  "ending_ok s = (case app s of Destroying \<Rightarrow> \<not> callback s | Joining \<Rightarrow> \<not> callback s \<and> core_closed s | _ \<Rightarrow> True)"

lemma reach_ending_ok: "reach dec s \<Longrightarrow> ending_ok s"
proof (induction rule: reach.induct)
  case start
  then show ?case by (simp add: ending_ok_def init_def)
next
  case (app_move s s')
  then show ?case by (auto simp: ending_ok_def elim!: app_stepE)
next
  case (bg_move s s')
  then show ?case by (auto simp: ending_ok_def elim!: bg_stepE split: app_pc.splits)
next
  case (arrival s ss)
  then show ?case by (simp add: ending_ok_def arrive_def split: app_pc.splits)
qed

text \<open>What can happen while the application thread waits in \<open>join\<close>, with the number of steps of the background thread.\<close>

inductive join_wait :: "(sample \<Rightarrow> 'm option res) \<Rightarrow> nat \<Rightarrow> 'm rstate \<Rightarrow> 'm rstate \<Rightarrow> bool" for dec where
  now: "join_wait dec 0 s s"
| sample: "join_wait dec n s t \<Longrightarrow> join_wait dec n s (arrive ss t)"
| step: "join_wait dec n s t \<Longrightarrow> bg_step dec t u \<Longrightarrow> join_wait dec (Suc n) s u"

text \<open>How far the thread is from its end when it is told to end and nothing is delivered.\<close>

fun steps_left :: "'m bg_pc \<Rightarrow> nat" where
  "steps_left (Have _) = 2"
| "steps_left Top = 1"
| "steps_left Waiting = 1"
| "steps_left _ = 0"

lemma joining_step:
  assumes "reach dec s" "app s = Joining"
  shows "bg s = Exited \<or> (\<exists>u. bg_step dec s u)"
    and "bg_step dec s u \<Longrightarrow> app u = Joining \<and> log u = log s \<and> Suc (steps_left (bg u)) = steps_left (bg s)"
proof -
  have e: "\<not> callback s" "core_closed s" using reach_ending_ok [OF assms(1)] assms(2) by (simp_all add: ending_ok_def)
  with reach_locks_ok [OF assms(1)] have l: "\<not> delivering (bg s)" "bg s \<noteq> Terminated" "cbMutex s = None"
    by (cases "cbMutex s", auto simp: locks_ok_def) (metis thread.exhaust)+
  show "bg s = Exited \<or> (\<exists>u. bg_step dec s u)"
    using l e by (cases "bg s") (auto intro: bg_step.intros)
  show "bg_step dec s u \<Longrightarrow> app u = Joining \<and> log u = log s \<and> Suc (steps_left (bg u)) = steps_left (bg s)"
    using l e assms(2) by (auto elim!: bg_stepE)
qed

lemma join_wait_invariant:
  "join_wait dec n s t \<Longrightarrow> reach dec s \<Longrightarrow> app s = Joining \<Longrightarrow>
    reach dec t \<and> app t = Joining \<and> log t = log s \<and> n + steps_left (bg t) = steps_left (bg s)"
proof (induction rule: join_wait.induct)
  case (now s)
  then show ?case by simp
next
  case (sample n s t ss)
  moreover from this have "reach dec (arrive ss t)" by (blast intro: reach.arrival)
  ultimately show ?case by (simp add: arrive_def)
next
  case (step n s t u)
  then have "reach dec t" "app t = Joining" "log t = log s" "n + steps_left (bg t) = steps_left (bg s)" by auto
  with joining_step(2) [of dec t u] reach.bg_move [of dec t u] step.hyps(2) show ?case by auto
qed

lemma steps_left_le: "steps_left pc \<le> 2"
  by (cases pc) simp_all

text \<open>
  C26: The destruction of a reader ends: while the destructor waits for the background thread, the thread is
  never stuck and ends after two steps at most, whatever samples arrive and whatever it was about to do;
  no listener is called meanwhile, and then the wait is over.
\<close>

theorem reader_destruction_ends:
  assumes "reach dec s" and "app s = Joining" and "join_wait dec n s t"
  shows "n \<le> 2 \<and> log t = log s \<and> (if bg t = Exited then app_step t (t\<lparr>app := Gone\<rparr>) else (\<exists>u. bg_step dec t u))"
proof -
  note inv = join_wait_invariant [OF assms(3,1,2)]
  with steps_left_le [of "bg s"] have "n \<le> 2" by linarith
  moreover have "bg t = Exited \<Longrightarrow> app_step t (t\<lparr>app := Gone\<rparr>)" using inv by (blast intro: app_step.join)
  ultimately show ?thesis using inv joining_step(1) [of dec t] by auto
qed

section \<open>What goes wrong\<close>

text \<open>One listener is registered, samples are in, and the background thread is about to deliver.\<close>

definition armed :: "listener list \<Rightarrow> sample list \<Rightarrow> 'm bg_pc \<Rightarrow> 'm rstate" where
  "armed ls ss pc = \<lparr>listeners = ls, callback = ls \<noteq> [], closed = False, core_closed = False, incoming = ss,
     mu = None, cbMutex = (if delivering pc then Some Bg else None), app = Idle, bg = pc, log = []\<rparr>"

lemma reach_app: "reach dec s \<Longrightarrow> app_step s s' \<Longrightarrow> s' = t \<Longrightarrow> reach dec t"
  by (auto intro: app_move)

lemma reach_bg: "reach dec s \<Longrightarrow> bg_step dec s s' \<Longrightarrow> s' = t \<Longrightarrow> reach dec t"
  by (auto intro: bg_move)

lemma reach_add_first: "reach dec (armed [l] [] Top)"
proof -
  have "reach dec (armed [] [] Top)" using reach.start [of dec] by (simp add: init_def armed_def)
  then have "reach dec ((armed [] [] Top)\<lparr>mu := Some App, listeners := [l], app := WantCallback True\<rparr>)"
    by (rule reach_app) (rule add_first [where l = l], simp_all add: armed_def)
  then have "reach dec ((armed [] [] Top)\<lparr>mu := Some App, listeners := [l], app := Release, callback := True\<rparr>)"
    by (rule reach_app) (rule set_callback, simp_all add: armed_def)
  then show ?thesis
    by (rule reach_app) (rule release, simp_all add: armed_def)
qed

lemma reach_add_next: "reach dec (armed (k # ks) [] Top) \<Longrightarrow> reach dec (armed (k # ks @ [l]) [] Top)"
proof -
  assume "reach dec (armed (k # ks) [] Top)"
  then have "reach dec ((armed (k # ks) [] Top)\<lparr>mu := Some App, listeners := k # ks @ [l], app := Release\<rparr>)"
    by (rule reach_app) (rule add_next [where l = l], simp_all add: armed_def)
  then show ?thesis
    by (rule reach_app) (rule release, simp_all add: armed_def)
qed

lemma reach_armed: "reach dec (armed (l # ls) [] Top)"
proof (induction ls rule: rev_induct)
  case Nil
  show ?case by (rule reach_add_first)
next
  case (snoc k ls)
  then show ?case by (rule reach_add_next)
qed

theorem callback_iff_listeners_witness: "callback (armed [7] [] Top :: nat rstate)"
  using callback_iff_listeners [OF reach_armed [of "\<lambda>_. Inr None" 7 "[]"]] by (simp add: armed_def)

text \<open>A reader with a listener is destroyed while its thread is at the top of its loop.\<close>

theorem reader_destruction_ends_witness:
  "\<exists>t :: nat rstate. bg t = Exited \<and> app_step t (t\<lparr>app := Gone\<rparr>) \<and> log t = []"
proof -
  let ?s = "(armed [7] [] Top)\<lparr>callback := False, app := Joining, listeners := [], core_closed := True\<rparr> :: nat rstate"
  have "reach (\<lambda>_. Inr None) ((armed [7] [] Top)\<lparr>callback := False, app := Destroying\<rparr> :: nat rstate)"
    by (rule reach_app [OF reach_armed]) (rule destroy, simp_all add: armed_def)
  then have s: "reach (\<lambda>_. Inr None) ?s"
    by (rule reach_app) (rule destroy_core, simp_all add: armed_def)
  have "join_wait (\<lambda>_. Inr None) (Suc 0) ?s (?s\<lparr>bg := Exited\<rparr>)"
    by (rule join_wait.step [OF join_wait.now]) (rule top_exit, simp_all add: armed_def)
  from reader_destruction_ends [OF s _ this] show ?thesis
    by (intro exI [of _ "?s\<lparr>bg := Exited\<rparr>"]) (simp add: armed_def)
qed

lemma reach_dispatch:
  assumes "valid x"
  shows "reach dec (armed (l # ls) [] (Dispatch [x]))"
proof -
  have take: "core_take 0 [x] = ([x], [])" using assms by (simp add: core_take_def)
  have "reach dec (armed (l # ls) [x] Top)"
    using reach.arrival [OF reach_armed [of dec l ls], of "[x]"] by (simp add: arrive_def armed_def)
  then have "reach dec (armed (l # ls) [x] Waiting)"
    by (rule reach_bg) (rule top_wait, simp_all add: armed_def)
  then have "reach dec (armed (l # ls) [] (Have [x]))"
    by (rule reach_bg) (rule wait_take, simp_all add: armed_def take)
  then show ?thesis
    by (rule reach_bg) (rule have_callback, simp_all add: armed_def)
qed

definition stuck :: "(sample \<Rightarrow> 'm option res) \<Rightarrow> 'm rstate \<Rightarrow> bool" where
  "stuck dec s = (app s = WantCallback False \<and> mu s = Some App \<and> cbMutex s = Some Bg \<and>
     delivering (bg s) \<and> (\<forall>ss s'. \<not> app_step (arrive ss s) s' \<and> \<not> bg_step dec (arrive ss s) s'))"

text \<open>
  Removing the last listener while a message is being delivered deadlocks: there is a reachable
  state in which the application thread holds \<open>mu_\<close> in \<open>removeListener\<close> and waits for \<open>cbMutex\<close>, the
  background thread holds \<open>cbMutex\<close> in the callback and waits for \<open>mu_\<close>, and no step of either thread is
  possible, whatever samples arrive.
\<close>

theorem remove_listener_deadlock:
  assumes "valid x" and "dec x = Inr (Some m)"
  shows "\<exists>s. reach dec s \<and> stuck dec s"
proof -
  let ?s = "(armed [l] [] (Dispatch [x]))\<lparr>mu := Some App, listeners := [], app := WantCallback False\<rparr>"
  have "reach dec (armed [l] [] (Dispatch [x]))" by (rule reach_dispatch [OF assms(1)])
  then have "reach dec ?s"
    by (rule reach_app) (rule remove_last [where l = l], simp_all add: armed_def erase_listener_def)
  moreover have "stuck dec ?s"
    using assms(2) by (auto simp: stuck_def armed_def arrive_def elim: app_stepE bg_stepE)
  ultimately show ?thesis by blast
qed

theorem remove_listener_deadlock_witness:
  "\<exists>s :: nat rstate. reach (\<lambda>_. Inr (Some 0)) s \<and> stuck (\<lambda>_. Inr (Some 0)) s"
  by (rule remove_listener_deadlock [of "\<lparr>valid = True, sample_tag = 1, sample_data = []\<rparr>"]) simp_all

inductive moves :: "(sample \<Rightarrow> 'm option res) \<Rightarrow> 'm rstate \<Rightarrow> 'm rstate \<Rightarrow> bool" for dec where
  stay: "moves dec s s"
| by_app: "moves dec s t \<Longrightarrow> app_step t u \<Longrightarrow> moves dec s u"
| by_bg: "moves dec s t \<Longrightarrow> bg_step dec t u \<Longrightarrow> moves dec s u"
| by_arrival: "moves dec s t \<Longrightarrow> moves dec s (arrive ss t)"

lemma moves_reach: "moves dec s t \<Longrightarrow> reach dec s \<Longrightarrow> reach dec t"
  by (induction rule: moves.induct) (auto intro: reach.intros)

lemma self_removal_hangs:
  "moves dec s t \<Longrightarrow> reach dec s \<Longrightarrow> bg s = WantClear ls m ss \<Longrightarrow> bg t = WantClear ls m ss"
proof (induction rule: moves.induct)
  case (by_app s t u)
  then show ?case by (auto elim: app_stepE)
next
  case (by_bg s t u)
  then have "locks_ok t" by (blast intro: reach_locks_ok moves_reach)
  with by_bg show ?case by (auto simp: locks_ok_def elim: bg_stepE)
next
  case (by_arrival s t ss)
  then show ?case by (simp add: arrive_def)
qed

text \<open>
  A listener that removes itself as the last one from inside \<open>handleMessage\<close> hangs the delivery
  thread: it waits for the mutex it holds itself, and no later step of any thread wakes it; \<open>mu_\<close> stays
  locked, so every later \<open>addListener\<close> and \<open>removeListener\<close> blocks too.
\<close>

theorem self_removal_hangs_forever:
  assumes "valid x" and "dec x = Inr (Some m)"
  shows "\<exists>s. reach dec s \<and> log s = [(l, m)] \<and>
    (\<forall>t. moves dec s t \<longrightarrow> bg t = WantClear [] m [] \<and> mu t = Some Bg \<and> cbMutex t = Some Bg)"
proof -
  let ?s = "(armed [l] [] (Dispatch [x]))\<lparr>mu := Some Bg, listeners := [], log := [(l, m)], bg := WantClear [] m []\<rparr>"
  have "reach dec (armed [l] [] (Dispatch [x]))" by (rule reach_dispatch [OF assms(1)])
  then have "reach dec ((armed [l] [] (Dispatch [x]))\<lparr>bg := Calling [l] m []\<rparr>)"
    by (rule reach_bg) (rule dispatch_call [where x = x], simp_all add: armed_def assms(2))
  then have reach: "reach dec ?s"
    by (rule reach_bg) (rule call_removes_last [where k = l], simp_all add: armed_def erase_listener_def)
  moreover have "bg t = WantClear [] m [] \<and> mu t = Some Bg \<and> cbMutex t = Some Bg" if "moves dec ?s t" for t
  proof -
    have "bg t = WantClear [] m []" by (rule self_removal_hangs [OF that reach]) (simp add: armed_def)
    moreover have "locks_ok t" by (rule reach_locks_ok [OF moves_reach [OF that reach]])
    ultimately show ?thesis by (simp add: locks_ok_def)
  qed
  moreover have "log ?s = [(l, m)]" by (simp add: armed_def)
  ultimately show ?thesis by blast
qed

theorem self_removal_hangs_forever_witness:
  "\<exists>s :: nat rstate. reach (\<lambda>_. Inr (Some 0)) s \<and> log s = [(7, 0)] \<and>
    (\<forall>t. moves (\<lambda>_. Inr (Some 0)) s t \<longrightarrow> bg t = WantClear [] 0 [] \<and> mu t = Some Bg \<and> cbMutex t = Some Bg)"
  by (rule self_removal_hangs_forever [of "\<lparr>valid = True, sample_tag = 1, sample_data = []\<rparr>"]) simp_all

text \<open>
  One truncated payload kills the process: with a listener registered, a sample that carries the
  tag of the reader's type and a proper prefix of a serialised message makes the exception of the
  deserializer leave the thread function.
\<close>

theorem truncated_sample_terminates:
  assumes "auto_register g schema ext not_loaded = Inr b" and "(name, t) \<in> set schema"
    and "has_type t v" and "n < length (serialize [] v)"
  shows "\<exists>s. reach (decode_sample b g (name, t)) s \<and> bg s = Terminated \<and> log s = [] \<and>
    incoming s = [] \<and> listeners s = [l]"
proof -
  let ?x = "\<lparr>valid = True, sample_tag = type_tag name, sample_data = take n (serialize [] v)\<rparr>"
  obtain m where "deserialize_at g t (fresh g t) (take n (serialize [] v)) 0 = Inl (UCIException m)"
    using codes_cut [OF codes_message(1) [OF assms(3) blank_fresh], of "[]" n] assms(4) by auto
  then have bad: "decode_sample b g (name, t) ?x = Inl (UCIException m)"
    by (simp add: decode_sample_def create_def cdrTypeTag_def getAccessorType_def cdrDeserialize_loaded [OF assms(1,2)])
  have "reach (decode_sample b g (name, t)) (armed [l] [] (Dispatch [?x]))"
    by (rule reach_dispatch) simp
  then have "reach (decode_sample b g (name, t)) ((armed [l] [] (Dispatch [?x]))\<lparr>bg := Terminated\<rparr>)"
    by (rule reach_bg) (rule dispatch_throw [where x = ?x], simp add: armed_def, rule bad, rule refl)
  then show ?thesis by (intro exI conjI) (assumption | simp add: armed_def)+
qed

theorem truncated_sample_terminates_witness:
  "\<exists>(b :: nat bridge) s. reach (decode_sample b scalar_zero (''SampleMDT'', sample_ty)) s \<and> bg s = Terminated \<and>
    log s = [] \<and> incoming s = [] \<and> listeners s = [7]"
proof -
  obtain b :: "nat bridge" where b: "auto_register scalar_zero sample_schema 0 not_loaded = Inr b"
    by (rule exE [OF sample_loaded])
  have mem: "(''SampleMDT'', sample_ty) \<in> set sample_schema" by (simp add: sample_schema_def)
  have "serialize [] sample_obj \<noteq> []"
    by (auto simp: sample_obj_def encode_uuid_def encode_string_def encode_bool_def encode_uint32_def
        encode_uint8_def encode_optional_flag_def encode_sequence_length_def)
  then have "0 < length (serialize [] sample_obj)" by simp
  from truncated_sample_terminates [OF b mem sample_has_type this, of 7] show ?thesis by blast
qed

text \<open>
  A listener can be called after \<open>removeListener\<close> has returned: there is a reachable state in
  which the application thread is between calls, the listener is not registered, and the background
  thread is about to call it from the snapshot it took.
\<close>

theorem call_after_removal:
  assumes "valid x" and "dec x = Inr (Some m)" and "k \<noteq> l"
  shows "\<exists>s. reach dec s \<and> app s = Idle \<and> listeners s = [k] \<and> l \<notin> set (listeners s) \<and> (\<exists>ls ss. bg s = Calling (l # ls) m ss)"
proof -
  have "reach dec (armed (l # [k]) [] (Dispatch [x]))" by (rule reach_dispatch [OF assms(1)])
  then have "reach dec ((armed [l, k] [] (Dispatch [x]))\<lparr>bg := Calling [l, k] m []\<rparr>)"
    by (rule reach_bg) (rule dispatch_call [where x = x], simp_all add: armed_def assms(2))
  then have "reach dec ((armed [l, k] [] (Dispatch [x]))\<lparr>bg := Calling [l, k] m [], mu := Some App, listeners := [k], app := Release\<rparr>)"
    by (rule reach_app) (rule remove_other [where l = l], simp_all add: armed_def erase_listener_def assms(3))
  then have "reach dec ((armed [l, k] [] (Dispatch [x]))\<lparr>bg := Calling [l, k] m [], listeners := [k]\<rparr>)"
    by (rule reach_app) (rule release, simp_all add: armed_def)
  then show ?thesis using assms(3) by (intro exI conjI) (assumption | simp add: armed_def)+
qed

theorem call_after_removal_witness:
  "\<exists>s :: nat rstate. reach (\<lambda>_. Inr (Some 0)) s \<and> app s = Idle \<and> listeners s = [8] \<and> 7 \<notin> set (listeners s) \<and>
    (\<exists>ls ss. bg s = Calling (7 # ls) 0 ss)"
  by (rule call_after_removal [of "\<lparr>valid = True, sample_tag = 1, sample_data = []\<rparr>"]) simp_all

end
