(* ===== verification/Json_Text.thy ===== *)
theory Json_Text
  imports Cdr_Handlers
begin

text \<open>
  The text the JSON externalizer emits (\<open>externalizer/json/JsonPrimitives.h\<close>): keys, string literals
  and the primitive values, and the reference they are checked against: the grammar of a string literal
  of RFC 8259 and the well-formed UTF-8 sequences a JSON text is made of. What \<open>snprintf\<close> prints for a
  floating-point number is a parameter.
\<close>

section \<open>Emitting\<close>

definition quote :: char where
  "quote = CHR 0x22"

definition backslash :: char where
  "backslash = CHR 0x5C"

text \<open>The key with its separator, and the flag \<open>first\<close> after it.\<close>

definition emit_key :: "string \<Rightarrow> string \<Rightarrow> bool \<Rightarrow> string \<times> bool" where
  "emit_key name out first = ((if first then out else out @ '','') @ [quote] @ name @ [quote, CHR '':''], False)"

text \<open>The \<open>switch\<close> on a character; \<open>snprintf\<close> prints four hexadecimal digits.\<close>

definition hex4 :: "nat \<Rightarrow> string" where
  "hex4 n = [hex_digit (n div 4096), hex_digit (n div 256 mod 16), hex_digit (n div 16 mod 16), hex_digit (n mod 16)]"

definition emit_char :: "char \<Rightarrow> string" where
  "emit_char c =
     (if c = quote then [backslash, quote]
      else if c = backslash then [backslash, backslash]
      else if c = CHR 0x08 then [backslash, CHR ''b'']
      else if c = CHR 0x0C then [backslash, CHR ''f'']
      else if c = CHR 0x0A then [backslash, CHR ''n'']
      else if c = CHR 0x0D then [backslash, CHR ''r'']
      else if c = CHR 0x09 then [backslash, CHR ''t'']
      else if of_char c < (0x20 :: nat) then backslash # CHR ''u'' # hex4 (of_char c)
      else [c])"

definition emit_string :: "string \<Rightarrow> string \<Rightarrow> string" where
  "emit_string s out = foldl (\<lambda>out c. out @ emit_char c) (out @ [quote]) s @ [quote]"

definition emit_bytes :: "bytes \<Rightarrow> string \<Rightarrow> string" where
  "emit_bytes v out = foldl (\<lambda>out b. out @ hex2 b) (out @ [quote]) v @ [quote]"

definition emit_bool :: "bool \<Rightarrow> string \<Rightarrow> string" where
  "emit_bool v out = out @ (if v then ''true'' else ''false'')"

definition emit_signed :: "'a::len word \<Rightarrow> string \<Rightarrow> string" where
  "emit_signed v out = out @ dec_of_int (sint v)"

definition emit_unsigned :: "'a::len word \<Rightarrow> string \<Rightarrow> string" where
  "emit_unsigned v out = out @ dec_of_nat (unat v)"

definition emit_uuid :: "uuid \<Rightarrow> string \<Rightarrow> string" where
  "emit_uuid v out = emit_string (toString v) out"

text \<open>
  The overloads of \<open>emit_value\<close>. An enumeration is emitted by its name, which the generated class
  knows; \<open>toName\<close> stands for it.
\<close>

fun emit_value :: "(u32 \<Rightarrow> string) \<Rightarrow> (u64 \<Rightarrow> string) \<Rightarrow> (u32 \<Rightarrow> string) \<Rightarrow> pval \<Rightarrow> string \<Rightarrow> string" where
  "emit_value fmt_g fmt_17g toName (VBool v) out = emit_bool v out"
| "emit_value fmt_g fmt_17g toName (VInt8 v) out = emit_signed v out"
| "emit_value fmt_g fmt_17g toName (VUint8 v) out = emit_unsigned v out"
| "emit_value fmt_g fmt_17g toName (VInt16 v) out = emit_signed v out"
| "emit_value fmt_g fmt_17g toName (VUint16 v) out = emit_unsigned v out"
| "emit_value fmt_g fmt_17g toName (VInt32 v) out = emit_signed v out"
| "emit_value fmt_g fmt_17g toName (VUint32 v) out = emit_unsigned v out"
| "emit_value fmt_g fmt_17g toName (VInt64 v) out = emit_signed v out"
| "emit_value fmt_g fmt_17g toName (VUint64 v) out = emit_unsigned v out"
| "emit_value fmt_g fmt_17g toName (VFloat v) out = out @ fmt_g v"
| "emit_value fmt_g fmt_17g toName (VDouble v) out = out @ fmt_17g v"
| "emit_value fmt_g fmt_17g toName (VString v) out = emit_string v out"
| "emit_value fmt_g fmt_17g toName (VBytes v) out = emit_bytes v out"
| "emit_value fmt_g fmt_17g toName (VUuid v) out = emit_uuid v out"
| "emit_value fmt_g fmt_17g toName (VEnum v) out = emit_string (toName v) out"

section \<open>The reference: string literals and UTF-8\<close>

text \<open>
  The characters of a string literal after its opening quote, decoded, and what follows the closing
  quote: RFC 8259, section 7. Of the \<open>u\<close> escapes only those below U+0080 are read, which are the
  ones that stand for a single byte.
\<close>

definition simple_escape :: "char \<Rightarrow> char option" where
  "simple_escape c =
     (if c = quote \<or> c = backslash \<or> c = CHR ''/'' then Some c
      else if c = CHR ''b'' then Some CHR 0x08
      else if c = CHR ''f'' then Some CHR 0x0C
      else if c = CHR ''n'' then Some CHR 0x0A
      else if c = CHR ''r'' then Some CHR 0x0D
      else if c = CHR ''t'' then Some CHR 0x09
      else None)"

definition hex4_value :: "string \<Rightarrow> nat option" where
  "hex4_value s = (if length s = 4 \<and> list_all (\<lambda>c. hex_val c \<noteq> None) s
     then Some (foldl (\<lambda>n c. 16 * n + the (hex_val c)) 0 s) else None)"

function string_chars :: "string \<Rightarrow> (string \<times> string) option" where
  "string_chars s = (case s of
     [] \<Rightarrow> None
   | c # s \<Rightarrow>
       if c = quote then Some ([], s)
       else if of_char c < (0x20 :: nat) then None
       else if c \<noteq> backslash then map_option (apfst (Cons c)) (string_chars s)
       else (case s of
         [] \<Rightarrow> None
       | d # s \<Rightarrow>
           if d = CHR ''u'' then (case hex4_value (take 4 s) of
               None \<Rightarrow> None
             | Some n \<Rightarrow> if n < 128 then map_option (apfst (Cons (char_of n))) (string_chars (drop 4 s)) else None)
           else (case simple_escape d of
               None \<Rightarrow> None
             | Some e \<Rightarrow> map_option (apfst (Cons e)) (string_chars s))))"
  by pat_completeness auto

termination by (relation "measure length") auto

declare string_chars.simps [simp del]

definition string_literal :: "string \<Rightarrow> string \<Rightarrow> bool" where
  "string_literal lit s = (lit \<noteq> [] \<and> hd lit = quote \<and> string_chars (tl lit) = Some (s, []))"

text \<open>Well-formed UTF-8 (Unicode, table 3-7): the text of a string a JSON reader accepts.\<close>

definition cont :: "nat \<Rightarrow> bool" where
  "cont b = (0x80 \<le> b \<and> b \<le> 0xBF)"

fun utf8_octets :: "nat list \<Rightarrow> bool" where
  "utf8_octets [] = True"
| "utf8_octets (a # s) =
     (if a < 0x80 then utf8_octets s
      else if a < 0xC2 then False
      else if a < 0xE0 then (case s of b # s' \<Rightarrow> cont b \<and> utf8_octets s' | _ \<Rightarrow> False)
      else if a < 0xF0 then (case s of b # c # s' \<Rightarrow>
          cont b \<and> cont c \<and> (a = 0xE0 \<longrightarrow> 0xA0 \<le> b) \<and> (a = 0xED \<longrightarrow> b < 0xA0) \<and> utf8_octets s' | _ \<Rightarrow> False)
      else if a < 0xF5 then (case s of b # c # d # s' \<Rightarrow>
          cont b \<and> cont c \<and> cont d \<and> (a = 0xF0 \<longrightarrow> 0x90 \<le> b) \<and> (a = 0xF4 \<longrightarrow> b < 0x90) \<and> utf8_octets s' | _ \<Rightarrow> False)
      else False)"

definition utf8 :: "string \<Rightarrow> bool" where
  "utf8 s = utf8_octets (map of_char s)"

section \<open>What is emitted is a literal\<close>

lemma foldl_append: "foldl (\<lambda>out x. out @ f x) out xs = out @ concat (map f xs)"
  by (induction xs arbitrary: out) simp_all

lemma emit_string_eq: "emit_string s out = out @ [quote] @ concat (map emit_char s) @ [quote]"
  by (simp add: emit_string_def foldl_append)

lemma special_chars [simp]: "quote \<noteq> backslash" "of_char quote = (34 :: nat)" "of_char backslash = (92 :: nat)"
  by (simp_all add: quote_def backslash_def)

lemma hex4_value_hex4:
  assumes "n < 65536"
  shows "hex4_value (hex4 n) = Some n"
proof -
  define a b where "a = n div 16" and "b = a div 16"
  have c: "n div 4096 = b div 16" "n div 256 = b" by (simp_all add: a_def b_def div_mult2_eq [symmetric])
  have "n div 4096 < 16" using assms by auto
  moreover have "16 * (b div 16) + b mod 16 = b" "16 * b + a mod 16 = a" "16 * a + n mod 16 = n"
    by (simp_all add: a_def b_def)
  ultimately show ?thesis
    by (simp add: hex4_value_def hex4_def c a_def [symmetric])
qed

lemma string_chars_quote: "string_chars (quote # s) = Some ([], s)"
  by (subst string_chars.simps) simp

lemma string_chars_plain:
  "of_char c \<ge> (0x20 :: nat) \<Longrightarrow> c \<noteq> quote \<Longrightarrow> c \<noteq> backslash \<Longrightarrow>
     string_chars (c # s) = map_option (apfst (Cons c)) (string_chars s)"
  by (subst string_chars.simps) simp

lemma string_chars_escape:
  "d \<noteq> CHR ''u'' \<Longrightarrow> simple_escape d = Some e \<Longrightarrow>
     string_chars (backslash # d # s) = map_option (apfst (Cons e)) (string_chars s)"
  by (subst string_chars.simps) (simp add: special_chars(1) [symmetric] del: special_chars(1))

lemma string_chars_hex:
  assumes "n < 128"
  shows "string_chars (backslash # CHR ''u'' # hex4 n @ s) = map_option (apfst (Cons (char_of n))) (string_chars s)"
proof -
  have "take 4 (hex4 n @ s) = hex4 n" "drop 4 (hex4 n @ s) = s" by (simp_all add: hex4_def)
  with assms show ?thesis
    by (subst string_chars.simps) (simp add: hex4_value_hex4 special_chars(1) [symmetric] del: special_chars(1))
qed

lemma string_chars_emit_char: "string_chars (emit_char c @ s) = map_option (apfst (Cons c)) (string_chars s)"
proof -
  consider d where "emit_char c = [backslash, d]" "d \<noteq> CHR ''u''" "simple_escape d = Some c"
    | "emit_char c = backslash # CHR ''u'' # hex4 (of_char c)" "of_char c < (0x20 :: nat)"
    | "emit_char c = [c]" "\<not> of_char c < (0x20 :: nat)" "c \<noteq> quote" "c \<noteq> backslash"
  proof (cases "c \<in> {quote, backslash, CHR 0x08, CHR 0x0C, CHR 0x0A, CHR 0x0D, CHR 0x09}")
    case True
    define d where "d = (if c = CHR 0x08 then CHR ''b'' else if c = CHR 0x0C then CHR ''f'' else if c = CHR 0x0A then CHR ''n''
      else if c = CHR 0x0D then CHR ''r'' else if c = CHR 0x09 then CHR ''t'' else c)"
    have "emit_char c = [backslash, d]" "d \<noteq> CHR ''u''" "simple_escape d = Some c"
      using True by (auto simp: emit_char_def d_def simple_escape_def quote_def backslash_def)
    then show ?thesis using that(1) by blast
  next
    case False
    then have "emit_char c = (if of_char c < (0x20 :: nat) then backslash # CHR ''u'' # hex4 (of_char c) else [c])"
      by (simp add: emit_char_def)
    with False show ?thesis using that(2,3) by (cases "of_char c < (0x20 :: nat)") auto
  qed
  then show ?thesis
  proof cases
    case 1
    then show ?thesis by (simp add: string_chars_escape)
  next
    case 2
    then show ?thesis by (simp add: string_chars_hex [of "of_char c"])
  next
    case 3
    then show ?thesis by (simp add: string_chars_plain)
  qed
qed

lemma string_chars_emit: "string_chars (concat (map emit_char s) @ quote # rest) = Some (s, rest)"
  by (induction s) (simp_all add: string_chars_quote string_chars_emit_char option.map_comp)

text \<open>No control character, in particular no newline.\<close>

definition printable :: "string \<Rightarrow> bool" where
  "printable s = list_all (\<lambda>c. (0x20 :: nat) \<le> of_char c) s"

lemma printable_append [simp]: "printable (s @ t) \<longleftrightarrow> printable s \<and> printable t"
  by (simp add: printable_def)

lemma printable_emit_char: "printable (emit_char c)"
proof -
  have "(0x20 :: nat) \<le> of_char (hex_digit n)" if "n < 16" for n
    using less_16_cases [OF that] by (auto simp: hex_digit_def)
  then show ?thesis
    by (auto simp: printable_def emit_char_def hex4_def of_char_of)
qed

lemma printable_emit: "printable (concat (map emit_char s))"
  by (induction s) (simp_all add: printable_emit_char, simp add: printable_def)

text \<open>
  C38: Whatever bytes a string holds, \<open>emit_string\<close> appends one JSON string literal that decodes to
  exactly that string, whatever follows it, and the literal has no control character: a value never
  ends its literal early and never breaks the line it is sent in.
\<close>

theorem emitted_string_is_a_literal:
  "\<exists>body. emit_string s out = out @ [quote] @ body \<and> string_chars (body @ rest) = Some (s, rest) \<and> printable body"
  by (intro exI [of _ "concat (map emit_char s) @ [quote]"])
    (simp add: emit_string_eq string_chars_emit printable_emit, simp add: printable_def)

lemma hex_digit_plain: "n < 16 \<Longrightarrow> emit_char (hex_digit n) = [hex_digit n]"
  by (drule less_16_cases) (auto simp: hex_digit_def emit_char_def quote_def backslash_def)

text \<open>Bytes are emitted as the literal of their hexadecimal digits.\<close>

lemma emit_bytes_eq: "emit_bytes v out = emit_string (concat (map hex2 v)) out"
proof -
  have "concat (map emit_char (concat (map hex2 v))) = concat (map hex2 v)"
    by (induction v) (simp_all add: hex2_def hex_digit_plain)
  then show ?thesis by (simp add: emit_bytes_def emit_string_eq foldl_append)
qed

lemma string_literal_emit: "string_literal (emit_string s []) s"
  by (simp add: string_literal_def emit_string_eq string_chars_emit)

lemma utf8_ascii: "list_all (\<lambda>c. of_char c < (128 :: nat)) s \<Longrightarrow> utf8 s"
  by (induction s) (simp_all add: utf8_def)

lemma hex_digit_ascii [simp]: "n < 16 \<Longrightarrow> of_char (hex_digit n) < (128 :: nat)"
  by (drule less_16_cases) (auto simp: hex_digit_def)

lemma utf8_hex: "utf8 (concat (map hex2 v))"
proof (rule utf8_ascii)
  show "list_all (\<lambda>c. of_char c < (128 :: nat)) (concat (map hex2 v))"
    by (induction v) (simp_all add: hex2_def)
qed

end
