(* ===== verification/Json_Api.thy ===== *)
theory Json_Api
  imports Prelude
begin

text \<open>
  The JSON library (nlohmann::json) as the components use it: a record of the operations they call on
  a value of the library's type \<open>'j\<close>. It is a parameter of the definitions that parse JSON; nothing is
  assumed about it except where a lemma names a law. An operation that throws on a value of another
  kind returns the exception.
\<close>

record 'j json_api =
  parse :: "string \<Rightarrow> 'j res"
  contains :: "'j \<Rightarrow> string \<Rightarrow> bool"
  element :: "'j \<Rightarrow> string \<Rightarrow> 'j res"
  items :: "'j \<Rightarrow> 'j list"
  is_object :: "'j \<Rightarrow> bool"
  is_array :: "'j \<Rightarrow> bool"
  is_string :: "'j \<Rightarrow> bool"
  is_boolean :: "'j \<Rightarrow> bool"
  is_number :: "'j \<Rightarrow> bool"
  is_number_integer :: "'j \<Rightarrow> bool"
  is_number_unsigned :: "'j \<Rightarrow> bool"
  get_string :: "'j \<Rightarrow> string res"
  get_bool :: "'j \<Rightarrow> bool res"
  get_int64 :: "'j \<Rightarrow> u64 res"
  get_uint64 :: "'j \<Rightarrow> u64 res"
  get_float :: "'j \<Rightarrow> u32 res"
  get_double :: "'j \<Rightarrow> u64 res"
  find_member :: "'j \<Rightarrow> string \<Rightarrow> 'j option"

text \<open>\<open>j.value(key, default)\<close> on a boolean: throws on a value that is no object.\<close>

definition value_bool :: "'j json_api \<Rightarrow> 'j \<Rightarrow> string \<Rightarrow> bool \<Rightarrow> bool res" where
  "value_bool J j key d =
     (if \<not> is_object J j then Inl (JsonException ''cannot use value()'')
      else if contains J j key then rbind (element J j key) (get_bool J) else Inr d)"

end
