(* ===== verification/Json_Documents.thy ===== *)
theory Json_Documents
  imports Json_Text Json_Api
begin

text \<open>
  JSON documents: the values the emitter writes as a tree, their text, and what the components rely on
  the JSON library for when it reads such a text (\<open>reads_documents\<close>). The second half is a reader of
  documents, an instance of the interface that meets the law, so the law can be met.
\<close>

section \<open>Documents and their text\<close>

datatype jdoc =
    DStr string | DInt int | DBool bool | DArr "jdoc list" | DObj "(string \<times> jdoc) list"

definition comma_join :: "string list \<Rightarrow> string" where
  "comma_join ss = (case ss of [] \<Rightarrow> [] | s # ss \<Rightarrow> s @ concat (map (\<lambda>s. '','' @ s) ss))"

definition member_text :: "string \<Rightarrow> string \<Rightarrow> string" where
  "member_text k v = emit_string k [] @ '':'' @ v"

fun print_doc :: "jdoc \<Rightarrow> string" where
  "print_doc (DStr s) = emit_string s []"
| "print_doc (DInt i) = dec_of_int i"
| "print_doc (DBool b) = emit_bool b []"
| "print_doc (DArr ds) = ''['' @ comma_join (map print_doc ds) @ '']''"
| "print_doc (DObj kvs) = ''{'' @ comma_join (map (\<lambda>(k, d). member_text k (print_doc d)) kvs) @ ''}''"

text \<open>Documents with a text of well-formed UTF-8, integers of 64 bits and distinct names.\<close>

fun wf_doc :: "jdoc \<Rightarrow> bool" where
  "wf_doc (DStr s) = utf8 s"
| "wf_doc (DInt i) = (- (2 ^ 63) \<le> i \<and> i < 2 ^ 64)"
| "wf_doc (DBool b) = True"
| "wf_doc (DArr ds) = list_all wf_doc ds"
| "wf_doc (DObj kvs) = (distinct (map fst kvs) \<and> list_all (\<lambda>(k, d). utf8 k \<and> wf_doc d) kvs)"

section \<open>Reading a document\<close>

text \<open>
  A value of the library's type is the document: an integer is an unsigned one exactly when it has no
  sign, and its conversion to \<open>int64_t\<close> is a \<open>static_cast\<close>.
\<close>

fun is_doc :: "'j json_api \<Rightarrow> jdoc \<Rightarrow> 'j \<Rightarrow> bool" where
  "is_doc J (DStr s) j = (is_string J j \<and> get_string J j = Inr s)"
| "is_doc J (DInt i) j = (is_number_integer J j \<and> get_int64 J j = Inr (word_of_int i) \<and>
     is_number_unsigned J j = (0 \<le> i) \<and> (0 \<le> i \<longrightarrow> get_uint64 J j = Inr (word_of_int i)))"
| "is_doc J (DBool b) j = (is_boolean J j \<and> get_bool J j = Inr b)"
| "is_doc J (DArr ds) j = (is_array J j \<and> list_all2 (is_doc J) ds (items J j))"
| "is_doc J (DObj kvs) j = (is_object J j \<and>
     (\<forall>k. find_member J j k = None \<longleftrightarrow> k \<notin> fst ` set kvs) \<and>
     list_all (\<lambda>(k, P). \<exists>v. find_member J j k = Some v \<and> P v) (map (\<lambda>(k, d). (k, is_doc J d)) kvs))"

definition reads_documents :: "'j json_api \<Rightarrow> bool" where
  "reads_documents J = (\<forall>d. wf_doc d \<longrightarrow> (\<exists>j. parse J (print_doc d) = Inr j \<and> is_doc J d j))"

lemma is_doc_member:
  assumes "is_doc J (DObj kvs) j" and "(k, d) \<in> set kvs"
  obtains v where "find_member J j k = Some v" "is_doc J d v"
  using assms by (force simp: list_all_iff)

lemma is_doc_no_member: "is_doc J (DObj kvs) j \<Longrightarrow> k \<notin> fst ` set kvs \<Longrightarrow> find_member J j k = None"
  by simp

section \<open>A reader of documents\<close>

definition no_document :: "'a res" where
  "no_document = Inl (JsonException ''parse error'')"

text \<open>A value, the elements of an array, and the members of an object, each with what follows it.\<close>

definition digits_of :: "string \<Rightarrow> string" where
  "digits_of s = takeWhile (\<lambda>c. dec_digit c \<noteq> None) s"

definition scan_int :: "string \<Rightarrow> (jdoc \<times> string) option" where
  "scan_int s =
     (let (neg, s) = (case s of [] \<Rightarrow> (False, s) | c # t \<Rightarrow> if c = CHR ''-'' then (True, t) else (False, s));
          ds = digits_of s
      in if ds = [] then None
         else Some (DInt (if neg then - int (nat_of_dec ds) else int (nat_of_dec ds)), drop (length ds) s))"

fun scan_value :: "nat \<Rightarrow> string \<Rightarrow> (jdoc \<times> string) option"
  and scan_items :: "nat \<Rightarrow> string \<Rightarrow> (jdoc list \<times> string) option"
  and scan_members :: "nat \<Rightarrow> string \<Rightarrow> ((string \<times> jdoc) list \<times> string) option" where
  "scan_value (Suc n) (c # s) =
     (if c = quote then map_option (apfst DStr) (string_chars s)
      else if c = CHR ''['' then
        (if s \<noteq> [] \<and> hd s = CHR '']'' then Some (DArr [], tl s) else map_option (apfst DArr) (scan_items n s))
      else if c = CHR ''{'' then
        (if s \<noteq> [] \<and> hd s = CHR ''}'' then Some (DObj [], tl s) else map_option (apfst DObj) (scan_members n s))
      else if take 4 (c # s) = ''true'' then Some (DBool True, drop 4 (c # s))
      else if take 5 (c # s) = ''false'' then Some (DBool False, drop 5 (c # s))
      else scan_int (c # s))"
| "scan_value _ _ = None"
| "scan_items (Suc n) s = (case scan_value n s of
     Some (d, e # s) \<Rightarrow>
       if e = CHR '','' then map_option (apfst (Cons d)) (scan_items n s)
       else if e = CHR '']'' then Some ([d], s) else None
   | _ \<Rightarrow> None)"
| "scan_items 0 s = None"
| "scan_members (Suc n) (q # s) =
     (if q \<noteq> quote then None
      else (case string_chars s of
        Some (k, e # s) \<Rightarrow>
          if e \<noteq> CHR '':'' then None
          else (case scan_value n s of
            Some (d, f # s) \<Rightarrow>
              if f = CHR '','' then map_option (apfst (Cons (k, d))) (scan_members n s)
              else if f = CHR ''}'' then Some ([(k, d)], s) else None
          | _ \<Rightarrow> None)
      | _ \<Rightarrow> None))"
| "scan_members _ _ = None"

definition doc_parse :: "string \<Rightarrow> jdoc res" where
  "doc_parse s = (case scan_value (length s) s of Some (d, []) \<Rightarrow> Inr d | _ \<Rightarrow> no_document)"

fun doc_string :: "jdoc \<Rightarrow> string res" where
  "doc_string (DStr s) = Inr s" | "doc_string _ = no_document"

fun doc_int :: "jdoc \<Rightarrow> u64 res" where
  "doc_int (DInt i) = Inr (word_of_int i)" | "doc_int _ = no_document"

fun doc_bool :: "jdoc \<Rightarrow> bool res" where
  "doc_bool (DBool b) = Inr b" | "doc_bool _ = no_document"

fun doc_find :: "jdoc \<Rightarrow> string \<Rightarrow> jdoc option" where
  "doc_find (DObj kvs) k = map_of kvs k" | "doc_find _ k = None"

fun doc_items :: "jdoc \<Rightarrow> jdoc list" where
  "doc_items (DArr ds) = ds" | "doc_items (DObj kvs) = map snd kvs" | "doc_items _ = []"

definition doc_json :: "jdoc json_api" where
  "doc_json = \<lparr>parse = doc_parse, contains = (\<lambda>d k. doc_find d k \<noteq> None),
     element = (\<lambda>d k. case doc_find d k of Some e \<Rightarrow> Inr e | None \<Rightarrow> no_document), items = doc_items,
     is_object = (\<lambda>d. case d of DObj _ \<Rightarrow> True | _ \<Rightarrow> False), is_array = (\<lambda>d. case d of DArr _ \<Rightarrow> True | _ \<Rightarrow> False),
     is_string = (\<lambda>d. case d of DStr _ \<Rightarrow> True | _ \<Rightarrow> False), is_boolean = (\<lambda>d. case d of DBool _ \<Rightarrow> True | _ \<Rightarrow> False),
     is_number = (\<lambda>_. False), is_number_integer = (\<lambda>d. case d of DInt _ \<Rightarrow> True | _ \<Rightarrow> False),
     is_number_unsigned = (\<lambda>d. case d of DInt i \<Rightarrow> 0 \<le> i | _ \<Rightarrow> False),
     get_string = doc_string, get_bool = doc_bool, get_int64 = doc_int, get_uint64 = doc_int,
     get_float = (\<lambda>_. no_document), get_double = (\<lambda>_. no_document), find_member = doc_find\<rparr>"

section \<open>The reader reads what is printed\<close>

fun nodes :: "jdoc \<Rightarrow> nat" where
  "nodes (DArr ds) = Suc (sum_list (map (\<lambda>d. Suc (nodes d)) ds))"
| "nodes (DObj kvs) = Suc (sum_list (map (\<lambda>(k, d). Suc (nodes d)) kvs))"
| "nodes _ = 1"

definition ends :: "string \<Rightarrow> bool" where
  "ends rest = (rest = [] \<or> dec_digit (hd rest) = None)"

lemma ends_simps [simp]: "ends []" "ends (c # s) = (dec_digit c = None)"
  by (simp_all add: ends_def)

lemma comma_join_simps [simp]:
  "comma_join [] = []" "comma_join [s] = s" "comma_join (s # t # ss) = s @ CHR '','' # comma_join (t # ss)"
  by (simp_all add: comma_join_def)

lemma dec_digit_punctuation [simp]:
  "dec_digit CHR '','' = None" "dec_digit CHR '']'' = None" "dec_digit CHR ''}'' = None" "dec_digit quote = None"
  by (simp_all add: dec_digit_def quote_def)

lemma punctuation_distinct [simp]:
  "quote \<noteq> CHR ''[''" "quote \<noteq> CHR ''{''" "quote \<noteq> CHR '']''" "quote \<noteq> CHR ''}''" "quote \<noteq> CHR ''-''"
  "CHR ''['' \<noteq> quote" "CHR ''{'' \<noteq> quote" "CHR '']'' \<noteq> quote" "CHR ''}'' \<noteq> quote" "CHR ''-'' \<noteq> quote"
  by (simp_all add: quote_def)

lemma digits_of_dec: "ends rest \<Longrightarrow> digits_of (dec_of_nat n @ rest) = dec_of_nat n"
proof -
  assume r: "ends rest"
  have "takeWhile (\<lambda>c. dec_digit c \<noteq> None) (dec_of_nat n @ rest) =
      dec_of_nat n @ takeWhile (\<lambda>c. dec_digit c \<noteq> None) rest"
    by (rule takeWhile_append2) (rule dec_of_nat_digits)
  with r show ?thesis by (cases rest) (auto simp: digits_of_def)
qed

lemma dec_first: "\<exists>c s. dec_of_nat n = c # s \<and> dec_digit c \<noteq> None"
  using dec_of_nat_digits [of "hd (dec_of_nat n)" n] by (cases "dec_of_nat n") auto

lemma scan_int_dec: "ends rest \<Longrightarrow> scan_int (dec_of_int i @ rest) = Some (DInt i, rest)"
proof -
  assume r: "ends rest"
  show ?thesis
  proof (cases "i < 0")
    case True
    then show ?thesis by (simp add: scan_int_def dec_of_int_def digits_of_dec [OF r] Let_def)
  next
    case False
    obtain c s where c: "dec_of_nat (nat i) = c # s" "dec_digit c \<noteq> None" using dec_first by blast
    then have "c \<noteq> CHR ''-''" by auto
    then have "(case dec_of_nat (nat i) @ rest of [] \<Rightarrow> (False, dec_of_nat (nat i) @ rest)
        | c # t \<Rightarrow> if c = CHR ''-'' then (True, t) else (False, dec_of_nat (nat i) @ rest)) = (False, dec_of_nat (nat i) @ rest)"
      by (simp add: c(1))
    with False show ?thesis
      by (simp add: scan_int_def dec_of_int_def digits_of_dec [OF r] Let_def)
  qed
qed

lemma print_doc_first: "\<exists>c s. print_doc d = c # s \<and> c \<noteq> CHR '']'' \<and> c \<noteq> CHR ''}''"
proof (cases d)
  case (DInt i)
  obtain c s where "dec_of_nat (nat \<bar>i\<bar>) = c # s" "dec_digit c \<noteq> None" using dec_first by blast
  then show ?thesis by (auto simp: DInt dec_of_int_def dec_digit_def)
qed (auto simp: emit_string_eq emit_bool_def)

lemma scan_value_int:
  assumes "ends rest"
  shows "scan_value (Suc n) (dec_of_int i @ rest) = Some (DInt i, rest)"
proof -
  obtain c s where d: "dec_of_nat (nat \<bar>i\<bar>) = c # s" "dec_digit c \<noteq> None" using dec_first by blast
  then have "dec_of_int i = (if i < 0 then CHR ''-'' # c # s else c # s)" by (auto simp: dec_of_int_def)
  then obtain c' s' where c: "dec_of_int i = c' # s'" "c' = CHR ''-'' \<or> dec_digit c' \<noteq> None"
    using d(2) by (cases "i < 0") auto
  then have "c' \<noteq> quote" "c' \<noteq> CHR ''[''" "c' \<noteq> CHR ''{''" "c' \<noteq> CHR ''t''" "c' \<noteq> CHR ''f''"
    by (auto simp: dec_digit_def quote_def)
  with scan_int_dec [OF assms, of i] show ?thesis by (simp add: c(1))
qed

definition scans :: "jdoc \<Rightarrow> bool" where
  "scans d = (\<forall>n rest. nodes d \<le> n \<longrightarrow> ends rest \<longrightarrow> scan_value n (print_doc d @ rest) = Some (d, rest))"

lemma scan_items_join:
  "ds \<noteq> [] \<Longrightarrow> list_all scans ds \<Longrightarrow> sum_list (map (\<lambda>d. Suc (nodes d)) ds) \<le> n \<Longrightarrow>
     scan_items n (comma_join (map print_doc ds) @ CHR '']'' # rest) = Some (ds, rest)"
proof (induction ds arbitrary: n rule: induct_list012)
  case (2 d)
  then obtain m where "n = Suc m" "nodes d \<le> m" by (cases n) auto
  with 2 show ?case by (simp add: scans_def)
next
  case (3 d e ds)
  then obtain m where m: "n = Suc m" "nodes d \<le> m" "sum_list (map (\<lambda>d. Suc (nodes d)) (e # ds)) \<le> m" by (cases n) auto
  with 3 have "scan_items m (comma_join (map print_doc (e # ds)) @ CHR '']'' # rest) = Some (e # ds, rest)" by simp
  with 3 m show ?case by (simp add: scans_def)
qed simp

lemma scan_members_join:
  "kvs \<noteq> [] \<Longrightarrow> list_all (\<lambda>(k, d). scans d) kvs \<Longrightarrow> sum_list (map (\<lambda>(k, d). Suc (nodes d)) kvs) \<le> n \<Longrightarrow>
     scan_members n (comma_join (map (\<lambda>(k, d). member_text k (print_doc d)) kvs) @ CHR ''}'' # rest) = Some (kvs, rest)"
proof (induction kvs arbitrary: n rule: induct_list012)
  case (2 e)
  obtain k d where e: "e = (k, d)" by (cases e)
  with 2 obtain m where "n = Suc m" "nodes d \<le> m" by (cases n) auto
  with 2 show ?case by (simp add: e scans_def member_text_def emit_string_eq string_chars_emit)
next
  case (3 e f kvs)
  obtain k d where e: "e = (k, d)" by (cases e)
  with 3 obtain m where m: "n = Suc m" "nodes d \<le> m" "sum_list (map (\<lambda>(k, d). Suc (nodes d)) (f # kvs)) \<le> m"
    by (cases n) auto
  with 3 have "scan_members m (comma_join (map (\<lambda>(k, d). member_text k (print_doc d)) (f # kvs)) @ CHR ''}'' # rest) =
      Some (f # kvs, rest)" by simp
  with 3 m show ?case by (simp add: e scans_def member_text_def emit_string_eq string_chars_emit)
qed simp

lemma scan_print: "scans d"
proof (induction d)
  case (DStr s)
  then show ?case by (auto simp: scans_def emit_string_eq string_chars_emit Suc_le_eq gr0_conv_Suc)
next
  case (DInt i)
  then show ?case by (auto simp: scans_def scan_value_int Suc_le_eq gr0_conv_Suc)
next
  case (DBool b)
  then show ?case by (cases b) (auto simp: scans_def emit_bool_def quote_def Suc_le_eq gr0_conv_Suc)
next
  case (DArr ds)
  show ?case
    unfolding scans_def
  proof (intro allI impI)
    fix n rest assume n: "nodes (DArr ds) \<le> n"
    then obtain m where m: "n = Suc m" "sum_list (map (\<lambda>d. Suc (nodes d)) ds) \<le> m" by (cases n) auto
    show "scan_value n (print_doc (DArr ds) @ rest) = Some (DArr ds, rest)"
    proof (cases ds)
      case (Cons d ds')
      obtain c s where "print_doc d = c # s" "c \<noteq> CHR '']''" using print_doc_first by blast
      then have "\<exists>s. comma_join (map print_doc ds) = c # s" by (cases ds') (simp_all add: Cons)
      then obtain s where "comma_join (map print_doc ds) = c # s" ..
      moreover have "scan_items m (comma_join (map print_doc ds) @ CHR '']'' # rest) = Some (ds, rest)"
        using DArr m Cons by (intro scan_items_join) (auto simp: list_all_iff)
      ultimately show ?thesis using m \<open>c \<noteq> CHR '']''\<close> by simp
    qed (use m in simp)
  qed
next
  case (DObj kvs)
  show ?case
    unfolding scans_def
  proof (intro allI impI)
    fix n rest assume n: "nodes (DObj kvs) \<le> n"
    then obtain m where m: "n = Suc m" "sum_list (map (\<lambda>(k, d). Suc (nodes d)) kvs) \<le> m" by (cases n) auto
    show "scan_value n (print_doc (DObj kvs) @ rest) = Some (DObj kvs, rest)"
    proof (cases kvs)
      case (Cons e kvs')
      have "\<exists>s. comma_join (map (\<lambda>(k, d). member_text k (print_doc d)) kvs) = quote # s"
        by (cases e; cases kvs') (simp_all add: Cons member_text_def emit_string_eq)
      then obtain s where "comma_join (map (\<lambda>(k, d). member_text k (print_doc d)) kvs) = quote # s" ..
      moreover have "list_all (\<lambda>(k, d). scans d) kvs"
        unfolding list_all_iff using DObj by fastforce
      then have "scan_members m (comma_join (map (\<lambda>(k, d). member_text k (print_doc d)) kvs) @ CHR ''}'' # rest) = Some (kvs, rest)"
        using m Cons by (intro scan_members_join) auto
      ultimately show ?thesis using m by simp
    qed (use m in simp)
  qed
qed

lemma length_comma_join: "ss \<noteq> [] \<Longrightarrow> Suc (length (comma_join ss)) = sum_list (map (\<lambda>s. Suc (length s)) ss)"
  by (induction ss rule: induct_list012) auto

lemma nodes_le_length: "nodes d \<le> length (print_doc d)"
proof (induction d)
  case (DArr ds)
  then have "sum_list (map (\<lambda>d. Suc (nodes d)) ds) \<le> sum_list (map (\<lambda>d. Suc (length (print_doc d))) ds)"
    by (intro sum_list_mono) auto
  then show ?case
    using length_comma_join [of "map print_doc ds"] by (cases "ds = []") (simp_all add: comp_def)
next
  case (DObj kvs)
  have "Suc (nodes d) \<le> Suc (length (member_text k (print_doc d)))" if "(k, d) \<in> set kvs" for k d
    using DObj [of "(k, d)" d] that by (simp add: member_text_def)
  then have "sum_list (map (\<lambda>(k, d). Suc (nodes d)) kvs) \<le> sum_list (map (\<lambda>(k, d). Suc (length (member_text k (print_doc d)))) kvs)"
    by (intro sum_list_mono) auto
  then show ?case
    using length_comma_join [of "map (\<lambda>(k, d). member_text k (print_doc d)) kvs"]
    by (cases "kvs = []") (simp_all add: comp_def case_prod_unfold)
next
  case (DInt i)
  obtain c s where "print_doc (DInt i) = c # s" using print_doc_first by blast
  then show ?case by simp
qed (simp_all add: emit_string_eq emit_bool_def)

lemma doc_parse_print: "doc_parse (print_doc d) = Inr d"
  using scan_print [of d] nodes_le_length [of d] unfolding scans_def doc_parse_def
  by (metis (no_types, lifting) append_Nil2 ends_simps(1) list.simps(4) old.prod.case option.simps(5))

lemma is_doc_self: "wf_doc d \<Longrightarrow> is_doc doc_json d d"
proof (induction d)
  case (DArr ds)
  then have "list_all2 (is_doc doc_json) ds ds"
    by (intro list.rel_refl_strong) (auto simp: list_all_iff)
  then show ?case by (simp add: doc_json_def)
next
  case (DObj kvs)
  have "\<exists>v. map_of kvs k = Some v \<and> is_doc doc_json d v" if "(k, d) \<in> set kvs" for k d
    using DObj that by (fastforce simp: list_all_iff)
  then show ?case by (auto simp: doc_json_def list_all_iff map_of_eq_None_iff)
qed (simp_all add: doc_json_def)

lemma doc_json_reads_documents: "reads_documents doc_json"
  using doc_parse_print is_doc_self by (fastforce simp: reads_documents_def doc_json_def)

end
