(* ===== verification/Json_Parse.thy ===== *)
theory Json_Parse
  imports Json_Documents
begin

text \<open>
  Reading values out of a parsed JSON document (\<open>externalizer/json/JsonParse.h\<close>). The document is a
  value of the JSON library; every check comes before the access it guards. \<open>context\<close> is the name the
  generated code passes for its messages.
\<close>

section \<open>Members\<close>

definition read_error :: "string \<Rightarrow> string \<Rightarrow> exn" where
  "read_error what_for context = UCIException (''JsonExternalizer::read: '' @ what_for @ context)"

definition require_object :: "'j json_api \<Rightarrow> 'j \<Rightarrow> string \<Rightarrow> 'j res" where
  "require_object J value ctx =
     (if \<not> is_object J value then Inl (read_error ''expected object for '' ctx) else Inr value)"

definition require_member :: "'j json_api \<Rightarrow> 'j \<Rightarrow> string \<Rightarrow> string \<Rightarrow> 'j res" where
  "require_member J obj name ctx =
     rbind (require_object J obj ctx) (\<lambda>_. case find_member J obj name of
       None \<Rightarrow> Inl (read_error ''missing required field '' (ctx @ ''.'' @ name))
     | Some v \<Rightarrow> Inr v)"

definition optional_member :: "'j json_api \<Rightarrow> 'j \<Rightarrow> string \<Rightarrow> string \<Rightarrow> 'j option res" where
  "optional_member J obj name ctx = rbind (require_object J obj ctx) (\<lambda>_. Inr (find_member J obj name))"

definition require_array :: "'j json_api \<Rightarrow> 'j \<Rightarrow> string \<Rightarrow> unit res" where
  "require_array J value ctx =
     (if \<not> is_array J value then Inl (read_error ''expected array for '' ctx) else Inr ())"

section \<open>Bytes\<close>

text \<open>The loop over pairs of digits; the length has been found even.\<close>

fun hex_pairs :: "string \<Rightarrow> string \<Rightarrow> bytes \<Rightarrow> bytes res" where
  "hex_pairs ctx (a # b # text) bs = (case (hex_val a, hex_val b) of
     (Some hi, Some lo) \<Rightarrow> hex_pairs ctx text (bs @ [push_bit 4 (word_of_nat hi) OR word_of_nat lo])
   | _ \<Rightarrow> Inl (read_error ''invalid hex string for '' ctx))"
| "hex_pairs ctx _ bs = Inr bs"

definition parse_hex_bytes :: "'j json_api \<Rightarrow> 'j \<Rightarrow> string \<Rightarrow> bytes res" where
  "parse_hex_bytes J value ctx =
     (if \<not> is_string J value then Inl (read_error ''expected hex string for '' ctx)
      else rbind (get_string J value) (\<lambda>text.
        if odd (length text) then Inl (read_error ''odd-length hex string for '' ctx)
        else hex_pairs ctx text []))"

section \<open>Values\<close>

text \<open>
  \<open>parse_value<T>\<close>: for a signed type of width \<open>LENGTH('a)\<close>, for an unsigned one, and for the others.
\<close>

definition parse_signed :: "'j json_api \<Rightarrow> 'j \<Rightarrow> string \<Rightarrow> 'a::len word res" where
  "parse_signed J value ctx =
     (if \<not> is_number_integer J value then Inl (read_error ''expected signed integer for '' ctx)
      else rbind (get_int64 J value) (\<lambda>parsed.
        if sint parsed < - (2 ^ (LENGTH('a) - 1)) \<or> 2 ^ (LENGTH('a) - 1) - 1 < sint parsed
        then Inl (read_error ''integer out of range for '' ctx)
        else Inr (ucast parsed)))"

definition parse_unsigned :: "'j json_api \<Rightarrow> 'j \<Rightarrow> string \<Rightarrow> 'a::len word res" where
  "parse_unsigned J value ctx =
     (if \<not> is_number_unsigned J value \<and> \<not> is_number_integer J value
      then Inl (read_error ''expected unsigned integer for '' ctx)
      else rbind
        (if is_number_unsigned J value then get_uint64 J value
         else rbind (get_int64 J value) (\<lambda>signedParsed.
           if sint signedParsed < 0 then Inl (read_error ''negative unsigned integer for '' ctx) else Inr signedParsed))
        (\<lambda>parsed. if 2 ^ LENGTH('a) - 1 < unat parsed then Inl (read_error ''unsigned integer out of range for '' ctx)
           else Inr (ucast parsed)))"

definition parse_bool :: "'j json_api \<Rightarrow> 'j \<Rightarrow> string \<Rightarrow> bool res" where
  "parse_bool J value ctx =
     (if \<not> is_boolean J value then Inl (read_error ''expected boolean for '' ctx) else get_bool J value)"

definition parse_string :: "'j json_api \<Rightarrow> 'j \<Rightarrow> string \<Rightarrow> string res" where
  "parse_string J value ctx =
     (if \<not> is_string J value then Inl (read_error ''expected string for '' ctx) else get_string J value)"

definition parse_uuid :: "'j json_api \<Rightarrow> 'j \<Rightarrow> string \<Rightarrow> uuid res" where
  "parse_uuid J value ctx =
     (if \<not> is_string J value then Inl (read_error ''expected UUID string for '' ctx)
      else rbind (get_string J value) fromString)"

definition parse_floating :: "'j json_api \<Rightarrow> ('j \<Rightarrow> 'f res) \<Rightarrow> 'j \<Rightarrow> string \<Rightarrow> 'f res" where
  "parse_floating J get value ctx =
     (if \<not> is_number J value then Inl (read_error ''expected number for '' ctx) else get value)"

text \<open>
  An enumeration is not read by \<open>parse_value\<close> but by its generated handler: \<open>setValueFromName\<close> (here
  \<open>fromName\<close>), every exception of which becomes a \<open>UCIException\<close>.
\<close>

definition parse_enum :: "'j json_api \<Rightarrow> (string \<Rightarrow> u32 res) \<Rightarrow> 'j \<Rightarrow> string \<Rightarrow> u32 res" where
  "parse_enum J fromName value ctx =
     (if \<not> is_string J value then Inl (read_error ''expected enum string for '' ctx)
      else catch (\<lambda>_. True) (rbind (get_string J value) fromName)
        (\<lambda>e. Inl (read_error (ctx @ '': '') (what e))))"

fun parse_value :: "'j json_api \<Rightarrow> (string \<Rightarrow> u32 res) \<Rightarrow> prim \<Rightarrow> 'j \<Rightarrow> string \<Rightarrow> pval res" where
  "parse_value J fromName PBool v ctx = map_res VBool (parse_bool J v ctx)"
| "parse_value J fromName PInt8 v ctx = map_res VInt8 (parse_signed J v ctx)"
| "parse_value J fromName PUint8 v ctx = map_res VUint8 (parse_unsigned J v ctx)"
| "parse_value J fromName PInt16 v ctx = map_res VInt16 (parse_signed J v ctx)"
| "parse_value J fromName PUint16 v ctx = map_res VUint16 (parse_unsigned J v ctx)"
| "parse_value J fromName PInt32 v ctx = map_res VInt32 (parse_signed J v ctx)"
| "parse_value J fromName PUint32 v ctx = map_res VUint32 (parse_unsigned J v ctx)"
| "parse_value J fromName PInt64 v ctx = map_res VInt64 (parse_signed J v ctx)"
| "parse_value J fromName PUint64 v ctx = map_res VUint64 (parse_unsigned J v ctx)"
| "parse_value J fromName PFloat v ctx = map_res VFloat (parse_floating J (get_float J) v ctx)"
| "parse_value J fromName PDouble v ctx = map_res VDouble (parse_floating J (get_double J) v ctx)"
| "parse_value J fromName PString v ctx = map_res VString (parse_string J v ctx)"
| "parse_value J fromName PBytes v ctx = map_res VBytes (parse_hex_bytes J v ctx)"
| "parse_value J fromName PUuid v ctx = map_res VUuid (parse_uuid J v ctx)"
| "parse_value J fromName PEnum v ctx = map_res VEnum (parse_enum J fromName v ctx)"

section \<open>Round trip of the values\<close>

lemma sint_word_of_int64: "- (2 ^ 63) \<le> i \<Longrightarrow> i < 2 ^ 63 \<Longrightarrow> sint (word_of_int i :: u64) = i"
  by (simp add: sint_sbintrunc' signed_take_bit_int_eq_self)

lemma uint_word_of_int64: "0 \<le> i \<Longrightarrow> i < 2 ^ 64 \<Longrightarrow> uint (word_of_int i :: u64) = i"
  by (simp add: uint_word_of_int)

lemma ucast_word_of_int:
  "LENGTH('a::len) \<le> 64 \<Longrightarrow> (ucast (word_of_int k :: u64) :: 'a word) = word_of_int k"
  by (rule bit_word_eqI) (simp add: bit_simps)

lemma sint_range64: "LENGTH('a::len) \<le> 64 \<Longrightarrow> - (2 ^ 63) \<le> sint (v :: 'a word) \<and> sint v < 2 ^ 63"
proof -
  assume len: "LENGTH('a) \<le> 64"
  then have "(2 :: int) ^ (LENGTH('a) - 1) \<le> 2 ^ 63" by (intro power_increasing) simp_all
  with sint_ge [of v] sint_lt [of v] show ?thesis by linarith
qed

lemma uint_range64: "LENGTH('a::len) \<le> 64 \<Longrightarrow> uint (v :: 'a word) < 2 ^ 64"
proof -
  assume len: "LENGTH('a) \<le> 64"
  have "uint v < 2 ^ LENGTH('a)" by (rule unsigned_less)
  moreover have "(2 :: int) ^ LENGTH('a) \<le> 2 ^ 64" using len by (intro power_increasing) simp_all
  ultimately show ?thesis by linarith
qed

lemma parse_signed_doc:
  fixes v :: "'a::len word"
  assumes j: "is_doc J (DInt (sint v)) j" and len: "LENGTH('a) \<le> 64"
  shows "parse_signed J j ctx = Inr v"
proof -
  have "sint (word_of_int (sint v) :: u64) = sint v"
    using sint_range64 [OF len, of v] by (intro sint_word_of_int64) simp_all
  moreover have "\<not> sint v < - (2 ^ (LENGTH('a) - 1))" "\<not> 2 ^ (LENGTH('a) - 1) - 1 < sint v"
    using sint_ge [of v] sint_lt [of v] by linarith+
  ultimately show ?thesis
    using j ucast_word_of_int [OF len, of "sint v"] by (simp add: parse_signed_def)
qed

lemma parse_unsigned_doc:
  fixes v :: "'a::len word"
  assumes j: "is_doc J (DInt (uint v)) j" and len: "LENGTH('a) \<le> 64"
  shows "parse_unsigned J j ctx = Inr v"
proof -
  have v: "unat v < 2 ^ LENGTH('a)" by (rule unsigned_less)
  have "uint (word_of_int (uint v) :: u64) = uint v"
    using uint_range64 [OF len, of v] by (intro uint_word_of_int64) simp_all
  then have w: "unat (word_of_int (uint v) :: u64) = unat v" by (simp only: unat_eq_nat_uint)
  from v have "\<not> 2 ^ LENGTH('a) - 1 < unat v" by linarith
  then show ?thesis
    using j w ucast_word_of_int [OF len, of "uint v"] by (simp add: parse_unsigned_def)
qed

lemma hex_pairs_emitted: "hex_pairs ctx (concat (map hex2 v)) bs = Inr (bs @ v)"
proof (induction v arbitrary: bs)
  case Nil
  then show ?case by simp
next
  case (Cons b v)
  have "push_bit 4 (word_of_nat (unat (drop_bit 4 b))) OR word_of_nat (unat (b AND 0x0F)) = b"
    by (simp add: u8_eq_bits bit_simps)
  with Cons show ?case by (simp add: hex2_def)
qed

text \<open>
  The values that keep their identity through text: not the floating-point ones, whose digits are the
  C library's, strings only of well-formed UTF-8, uuids of 16 octets, enumerators that have a name.
\<close>

fun textual :: "(u32 \<Rightarrow> string) \<Rightarrow> (string \<Rightarrow> u32 res) \<Rightarrow> pval \<Rightarrow> bool" where
  "textual toName fromName (VFloat _) = False"
| "textual toName fromName (VDouble _) = False"
| "textual toName fromName (VString s) = utf8 s"
| "textual toName fromName (VUuid u) = wf_uuid u"
| "textual toName fromName (VEnum e) = (utf8 (toName e) \<and> fromName (toName e) = Inr e)"
| "textual toName fromName _ = True"

lemma utf8_toString:
  assumes "wf_uuid u"
  shows "utf8 (toString u)"
proof -
  have "canonical (toString u)" using assms by (rule canonical_toString)
  then have "list_all (\<lambda>c. c = CHR ''-'' \<or> lower_hex c) (toString u)"
    by (auto simp: canonical_def list_all_length)
  then have "list_all (\<lambda>c. of_char c < (128 :: nat)) (toString u)"
    by (rule list.pred_mono_strong) (auto simp: lower_hex_def)
  then show ?thesis by (rule utf8_ascii)
qed

text \<open>The document of a value.\<close>

fun doc_of_val :: "(u32 \<Rightarrow> string) \<Rightarrow> pval \<Rightarrow> jdoc" where
  "doc_of_val toName (VBool b) = DBool b"
| "doc_of_val toName (VInt8 v) = DInt (sint v)"
| "doc_of_val toName (VUint8 v) = DInt (uint v)"
| "doc_of_val toName (VInt16 v) = DInt (sint v)"
| "doc_of_val toName (VUint16 v) = DInt (uint v)"
| "doc_of_val toName (VInt32 v) = DInt (sint v)"
| "doc_of_val toName (VUint32 v) = DInt (uint v)"
| "doc_of_val toName (VInt64 v) = DInt (sint v)"
| "doc_of_val toName (VUint64 v) = DInt (uint v)"
| "doc_of_val toName (VFloat v) = DStr []"
| "doc_of_val toName (VDouble v) = DStr []"
| "doc_of_val toName (VString s) = DStr s"
| "doc_of_val toName (VBytes b) = DStr (concat (map hex2 b))"
| "doc_of_val toName (VUuid u) = DStr (toString u)"
| "doc_of_val toName (VEnum e) = DStr (toName e)"

lemma dec_of_int_uint: "dec_of_int (uint (x :: 'a::len word)) = dec_of_nat (unat x)"
  by (simp only: dec_of_int_def unat_eq_nat_uint) simp

lemma emit_value_doc:
  "textual toName fromName v \<Longrightarrow> emit_value fmt_g fmt_17g toName v out = out @ print_doc (doc_of_val toName v)"
  by (cases v) (simp_all add: emit_bool_def emit_signed_def emit_unsigned_def emit_uuid_def emit_bytes_eq emit_string_eq
      dec_of_int_uint)

lemma wf_doc_ints:
  fixes v :: "'a::len word"
  assumes "LENGTH('a) \<le> 64"
  shows "wf_doc (DInt (sint v))" "wf_doc (DInt (uint v))"
  using sint_range64 [OF assms, of v] uint_range64 [OF assms, of v] by (auto intro: order_trans [of _ 0])

lemma wf_doc_of_val: "textual toName fromName v \<Longrightarrow> wf_doc (doc_of_val toName v)"
  by (cases v) (auto simp: wf_doc_ints utf8_toString utf8_hex simp del: wf_doc.simps(2))

lemma parse_value_doc:
  assumes v: "textual toName fromName v" and j: "is_doc J (doc_of_val toName v) j"
  shows "parse_value J fromName (prim_of v) j ctx = Inr v"
proof (cases v)
  case (VBytes b)
  have "even (length (concat (map hex2 b)))" by (induction b) simp_all
  with j show ?thesis by (simp add: VBytes parse_hex_bytes_def hex_pairs_emitted)
next
  case (VUuid u)
  with v j show ?thesis by (simp add: parse_uuid_def fromString_toString)
qed (use v j in \<open>simp_all add: parse_signed_doc parse_unsigned_doc parse_bool_def parse_string_def parse_enum_def
    del: is_doc.simps(2)\<close>)

text \<open>
  The text of a primitive value reads back as the value: integers of every width and sign,
  booleans, strings, bytes, uuids and enumerators, with a JSON library that reads documents.
\<close>

theorem json_value_round_trip:
  assumes J: "reads_documents J" and v: "textual toName fromName v"
  shows "\<exists>j. parse J (emit_value fmt_g fmt_17g toName v []) = Inr j \<and>
    parse_value J fromName (prim_of v) j ctx = Inr v"
proof -
  obtain j where "parse J (print_doc (doc_of_val toName v)) = Inr j" "is_doc J (doc_of_val toName v) j"
    using J wf_doc_of_val [OF v] unfolding reads_documents_def by blast
  then show ?thesis using emit_value_doc [OF v, of fmt_g fmt_17g "[]"] parse_value_doc [OF v] by auto
qed

theorem json_value_round_trip_witness:
  "\<exists>j. parse doc_json (emit_value (\<lambda>_. []) (\<lambda>_. []) (\<lambda>_. []) (VBytes [0xCA, 0xFE]) []) = Inr j \<and>
     parse_value doc_json (\<lambda>_. no_document) PBytes j ''Blob'' = Inr (VBytes [0xCA, 0xFE])"
  using json_value_round_trip [OF doc_json_reads_documents, of "\<lambda>_. []" "\<lambda>_. no_document" "VBytes [0xCA, 0xFE]"]
  by simp

section \<open>Errors\<close>

text \<open>An access succeeds on a value of its kind.\<close>

definition typed_access :: "'j json_api \<Rightarrow> bool" where
  "typed_access J = (\<forall>j.
     (is_string J j \<longrightarrow> (\<exists>s. get_string J j = Inr s)) \<and> (is_boolean J j \<longrightarrow> (\<exists>b. get_bool J j = Inr b)) \<and>
     (is_number_integer J j \<longrightarrow> (\<exists>n. get_int64 J j = Inr n)) \<and> (is_number_unsigned J j \<longrightarrow> (\<exists>n. get_uint64 J j = Inr n)) \<and>
     (is_number J j \<longrightarrow> (\<exists>x. get_float J j = Inr x) \<and> (\<exists>x. get_double J j = Inr x)))"

lemma read_error_uci [simp]: "is_uci_exception (read_error w ctx)"
  by (simp add: read_error_def)

lemma hex_pairs_error: "hex_pairs ctx s bs = Inl e \<Longrightarrow> is_uci_exception e"
  by (induction ctx s bs rule: hex_pairs.induct) (auto split: option.splits)

lemma parse_signed_error: "typed_access J \<Longrightarrow> parse_signed J j ctx = Inl e \<Longrightarrow> is_uci_exception e"
  by (auto simp: typed_access_def parse_signed_def rbind_eq_Inl_iff split: if_splits)

lemma parse_unsigned_error: "typed_access J \<Longrightarrow> parse_unsigned J j ctx = Inl e \<Longrightarrow> is_uci_exception e"
  by (auto simp: typed_access_def parse_unsigned_def rbind_eq_Inl_iff split: if_splits)

lemma parse_text_error:
  assumes J: "typed_access J"
  shows "parse_bool J j ctx = Inl e \<Longrightarrow> is_uci_exception e" "parse_string J j ctx = Inl e \<Longrightarrow> is_uci_exception e"
    "parse_hex_bytes J j ctx = Inl e \<Longrightarrow> is_uci_exception e"
    "parse_uuid J j ctx = Inl e \<Longrightarrow> is_uci_exception e \<or> e = InvalidArgument ''stoul''"
    "parse_enum J fromName j ctx = Inl e \<Longrightarrow> is_uci_exception e"
    "parse_floating J (get_float J) j ctx = Inl e \<Longrightarrow> is_uci_exception e"
    "parse_floating J (get_double J) j ctx = Inl e \<Longrightarrow> is_uci_exception e"
proof -
  have s: "is_string J j \<Longrightarrow> \<exists>s. get_string J j = Inr s" and b: "is_boolean J j \<Longrightarrow> \<exists>b. get_bool J j = Inr b"
    and f: "is_number J j \<Longrightarrow> \<exists>x. get_float J j = Inr x" and d: "is_number J j \<Longrightarrow> \<exists>x. get_double J j = Inr x"
    using J unfolding typed_access_def by blast+
  show "parse_bool J j ctx = Inl e \<Longrightarrow> is_uci_exception e" using b by (auto simp: parse_bool_def split: if_splits)
  show "parse_string J j ctx = Inl e \<Longrightarrow> is_uci_exception e" using s by (auto simp: parse_string_def split: if_splits)
  show "parse_hex_bytes J j ctx = Inl e \<Longrightarrow> is_uci_exception e"
    using s hex_pairs_error by (auto simp: parse_hex_bytes_def split: if_splits)
  show "parse_uuid J j ctx = Inl e \<Longrightarrow> is_uci_exception e \<or> e = InvalidArgument ''stoul''"
    using s by (auto simp: parse_uuid_def split: if_splits dest: fromString_raises)
  show "parse_enum J fromName j ctx = Inl e \<Longrightarrow> is_uci_exception e"
    by (auto simp: parse_enum_def catch_def split: if_splits sum.splits)
  show "parse_floating J (get_float J) j ctx = Inl e \<Longrightarrow> is_uci_exception e"
    using f by (auto simp: parse_floating_def split: if_splits)
  show "parse_floating J (get_double J) j ctx = Inl e \<Longrightarrow> is_uci_exception e"
    using d by (auto simp: parse_floating_def split: if_splits)
qed

lemma parse_value_raises:
  assumes J: "typed_access J" and e: "parse_value J fromName p j ctx = Inl e"
  shows "is_uci_exception e \<or> p = PUuid \<and> e = InvalidArgument ''stoul''"
  using e by (cases p) (auto dest: parse_signed_error [OF J] parse_unsigned_error [OF J] parse_text_error [OF J])

text \<open>
  A JSON value that does not fit the field is a \<open>UCIException\<close> that names the field, with one
  exception: a string that is no uuid lets the \<open>std::invalid_argument\<close> of \<open>UUID::fromString\<close> through.
\<close>

theorem parse_value_errors:
  assumes J: "typed_access J" and e: "parse_value J fromName p j ctx = Inl e"
  shows "is_uci_exception e \<or> p = PUuid \<and> e = InvalidArgument ''stoul''"
  using assms by (rule parse_value_raises)

theorem parse_value_errors_witness:
  "is_uci_exception (UCIException ''JsonExternalizer::read: expected boolean for Flag'') \<or> PBool = PUuid"
proof -
  have "typed_access doc_json"
    by (auto simp: typed_access_def doc_json_def split: jdoc.splits)
  moreover have "parse_value doc_json (\<lambda>_. no_document) PBool (DInt 0) ''Flag'' =
      Inl (UCIException ''JsonExternalizer::read: expected boolean for Flag'')"
    by (simp add: parse_bool_def doc_json_def read_error_def)
  ultimately show ?thesis
    using parse_value_errors [of doc_json "\<lambda>_. no_document" PBool "DInt 0" "''Flag''"] by blast
qed

text \<open>
  The range check of a signed field looks at the value after its conversion to \<open>int64_t\<close>: an integer
  from \<open>2^64 - 2^31\<close> up is accepted for a 32-bit signed field, and stored as a negative number.
\<close>

theorem huge_integer_read_as_negative:
  assumes j: "is_doc J (DInt n) j" and n: "2 ^ 64 - 2 ^ 31 \<le> n" "n < 2 ^ 64"
  shows "\<exists>x. parse_value J fromName PInt32 j ctx = Inr (VInt32 x) \<and> sint x = n - 2 ^ 64"
proof -
  define i where "i = n - 2 ^ 64"
  have i: "- (2 ^ 31) \<le> i" "i < 0" using n by (simp_all add: i_def)
  have "(word_of_int n :: u64) = word_of_int i" by (simp add: i_def)
  then have get: "get_int64 J j = Inr (word_of_int i)" using j by simp
  have "sint (word_of_int i :: u64) = i" using i by (intro sint_word_of_int64) simp_all
  moreover have "(ucast (word_of_int i :: u64) :: u32) = word_of_int i" by (rule ucast_word_of_int) simp
  ultimately have "parse_signed J j ctx = Inr (word_of_int i :: u32)"
    using i j by (simp add: parse_signed_def get)
  moreover have "sint (word_of_int i :: u32) = i"
    using i by (simp add: sint_sbintrunc' signed_take_bit_int_eq_self)
  ultimately show ?thesis by (auto simp: i_def)
qed

theorem huge_integer_read_as_negative_witness:
  "\<exists>x. parse_value doc_json (\<lambda>_. no_document) PInt32 (DInt 18446744073709551615) ''Count'' = Inr (VInt32 x) \<and> sint x = - 1"
  using huge_integer_read_as_negative [OF is_doc_self, of 18446744073709551615] by simp

end
