(* ===== verification/Cal_Config.thy ===== *)
theory Cal_Config
  imports Json_Parse
begin

text \<open>
  Who a service is: the configuration file of the library and the identity a service gets from it
  (\<open>src/config/CalConfig.cpp\<close>). The environment variables, the file system and the JSON library are
  parameters. A map is a function to \<open>option\<close>; the loops over the entries stop at the first exception.
\<close>

section \<open>The environment\<close>

text \<open>
  \<open>getenv\<close>; the contents of a file that can be opened; and \<open>input >> document\<close>, which reads a value off the
  front of the text.
\<close>

record 'j cal_env =
  getenv :: "string \<Rightarrow> string option"
  open_file :: "string \<Rightarrow> string option"
  read_document :: "string \<Rightarrow> 'j res"

section \<open>Reading entries\<close>

record service_info =
  serviceUUID :: uuid
  subsystemUUID :: uuid

definition config_error :: "string \<Rightarrow> 'a res" where
  "config_error m = Inl (UCIException (''CAL config: '' @ m))"

definition squote :: string where
  "squote = [CHR 0x27]"

definition requireString :: "'j json_api \<Rightarrow> 'j \<Rightarrow> string \<Rightarrow> string \<Rightarrow> string res" where
  "requireString J obj key context = (case find_member J obj key of
     None \<Rightarrow> config_error (context @ '' must contain string '' @ squote @ key @ squote)
   | Some it \<Rightarrow>
       if \<not> is_string J it then config_error (context @ '' must contain string '' @ squote @ key @ squote)
       else get_string J it)"

definition requireUUID :: "'j json_api \<Rightarrow> 'j \<Rightarrow> string \<Rightarrow> string \<Rightarrow> uuid res" where
  "requireUUID J obj key context =
     catch (\<lambda>_. True) (rbind (requireString J obj key context) fromString)
       (\<lambda>e. config_error (''invalid UUID for '' @ context @ ''.'' @ key @ '': '' @ what e))"

definition requireArrayIfPresent :: "'j json_api \<Rightarrow> 'j \<Rightarrow> string \<Rightarrow> string \<Rightarrow> unit res" where
  "requireArrayIfPresent J obj key context = (case find_member J obj key of
     Some it \<Rightarrow> if \<not> is_array J it then config_error (context @ ''.'' @ key @ '' must be an array'') else Inr ()
   | None \<Rightarrow> Inr ())"

definition parse_named :: "'j json_api \<Rightarrow> string \<Rightarrow> string \<Rightarrow> 'j \<Rightarrow> (string \<Rightarrow> uuid option) \<Rightarrow> (string \<Rightarrow> uuid option) res" where
  "parse_named J key context item out =
     (if \<not> is_object J item then config_error (''entries in '' @ context @ ''.'' @ key @ '' must be objects'')
      else rbind (requireString J item ''name'' (context @ ''.'' @ key @ ''[]'')) (\<lambda>name.
           rbind (requireUUID J item ''uuid'' (context @ ''.'' @ key @ ''['' @ name @ '']'')) (\<lambda>uuid.
             if out name \<noteq> None
             then config_error (''duplicate '' @ key @ '' name '' @ squote @ name @ squote @ '' in selected system'')
             else Inr (out(name \<mapsto> uuid)))))"

definition parseNamedUUIDs ::
    "'j json_api \<Rightarrow> 'j \<Rightarrow> string \<Rightarrow> string \<Rightarrow> (string \<Rightarrow> uuid option) \<Rightarrow> (string \<Rightarrow> uuid option) res" where
  "parseNamedUUIDs J parent key context out =
     rbind (requireArrayIfPresent J parent key context) (\<lambda>_. case find_member J parent key of
       None \<Rightarrow> Inr out
     | Some it \<Rightarrow> foldR (parse_named J key context) (items J it) out)"

definition parse_service ::
    "'j json_api \<Rightarrow> string \<Rightarrow> uuid \<Rightarrow> 'j \<Rightarrow> (string \<Rightarrow> service_info option) \<Rightarrow> (string \<Rightarrow> service_info option) res" where
  "parse_service J context sub service out =
     (if \<not> is_object J service then config_error (''entries in '' @ context @ ''.services must be objects'')
      else rbind (requireString J service ''name'' (context @ ''.services[]'')) (\<lambda>name.
           rbind (requireUUID J service ''uuid'' (context @ ''.services['' @ name @ '']'')) (\<lambda>uuid.
             if out name \<noteq> None
             then config_error (''duplicate service name '' @ squote @ name @ squote @ '' in selected system'')
             else Inr (out(name \<mapsto> \<lparr>serviceUUID = uuid, subsystemUUID = sub\<rparr>)))))"

definition parseServices ::
    "'j json_api \<Rightarrow> 'j \<Rightarrow> string \<Rightarrow> uuid \<Rightarrow> (string \<Rightarrow> service_info option) \<Rightarrow> (string \<Rightarrow> service_info option) res" where
  "parseServices J parent context sub out =
     rbind (requireArrayIfPresent J parent ''services'' context) (\<lambda>_. case find_member J parent ''services'' of
       None \<Rightarrow> Inr out
     | Some it \<Rightarrow> foldR (parse_service J context sub) (items J it) out)"

section \<open>The file and the system\<close>

definition readConfigFile :: "'j cal_env \<Rightarrow> string \<Rightarrow> 'j res" where
  "readConfigFile E path = (case open_file E path of
     None \<Rightarrow> config_error (''cannot open ARCAL_CONFIG path '' @ squote @ path @ squote)
   | Some text \<Rightarrow> catch (\<lambda>_. True) (read_document E text)
       (\<lambda>e. config_error (''failed to parse '' @ squote @ path @ squote @ '': '' @ what e)))"

fun find_system :: "'j json_api \<Rightarrow> string \<Rightarrow> 'j list \<Rightarrow> 'j res" where
  "find_system J selected [] = config_error (''ARCAL_SYSTEM '' @ squote @ selected @ squote @ '' is not present in config'')"
| "find_system J selected (system # systems) =
     (if \<not> is_object J system then config_error ''entries in systems must be objects''
      else rbind (requireString J system ''name'' ''systems[]'') (\<lambda>name.
        if name = selected then Inr system else find_system J selected systems))"

definition env_string :: "'j cal_env \<Rightarrow> string \<Rightarrow> string" where
  "env_string E v = (case getenv E v of Some s \<Rightarrow> s | None \<Rightarrow> [])"

definition selectSystem :: "'j json_api \<Rightarrow> 'j cal_env \<Rightarrow> 'j \<Rightarrow> 'j res" where
  "selectSystem J E document =
     (if \<not> is_object J document then config_error ''root must be an object''
      else case find_member J document ''systems'' of
        None \<Rightarrow> config_error (''root must contain non-empty array '' @ squote @ ''systems'' @ squote)
      | Some systems \<Rightarrow>
          if \<not> is_array J systems \<or> items J systems = []
          then config_error (''root must contain non-empty array '' @ squote @ ''systems'' @ squote)
          else let selected = env_string E ''ARCAL_SYSTEM'' in
            if selected = [] then
              (if length (items J systems) = 1 then
                 (if \<not> is_object J (hd (items J systems)) then config_error ''entries in systems must be objects''
                  else Inr (hd (items J systems)))
               else config_error ''ARCAL_SYSTEM must select one of multiple configured systems'')
            else find_system J selected (items J systems))"

section \<open>Identities\<close>

record identity =
  configured :: bool
  systemLabel :: string
  serviceLabel :: string
  id_systemUUID :: uuid
  id_serviceUUID :: uuid
  id_subsystemUUID :: uuid
  componentUUIDs :: "string \<Rightarrow> uuid option"
  capabilityUUIDs :: "string \<Rightarrow> uuid option"

definition makeFallbackIdentity :: "string \<Rightarrow> identity res" where
  "makeFallbackIdentity label =
     rbind getNamespaceUUID (\<lambda>ns.
       let service = createVersion3UUID ns label
       in Inr \<lparr>configured = False, systemLabel = ''system'', serviceLabel = label,
            id_systemUUID = createVersion3UUID ns ''system'', id_serviceUUID = service,
            id_subsystemUUID = createVersion3UUID service ''subsystem'',
            componentUUIDs = (\<lambda>_. None), capabilityUUIDs = (\<lambda>_. None)\<rparr>)"

text \<open>What the loop over the subsystems adds to.\<close>

record collected =
  subsystemNames :: "string set"
  services :: "string \<Rightarrow> service_info option"
  components :: "string \<Rightarrow> uuid option"
  capabilities :: "string \<Rightarrow> uuid option"

definition parse_subsystem :: "'j json_api \<Rightarrow> string \<Rightarrow> 'j \<Rightarrow> collected \<Rightarrow> collected res" where
  "parse_subsystem J systemName subsystem c =
     (if \<not> is_object J subsystem then config_error (''entries in system '' @ systemName @ ''.subsystems must be objects'')
      else rbind (requireString J subsystem ''name'' ''subsystems[]'') (\<lambda>name.
        if name \<in> subsystemNames c
        then config_error (''duplicate subsystem name '' @ squote @ name @ squote @ '' in selected system'')
        else rbind (requireUUID J subsystem ''uuid'' (''subsystem '' @ name)) (\<lambda>uuid.
          let context = ''subsystem '' @ name in
          rbind (parseServices J subsystem context uuid (services c)) (\<lambda>ss.
          rbind (parseNamedUUIDs J subsystem ''components'' context (components c)) (\<lambda>cs.
          rbind (parseNamedUUIDs J subsystem ''capabilities'' context (capabilities c)) (\<lambda>ps.
            Inr \<lparr>subsystemNames = insert name (subsystemNames c), services = ss, components = cs, capabilities = ps\<rparr>))))))"

definition nil_uuid :: uuid where
  "nil_uuid = UUID zero_octets"

definition parse_system :: "'j json_api \<Rightarrow> 'j \<Rightarrow> string \<Rightarrow> collected res" where
  "parse_system J system systemName =
     (let context = ''system '' @ systemName in
      rbind (parseServices J system context nil_uuid (\<lambda>_. None)) (\<lambda>ss.
      rbind (parseNamedUUIDs J system ''components'' context (\<lambda>_. None)) (\<lambda>cs.
      rbind (parseNamedUUIDs J system ''capabilities'' context (\<lambda>_. None)) (\<lambda>ps.
      rbind (requireArrayIfPresent J system ''subsystems'' context) (\<lambda>_.
        let c = \<lparr>subsystemNames = {}, services = ss, components = cs, capabilities = ps\<rparr> in
        case find_member J system ''subsystems'' of
          None \<Rightarrow> Inr c
        | Some it \<Rightarrow> foldR (parse_subsystem J systemName) (items J it) c)))))"

definition resolveCalIdentity :: "'j json_api \<Rightarrow> 'j cal_env \<Rightarrow> string \<Rightarrow> identity res" where
  "resolveCalIdentity J E label =
     (let configPath = env_string E ''ARCAL_CONFIG'' in
      if configPath = ''NONE'' then makeFallbackIdentity label
      else if configPath = [] then config_error ''ARCAL_CONFIG must name a config file or be explicitly set to NONE''
      else rbind (readConfigFile E configPath) (\<lambda>document.
           rbind (selectSystem J E document) (\<lambda>system.
           rbind (requireString J system ''name'' ''selected system'') (\<lambda>systemName.
           rbind (requireUUID J system ''uuid'' (''system '' @ systemName)) (\<lambda>systemUUID.
           rbind (parse_system J system systemName) (\<lambda>c.
             case services c label of
               None \<Rightarrow> config_error (''service '' @ squote @ label @ squote @ '' is not configured in system '' @ squote @ systemName @ squote)
             | Some info \<Rightarrow> Inr \<lparr>configured = True, systemLabel = systemName, serviceLabel = label,
                 id_systemUUID = systemUUID, id_serviceUUID = serviceUUID info, id_subsystemUUID = subsystemUUID info,
                 componentUUIDs = components c, capabilityUUIDs = capabilities c\<rparr>))))))"

section \<open>Errors\<close>

text \<open>Every exception is a UCIException.\<close>

abbreviation uci_only :: "'a res \<Rightarrow> bool" where
  "uci_only \<equiv> outcome is_uci_exception (\<lambda>_. True)"

named_theorems uci_rules

lemma uci_config_error [uci_rules]: "uci_only (config_error m)"
  by (simp add: config_error_def)

lemma uci_Inr [uci_rules]: "uci_only (Inr x)"
  by simp

lemma uci_rbind [uci_rules]: "uci_only m \<Longrightarrow> (\<And>x. uci_only (f x)) \<Longrightarrow> uci_only (rbind m f)"
  by (rule outcome_rbind)

lemma uci_if [uci_rules]: "uci_only a \<Longrightarrow> uci_only b \<Longrightarrow> uci_only (if c then a else b)"
  by simp

lemma uci_option [uci_rules]: "uci_only a \<Longrightarrow> (\<And>x. uci_only (f x)) \<Longrightarrow> uci_only (case v of None \<Rightarrow> a | Some x \<Rightarrow> f x)"
  by (cases v) simp_all

lemma uci_let [uci_rules]: "(\<And>x. uci_only (f x)) \<Longrightarrow> uci_only (let x = v in f x)"
  by simp

lemma uci_foldR [uci_rules]: "(\<And>x s. uci_only (f x s)) \<Longrightarrow> uci_only (foldR f xs s)"
  by (rule outcome_foldR) simp_all

lemma uci_catch [uci_rules]: "(\<And>e. uci_only (h e)) \<Longrightarrow> uci_only (catch (\<lambda>_. True) m h)"
  by (cases m) simp_all

lemma uci_requireString: "typed_access J \<Longrightarrow> uci_only (requireString J obj key context)"
  by (auto simp: requireString_def config_error_def typed_access_def split: option.split)

lemma uci_requireUUID [uci_rules]: "uci_only (requireUUID J obj key context)"
  unfolding requireUUID_def by (intro uci_rules)

lemma uci_requireArrayIfPresent [uci_rules]: "uci_only (requireArrayIfPresent J obj key context)"
  unfolding requireArrayIfPresent_def by (intro uci_rules)

lemma uci_makeFallbackIdentity [uci_rules]: "uci_only (makeFallbackIdentity label)"
proof -
  have "\<exists>ns. getNamespaceUUID = Inr ns"
    by (simp add: getNamespaceUUID_def fromString_def upt_16 stoul16_def hex_val_def isspace_def
        hex_value_def Let_def)
  then obtain ns where ns: "getNamespaceUUID = Inr ns" ..
  show ?thesis unfolding makeFallbackIdentity_def ns by (simp add: Let_def)
qed

lemma uci_find_system: "typed_access J \<Longrightarrow> uci_only (find_system J selected js)"
  by (induction js) (auto intro!: uci_rules uci_requireString)

text \<open>
  C39: Whatever the environment, the file and its contents, an identity that cannot be resolved is reported
  as a \<open>UCIException\<close>: no exception of the JSON library, of \<open>std::stoul\<close> or of the streams comes out.
\<close>

theorem resolveCalIdentity_errors:
  assumes "typed_access J" and "resolveCalIdentity J E label = Inl e"
  shows "is_uci_exception e"
proof -
  note str = uci_requireString [OF assms(1)] uci_find_system [OF assms(1)]
  have services: "uci_only (parseServices J parent ctx sub out)" for parent ctx sub out
    unfolding parseServices_def parse_service_def by (intro uci_rules str)
  have named: "uci_only (parseNamedUUIDs J parent key ctx out)" for parent key ctx out
    unfolding parseNamedUUIDs_def parse_named_def by (intro uci_rules str)
  have "uci_only (parse_system J system name)" for system name
    unfolding parse_system_def parse_subsystem_def by (intro uci_rules str services named)
  moreover have "uci_only (selectSystem J E document)" for document
    unfolding selectSystem_def by (intro uci_rules str)
  moreover have "uci_only (readConfigFile E path)" for path
    unfolding readConfigFile_def by (intro uci_rules)
  ultimately have "uci_only (resolveCalIdentity J E label)"
    unfolding resolveCalIdentity_def by (intro uci_rules str)
  then show ?thesis by (simp add: assms(2))
qed

definition no_config :: "'j cal_env" where
  "no_config = \<lparr>getenv = (\<lambda>_. None), open_file = (\<lambda>_. None), read_document = (\<lambda>_. no_document)\<rparr>"

lemma typed_access_doc_json: "typed_access doc_json"
  by (auto simp: typed_access_def doc_json_def split: jdoc.splits)

theorem resolveCalIdentity_errors_witness:
  "\<exists>e. resolveCalIdentity doc_json no_config ''radar'' = Inl e \<and> is_uci_exception e"
proof -
  obtain e where "resolveCalIdentity doc_json no_config ''radar'' = Inl e"
    by (simp add: resolveCalIdentity_def no_config_def env_string_def config_error_def)
  with resolveCalIdentity_errors [OF typed_access_doc_json this] show ?thesis by blast
qed

section \<open>Collecting declarations\<close>

text \<open>
  The contract of the loops: each item declares an entry, a new name is added, a name that is there already
  is an error.
\<close>

locale declarations =
  fixes declares :: "'j \<Rightarrow> 'k \<times> 'v \<Rightarrow> bool" and add :: "'j \<Rightarrow> ('k \<Rightarrow> 'v option) \<Rightarrow> ('k \<Rightarrow> 'v option) res"
  assumes add_new: "declares j d \<Longrightarrow> out (fst d) = None \<Longrightarrow> add j out = Inr (out(fst d \<mapsto> snd d))"
    and add_taken: "declares j d \<Longrightarrow> out (fst d) \<noteq> None \<Longrightarrow> \<exists>m. add j out = Inl (UCIException m)"

text \<open>The reference: all names new, or nothing.\<close>

fun collect :: "('k \<times> 'v) list \<Rightarrow> ('k \<Rightarrow> 'v option) \<Rightarrow> ('k \<Rightarrow> 'v option) option" where
  "collect [] out = Some out"
| "collect (d # ds) out = (if out (fst d) = None then collect ds (out(fst d \<mapsto> snd d)) else None)"

lemma collect_append: "collect (xs @ ys) out = Option.bind (collect xs out) (collect ys)"
  by (induction xs arbitrary: out) simp_all

lemma collect_eq:
  "collect ds out =
     (if distinct (map fst ds) \<and> (\<forall>k \<in> set (map fst ds). out k = None) then Some (out ++ map_of ds) else None)"
proof (induction ds arbitrary: out)
  case (Cons d ds)
  show ?case
  proof (cases "out (fst d) = None \<and> fst d \<notin> fst ` set ds")
    case True
    then have "map_of ds (fst d) = None" by (simp add: map_of_eq_None_iff)
    then have "out(fst d \<mapsto> snd d) ++ map_of ds = out ++ map_of (d # ds)"
      by (auto simp: fun_eq_iff map_add_def split: option.split)
    moreover have "(\<forall>k \<in> set (map fst ds). (out(fst d \<mapsto> snd d)) k = None) \<longleftrightarrow> (\<forall>k \<in> set (map fst ds). out k = None)"
      using True by (auto simp: image_iff)
    ultimately show ?thesis using True by (simp only: collect.simps Cons) simp
  next
    case False
    then consider "out (fst d) \<noteq> None" | "out (fst d) = None" "fst d \<in> fst ` set ds" by fast
    then show ?thesis
    proof cases
      case 2
      then have "\<not> (\<forall>k \<in> set (map fst ds). (out(fst d \<mapsto> snd d)) k = None)" by force
      with 2 show ?thesis by (simp only: collect.simps Cons) simp
    qed auto
  qed
qed simp

context declarations begin

lemma add_all:
  "list_all2 declares js ds \<Longrightarrow> (case collect ds out of
     Some out' \<Rightarrow> foldR add js out = Inr out' | None \<Rightarrow> \<exists>m. foldR add js out = Inl (UCIException m))"
proof (induction js ds arbitrary: out rule: list_all2_induct)
  case (Cons j js d ds)
  show ?case
  proof (cases "out (fst d)")
    case None
    then have "add j out = Inr (out(fst d \<mapsto> snd d))" by (rule add_new [OF Cons.hyps(1)])
    then have f: "foldR add (j # js) out = foldR add js (out(fst d \<mapsto> snd d))" by simp
    have c: "collect (d # ds) out = collect ds (out(fst d \<mapsto> snd d))" using None by simp
    show ?thesis unfolding c f by (rule Cons.IH)
  next
    case (Some v)
    then show ?thesis using add_taken [OF Cons.hyps(1), of out] by auto
  qed
qed simp

end

text \<open>An object of the file that declares a name and a UUID.\<close>

definition names_uuid :: "'j json_api \<Rightarrow> 'j \<Rightarrow> string \<times> uuid \<Rightarrow> bool" where
  "names_uuid J j d = (is_object J j \<and> (\<forall>ctx. requireString J j ''name'' ctx = Inr (fst d)) \<and>
     (\<forall>ctx. requireUUID J j ''uuid'' ctx = Inr (snd d)))"

definition declares_service :: "'j json_api \<Rightarrow> uuid \<Rightarrow> 'j \<Rightarrow> string \<times> service_info \<Rightarrow> bool" where
  "declares_service J sub j d = (subsystemUUID (snd d) = sub \<and> names_uuid J j (fst d, serviceUUID (snd d)))"

interpretation named: declarations "names_uuid J" "parse_named J key ctx" for J key ctx
  by unfold_locales (auto simp: parse_named_def names_uuid_def config_error_def)

interpretation service: declarations "declares_service J sub" "parse_service J ctx sub" for J sub ctx
  by unfold_locales (auto simp: parse_service_def declares_service_def names_uuid_def config_error_def)

section \<open>The configuration as data\<close>

text \<open>A configuration, the document it is in the file, and the identity it stands for.\<close>

type_synonym decl = "string \<times> uuid"

record subsystem_cfg =
  sub_decl :: decl
  sub_services :: "decl list"
  sub_components :: "decl list"
  sub_capabilities :: "decl list"

record system_cfg =
  sys_decl :: decl
  sys_services :: "decl list"
  sys_components :: "decl list"
  sys_capabilities :: "decl list"
  subsystems :: "subsystem_cfg list"

definition decl_members :: "decl \<Rightarrow> (string \<times> jdoc) list" where
  "decl_members d = [(''name'', DStr (fst d)), (''uuid'', DStr (toString (snd d)))]"

definition block_members :: "decl list \<Rightarrow> decl list \<Rightarrow> decl list \<Rightarrow> (string \<times> jdoc) list" where
  "block_members ss cs ps =
     [(''services'', DArr (map (\<lambda>d. DObj (decl_members d)) ss)), (''components'', DArr (map (\<lambda>d. DObj (decl_members d)) cs)),
      (''capabilities'', DArr (map (\<lambda>d. DObj (decl_members d)) ps))]"

definition subsystem_doc :: "subsystem_cfg \<Rightarrow> jdoc" where
  "subsystem_doc s = DObj (decl_members (sub_decl s) @ block_members (sub_services s) (sub_components s) (sub_capabilities s))"

definition system_doc :: "system_cfg \<Rightarrow> jdoc" where
  "system_doc s = DObj (decl_members (sys_decl s) @ block_members (sys_services s) (sys_components s) (sys_capabilities s) @
     [(''subsystems'', DArr (map subsystem_doc (subsystems s)))])"

definition config_doc :: "system_cfg list \<Rightarrow> jdoc" where
  "config_doc ss = DObj [(''systems'', DArr (map system_doc ss))]"

definition wf_decls :: "decl list \<Rightarrow> bool" where
  "wf_decls = list_all (\<lambda>d. wf_uuid (snd d))"

definition wf_subsystem :: "subsystem_cfg \<Rightarrow> bool" where
  "wf_subsystem s = (wf_uuid (snd (sub_decl s)) \<and> wf_decls (sub_services s) \<and> wf_decls (sub_components s) \<and>
     wf_decls (sub_capabilities s))"

definition wf_system :: "system_cfg \<Rightarrow> bool" where
  "wf_system s = (wf_uuid (snd (sys_decl s)) \<and> wf_decls (sys_services s) \<and> wf_decls (sys_components s) \<and>
     wf_decls (sys_capabilities s) \<and> list_all wf_subsystem (subsystems s))"

text \<open>All services of a system, each with the UUID of the subsystem it is in, the nil UUID outside one.\<close>

definition infos :: "uuid \<Rightarrow> decl list \<Rightarrow> (string \<times> service_info) list" where
  "infos sub = map (\<lambda>d. (fst d, \<lparr>serviceUUID = snd d, subsystemUUID = sub\<rparr>))"

definition all_services :: "system_cfg \<Rightarrow> (string \<times> service_info) list" where
  "all_services s = infos nil_uuid (sys_services s) @
     concat (map (\<lambda>b. infos (snd (sub_decl b)) (sub_services b)) (subsystems s))"

definition all_components :: "system_cfg \<Rightarrow> decl list" where
  "all_components s = sys_components s @ concat (map sub_components (subsystems s))"

definition all_capabilities :: "system_cfg \<Rightarrow> decl list" where
  "all_capabilities s = sys_capabilities s @ concat (map sub_capabilities (subsystems s))"

definition unambiguous :: "system_cfg \<Rightarrow> bool" where
  "unambiguous s = (distinct (map fst (all_services s)) \<and> distinct (map fst (all_components s)) \<and>
     distinct (map fst (all_capabilities s)) \<and> distinct (map (\<lambda>b. fst (sub_decl b)) (subsystems s)))"

definition reference_identity :: "system_cfg \<Rightarrow> string \<Rightarrow> identity option" where
  "reference_identity s label =
     (if unambiguous s
      then map_option (\<lambda>info. \<lparr>configured = True, systemLabel = fst (sys_decl s), serviceLabel = label,
        id_systemUUID = snd (sys_decl s), id_serviceUUID = serviceUUID info, id_subsystemUUID = subsystemUUID info,
        componentUUIDs = map_of (all_components s), capabilityUUIDs = map_of (all_capabilities s)\<rparr>)
        (map_of (all_services s) label)
      else None)"

definition reference_system :: "system_cfg list \<Rightarrow> string \<Rightarrow> system_cfg option" where
  "reference_system ss selected =
     (if selected = [] then (case ss of [s] \<Rightarrow> Some s | _ \<Rightarrow> None) else find (\<lambda>s. fst (sys_decl s) = selected) ss)"

section \<open>The code computes the reference\<close>

text \<open>A result agrees with an option: the value, or some \<open>UCIException\<close>.\<close>

definition yields :: "'a res \<Rightarrow> 'a option \<Rightarrow> bool" where
  "yields r v = (case v of Some x \<Rightarrow> r = Inr x | None \<Rightarrow> \<exists>m. r = Inl (UCIException m))"

lemma yields_simps [simp]: "yields r (Some x) \<longleftrightarrow> r = Inr x" "yields (config_error m) None"
  "yields (Inl (UCIException m)) None"
  by (simp_all add: yields_def config_error_def)

lemma yields_bind: "yields m v \<Longrightarrow> (\<And>x. v = Some x \<Longrightarrow> yields (f x) (g x)) \<Longrightarrow> yields (rbind m f) (Option.bind v g)"
  by (cases v) (auto simp: yields_def)

lemmas named_yields = named.add_all [folded yields_def]
lemmas service_yields = service.add_all [folded yields_def]

lemma names_uuid_doc:
  assumes "is_doc J (DObj kvs) j" and "set (decl_members d) \<subseteq> set kvs" and "wf_uuid (snd d)"
  shows "names_uuid J j d"
proof -
  have m: "(''name'', DStr (fst d)) \<in> set kvs" "(''uuid'', DStr (toString (snd d))) \<in> set kvs"
    using assms(2) by (simp_all add: decl_members_def)
  obtain n where "find_member J j ''name'' = Some n" "is_doc J (DStr (fst d)) n" by (rule is_doc_member [OF assms(1) m(1)])
  moreover obtain u where "find_member J j ''uuid'' = Some u" "is_doc J (DStr (toString (snd d))) u"
    by (rule is_doc_member [OF assms(1) m(2)])
  moreover have "is_object J j" using assms(1) by simp
  ultimately show ?thesis
    using fromString_toString [OF assms(3)] by (simp add: names_uuid_def requireUUID_def requireString_def)
qed

lemma array_member:
  assumes "is_doc J (DObj kvs) j" and "(key, DArr ds) \<in> set kvs"
  obtains it where "find_member J j key = Some it" "requireArrayIfPresent J j key ctx = Inr ()"
    "is_array J it" "list_all2 (is_doc J) ds (items J it)"
proof -
  obtain it where "find_member J j key = Some it" "is_doc J (DArr ds) it" by (rule is_doc_member [OF assms])
  then show thesis using that by (simp add: requireArrayIfPresent_def)
qed

lemma decls_declare:
  "list_all2 (is_doc J) (map (\<lambda>d. DObj (decl_members d)) ds) js \<Longrightarrow> wf_decls ds \<Longrightarrow> list_all2 (names_uuid J) js ds"
proof (induction ds arbitrary: js)
  case (Cons d ds)
  then show ?case by (auto simp: list_all2_Cons1 wf_decls_def intro: names_uuid_doc simp del: is_doc.simps)
qed simp

lemma parseNamedUUIDs_yields:
  assumes "is_doc J (DObj kvs) j" and "(key, DArr (map (\<lambda>d. DObj (decl_members d)) ds)) \<in> set kvs" and "wf_decls ds"
  shows "yields (parseNamedUUIDs J j key ctx out) (collect ds out)"
proof -
  obtain it where it: "find_member J j key = Some it" "requireArrayIfPresent J j key ctx = Inr ()"
      "list_all2 (is_doc J) (map (\<lambda>d. DObj (decl_members d)) ds) (items J it)"
    by (rule array_member [OF assms(1,2)])
  then show ?thesis
    using named_yields [OF decls_declare [OF it(3) assms(3)], of key ctx out] by (simp add: parseNamedUUIDs_def)
qed

lemma parseServices_yields:
  assumes "is_doc J (DObj kvs) j" and "(''services'', DArr (map (\<lambda>d. DObj (decl_members d)) ds)) \<in> set kvs" and "wf_decls ds"
  shows "yields (parseServices J j ctx sub out) (collect (infos sub ds) out)"
proof -
  obtain it where it: "find_member J j ''services'' = Some it" "requireArrayIfPresent J j ''services'' ctx = Inr ()"
      "list_all2 (is_doc J) (map (\<lambda>d. DObj (decl_members d)) ds) (items J it)"
    by (rule array_member [OF assms(1,2)])
  have "list_all2 (declares_service J sub) (items J it) (infos sub ds)"
    using decls_declare [OF it(3) assms(3)] by (simp add: infos_def list.rel_map declares_service_def)
  from service_yields [OF this, of ctx out] it show ?thesis by (simp add: parseServices_def)
qed

text \<open>The loop over the subsystems: all their names and declarations are new, or it fails.\<close>

definition collect_blocks :: "subsystem_cfg list \<Rightarrow> collected \<Rightarrow> collected option" where
  "collect_blocks bs c =
     (if distinct (map (\<lambda>b. fst (sub_decl b)) bs) \<and> (\<forall>b \<in> set bs. fst (sub_decl b) \<notin> subsystemNames c) then
        (case (collect (concat (map (\<lambda>b. infos (snd (sub_decl b)) (sub_services b)) bs)) (services c),
               collect (concat (map sub_components bs)) (components c), collect (concat (map sub_capabilities bs)) (capabilities c)) of
           (Some ss, Some cs, Some ps) \<Rightarrow>
             Some \<lparr>subsystemNames = subsystemNames c \<union> (\<lambda>b. fst (sub_decl b)) ` set bs, services = ss, components = cs, capabilities = ps\<rparr>
         | _ \<Rightarrow> None)
      else None)"

definition collect_block :: "subsystem_cfg \<Rightarrow> collected \<Rightarrow> collected option" where
  "collect_block b c =
     (if fst (sub_decl b) \<in> subsystemNames c then None
      else Option.bind (collect (infos (snd (sub_decl b)) (sub_services b)) (services c)) (\<lambda>ss.
           Option.bind (collect (sub_components b) (components c)) (\<lambda>cs.
           Option.bind (collect (sub_capabilities b) (capabilities c)) (\<lambda>ps.
             Some \<lparr>subsystemNames = insert (fst (sub_decl b)) (subsystemNames c), services = ss, components = cs, capabilities = ps\<rparr>))))"

lemma collect_blocks_Nil: "collect_blocks [] c = Some c"
  by (simp add: collect_blocks_def)

lemma collect_blocks_Cons: "collect_blocks (b # bs) c = Option.bind (collect_block b c) (collect_blocks bs)"
proof (cases "fst (sub_decl b) \<in> subsystemNames c")
  case True
  then show ?thesis by (simp add: collect_blocks_def collect_block_def)
next
  case False
  then show ?thesis
    by (cases "collect (infos (snd (sub_decl b)) (sub_services b)) (services c)";
        cases "collect (sub_components b) (components c)"; cases "collect (sub_capabilities b) (capabilities c)")
      (auto simp: collect_blocks_def collect_block_def collect_append image_iff split: option.splits)
qed

lemma parse_subsystem_yields:
  assumes j: "is_doc J (subsystem_doc b) j" and wf: "wf_subsystem b"
  shows "yields (parse_subsystem J name j c) (collect_block b c)"
proof -
  define kvs where "kvs = decl_members (sub_decl b) @ block_members (sub_services b) (sub_components b) (sub_capabilities b)"
  have j: "is_doc J (DObj kvs) j" using j by (simp only: subsystem_doc_def kvs_def)
  have kvs: "set (decl_members (sub_decl b)) \<subseteq> set kvs"
      "(''services'', DArr (map (\<lambda>d. DObj (decl_members d)) (sub_services b))) \<in> set kvs"
      "(''components'', DArr (map (\<lambda>d. DObj (decl_members d)) (sub_components b))) \<in> set kvs"
      "(''capabilities'', DArr (map (\<lambda>d. DObj (decl_members d)) (sub_capabilities b))) \<in> set kvs"
    by (auto simp: kvs_def block_members_def)
  have wf: "wf_uuid (snd (sub_decl b))" "wf_decls (sub_services b)" "wf_decls (sub_components b)" "wf_decls (sub_capabilities b)"
    using assms(2) by (simp_all add: wf_subsystem_def)
  have "names_uuid J j (sub_decl b)" by (rule names_uuid_doc [OF j kvs(1) wf(1)])
  then have n: "is_object J j" "requireString J j ''name'' ctx = Inr (fst (sub_decl b))"
      "requireUUID J j ''uuid'' ctx = Inr (snd (sub_decl b))" for ctx
    by (simp_all add: names_uuid_def)
  have "yields (rbind (parseServices J j ctx (snd (sub_decl b)) (services c)) (\<lambda>ss.
          rbind (parseNamedUUIDs J j ''components'' ctx (components c)) (\<lambda>cs.
          rbind (parseNamedUUIDs J j ''capabilities'' ctx (capabilities c)) (\<lambda>ps.
            Inr \<lparr>subsystemNames = insert (fst (sub_decl b)) (subsystemNames c), services = ss, components = cs, capabilities = ps\<rparr>))))
       (Option.bind (collect (infos (snd (sub_decl b)) (sub_services b)) (services c)) (\<lambda>ss.
          Option.bind (collect (sub_components b) (components c)) (\<lambda>cs.
          Option.bind (collect (sub_capabilities b) (capabilities c)) (\<lambda>ps.
            Some \<lparr>subsystemNames = insert (fst (sub_decl b)) (subsystemNames c), services = ss, components = cs, capabilities = ps\<rparr>))))" for ctx
    by (intro yields_bind parseServices_yields [OF j kvs(2) wf(2)] parseNamedUUIDs_yields [OF j kvs(3) wf(3)]
        parseNamedUUIDs_yields [OF j kvs(4) wf(4)]) simp
  then show ?thesis by (simp add: parse_subsystem_def collect_block_def n Let_def)
qed

lemma parse_subsystems_yield:
  "list_all2 (is_doc J) (map subsystem_doc bs) js \<Longrightarrow> list_all wf_subsystem bs \<Longrightarrow>
     yields (foldR (parse_subsystem J name) js c) (collect_blocks bs c)"
proof (induction bs arbitrary: js c)
  case Nil
  then show ?case by (simp add: collect_blocks_Nil)
next
  case (Cons b bs)
  then obtain j js' where js: "js = j # js'" "is_doc J (subsystem_doc b) j" "list_all2 (is_doc J) (map subsystem_doc bs) js'"
    by (auto simp: list_all2_Cons1)
  have "yields (rbind (parse_subsystem J name j c) (foldR (parse_subsystem J name) js'))
      (Option.bind (collect_block b c) (collect_blocks bs))"
    using Cons js by (intro yields_bind parse_subsystem_yields) simp_all
  then show ?case by (simp add: js(1) collect_blocks_Cons)
qed

lemma parse_system_yields:
  assumes j: "is_doc J (system_doc s) j" and wf: "wf_system s"
  shows "yields (parse_system J j name)
    (Option.bind (collect (infos nil_uuid (sys_services s)) (\<lambda>_. None)) (\<lambda>ss.
     Option.bind (collect (sys_components s) (\<lambda>_. None)) (\<lambda>cs.
     Option.bind (collect (sys_capabilities s) (\<lambda>_. None)) (\<lambda>ps.
       collect_blocks (subsystems s) \<lparr>subsystemNames = {}, services = ss, components = cs, capabilities = ps\<rparr>))))"
proof -
  define kvs where "kvs = decl_members (sys_decl s) @ block_members (sys_services s) (sys_components s) (sys_capabilities s) @
     [(''subsystems'', DArr (map subsystem_doc (subsystems s)))]"
  have j: "is_doc J (DObj kvs) j" using j by (simp only: system_doc_def kvs_def)
  have kvs: "(''services'', DArr (map (\<lambda>d. DObj (decl_members d)) (sys_services s))) \<in> set kvs"
      "(''components'', DArr (map (\<lambda>d. DObj (decl_members d)) (sys_components s))) \<in> set kvs"
      "(''capabilities'', DArr (map (\<lambda>d. DObj (decl_members d)) (sys_capabilities s))) \<in> set kvs"
      "(''subsystems'', DArr (map subsystem_doc (subsystems s))) \<in> set kvs"
    by (auto simp: kvs_def block_members_def)
  have wf: "wf_decls (sys_services s)" "wf_decls (sys_components s)" "wf_decls (sys_capabilities s)" "list_all wf_subsystem (subsystems s)"
    using assms(2) by (simp_all add: wf_system_def)
  obtain it where it: "find_member J j ''subsystems'' = Some it" "requireArrayIfPresent J j ''subsystems'' (''system '' @ name) = Inr ()"
      "list_all2 (is_doc J) (map subsystem_doc (subsystems s)) (items J it)"
    by (rule array_member [OF j kvs(4)])
  show ?thesis unfolding parse_system_def Let_def it rbind_Inr option.case
    by (intro yields_bind parseServices_yields [OF j kvs(1) wf(1)] parseNamedUUIDs_yields [OF j kvs(2) wf(2)]
        parseNamedUUIDs_yields [OF j kvs(3) wf(3)] parse_subsystems_yield it wf)
qed

lemma collect_empty: "collect ds (\<lambda>_. None) = (if distinct (map fst ds) then Some (map_of ds) else None)"
  by (simp add: collect_eq map_add_def fun_eq_iff split: option.split)

text \<open>What is collected is the declarations of the whole system, when they are unambiguous.\<close>

lemma collected_eq:
  "Option.bind (collect (infos nil_uuid (sys_services s)) (\<lambda>_. None)) (\<lambda>ss.
     Option.bind (collect (sys_components s) (\<lambda>_. None)) (\<lambda>cs.
     Option.bind (collect (sys_capabilities s) (\<lambda>_. None)) (\<lambda>ps.
       collect_blocks (subsystems s) \<lparr>subsystemNames = {}, services = ss, components = cs, capabilities = ps\<rparr>))) =
   (if unambiguous s
    then Some \<lparr>subsystemNames = (\<lambda>b. fst (sub_decl b)) ` set (subsystems s), services = map_of (all_services s),
      components = map_of (all_components s), capabilities = map_of (all_capabilities s)\<rparr>
    else None)"
proof -
  have "unambiguous s \<longleftrightarrow> collect (all_services s) (\<lambda>_. None) \<noteq> None \<and> collect (all_components s) (\<lambda>_. None) \<noteq> None \<and>
      collect (all_capabilities s) (\<lambda>_. None) \<noteq> None \<and> distinct (map (\<lambda>b. fst (sub_decl b)) (subsystems s))"
    by (simp add: unambiguous_def collect_empty)
  moreover have m: "x = map_of ds" if "collect ds (\<lambda>_. None) = Some x" for ds :: "(string \<times> 'v) list" and x
    using that by (simp add: collect_empty split: if_splits)
  ultimately show ?thesis
    using m [of "all_services s"] m [of "all_components s"] m [of "all_capabilities s"]
    unfolding all_services_def all_components_def all_capabilities_def collect_append
    by (cases "collect (infos nil_uuid (sys_services s)) (\<lambda>_. None)"; cases "collect (sys_components s) (\<lambda>_. None)";
        cases "collect (sys_capabilities s) (\<lambda>_. None)") (auto simp: collect_blocks_def split: option.splits)
qed

lemma system_doc_names:
  assumes "is_doc J (system_doc s) j" and "wf_system s"
  shows "is_object J j" "requireString J j ''name'' ctx = Inr (fst (sys_decl s))" "requireUUID J j ''uuid'' ctx = Inr (snd (sys_decl s))"
proof -
  have "names_uuid J j (sys_decl s)"
    using assms by (intro names_uuid_doc [OF assms(1) [unfolded system_doc_def]]) (auto simp: wf_system_def)
  then show "is_object J j" "requireString J j ''name'' ctx = Inr (fst (sys_decl s))"
      "requireUUID J j ''uuid'' ctx = Inr (snd (sys_decl s))"
    by (simp_all add: names_uuid_def)
qed

lemma find_system_finds:
  "list_all2 (is_doc J) (map system_doc ss) js \<Longrightarrow> list_all wf_system ss \<Longrightarrow>
     (case find (\<lambda>s. fst (sys_decl s) = selected) ss of
        Some s \<Rightarrow> s \<in> set ss \<and> (\<exists>j. find_system J selected js = Inr j \<and> is_doc J (system_doc s) j)
      | None \<Rightarrow> \<exists>m. find_system J selected js = Inl (UCIException m))"
proof (induction ss arbitrary: js)
  case Nil
  then show ?case by (simp add: config_error_def)
next
  case (Cons s ss)
  then obtain j js' where js: "js = j # js'" "is_doc J (system_doc s) j" "list_all2 (is_doc J) (map system_doc ss) js'"
    by (auto simp: list_all2_Cons1)
  then show ?case using system_doc_names [OF js(2)] Cons.prems(2) Cons.IH [OF js(3)] by (auto simp: js(1) split: option.splits)
qed

lemma selectSystem_selects:
  assumes j: "is_doc J (config_doc ss) j" and wf: "list_all wf_system ss"
  shows "case reference_system ss (env_string E ''ARCAL_SYSTEM'') of
        Some s \<Rightarrow> s \<in> set ss \<and> (\<exists>k. selectSystem J E j = Inr k \<and> is_doc J (system_doc s) k)
      | None \<Rightarrow> \<exists>m. selectSystem J E j = Inl (UCIException m)"
proof -
  have obj: "is_object J j" using j by (simp add: config_doc_def)
  obtain it where it: "find_member J j ''systems'' = Some it" "is_array J it" "list_all2 (is_doc J) (map system_doc ss) (items J it)"
    by (rule array_member [OF j [unfolded config_doc_def]]) auto
  show ?thesis
  proof (cases "env_string E ''ARCAL_SYSTEM'' = []")
    case False
    then have "selectSystem J E j = (if items J it = [] then selectSystem J E j else find_system J (env_string E ''ARCAL_SYSTEM'') (items J it))"
      by (simp add: selectSystem_def obj it Let_def)
    moreover have "\<exists>m. selectSystem J E j = Inl (UCIException m)" if "items J it = []"
      using that by (simp add: selectSystem_def obj it config_error_def)
    moreover have "items J it = [] \<longleftrightarrow> ss = []" using it(3) by auto
    ultimately show ?thesis
      using find_system_finds [OF it(3) wf, of "env_string E ''ARCAL_SYSTEM''"] False
      by (cases "ss = []") (simp_all add: reference_system_def split: option.splits)
  next
    case True
    consider "ss = []" | s where "ss = [s]" | s t ts where "ss = s # t # ts" by (cases ss rule: remdups_adj.cases) auto
    then show ?thesis
    proof cases
      case (2 s)
      then obtain k where k: "items J it = [k]" "is_doc J (system_doc s) k" using it(3) by (auto simp: list_all2_Cons1)
      with system_doc_names(1) [OF k(2)] wf 2 True show ?thesis
        by (simp add: reference_system_def selectSystem_def obj it)
    qed (use it(3) True in \<open>auto simp: reference_system_def selectSystem_def obj it config_error_def list_all2_Cons1\<close>)
  qed
qed

lemma resolve_yields:
  assumes path: "getenv E ''ARCAL_CONFIG'' = Some path" "path \<noteq> []" "path \<noteq> ''NONE''"
    and opened: "open_file E path = Some contents" "read_document E contents = Inr j"
    and j: "is_doc J (config_doc ss) j" and wf: "list_all wf_system ss"
  shows "yields (resolveCalIdentity J E label)
    (Option.bind (reference_system ss (env_string E ''ARCAL_SYSTEM'')) (\<lambda>s. reference_identity s label))"
proof -
  have resolve: "resolveCalIdentity J E label =
      rbind (selectSystem J E j) (\<lambda>system.
      rbind (requireString J system ''name'' ''selected system'') (\<lambda>systemName.
      rbind (requireUUID J system ''uuid'' (''system '' @ systemName)) (\<lambda>systemUUID.
      rbind (parse_system J system systemName) (\<lambda>c.
        case services c label of
          None \<Rightarrow> config_error (''service '' @ squote @ label @ squote @ '' is not configured in system '' @ squote @ systemName @ squote)
        | Some info \<Rightarrow> Inr \<lparr>configured = True, systemLabel = systemName, serviceLabel = label,
            id_systemUUID = systemUUID, id_serviceUUID = serviceUUID info, id_subsystemUUID = subsystemUUID info,
            componentUUIDs = components c, capabilityUUIDs = capabilities c\<rparr>))))"
    using path(2,3) by (simp add: resolveCalIdentity_def env_string_def path(1) readConfigFile_def opened Let_def)
  show ?thesis
  proof (cases "reference_system ss (env_string E ''ARCAL_SYSTEM'')")
    case None
    with selectSystem_selects [OF j wf, of E] obtain m where "selectSystem J E j = Inl (UCIException m)" by auto
    with None show ?thesis by (simp add: resolve)
  next
    case (Some s)
    with selectSystem_selects [OF j wf, of E] obtain k where k: "s \<in> set ss" "selectSystem J E j = Inr k" "is_doc J (system_doc s) k"
      by auto
    have s: "wf_system s" using wf k(1) by (simp add: list_all_iff)
    have "yields (parse_system J k (fst (sys_decl s)))
       (if unambiguous s
        then Some \<lparr>subsystemNames = (\<lambda>b. fst (sub_decl b)) ` set (subsystems s), services = map_of (all_services s),
          components = map_of (all_components s), capabilities = map_of (all_capabilities s)\<rparr>
        else None)"
      using parse_system_yields [OF k(3) s] by (simp only: collected_eq)
    then show ?thesis
      using system_doc_names(2,3) [OF k(3) s]
      by (cases "unambiguous s"; cases "map_of (all_services s) label")
        (auto simp: resolve k(2) Some reference_identity_def yields_def config_error_def)
  qed
qed

text \<open>
  C14: The identity of a configured service is the one the configuration declares: for a file that holds a
  configuration, the lookup gives the UUIDs of the selected system, of the service of that name anywhere in
  it and of the subsystem it is in, with all the components and capabilities; it fails, with a
  \<open>UCIException\<close>, exactly when no system is selected, a name is declared twice or the service is missing.
\<close>

theorem resolved_identity_is_declared:
  assumes path: "getenv E ''ARCAL_CONFIG'' = Some path" "path \<noteq> []" "path \<noteq> ''NONE''"
    and opened: "open_file E path = Some contents" "read_document E contents = Inr j"
    and j: "is_doc J (config_doc ss) j" and wf: "list_all wf_system ss"
  shows "yields (resolveCalIdentity J E label)
    (Option.bind (reference_system ss (env_string E ''ARCAL_SYSTEM'')) (\<lambda>s. reference_identity s label))"
  using assms by (rule resolve_yields)

definition sample_config :: "system_cfg list" where
  "sample_config = [\<lparr>sys_decl = (''Alpha'', nil_uuid), sys_services = [(''nav'', UUID (replicate 16 1))], sys_components = [],
     sys_capabilities = [(''track'', UUID (replicate 16 2))],
     subsystems = [\<lparr>sub_decl = (''sensors'', UUID (replicate 16 3)), sub_services = [(''radar'', UUID (replicate 16 4))],
       sub_components = [(''antenna'', UUID (replicate 16 5))], sub_capabilities = []\<rparr>]\<rparr>]"

definition sample_env :: "jdoc cal_env" where
  "sample_env = \<lparr>getenv = (\<lambda>v. if v = ''ARCAL_CONFIG'' then Some ''cal.json'' else None), open_file = (\<lambda>_. Some []),
     read_document = (\<lambda>_. Inr (config_doc sample_config))\<rparr>"

lemma sample_config_wf: "list_all wf_system sample_config" "wf_doc (config_doc sample_config)"
  by (simp_all add: sample_config_def wf_system_def wf_subsystem_def wf_decls_def nil_uuid_def zero_octets_def wf_uuid_def
      config_doc_def system_doc_def subsystem_doc_def decl_members_def block_members_def utf8_ascii utf8_toString)

theorem resolved_identity_is_declared_witness:
  "\<exists>i. resolveCalIdentity doc_json sample_env ''radar'' = Inr i \<and> id_serviceUUID i = UUID (replicate 16 4) \<and>
     id_subsystemUUID i = UUID (replicate 16 3) \<and> componentUUIDs i ''antenna'' = Some (UUID (replicate 16 5))"
proof -
  have "is_doc doc_json (config_doc sample_config) (config_doc sample_config)"
    by (rule is_doc_self [OF sample_config_wf(2)])
  from resolved_identity_is_declared [OF _ _ _ _ _ this sample_config_wf(1), of sample_env "''cal.json''" "[]" "''radar''"]
  have "yields (resolveCalIdentity doc_json sample_env ''radar'')
      (Option.bind (reference_system sample_config (env_string sample_env ''ARCAL_SYSTEM'')) (\<lambda>s. reference_identity s ''radar''))"
    by (simp add: sample_env_def)
  then show ?thesis
    by (simp add: reference_system_def env_string_def sample_env_def sample_config_def reference_identity_def unambiguous_def
        all_services_def all_components_def all_capabilities_def infos_def)
qed

end
