(* ===== verification/Asb_Connection.thy ===== *)
theory Asb_Connection
  imports Cal_Config
begin

text \<open>
  The service bus connection (\<open>src/dds/DdsAbstractServiceBusConnection.cpp\<close>): the identity it answers with,
  its status and status listeners, the thread that watches the DDS participant, and the shutdown. The first
  half is the class as one thread sees it; the second is the application and the monitor thread as a step
  relation, a step being what happens between two points where another thread can come in.
\<close>

section \<open>The class\<close>

datatype asb_state = INITIALIZING | NORMAL | DEGRADED | INOPERABLE | FAILED

record status_data =
  state :: asb_state
  stateDetail :: string

type_synonym status_listener = nat
type_synonym status_call = "status_listener \<times> status_data"

text \<open>
  The members; \<open>participant_open\<close> is whether \<open>participant_\<close> has been closed, \<open>externalizer\<close> a pointer.
\<close>

record asb =
  configuredIdentity :: bool
  asb_systemLabel :: string
  asb_serviceLabel :: string
  asb_systemUUID :: uuid
  asb_serviceUUID :: uuid
  asb_subsystemUUID :: uuid
  asb_componentUUIDs :: "string \<Rightarrow> uuid option"
  asb_capabilityUUIDs :: "string \<Rightarrow> uuid option"
  externalizer :: "nat option"
  participant_open :: bool
  status :: status_data
  listeners :: "status_listener list"
  running :: bool
  shutdownRequested :: bool

text \<open>\<open>transitionState\<close>: the calls to the listeners it has copied, and the object.\<close>

definition transitionState :: "asb_state \<Rightarrow> string \<Rightarrow> asb \<Rightarrow> status_call list \<times> asb" where
  "transitionState newState detail a =
     (if state (status a) = newState then ([], a)
      else let st = \<lparr>state = newState, stateDetail = detail\<rparr>
           in (map (\<lambda>l. (l, st)) (listeners a), a\<lparr>status := st\<rparr>))"

text \<open>What the member initialisers leave.\<close>

definition blank_asb :: asb where
  "blank_asb = \<lparr>configuredIdentity = False, asb_systemLabel = [], asb_serviceLabel = [], asb_systemUUID = nil_uuid,
     asb_serviceUUID = nil_uuid, asb_subsystemUUID = nil_uuid, asb_componentUUIDs = (\<lambda>_. None), asb_capabilityUUIDs = (\<lambda>_. None),
     externalizer = None, participant_open = True, status = \<lparr>state = INITIALIZING, stateDetail = []\<rparr>, listeners = [],
     running = False, shutdownRequested = False\<rparr>"

definition connect_identity :: "identity \<Rightarrow> asb" where
  "connect_identity i =
     (let a = snd (transitionState INITIALIZING ''Starting up'' blank_asb);
          a = a\<lparr>configuredIdentity := configured i, asb_systemLabel := systemLabel i, asb_serviceLabel := serviceLabel i,
            asb_systemUUID := id_systemUUID i, asb_serviceUUID := id_serviceUUID i, asb_subsystemUUID := id_subsystemUUID i,
            asb_componentUUIDs := componentUUIDs i, asb_capabilityUUIDs := capabilityUUIDs i\<rparr>;
          a = snd (transitionState NORMAL ''Ready'' a)
      in a\<lparr>running := True\<rparr>)"

definition connect :: "'j json_api \<Rightarrow> 'j cal_env \<Rightarrow> string \<Rightarrow> asb res" where
  "connect J E label = map_res connect_identity (resolveCalIdentity J E label)"

definition uci_getAbstractServiceBusConnection :: "'j json_api \<Rightarrow> 'j cal_env \<Rightarrow> string \<Rightarrow> string \<Rightarrow> asb res" where
  "uci_getAbstractServiceBusConnection J E serviceIdentifier typ = connect J E serviceIdentifier"

definition getMySystemLabel :: "asb \<Rightarrow> string" where
  "getMySystemLabel a = asb_systemLabel a"

definition getMySystemUUID :: "asb \<Rightarrow> uuid" where
  "getMySystemUUID a = asb_systemUUID a"

definition getMyServiceUUID :: "asb \<Rightarrow> uuid" where
  "getMyServiceUUID a = asb_serviceUUID a"

definition getMySubsystemUUID :: "asb \<Rightarrow> uuid" where
  "getMySubsystemUUID a = asb_subsystemUUID a"

definition getMyComponentUUID :: "string \<Rightarrow> asb \<Rightarrow> uuid res" where
  "getMyComponentUUID name a =
     (if configuredIdentity a then
        (case asb_componentUUIDs a name of
           None \<Rightarrow> config_error (''component '' @ squote @ name @ squote @ '' is not configured in system '' @ squote @ asb_systemLabel a @ squote)
         | Some u \<Rightarrow> Inr u)
      else Inr (createVersion3UUID (asb_serviceUUID a) (''component:'' @ name)))"

definition getMyCapabilityUUID :: "string \<Rightarrow> asb \<Rightarrow> uuid res" where
  "getMyCapabilityUUID name a =
     (if configuredIdentity a then
        (case asb_capabilityUUIDs a name of
           None \<Rightarrow> config_error (''capability '' @ squote @ name @ squote @ '' is not configured in system '' @ squote @ asb_systemLabel a @ squote)
         | Some u \<Rightarrow> Inr u)
      else Inr (createVersion3UUID (asb_serviceUUID a) (''capability:'' @ name)))"

text \<open>The four version strings: schema, schema compiler, API, connection.\<close>

definition asb_versions :: "string list" where
  "asb_versions = [''2.5.0'', ''0.1.0'', ''2.5.0'', ''0.1.0'']"

definition getStatus :: "asb \<Rightarrow> status_data" where
  "getStatus a = status a"

definition addStatusListener :: "status_listener \<Rightarrow> asb \<Rightarrow> status_call list \<times> asb" where
  "addStatusListener l a = ([(l, status a)], a\<lparr>listeners := listeners a @ [l]\<rparr>)"

definition removeStatusListener :: "status_listener \<Rightarrow> asb \<Rightarrow> asb" where
  "removeStatusListener l a = a\<lparr>listeners := removeAll l (listeners a)\<rparr>"

definition registerExternalizer :: "nat \<Rightarrow> asb \<Rightarrow> asb" where
  "registerExternalizer ext a = a\<lparr>externalizer := Some ext\<rparr>"

section \<open>The threads\<close>

text \<open>
  Where the application thread is: calling the listeners of an addition, in \<open>shutdown\<close> before its
  transition, calling the listeners of it, waiting for the monitor thread; where the monitor thread is: at
  the loop condition, waiting, about to look at the participant, calling listeners, returned.
\<close>

datatype app_at = Free | Adding "status_call list" | Shutting | Announcing "status_call list" | Joining

datatype mon_at = Condition | Waiting | Probing | Telling "status_call list" | Returned

record threads =
  asb :: asb
  app :: app_at
  mon :: mon_at
  told :: "status_call list"

definition launched :: "identity \<Rightarrow> threads" where
  "launched i = \<lparr>asb = connect_identity i, app = Free, mon = Condition, told = []\<rparr>"

inductive app_move :: "threads \<Rightarrow> threads \<Rightarrow> bool" where
  add: "app s = Free \<Longrightarrow> addStatusListener l (asb s) = (cs, a) \<Longrightarrow> app_move s (s\<lparr>asb := a, app := Adding cs\<rparr>)"
| call: "app s = Adding (c # cs) \<Longrightarrow> app_move s (s\<lparr>app := Adding cs, told := told s @ [c]\<rparr>)"
| added: "app s = Adding [] \<Longrightarrow> app_move s (s\<lparr>app := Free\<rparr>)"
| remove: "app s = Free \<Longrightarrow> app_move s (s\<lparr>asb := removeStatusListener l (asb s)\<rparr>)"
| again: "app s = Free \<Longrightarrow> shutdownRequested (asb s) \<Longrightarrow> app_move s s"
| shutdown: "app s = Free \<Longrightarrow> \<not> shutdownRequested (asb s) \<Longrightarrow>
    app_move s (s\<lparr>asb := (asb s)\<lparr>shutdownRequested := True\<rparr>, app := Shutting\<rparr>)"
| failed: "app s = Shutting \<Longrightarrow> transitionState FAILED ''Shutdown requested'' (asb s) = (cs, a) \<Longrightarrow>
    app_move s (s\<lparr>asb := a, app := Announcing cs\<rparr>)"
| announce: "app s = Announcing (c # cs) \<Longrightarrow> app_move s (s\<lparr>app := Announcing cs, told := told s @ [c]\<rparr>)"
| stop_monitor: "app s = Announcing [] \<Longrightarrow> app_move s (s\<lparr>asb := (asb s)\<lparr>running := False\<rparr>, app := Joining\<rparr>)"
| joined: "app s = Joining \<Longrightarrow> mon s = Returned \<Longrightarrow> app_move s (s\<lparr>asb := (asb s)\<lparr>participant_open := False\<rparr>, app := Free\<rparr>)"

text \<open>\<open>broken\<close>: the participant's \<open>domain_id()\<close> throws.\<close>

inductive mon_move :: "threads \<Rightarrow> threads \<Rightarrow> bool" where
  enter: "mon s = Condition \<Longrightarrow> running (asb s) \<Longrightarrow> mon_move s (s\<lparr>mon := Waiting\<rparr>)"
| leave: "mon s = Condition \<Longrightarrow> \<not> running (asb s) \<Longrightarrow> mon_move s (s\<lparr>mon := Returned\<rparr>)"
| wake: "mon s = Waiting \<Longrightarrow> running (asb s) \<Longrightarrow> mon_move s (s\<lparr>mon := Probing\<rparr>)"
| break: "mon s = Waiting \<Longrightarrow> \<not> running (asb s) \<Longrightarrow> mon_move s (s\<lparr>mon := Returned\<rparr>)"
| healthy: "mon s = Probing \<Longrightarrow> mon_move s (s\<lparr>mon := Condition\<rparr>)"
| broken: "mon s = Probing \<Longrightarrow> transitionState INOPERABLE ''DDS participant error'' (asb s) = (cs, a) \<Longrightarrow>
    mon_move s (s\<lparr>asb := a, mon := Telling cs\<rparr>)"
| tell: "mon s = Telling (c # cs) \<Longrightarrow> mon_move s (s\<lparr>mon := Telling cs, told := told s @ [c]\<rparr>)"
| done_telling: "mon s = Telling [] \<Longrightarrow> mon_move s (s\<lparr>mon := Condition\<rparr>)"

inductive reached :: "identity \<Rightarrow> threads \<Rightarrow> bool" for i where
  start: "reached i (launched i)"
| by_app: "reached i s \<Longrightarrow> app_move s s' \<Longrightarrow> reached i s'"
| by_mon: "reached i s \<Longrightarrow> mon_move s s' \<Longrightarrow> reached i s'"

inductive_simps app_move_from: "app_move \<lparr>asb = a, app = p, mon = m, told = t\<rparr> s'"
inductive_simps mon_move_from: "mon_move \<lparr>asb = a, app = p, mon = m, told = t\<rparr> s'"

section \<open>States of the connection\<close>

text \<open>What the two threads keep true of the status, and of what listeners are told.\<close>

definition real_status :: "status_data \<Rightarrow> bool" where
  "real_status st = (st \<in> {\<lparr>state = NORMAL, stateDetail = ''Ready''\<rparr>, \<lparr>state = FAILED, stateDetail = ''Shutdown requested''\<rparr>,
     \<lparr>state = INOPERABLE, stateDetail = ''DDS participant error''\<rparr>})"

fun app_calls :: "app_at \<Rightarrow> status_call list" where
  "app_calls (Adding cs) = cs" | "app_calls (Announcing cs) = cs" | "app_calls _ = []"

fun mon_calls :: "mon_at \<Rightarrow> status_call list" where
  "mon_calls (Telling cs) = cs" | "mon_calls _ = []"

lemma real_status_simps [simp]:
  "real_status \<lparr>state = NORMAL, stateDetail = ''Ready''\<rparr>" "real_status \<lparr>state = FAILED, stateDetail = ''Shutdown requested''\<rparr>"
  "real_status \<lparr>state = INOPERABLE, stateDetail = ''DDS participant error''\<rparr>"
  by (simp_all add: real_status_def)

definition statuses_ok :: "threads \<Rightarrow> bool" where
  "statuses_ok s = (real_status (status (asb s)) \<and> list_all (real_status \<circ> snd) (told s) \<and>
     list_all (real_status \<circ> snd) (app_calls (app s)) \<and> list_all (real_status \<circ> snd) (mon_calls (mon s)))"

text \<open>How far a shutdown has got.\<close>

fun phase :: "app_at \<Rightarrow> nat" where
  "phase Free = 0" | "phase (Adding cs) = 0" | "phase Shutting = 1" | "phase (Announcing cs) = 2" | "phase Joining = 3"

definition shutdown_ok :: "threads \<Rightarrow> bool" where
  "shutdown_ok s = (let a = asb s; p = phase (app s) in
     (p \<noteq> 0 \<longrightarrow> shutdownRequested a) \<and> (shutdownRequested a \<and> p \<noteq> 1 \<longrightarrow> state (status a) \<noteq> NORMAL) \<and>
     (running a \<longleftrightarrow> \<not> shutdownRequested a \<or> p = 1 \<or> p = 2) \<and>
     (participant_open a \<longleftrightarrow> \<not> shutdownRequested a \<or> p \<noteq> 0) \<and>
     (state (status a) = FAILED \<longrightarrow> shutdownRequested a))"

lemma transitionState_status:
  "transitionState st d a = (cs, a') \<Longrightarrow>
     (state (status a) = st \<and> cs = [] \<and> a' = a) \<or>
     (state (status a) \<noteq> st \<and> cs = map (\<lambda>l. (l, \<lparr>state = st, stateDetail = d\<rparr>)) (listeners a) \<and>
      a' = a\<lparr>status := \<lparr>state = st, stateDetail = d\<rparr>\<rparr>)"
  by (auto simp: transitionState_def Let_def split: if_splits)

lemma connect_identity_eq:
  "connect_identity i = \<lparr>configuredIdentity = configured i, asb_systemLabel = systemLabel i, asb_serviceLabel = serviceLabel i,
     asb_systemUUID = id_systemUUID i, asb_serviceUUID = id_serviceUUID i, asb_subsystemUUID = id_subsystemUUID i,
     asb_componentUUIDs = componentUUIDs i, asb_capabilityUUIDs = capabilityUUIDs i, externalizer = None,
     participant_open = True, status = \<lparr>state = NORMAL, stateDetail = ''Ready''\<rparr>, listeners = [], running = True,
     shutdownRequested = False\<rparr>"
  by (simp add: connect_identity_def transitionState_def blank_asb_def Let_def)

lemma calls_real: "real_status st \<Longrightarrow> list_all (real_status \<circ> snd) (map (\<lambda>l. (l, st)) ls)"
  by (simp add: list_all_iff)

lemma statuses_ok_reached: "reached i s \<Longrightarrow> statuses_ok s"
proof (induction rule: reached.induct)
  case start
  then show ?case by (simp add: statuses_ok_def launched_def connect_identity_eq)
next
  case (by_app s s')
  from by_app.hyps(2) by_app.IH show ?case
    by cases (auto simp: statuses_ok_def addStatusListener_def removeStatusListener_def calls_real dest!: transitionState_status)
next
  case (by_mon s s')
  from by_mon.hyps(2) by_mon.IH show ?case
    by cases (auto simp: statuses_ok_def calls_real dest!: transitionState_status)
qed

lemma shutdown_ok_reached: "reached i s \<Longrightarrow> shutdown_ok s"
proof (induction rule: reached.induct)
  case start
  then show ?case by (simp add: shutdown_ok_def launched_def connect_identity_eq Let_def)
next
  case (by_app s s')
  from by_app.hyps(2) show ?case
  proof cases
    case (failed cs a)
    from transitionState_status [OF failed(3)] show ?thesis
      by (elim disjE) (use by_app.IH failed(1,2) in \<open>simp_all add: shutdown_ok_def Let_def\<close>)
  qed (use by_app.IH in \<open>simp_all add: shutdown_ok_def Let_def addStatusListener_def removeStatusListener_def\<close>)
next
  case (by_mon s s')
  from by_mon.hyps(2) show ?case
  proof cases
    case (broken cs a)
    from transitionState_status [OF broken(3)] show ?thesis
      by (elim disjE) (use by_mon.IH broken(1,2) in \<open>simp_all add: shutdown_ok_def Let_def\<close>)
  qed (use by_mon.IH in \<open>simp_all add: shutdown_ok_def Let_def\<close>)
qed

text \<open>
  C15: Whatever the two threads do, the connection is in one of three states and listeners are only told of
  those: ready, failed by a shutdown or inoperable after an error of the participant; it is never ready
  again once a shutdown has begun, and the participant is closed exactly when a shutdown has completed.
\<close>

theorem connection_states:
  assumes "reached i s"
  shows "real_status (status (asb s)) \<and> list_all (real_status \<circ> snd) (told s) \<and>
    (shutdownRequested (asb s) \<and> app s \<noteq> Shutting \<longrightarrow> state (status (asb s)) \<in> {FAILED, INOPERABLE}) \<and>
    (app s = Free \<longrightarrow> participant_open (asb s) = (\<not> shutdownRequested (asb s)))"
proof (intro conjI impI)
  note ok = statuses_ok_reached [OF assms] shutdown_ok_reached [OF assms]
  show r: "real_status (status (asb s))" and "list_all (real_status \<circ> snd) (told s)"
    using ok(1) by (simp_all add: statuses_ok_def)
  show "state (status (asb s)) \<in> {FAILED, INOPERABLE}" if "shutdownRequested (asb s) \<and> app s \<noteq> Shutting"
  proof -
    have "phase (app s) \<noteq> 1" using that by (cases "app s") simp_all
    then have "state (status (asb s)) \<noteq> NORMAL" using ok(2) that by (simp add: shutdown_ok_def Let_def)
    with r show ?thesis by (auto simp: real_status_def)
  qed
  show "participant_open (asb s) = (\<not> shutdownRequested (asb s))" if "app s = Free"
    using ok(2) that by (simp add: shutdown_ok_def Let_def)
qed

theorem connection_states_witness:
  "\<forall>i. \<exists>s :: threads. reached i s \<and> shutdownRequested (asb s) \<and> real_status (status (asb s))"
proof (intro allI, goal_cases)
  case (1 i)
  let ?s = "launched i" and ?a = "(connect_identity i)\<lparr>shutdownRequested := True\<rparr>"
  have "reached i (?s\<lparr>asb := (asb ?s)\<lparr>shutdownRequested := True\<rparr>, app := Shutting\<rparr>)"
    by (intro by_app [OF start] shutdown) (simp_all add: launched_def connect_identity_eq)
  from connection_states [OF this] this show ?case by (intro exI conjI) (assumption, simp, simp)
qed

section \<open>Status and shutdown together\<close>

lemma launched_eq: "launched i = \<lparr>asb = connect_identity i, app = Free, mon = Condition, told = []\<rparr>"
  by (simp add: launched_def)

lemmas run_simps = app_move_from mon_move_from connect_identity_eq transitionState_def addStatusListener_def Let_def

text \<open>The monitor is about to look at the participant; one listener may have been added before.\<close>

lemma reached_probing: "reached i \<lparr>asb = connect_identity i, app = Free, mon = Probing, told = []\<rparr>"
proof -
  have "reached i \<lparr>asb = connect_identity i, app = Free, mon = Condition, told = []\<rparr>"
    using start [of i] by (simp only: launched_eq)
  then have "reached i \<lparr>asb = connect_identity i, app = Free, mon = Waiting, told = []\<rparr>"
    by (rule by_mon) (simp add: run_simps)
  then show ?thesis by (rule by_mon) (simp add: run_simps)
qed

text \<open>
  \<open>FAILED\<close> is not final: when the monitor thread is looking at the participant while \<open>shutdown\<close> sets the
  status, its own transition comes second, and a connection that has been shut down reports
  \<open>INOPERABLE\<close>.
\<close>

theorem shutdown_can_end_inoperable:
  "\<exists>s. reached i s \<and> app s = Free \<and> mon s = Returned \<and> shutdownRequested (asb s) \<and> \<not> participant_open (asb s) \<and>
     state (getStatus (asb s)) = INOPERABLE"
proof -
  let ?a = "connect_identity i"
  let ?f = "\<lparr>state = FAILED, stateDetail = ''Shutdown requested''\<rparr>" and ?e = "\<lparr>state = INOPERABLE, stateDetail = ''DDS participant error''\<rparr>"
  from reached_probing have "reached i \<lparr>asb = ?a\<lparr>shutdownRequested := True\<rparr>, app = Shutting, mon = Probing, told = []\<rparr>"
    by (rule by_app) (simp add: run_simps)
  then have "reached i \<lparr>asb = ?a\<lparr>shutdownRequested := True, status := ?f\<rparr>, app = Announcing [], mon = Probing, told = []\<rparr>"
    by (rule by_app) (simp add: run_simps)
  then have "reached i \<lparr>asb = ?a\<lparr>shutdownRequested := True, status := ?e\<rparr>, app = Announcing [], mon = Telling [], told = []\<rparr>"
    by (rule by_mon) (simp add: run_simps)
  then have "reached i \<lparr>asb = ?a\<lparr>shutdownRequested := True, status := ?e, running := False\<rparr>, app = Joining, mon = Telling [], told = []\<rparr>"
    by (rule by_app) (simp add: run_simps)
  then have "reached i \<lparr>asb = ?a\<lparr>shutdownRequested := True, status := ?e, running := False\<rparr>, app = Joining, mon = Condition, told = []\<rparr>"
    by (rule by_mon) (simp add: run_simps)
  then have "reached i \<lparr>asb = ?a\<lparr>shutdownRequested := True, status := ?e, running := False\<rparr>, app = Joining, mon = Returned, told = []\<rparr>"
    by (rule by_mon) (simp add: run_simps)
  then have "reached i \<lparr>asb = ?a\<lparr>shutdownRequested := True, status := ?e, running := False, participant_open := False\<rparr>,
      app = Free, mon = Returned, told = []\<rparr>"
    by (rule by_app) (simp add: run_simps)
  then show ?thesis by (intro exI conjI) (assumption, simp_all add: getStatus_def)
qed

text \<open>
  A listener can be left with the wrong status: transitions are announced outside the lock, so the call
  of an earlier transition can come after that of a later one. Here the connection has failed by a
  shutdown, both threads are done, and the last thing the listener was told is \<open>INOPERABLE\<close>.
\<close>

theorem listener_left_with_stale_status:
  "\<exists>s. reached i s \<and> app s = Free \<and> mon s = Returned \<and> l \<in> set (listeners (asb s)) \<and>
     state (status (asb s)) = FAILED \<and> fst (last (told s)) = l \<and> state (snd (last (told s))) = INOPERABLE"
proof -
  let ?n = "\<lparr>state = NORMAL, stateDetail = ''Ready''\<rparr>" and ?f = "\<lparr>state = FAILED, stateDetail = ''Shutdown requested''\<rparr>"
    and ?e = "\<lparr>state = INOPERABLE, stateDetail = ''DDS participant error''\<rparr>"
  let ?a = "(connect_identity i)\<lparr>listeners := [l]\<rparr>"
  from reached_probing have "reached i \<lparr>asb = ?a, app = Adding [(l, ?n)], mon = Probing, told = []\<rparr>"
    by (rule by_app) (simp add: run_simps)
  then have "reached i \<lparr>asb = ?a, app = Adding [], mon = Probing, told = [(l, ?n)]\<rparr>"
    by (rule by_app) (simp add: run_simps)
  then have "reached i \<lparr>asb = ?a, app = Free, mon = Probing, told = [(l, ?n)]\<rparr>"
    by (rule by_app) (simp add: run_simps)
  then have "reached i \<lparr>asb = ?a\<lparr>status := ?e\<rparr>, app = Free, mon = Telling [(l, ?e)], told = [(l, ?n)]\<rparr>"
    by (rule by_mon) (simp add: run_simps)
  then have "reached i \<lparr>asb = ?a\<lparr>status := ?e, shutdownRequested := True\<rparr>, app = Shutting, mon = Telling [(l, ?e)], told = [(l, ?n)]\<rparr>"
    by (rule by_app) (simp add: run_simps)
  then have "reached i \<lparr>asb = ?a\<lparr>status := ?f, shutdownRequested := True\<rparr>, app = Announcing [(l, ?f)], mon = Telling [(l, ?e)],
      told = [(l, ?n)]\<rparr>"
    by (rule by_app) (simp add: run_simps)
  then have "reached i \<lparr>asb = ?a\<lparr>status := ?f, shutdownRequested := True\<rparr>, app = Announcing [], mon = Telling [(l, ?e)],
      told = [(l, ?n), (l, ?f)]\<rparr>"
    by (rule by_app) (simp add: run_simps)
  then have "reached i \<lparr>asb = ?a\<lparr>status := ?f, shutdownRequested := True\<rparr>, app = Announcing [], mon = Telling [],
      told = [(l, ?n), (l, ?f), (l, ?e)]\<rparr>"
    by (rule by_mon) (simp add: run_simps)
  then have "reached i \<lparr>asb = ?a\<lparr>status := ?f, shutdownRequested := True, running := False\<rparr>, app = Joining, mon = Telling [],
      told = [(l, ?n), (l, ?f), (l, ?e)]\<rparr>"
    by (rule by_app) (simp add: run_simps)
  then have "reached i \<lparr>asb = ?a\<lparr>status := ?f, shutdownRequested := True, running := False\<rparr>, app = Joining, mon = Condition,
      told = [(l, ?n), (l, ?f), (l, ?e)]\<rparr>"
    by (rule by_mon) (simp add: run_simps)
  then have "reached i \<lparr>asb = ?a\<lparr>status := ?f, shutdownRequested := True, running := False\<rparr>, app = Joining, mon = Returned,
      told = [(l, ?n), (l, ?f), (l, ?e)]\<rparr>"
    by (rule by_mon) (simp add: run_simps)
  then have "reached i \<lparr>asb = ?a\<lparr>status := ?f, shutdownRequested := True, running := False, participant_open := False\<rparr>, app = Free,
      mon = Returned, told = [(l, ?n), (l, ?f), (l, ?e)]\<rparr>"
    by (rule by_app) (simp add: run_simps)
  then show ?thesis by (intro exI conjI) (assumption, simp_all)
qed

section \<open>Shutdown returns\<close>

text \<open>How many steps the monitor thread can still make once \<open>running_\<close> is false.\<close>

fun mon_left :: "nat \<Rightarrow> mon_at \<Rightarrow> nat" where
  "mon_left n Returned = 0" | "mon_left n Condition = 1" | "mon_left n Waiting = 1"
| "mon_left n (Telling cs) = 2 + length cs" | "mon_left n Probing = 3 + n"

lemma mon_move_decreases:
  assumes "mon_move s s'" and "\<not> running (asb s)"
  shows "mon_left (length (listeners (asb s'))) (mon s') < mon_left (length (listeners (asb s))) (mon s) \<and>
    \<not> running (asb s') \<and> app s' = app s"
  using assms by cases (auto simp: transitionState_def Let_def split: if_splits)

lemma mon_move_progress: "mon s \<noteq> Returned \<Longrightarrow> \<exists>s'. mon_move s s'"
proof (cases "mon s")
  case (Telling cs)
  then show ?thesis by (cases cs) (auto intro: mon_move.intros)
next
  case Condition
  then show ?thesis by (cases "running (asb s)") (auto intro: mon_move.intros)
next
  case Waiting
  then show ?thesis by (cases "running (asb s)") (auto intro: mon_move.intros)
qed (auto intro: mon_move.intros)

lemma mon_moves_bounded:
  "(mon_move ^^ n) s s' \<Longrightarrow> \<not> running (asb s) \<Longrightarrow>
     n + mon_left (length (listeners (asb s'))) (mon s') \<le> mon_left (length (listeners (asb s))) (mon s) \<and> app s' = app s"
proof (induction n arbitrary: s)
  case (Suc n)
  from Suc.prems(1) obtain t where t: "mon_move s t" "(mon_move ^^ n) t s'" by (metis relpowp_Suc_E2)
  from mon_move_decreases [OF t(1) Suc.prems(2)] Suc.IH [OF t(2)] show ?case by auto
qed simp

text \<open>
  C36: \<open>shutdown\<close> returns: when it waits for the monitor thread, that thread makes at most as many more steps as
  it has calls to make, plus those of one round, can always make the next one, and once it has returned the
  participant is closed and the application goes on.
\<close>

theorem shutdown_terminates:
  assumes s: "reached i s" "app s = Joining" and n: "(mon_move ^^ n) s s'"
  shows "n \<le> mon_left (length (listeners (asb s))) (mon s) \<and> app s' = Joining \<and>
    (if mon s' = Returned then \<exists>t. app_move s' t \<and> app t = Free \<and> \<not> participant_open (asb t) else \<exists>t. mon_move s' t)"
proof -
  have "\<not> running (asb s)" using shutdown_ok_reached [OF s(1)] s(2) by (auto simp: shutdown_ok_def Let_def)
  from mon_moves_bounded [OF n this] have b: "n \<le> mon_left (length (listeners (asb s))) (mon s)" "app s' = Joining"
    using s(2) by simp_all
  have "\<exists>t. app_move s' t \<and> app t = Free \<and> \<not> participant_open (asb t)" if "mon s' = Returned"
    using app_move.joined [OF b(2) that] by force
  with b mon_move_progress show ?thesis by auto
qed

theorem shutdown_terminates_witness:
  "\<forall>i. \<exists>s s' t. reached i s \<and> (mon_move ^^ 1) s s' \<and> app_move s' t \<and> app t = Free"
proof (intro allI, goal_cases)
  case (1 i)
  let ?a = "connect_identity i" and ?f = "\<lparr>state = FAILED, stateDetail = ''Shutdown requested''\<rparr>"
  have "reached i \<lparr>asb = ?a, app = Free, mon = Condition, told = []\<rparr>" using start [of i] by (simp only: launched_eq)
  then have "reached i \<lparr>asb = ?a\<lparr>shutdownRequested := True\<rparr>, app = Shutting, mon = Condition, told = []\<rparr>"
    by (rule by_app) (simp add: run_simps)
  then have "reached i \<lparr>asb = ?a\<lparr>shutdownRequested := True, status := ?f\<rparr>, app = Announcing [], mon = Condition, told = []\<rparr>"
    by (rule by_app) (simp add: run_simps)
  then have r: "reached i \<lparr>asb = ?a\<lparr>shutdownRequested := True, status := ?f, running := False\<rparr>, app = Joining, mon = Condition, told = []\<rparr>"
    by (rule by_app) (simp add: run_simps)
  let ?s' = "\<lparr>asb = ?a\<lparr>shutdownRequested := True, status := ?f, running := False\<rparr>, app = Joining, mon = Returned, told = []\<rparr>"
  have n: "(mon_move ^^ 1) \<lparr>asb = ?a\<lparr>shutdownRequested := True, status := ?f, running := False\<rparr>, app = Joining, mon = Condition, told = []\<rparr> ?s'"
    by (simp add: run_simps OO_def)
  from shutdown_terminates [OF r _ n] obtain t where "app_move ?s' t" "app t = Free" by auto
  with r n show ?case by blast
qed

section \<open>The identity of a connection\<close>

text \<open>
  A connection answers with what its configuration declares: opened for a service of a configuration
  file, it gives the UUIDs declared for the system, the service and its subsystem, and for every component
  and capability the declared UUID or, when there is none, a \<open>UCIException\<close>.
\<close>

theorem connection_answers_for_configuration:
  assumes "getenv E ''ARCAL_CONFIG'' = Some path" and "path \<noteq> []" and "path \<noteq> ''NONE''"
    and "open_file E path = Some contents" and "read_document E contents = Inr j"
    and "is_doc J (config_doc ss) j" and "list_all wf_system ss"
    and s: "reference_system ss (env_string E ''ARCAL_SYSTEM'') = Some s" and i: "reference_identity s label = Some i"
  shows "\<exists>a. connect J E label = Inr a \<and> getMySystemUUID a = snd (sys_decl s) \<and>
    map_of (all_services s) label = Some \<lparr>serviceUUID = getMyServiceUUID a, subsystemUUID = getMySubsystemUUID a\<rparr> \<and>
    (\<forall>name. yields (getMyComponentUUID name a) (map_of (all_components s) name) \<and>
      yields (getMyCapabilityUUID name a) (map_of (all_capabilities s) name))"
proof -
  have "resolveCalIdentity J E label = Inr i"
    using resolve_yields [OF assms(1-7), of label] s i by simp
  moreover obtain info where "map_of (all_services s) label = Some info" "configured i" "id_systemUUID i = snd (sys_decl s)"
      "id_serviceUUID i = serviceUUID info" "id_subsystemUUID i = subsystemUUID info"
      "componentUUIDs i = map_of (all_components s)" "capabilityUUIDs i = map_of (all_capabilities s)"
    using i by (auto simp: reference_identity_def split: if_splits)
  ultimately show ?thesis
    by (simp add: connect_def connect_identity_eq getMySystemUUID_def getMyServiceUUID_def getMySubsystemUUID_def
        getMyComponentUUID_def getMyCapabilityUUID_def yields_def config_error_def split: option.split)
qed

theorem connection_answers_for_configuration_witness:
  "\<exists>a. connect doc_json sample_env ''radar'' = Inr a \<and> getMyComponentUUID ''antenna'' a = Inr (UUID (replicate 16 5)) \<and>
     (\<exists>m. getMyComponentUUID ''rotor'' a = Inl (UCIException m))"
proof -
  let ?s = "hd sample_config"
  have j: "is_doc doc_json (config_doc sample_config) (config_doc sample_config)"
    by (rule is_doc_self [OF sample_config_wf(2)])
  have s: "reference_system sample_config (env_string sample_env ''ARCAL_SYSTEM'') = Some ?s"
    by (simp add: reference_system_def env_string_def sample_env_def sample_config_def)
  obtain i where i: "reference_identity ?s ''radar'' = Some i"
    by (simp add: sample_config_def reference_identity_def unambiguous_def all_services_def all_components_def
        all_capabilities_def infos_def)
  have env: "getenv sample_env ''ARCAL_CONFIG'' = Some ''cal.json''" "open_file sample_env ''cal.json'' = Some []"
      "read_document sample_env [] = Inr (config_doc sample_config)" by (simp_all add: sample_env_def)
  from connection_answers_for_configuration [OF env(1) _ _ env(2,3) j sample_config_wf(1) s i]
  obtain a where a: "connect doc_json sample_env ''radar'' = Inr a"
    "\<forall>name. yields (getMyComponentUUID name a) (map_of (all_components ?s) name)" by auto
  have "map_of (all_components ?s) ''antenna'' = Some (UUID (replicate 16 5))" "map_of (all_components ?s) ''rotor'' = None"
    by (simp_all add: sample_config_def all_components_def)
  then have "getMyComponentUUID ''antenna'' a = Inr (UUID (replicate 16 5))" "yields (getMyComponentUUID ''rotor'' a) None"
    using a(2) by (metis yields_simps(1))+
  with a(1) show ?thesis by (auto simp: yields_def)
qed

end
