(* ===== verification/Json_Handlers.thy ===== *)
theory Json_Handlers
  imports Json_Parse
begin

text \<open>
  The JSON functions the schema compiler emits for a type (\<open>JSON_CPP_TEMPLATE\<close> and the enumeration
  class of \<open>ENUM_H_TEMPLATE\<close> in \<open>tools/schema_compiler/compiler.py\<close>), over every schema type. A type
  carries the names the text of a message is made of; forgetting them gives the type the CDR functions
  work on (\<open>ty_of\<close>). Nested calls go through the registry in the code; here they are recursive calls
  on the nested type.
\<close>

section \<open>Types with names\<close>

text \<open>
  The members of a type in the order of the template: the base type, the choices, the fields. An
  enumeration has its enumerators' names, a type its own name for the messages of its errors.
\<close>

datatype jty = JPrim prim | JEnum string "string list" | JRec string "jmember list"
  and jmember = MBase jty | MChoices "(string \<times> jty) list" | MField string jty | MOptional string jty
    | MMany string "nat option" jty

fun ty_of :: "jty \<Rightarrow> ty" and member_ty :: "jmember \<Rightarrow> ty" where
  "ty_of (JPrim p) = TPrim p"
| "ty_of (JEnum n names) = TPrim PEnum"
| "ty_of (JRec n ms) = TRec (map member_ty ms)"
| "member_ty (MBase t) = ty_of t"
| "member_ty (MChoices vs) = TChoice (map (\<lambda>(name, t). ty_of t) vs)"
| "member_ty (MField name t) = ty_of t"
| "member_ty (MOptional name t) = TOpt (ty_of t)"
| "member_ty (MMany name mx t) = TList mx (ty_of t)"

section \<open>Enumerations\<close>

definition enum_toName :: "string list \<Rightarrow> u32 \<Rightarrow> string" where
  "enum_toName names v = (if length names < unat v then ''invalid'' else (''enumNotSet'' # names) ! unat v)"

fun index_of :: "string \<Rightarrow> string list \<Rightarrow> nat \<Rightarrow> nat option" where
  "index_of s [] i = None"
| "index_of s (n # ns) i = (if s = n then Some i else index_of s ns (i + 1))"

definition enum_fromName :: "string \<Rightarrow> string list \<Rightarrow> string \<Rightarrow> u32 res" where
  "enum_fromName tn names s = (case index_of s (''enumNotSet'' # names) 0 of
     Some i \<Rightarrow> Inr (word_of_nat i)
   | None \<Rightarrow> Inl (InvalidArgument (tn @ ''::fromName: unknown value: '' @ s)))"

section \<open>Serializing\<close>

text \<open>What \<open>snprintf\<close> prints for a float and for a double.\<close>

type_synonym fmt = "(u32 \<Rightarrow> string) \<times> (u64 \<Rightarrow> string)"

text \<open>
  The parts of the template: the members one after the other, the variants of a choice, the items of a
  list. \<open>out\<close> is the text so far; \<open>first\<close> says whether the object has no member yet.
\<close>

fun each_member :: "(obj \<Rightarrow> string \<Rightarrow> bool \<Rightarrow> string \<times> bool) list \<Rightarrow> obj list \<Rightarrow> string \<Rightarrow> bool \<Rightarrow> string \<times> bool" where
  "each_member (m # ms) (ob # os) out first = (let (out, first) = m ob out first in each_member ms os out first)"
| "each_member _ _ out first = (out, first)"

definition keyed :: "string \<Rightarrow> (string \<Rightarrow> string) \<Rightarrow> string \<Rightarrow> bool \<Rightarrow> string \<times> bool" where
  "keyed name ser out first = (let (out, first) = emit_key name out first in (ser out, first))"

fun each_variant :: "u32 \<Rightarrow> u32 \<Rightarrow> (string \<times> (obj \<Rightarrow> string \<Rightarrow> string)) list \<Rightarrow> obj list \<Rightarrow> string \<Rightarrow> bool \<Rightarrow> string \<times> bool" where
  "each_variant ord k (v # vs) (ob # os) out first =
     (let (out, first) = (if ord = k then keyed (fst v) (snd v ob) out first else (out, first))
      in each_variant ord (k + 1) vs os out first)"
| "each_variant ord k _ _ out first = (out, first)"

fun each_item :: "(obj \<Rightarrow> string \<Rightarrow> string) \<Rightarrow> obj list \<Rightarrow> string \<Rightarrow> bool \<Rightarrow> string" where
  "each_item ser (ob # os) out fa = each_item ser os (ser ob (if fa then out else out @ '','')) False"
| "each_item ser [] out fa = out"

text \<open>
  \<open>Type_serialize\<close> and \<open>Type_serialize_fields\<close>. An object of another shape is never passed (the cast
  would fail); the text stays as it is.
\<close>

fun jser :: "fmt \<Rightarrow> jty \<Rightarrow> obj \<Rightarrow> string \<Rightarrow> string"
  and jser_fields :: "fmt \<Rightarrow> jty \<Rightarrow> obj \<Rightarrow> string \<Rightarrow> bool \<Rightarrow> string \<times> bool"
  and jser_member :: "fmt \<Rightarrow> jmember \<Rightarrow> obj \<Rightarrow> string \<Rightarrow> bool \<Rightarrow> string \<times> bool" where
  "jser f (JPrim p) ob out = (case ob of OPrim v \<Rightarrow> emit_value (fst f) (snd f) (\<lambda>_. []) v out | _ \<Rightarrow> out)"
| "jser f (JEnum n names) ob out = (case ob of
     OPrim v \<Rightarrow> (case v of VEnum e \<Rightarrow> emit_string (enum_toName names e) out | _ \<Rightarrow> out) | _ \<Rightarrow> out)"
| "jser f (JRec n ms) ob out = (case ob of
     ORec os \<Rightarrow> fst (each_member (map (jser_member f) ms) os (out @ ''{'') True) @ ''}'' | _ \<Rightarrow> out)"
| "jser_fields f (JPrim p) ob out first = (out, first)"
| "jser_fields f (JEnum n names) ob out first = (jser f (JEnum n names) ob out, first)"
| "jser_fields f (JRec n ms) ob out first = (case ob of
     ORec os \<Rightarrow> each_member (map (jser_member f) ms) os out first | _ \<Rightarrow> (out, first))"
| "jser_member f (MBase t) ob out first = jser_fields f t ob out first"
| "jser_member f (MChoices vs) ob out first = (case ob of
     OChoice ord os \<Rightarrow> each_variant ord 1 (map (\<lambda>(name, t). (name, jser f t)) vs) os out first | _ \<Rightarrow> (out, first))"
| "jser_member f (MField name t) ob out first = keyed name (jser f t ob) out first"
| "jser_member f (MOptional name t) ob out first = (case ob of
     OOpt has v \<Rightarrow> (if has then keyed name (jser f t v) out first else (out, first)) | _ \<Rightarrow> (out, first))"
| "jser_member f (MMany name mx t) ob out first = (case ob of
     OList os \<Rightarrow> keyed name (\<lambda>out. each_item (jser f t) os (out @ ''['') True @ '']'') out first | _ \<Rightarrow> (out, first))"

section \<open>Deserializing\<close>

text \<open>The members one after the other; the items of an array, each read into a fresh object and pushed.\<close>

fun read_members :: "(obj \<Rightarrow> obj res) list \<Rightarrow> obj list \<Rightarrow> obj list res" where
  "read_members (m # ms) (ob # os) = rbind (m ob) (\<lambda>w. map_res (Cons w) (read_members ms os))"
| "read_members [] [] = Inr []"
| "read_members _ _ = Inl BadCast"

fun read_items :: "nat option \<Rightarrow> ('j \<Rightarrow> obj res) \<Rightarrow> 'j list \<Rightarrow> obj list \<Rightarrow> obj list res" where
  "read_items mx dec [] vs = Inr vs"
| "read_items mx dec (j # js) vs =
     rbind (dec j) (\<lambda>v.
       if (case mx of None \<Rightarrow> False | Some m \<Rightarrow> m \<le> length vs)
       then Inl (UCIException (''BoundedList::push_back exceeds maxOccurs='' @ dec_of_nat (the mx)))
       else read_items mx dec js (vs @ [v]))"

text \<open>
  The variants: \<open>member\<close> looks a name up; each name that is there chooses its variant and is counted.
  The result is the ordinal, the count and the variants' objects.
\<close>

fun read_variants :: "(string \<Rightarrow> 'j option res) \<Rightarrow> u32 \<Rightarrow> (string \<times> ('j \<Rightarrow> obj \<Rightarrow> obj res)) list \<Rightarrow> obj list \<Rightarrow>
    u32 \<Rightarrow> nat \<Rightarrow> (u32 \<times> nat \<times> obj list) res" where
  "read_variants member k (v # vs) (ob # os) ord matched =
     rbind (member (fst v)) (\<lambda>found. case found of
       Some m \<Rightarrow> rbind (snd v m ob) (\<lambda>w.
         map_res (\<lambda>(ord, matched, ws). (ord, matched, w # ws)) (read_variants member (k + 1) vs os k (matched + 1)))
     | None \<Rightarrow> map_res (\<lambda>(ord, matched, ws). (ord, matched, ob # ws)) (read_variants member (k + 1) vs os ord matched))"
| "read_variants member k [] [] ord matched = Inr (ord, matched, [])"
| "read_variants member k _ _ ord matched = Inl BadCast"

definition choice_result :: "string \<Rightarrow> u32 \<times> nat \<times> obj list \<Rightarrow> obj res" where
  "choice_result n r = (case r of (ord, matched, os) \<Rightarrow>
     if 1 < matched then Inl (read_error ''multiple choice variants present for '' n) else Inr (OChoice ord os))"

definition dotted :: "string \<Rightarrow> string \<Rightarrow> string" where
  "dotted n name = n @ ''.'' @ name"

text \<open>
  \<open>Type_deserialize\<close> into the object it is given. \<open>ctx\<close> names the value and \<open>n\<close> the type whose member
  is read, for the messages.
\<close>

fun jdeser :: "'j json_api \<Rightarrow> (prim \<Rightarrow> pval) \<Rightarrow> jty \<Rightarrow> string \<Rightarrow> 'j \<Rightarrow> obj \<Rightarrow> obj res"
  and jdeser_member :: "'j json_api \<Rightarrow> (prim \<Rightarrow> pval) \<Rightarrow> jmember \<Rightarrow> string \<Rightarrow> 'j \<Rightarrow> obj \<Rightarrow> obj res" where
  "jdeser J g (JPrim p) ctx j ob = (case ob of
     OPrim _ \<Rightarrow> map_res OPrim (parse_value J (enum_fromName [] []) p j ctx) | _ \<Rightarrow> Inl BadCast)"
| "jdeser J g (JEnum n names) ctx j ob = (case ob of
     OPrim _ \<Rightarrow> map_res OPrim (parse_value J (enum_fromName n names) PEnum j n) | _ \<Rightarrow> Inl BadCast)"
| "jdeser J g (JRec n ms) ctx j ob = (case ob of
     ORec os \<Rightarrow> rbind (require_object J j n) (\<lambda>_.
       map_res ORec (read_members (map (\<lambda>m. jdeser_member J g m n j) ms) os)) | _ \<Rightarrow> Inl BadCast)"
| "jdeser_member J g (MBase t) n j ob = jdeser J g t n j ob"
| "jdeser_member J g (MChoices vs) n j ob = (case ob of
     OChoice ord os \<Rightarrow>
       rbind (read_variants (\<lambda>name. optional_member J j name n) 1
           (map (\<lambda>(name, t). (name, jdeser J g t (dotted n name))) vs) os ord 0) (choice_result n) | _ \<Rightarrow> Inl BadCast)"
| "jdeser_member J g (MField name t) n j ob =
     rbind (require_member J j name n) (\<lambda>m. jdeser J g t (dotted n name) m ob)"
| "jdeser_member J g (MOptional name t) n j ob = (case ob of
     OOpt has v \<Rightarrow> rbind (optional_member J j name n) (\<lambda>member. case member of
       Some m \<Rightarrow> map_res (OOpt True) (jdeser J g t (dotted n name) m v)
     | None \<Rightarrow> Inr (OOpt False v)) | _ \<Rightarrow> Inl BadCast)"
| "jdeser_member J g (MMany name mx t) n j ob = (case ob of
     OList _ \<Rightarrow> rbind (require_member J j name n) (\<lambda>m.
       rbind (require_array J m (dotted n name)) (\<lambda>_.
         map_res OList (read_items mx (\<lambda>i. jdeser J g t (dotted n name) i (fresh g (ty_of t))) (items J m) [])))
   | _ \<Rightarrow> Inl BadCast)"

end
