(* ===== verification/Accessor_Lists.thy ===== *)
theory Accessor_Lists
  imports Json_Handlers "HOL-Library.Sublist"
begin

text \<open>
  The containers of the accessor interface (\<open>include/uci/base\<close>): the bounded and the simple list that the
  generated types hold (\<open>BoundedListImpl.h\<close>, \<open>SimpleListImpl.h\<close>) with their index-based iterators
  (\<open>BoundedList.h\<close>, \<open>SimpleList.h\<close>), the primitive and the string accessor (\<open>PrimitiveAccessors.h\<close>,
  \<open>StringAccessor.h\<close>) and the accessor tags (\<open>accessorType.h\<close>). What C++ leaves undefined, an element
  past the end and \<open>pop_back\<close> of an empty list, is the value \<open>None\<close>. A size is a natural number below the
  vector's \<open>max_size()\<close>, which is a parameter (\<open>vmax\<close>), and so is what \<open>StorageT{}\<close> is (\<open>blank\<close>). The
  capacity of a vector is not modelled.
\<close>

section \<open>The vector behind a list\<close>

definition vec_index :: "nat \<Rightarrow> 'a list \<Rightarrow> 'a option" where
  "vec_index i d = (if i < length d then Some (d ! i) else None)"

definition vec_at :: "nat \<Rightarrow> 'a list \<Rightarrow> 'a res" where
  "vec_at i d = (if i < length d then Inr (d ! i) else Inl (OutOfRange ''vector::_M_range_check''))"

definition vec_push_back :: "nat \<Rightarrow> 'a \<Rightarrow> 'a list \<Rightarrow> 'a list res" where
  "vec_push_back vmax v d =
     (if length d < vmax then Inr (d @ [v]) else Inl (LengthError ''vector::_M_realloc_append''))"

definition vec_pop_back :: "'a list \<Rightarrow> 'a list option" where
  "vec_pop_back d = (if d = [] then None else Some (butlast d))"

definition vec_resize :: "nat \<Rightarrow> 'a \<Rightarrow> nat \<Rightarrow> 'a list \<Rightarrow> 'a list res" where
  "vec_resize vmax blank n d =
     (if n \<le> vmax then Inr (take n d @ replicate (n - length d) blank)
      else Inl (LengthError ''vector::_M_default_append''))"

definition vec_reserve :: "nat \<Rightarrow> nat \<Rightarrow> 'a list \<Rightarrow> 'a list res" where
  "vec_reserve vmax n d = (if n \<le> vmax then Inr d else Inl (LengthError ''vector::reserve''))"

section \<open>The bounded list\<close>

definition UNBOUNDED_BOUND :: nat where
  "UNBOUNDED_BOUND = 2 ^ 64 - 1"

record 'a bounded_list =
  bl_data :: "'a list"
  minOccurs :: nat
  maxOccurs :: nat

text \<open>The template arguments: both bounds, or their defaults.\<close>

definition bl_new :: "nat \<Rightarrow> nat option \<Rightarrow> 'a bounded_list" where
  "bl_new mn mx = \<lparr>bl_data = [], minOccurs = mn, maxOccurs = case_option UNBOUNDED_BOUND id mx\<rparr>"

definition bl_size :: "'a bounded_list \<Rightarrow> nat" where
  "bl_size l = length (bl_data l)"

definition bl_empty :: "'a bounded_list \<Rightarrow> bool" where
  "bl_empty l = (bl_data l = [])"

definition bl_bounds :: "'a bounded_list \<Rightarrow> nat \<times> nat" where
  "bl_bounds l = (minOccurs l, maxOccurs l)"

definition bl_reset :: "'a bounded_list \<Rightarrow> 'a bounded_list" where
  "bl_reset l = l\<lparr>bl_data := []\<rparr>"

definition bl_clear :: "'a bounded_list \<Rightarrow> 'a bounded_list" where
  "bl_clear l = l\<lparr>bl_data := []\<rparr>"

definition bl_with :: "'a bounded_list \<Rightarrow> 'a list \<Rightarrow> 'a bounded_list" where
  "bl_with l d = l\<lparr>bl_data := d\<rparr>"

definition bl_reserve :: "nat \<Rightarrow> nat \<Rightarrow> 'a bounded_list \<Rightarrow> 'a bounded_list res" where
  "bl_reserve vmax n l = map_res (bl_with l) (vec_reserve vmax n (bl_data l))"

definition bl_resize :: "nat \<Rightarrow> 'a \<Rightarrow> nat \<Rightarrow> 'a bounded_list \<Rightarrow> 'a bounded_list res" where
  "bl_resize vmax blank n l =
     (if maxOccurs l < n then Inl (UCIException (''BoundedList::resize exceeds maxOccurs='' @ dec_of_nat (maxOccurs l)))
      else map_res (bl_with l) (vec_resize vmax blank n (bl_data l)))"

definition bl_pop_back :: "'a bounded_list \<Rightarrow> 'a bounded_list option" where
  "bl_pop_back l = map_option (bl_with l) (vec_pop_back (bl_data l))"

text \<open>
  \<open>push_back\<close> of an element, and of a value that is not of the stored type: a fresh item takes the value
  over, by \<open>copy\<close> or by assignment, and is moved into the vector.
\<close>

definition bl_push_back :: "nat \<Rightarrow> 'a \<Rightarrow> 'a bounded_list \<Rightarrow> 'a bounded_list res" where
  "bl_push_back vmax v l =
     (if maxOccurs l \<le> length (bl_data l)
      then Inl (UCIException (''BoundedList::push_back exceeds maxOccurs='' @ dec_of_nat (maxOccurs l)))
      else map_res (bl_with l) (vec_push_back vmax v (bl_data l)))"

definition bl_push_back_from :: "nat \<Rightarrow> 'a \<Rightarrow> ('u \<Rightarrow> 'a \<Rightarrow> 'a) \<Rightarrow> 'u \<Rightarrow> 'a bounded_list \<Rightarrow> 'a bounded_list res" where
  "bl_push_back_from vmax blank copy v l =
     (if maxOccurs l \<le> length (bl_data l)
      then Inl (UCIException (''BoundedList::push_back exceeds maxOccurs='' @ dec_of_nat (maxOccurs l)))
      else map_res (bl_with l) (vec_push_back vmax (copy v blank) (bl_data l)))"

text \<open>\<open>push_back\<close> of the interface class, which makes the item before it checks the bound.\<close>

definition bl_push_back_default :: "nat \<Rightarrow> 'a \<Rightarrow> ('u \<Rightarrow> 'a \<Rightarrow> 'a) \<Rightarrow> 'u \<Rightarrow> 'a bounded_list \<Rightarrow> 'a bounded_list res" where
  "bl_push_back_default vmax blank assign v l = bl_push_back vmax (assign v blank) l"

definition bl_index :: "nat \<Rightarrow> 'a bounded_list \<Rightarrow> 'a option" where
  "bl_index i l = vec_index i (bl_data l)"

definition bl_at :: "nat \<Rightarrow> 'a bounded_list \<Rightarrow> 'a res" where
  "bl_at i l = vec_at i (bl_data l)"

section \<open>The simple list\<close>

record 'a simple_list =
  sl_data :: "'a list"

definition MAXIMUM_LENGTH :: nat where
  "MAXIMUM_LENGTH = 2 ^ 64 - 1"

definition sl_new :: "'a simple_list" where
  "sl_new = \<lparr>sl_data = []\<rparr>"

definition sl_size :: "'a simple_list \<Rightarrow> nat" where
  "sl_size l = length (sl_data l)"

definition sl_empty :: "'a simple_list \<Rightarrow> bool" where
  "sl_empty l = (sl_data l = [])"

definition sl_bounds :: "'a simple_list \<Rightarrow> nat \<times> nat" where
  "sl_bounds l = (0, MAXIMUM_LENGTH)"

definition sl_reset :: "'a simple_list \<Rightarrow> 'a simple_list" where
  "sl_reset l = l\<lparr>sl_data := []\<rparr>"

definition sl_clear :: "'a simple_list \<Rightarrow> 'a simple_list" where
  "sl_clear l = l\<lparr>sl_data := []\<rparr>"

definition sl_with :: "'a simple_list \<Rightarrow> 'a list \<Rightarrow> 'a simple_list" where
  "sl_with l d = l\<lparr>sl_data := d\<rparr>"

definition sl_reserve :: "nat \<Rightarrow> nat \<Rightarrow> 'a simple_list \<Rightarrow> 'a simple_list res" where
  "sl_reserve vmax n l = map_res (sl_with l) (vec_reserve vmax n (sl_data l))"

definition sl_resize :: "nat \<Rightarrow> 'a \<Rightarrow> nat \<Rightarrow> 'a simple_list \<Rightarrow> 'a simple_list res" where
  "sl_resize vmax blank n l = map_res (sl_with l) (vec_resize vmax blank n (sl_data l))"

definition sl_pop_back :: "'a simple_list \<Rightarrow> 'a simple_list option" where
  "sl_pop_back l = map_option (sl_with l) (vec_pop_back (sl_data l))"

definition sl_push_back :: "nat \<Rightarrow> 'a \<Rightarrow> 'a simple_list \<Rightarrow> 'a simple_list res" where
  "sl_push_back vmax v l = map_res (sl_with l) (vec_push_back vmax v (sl_data l))"

definition sl_push_back_from :: "nat \<Rightarrow> 'a \<Rightarrow> ('u \<Rightarrow> 'a \<Rightarrow> 'a) \<Rightarrow> 'u \<Rightarrow> 'a simple_list \<Rightarrow> 'a simple_list res" where
  "sl_push_back_from vmax blank copy v l = map_res (sl_with l) (vec_push_back vmax (copy v blank) (sl_data l))"

definition sl_index :: "nat \<Rightarrow> 'a simple_list \<Rightarrow> 'a option" where
  "sl_index i l = vec_index i (sl_data l)"

definition sl_at :: "nat \<Rightarrow> 'a simple_list \<Rightarrow> 'a res" where
  "sl_at i l = vec_at i (sl_data l)"

section \<open>Iterators\<close>

text \<open>
  An iterator is the list it belongs to, named by its address, and an index; it does not hold a position
  of the vector. Dereferencing it is \<open>operator[]\<close> of the list as it is at that moment.
\<close>

record list_iterator =
  it_list :: nat
  it_index :: nat

definition bl_begin :: "nat \<Rightarrow> 'a bounded_list \<Rightarrow> list_iterator" where
  "bl_begin addr l = \<lparr>it_list = addr, it_index = 0\<rparr>"

definition bl_end :: "nat \<Rightarrow> 'a bounded_list \<Rightarrow> list_iterator" where
  "bl_end addr l = \<lparr>it_list = addr, it_index = length (bl_data l)\<rparr>"

definition sl_begin :: "nat \<Rightarrow> 'a simple_list \<Rightarrow> list_iterator" where
  "sl_begin addr l = \<lparr>it_list = addr, it_index = 0\<rparr>"

definition sl_end :: "nat \<Rightarrow> 'a simple_list \<Rightarrow> list_iterator" where
  "sl_end addr l = \<lparr>it_list = addr, it_index = length (sl_data l)\<rparr>"

definition it_next :: "list_iterator \<Rightarrow> list_iterator" where
  "it_next it = it\<lparr>it_index := it_index it + 1\<rparr>"

definition it_post :: "list_iterator \<Rightarrow> list_iterator \<times> list_iterator" where
  "it_post it = (it, it_next it)"

definition it_eq :: "list_iterator \<Rightarrow> list_iterator \<Rightarrow> bool" where
  "it_eq a b = (it_list a = it_list b \<and> it_index a = it_index b)"

definition it_noteq :: "list_iterator \<Rightarrow> list_iterator \<Rightarrow> bool" where
  "it_noteq a b = (\<not> it_eq a b)"

definition bl_deref :: "list_iterator \<Rightarrow> 'a bounded_list \<Rightarrow> 'a option" where
  "bl_deref it l = bl_index (it_index it) l"

definition sl_deref :: "list_iterator \<Rightarrow> 'a simple_list \<Rightarrow> 'a option" where
  "sl_deref it l = sl_index (it_index it) l"

text \<open>
  A range-based \<open>for\<close> over a list: \<open>end()\<close> is evaluated once, and the body may change the list it
  runs over. \<open>None\<close> when it dereferences an iterator out of range or never ends.
\<close>

partial_function (option) range_for ::
    "(list_iterator \<Rightarrow> 'l \<Rightarrow> 'a option) \<Rightarrow> ('a \<Rightarrow> 'l \<Rightarrow> 'l) \<Rightarrow> list_iterator \<Rightarrow> list_iterator \<Rightarrow> 'l \<Rightarrow> 'l option" where
  "range_for deref body it fin l =
     (if it_noteq it fin
      then Option.bind (deref it l) (\<lambda>x. range_for deref body (it_next it) fin (body x l))
      else Some l)"

section \<open>Sequences of calls\<close>

text \<open>
  A call of the interface that may change the list. The caller catches what a call throws and goes on;
  after a call that C++ leaves undefined there is nothing to go on with.
\<close>

datatype 'a list_call =
  PushBack 'a | Resize nat | Reserve nat | PopBack | Clear | Reset | AssignAt nat 'a

definition bl_call :: "nat \<Rightarrow> 'a \<Rightarrow> 'a list_call \<Rightarrow> 'a bounded_list \<Rightarrow> 'a bounded_list res option" where
  "bl_call vmax blank c l = (case c of
     PushBack v \<Rightarrow> Some (bl_push_back vmax v l)
   | Resize n \<Rightarrow> Some (bl_resize vmax blank n l)
   | Reserve n \<Rightarrow> Some (bl_reserve vmax n l)
   | PopBack \<Rightarrow> map_option Inr (bl_pop_back l)
   | Clear \<Rightarrow> Some (Inr (bl_clear l))
   | Reset \<Rightarrow> Some (Inr (bl_reset l))
   | AssignAt i v \<Rightarrow> Some (map_res (\<lambda>_. bl_with l ((bl_data l)[i := v])) (bl_at i l)))"

definition sl_call :: "nat \<Rightarrow> 'a \<Rightarrow> 'a list_call \<Rightarrow> 'a simple_list \<Rightarrow> 'a simple_list res option" where
  "sl_call vmax blank c l = (case c of
     PushBack v \<Rightarrow> Some (sl_push_back vmax v l)
   | Resize n \<Rightarrow> Some (sl_resize vmax blank n l)
   | Reserve n \<Rightarrow> Some (sl_reserve vmax n l)
   | PopBack \<Rightarrow> map_option Inr (sl_pop_back l)
   | Clear \<Rightarrow> Some (Inr (sl_clear l))
   | Reset \<Rightarrow> Some (Inr (sl_reset l))
   | AssignAt i v \<Rightarrow> Some (map_res (\<lambda>_. sl_with l ((sl_data l)[i := v])) (sl_at i l)))"

fun calls :: "('c \<Rightarrow> 'l \<Rightarrow> 'l res option) \<Rightarrow> 'c list \<Rightarrow> 'l \<Rightarrow> 'l option" where
  "calls call [] l = Some l"
| "calls call (c # cs) l =
     Option.bind (call c l) (\<lambda>r. calls call cs (case r of Inl _ \<Rightarrow> l | Inr l' \<Rightarrow> l'))"

lemmas vec_defs = vec_index_def vec_at_def vec_push_back_def vec_pop_back_def vec_resize_def vec_reserve_def

lemmas bl_defs = bl_with_def bl_reserve_def bl_resize_def bl_pop_back_def bl_push_back_def bl_clear_def
  bl_reset_def bl_index_def bl_at_def bl_deref_def bl_begin_def bl_end_def

lemmas sl_defs = sl_with_def sl_reserve_def sl_resize_def sl_pop_back_def sl_push_back_def sl_clear_def
  sl_reset_def sl_index_def sl_at_def sl_deref_def sl_begin_def sl_end_def

section \<open>What both lists promise\<close>

text \<open>
  The contract: the list holds a sequence; a call keeps the sequence within the room of the list, and one
  that raises changes nothing; an iterator reads the element of the sequence at its index.
\<close>

locale sequence =
  fixes elems :: "'l \<Rightarrow> 'a list" and room :: "'l \<Rightarrow> nat"
    and call :: "'a list_call \<Rightarrow> 'l \<Rightarrow> 'l res option"
    and deref :: "list_iterator \<Rightarrow> 'l \<Rightarrow> 'a option"
  assumes call_keeps: "call c l = Some (Inr l') \<Longrightarrow> length (elems l) \<le> room l \<Longrightarrow> length (elems l') \<le> room l' \<and> room l' = room l"
    and call_push: "call (PushBack v) l = Some r \<Longrightarrow>
      (if length (elems l) < room l then \<exists>l'. r = Inr l' \<and> elems l' = elems l @ [v] \<and> room l' = room l else \<exists>e. r = Inl e)"
    and push_defined: "call (PushBack v) l \<noteq> None"
    and deref_elem: "deref it l = (if it_index it < length (elems l) then Some (elems l ! it_index it) else None)"
begin

lemma calls_keep:
  "calls call cs l = Some l' \<Longrightarrow> length (elems l) \<le> room l \<Longrightarrow> length (elems l') \<le> room l' \<and> room l' = room l"
proof (induction cs arbitrary: l)
  case (Cons c cs)
  then obtain r where r: "call c l = Some r" "calls call cs (case r of Inl _ \<Rightarrow> l | Inr l' \<Rightarrow> l') = Some l'"
    by (auto simp: bind_eq_Some_conv)
  show ?case
  proof (cases r)
    case (Inr m)
    with Cons.IH [of m] Cons.prems(2) r call_keeps [of c l m] show ?thesis by simp
  next
    case (Inl e)
    with r have "calls call cs l = Some l'" by simp
    with Cons show ?thesis by blast
  qed
qed simp

text \<open>Pushes fill the list up to its room; those beyond it raise and change nothing.\<close>

lemma pushes_fill:
  "length (elems l) \<le> room l \<Longrightarrow>
    \<exists>l'. calls call (map PushBack vs) l = Some l' \<and> elems l' = take (room l) (elems l @ vs)"
proof (induction vs arbitrary: l)
  case (Cons v vs)
  obtain r where r: "call (PushBack v) l = Some r" using push_defined [of v l] by blast
  show ?case
  proof (cases "length (elems l) < room l")
    case True
    with call_push [OF r] obtain m where m: "r = Inr m" "elems m = elems l @ [v]" "room m = room l" by auto
    with True Cons.IH [of m] r show ?thesis by simp
  next
    case False
    with call_push [OF r] obtain e where "r = Inl e" by auto
    moreover from Cons.IH [OF Cons.prems] obtain l' where
      "calls call (map PushBack vs) l = Some l'" "elems l' = take (room l) (elems l @ vs)" by blast
    ultimately show ?thesis using False Cons.prems r by simp
  qed
qed simp

lemma range_for_from:
  assumes body: "\<And>x l. prefix (elems l) (elems (body x l))"
    and i: "i + n = length xs" "prefix xs (elems l)"
  shows "range_for deref body \<lparr>it_list = a, it_index = i\<rparr> \<lparr>it_list = a, it_index = length xs\<rparr> l =
    Some (fold body (drop i xs) l)"
  using i
proof (induction n arbitrary: i l)
  case 0
  then show ?case by (subst range_for.simps) (simp add: it_noteq_def it_eq_def)
next
  case (Suc n)
  from Suc.prems have i: "i < length xs" "drop i xs = xs ! i # drop (Suc i) xs" by (auto simp: Cons_nth_drop_Suc)
  with Suc.prems have "deref \<lparr>it_list = a, it_index = i\<rparr> l = Some (xs ! i)"
    by (auto simp: deref_elem prefix_def nth_append)
  moreover have "prefix xs (elems (body (xs ! i) l))" using Suc.prems(2) body prefix_order.trans by blast
  ultimately show ?case using Suc.IH [of "Suc i" "body (xs ! i) l"] Suc.prems i
    by (subst range_for.simps) (simp add: it_noteq_def it_eq_def it_next_def)
qed

lemma range_for_snapshot:
  assumes "\<And>x l. prefix (elems l) (elems (body x l))"
  shows "range_for deref body \<lparr>it_list = a, it_index = 0\<rparr> \<lparr>it_list = a, it_index = length (elems l)\<rparr> l =
    Some (fold body (elems l) l)"
  using range_for_from [OF assms, of 0 "length (elems l)" "elems l" l] by simp

text \<open>A body that shortens the list makes the loop run off its end.\<close>

lemma range_for_out_of_range:
  assumes "length (elems l) \<le> i" "i < n"
  shows "range_for deref body \<lparr>it_list = a, it_index = i\<rparr> \<lparr>it_list = a, it_index = n\<rparr> l = None"
  using assms by (subst range_for.simps) (simp add: it_noteq_def it_eq_def deref_elem)

end

interpretation bounded: sequence bl_data "\<lambda>l. min vmax (maxOccurs l)" "bl_call vmax blank" bl_deref for vmax and blank :: 'a
  by unfold_locales
    (auto simp: bl_call_def bl_defs vec_defs split: list_call.splits if_splits)

interpretation simple: sequence sl_data "\<lambda>_. vmax" "sl_call vmax blank" sl_deref for vmax and blank :: 'a
  by unfold_locales
    (auto simp: sl_call_def sl_defs vec_defs split: list_call.splits if_splits)

section \<open>The generated readers fill a list through its interface\<close>

text \<open>
  The loops of the generated CDR and JSON readers as the handlers have them, on a list object: they give
  what \<open>push_items\<close> and \<open>read_items\<close>, which work on the plain sequence, give.
\<close>

fun push_decoded :: "(obj \<Rightarrow> 'l \<Rightarrow> 'l res) \<Rightarrow> obj decoder \<Rightarrow> nat \<Rightarrow> 'l \<Rightarrow> 'l decoder" where
  "push_decoded push dec 0 l buf off = Inr (l, off)"
| "push_decoded push dec (Suc n) l buf off =
     rbind (dec buf off) (\<lambda>(v, off). rbind (push v l) (\<lambda>l. push_decoded push dec n l buf off))"

definition push_parsed :: "(obj \<Rightarrow> 'l \<Rightarrow> 'l res) \<Rightarrow> ('j \<Rightarrow> obj res) \<Rightarrow> 'j list \<Rightarrow> 'l \<Rightarrow> 'l res" where
  "push_parsed push dec = foldR (\<lambda>j l. rbind (dec j) (\<lambda>v. push v l))"

lemma map_res_rbind: "map_res f (rbind m g) = rbind m (\<lambda>x. map_res f (g x))"
  by (cases m) simp_all

lemma bl_push_back_eq:
  "maxOccurs l \<le> vmax \<Longrightarrow> bl_push_back vmax v l =
    (if maxOccurs l \<le> length (bl_data l) then Inl (UCIException (''BoundedList::push_back exceeds maxOccurs='' @ dec_of_nat (maxOccurs l)))
     else Inr (bl_with l (bl_data l @ [v])))"
  by (simp add: bl_push_back_def vec_push_back_def)

lemma bl_with_simps [simp]: "bl_data (bl_with l d) = d" "maxOccurs (bl_with l d) = maxOccurs l"
  by (simp_all add: bl_with_def)

lemma push_items_bounded:
  "maxOccurs l \<le> vmax \<Longrightarrow> push_items (Some (maxOccurs l)) dec n (bl_data l) buf off =
    map_res (\<lambda>(l, off). (bl_data l, off)) (push_decoded (bl_push_back vmax) dec n l buf off)"
proof (induction n arbitrary: l off)
  case (Suc n)
  have "push_items (Some (maxOccurs l)) dec n (bl_data l @ [v]) buf off =
      map_res (\<lambda>(l, off). (bl_data l, off)) (push_decoded (bl_push_back vmax) dec n (bl_with l (bl_data l @ [v])) buf off)" for v off
    using Suc.IH [of "bl_with l (bl_data l @ [v])"] Suc.prems by simp
  with Suc.prems show ?case
    by (cases "maxOccurs l \<le> length (bl_data l)") (simp_all add: map_res_rbind bl_push_back_eq split_def)
qed simp

lemma push_items_unbounded:
  "length (sl_data l) + n \<le> vmax \<Longrightarrow> push_items None dec n (sl_data l) buf off =
    map_res (\<lambda>(l, off). (sl_data l, off)) (push_decoded (sl_push_back vmax) dec n l buf off)"
proof (induction n arbitrary: l off)
  case (Suc n)
  have "push_items None dec n (sl_data l @ [v]) buf off =
      map_res (\<lambda>(l, off). (sl_data l, off)) (push_decoded (sl_push_back vmax) dec n (sl_with l (sl_data l @ [v])) buf off)" for v off
    using Suc.IH [of "sl_with l (sl_data l @ [v])"] Suc.prems by (simp add: sl_with_def)
  moreover have "sl_push_back vmax v l = Inr (sl_with l (sl_data l @ [v]))" for v
    using Suc.prems by (simp add: sl_push_back_def vec_push_back_def)
  ultimately show ?case by (simp add: map_res_rbind split_def)
qed simp

lemma read_items_bounded:
  "maxOccurs l \<le> vmax \<Longrightarrow>
    read_items (Some (maxOccurs l)) dec js (bl_data l) = map_res bl_data (push_parsed (bl_push_back vmax) dec js l)"
proof (induction js arbitrary: l)
  case (Cons j js)
  have "read_items (Some (maxOccurs l)) dec js (bl_data l @ [v]) =
      map_res bl_data (push_parsed (bl_push_back vmax) dec js (bl_with l (bl_data l @ [v])))" for v
    using Cons.IH [of "bl_with l (bl_data l @ [v])"] Cons.prems by simp
  with Cons.prems show ?case
    by (cases "maxOccurs l \<le> length (bl_data l)") (simp_all add: push_parsed_def map_res_rbind rbind_assoc bl_push_back_eq)
qed (simp add: push_parsed_def)

section \<open>Properties\<close>

text \<open>
  C12: A bounded list never holds more than \<open>maxOccurs\<close> elements, whatever calls were made on it and whichever
  of them raised; and however many elements are then pushed, it takes exactly the first ones that fit.
\<close>

theorem bounded_list_stays_in_bounds:
  assumes "calls (bl_call vmax blank) cs (bl_new mn mx) = Some l"
  defines "bound \<equiv> min vmax (case_option UNBOUNDED_BOUND id mx)"
  shows "bl_size l \<le> bound \<and>
    (\<exists>l'. calls (bl_call vmax blank) (map PushBack vs) l = Some l' \<and> bl_data l' = take bound (bl_data l @ vs))"
proof -
  have "length (bl_data l) \<le> min vmax (maxOccurs l) \<and> min vmax (maxOccurs l) = bound"
    unfolding bound_def using bounded.calls_keep [OF assms(1)] by (simp add: bl_new_def del: min.bounded_iff)
  then show ?thesis using bounded.pushes_fill [of l vmax blank vs] by (simp add: bl_size_def del: min.bounded_iff)
qed

theorem bounded_list_stays_in_bounds_witness:
  "\<exists>l l'. calls (bl_call 100 (0 :: nat)) [PushBack 7, Resize 9] (bl_new 0 (Some 3)) = Some l \<and>
     calls (bl_call 100 0) (map PushBack [1, 2, 3]) l = Some l' \<and> bl_data l' = [7, 1, 2]"
proof -
  have "calls (bl_call 100 (0 :: nat)) [PushBack 7, Resize 9] (bl_new 0 (Some 3)) =
      Some \<lparr>bl_data = [7], minOccurs = 0, maxOccurs = 3\<rparr>"
    by (simp add: bl_call_def bl_defs vec_defs bl_new_def)
  from bounded_list_stays_in_bounds [OF this, of "[1, 2, 3]"] this show ?thesis by auto
qed

text \<open>
  A range-based \<open>for\<close> over a list ends and visits the elements the list had when it began, in order, even when
  its body appends to the list: the iterators hold an index, not a place in the vector, and the end was
  taken at the start.
\<close>

theorem range_for_visits_snapshot:
  assumes "\<And>x l. prefix (bl_data l) (bl_data (body x l))"
  shows "range_for bl_deref body (bl_begin a l) (bl_end a l) l = Some (fold body (bl_data l) l)"
  using bounded.range_for_snapshot [of body, OF assms] by (simp add: bl_begin_def bl_end_def)

theorem range_for_visits_snapshot_witness:
  "range_for bl_deref (\<lambda>x l. bl_with l (bl_data l @ [x + 10])) (bl_begin 0 (bl_with (bl_new 0 None) [1, 2 :: nat]))
     (bl_end 0 (bl_with (bl_new 0 None) [1, 2 :: nat])) (bl_with (bl_new 0 None) [1, 2 :: nat]) =
   Some (bl_with (bl_new 0 None) [1, 2 :: nat, 11, 12])"
  by (subst range_for_visits_snapshot) (simp_all add: bl_with_def)

lemma simple_range_for:
  assumes "\<And>x l. prefix (sl_data l) (sl_data (body x l))"
  shows "range_for sl_deref body (sl_begin a l) (sl_end a l) l = Some (fold body (sl_data l) l)"
  using simple.range_for_snapshot [of body, OF assms] by (simp add: sl_begin_def sl_end_def)

text \<open>A body that clears the list sends the next dereference past its end.\<close>

lemma clearing_body_runs_off:
  assumes "length (bl_data l) = Suc (Suc n)"
  shows "range_for bl_deref (\<lambda>_. bl_clear) (bl_begin a l) (bl_end a l) l = None"
proof -
  have "range_for bl_deref (\<lambda>_. bl_clear) \<lparr>it_list = a, it_index = 1\<rparr> \<lparr>it_list = a, it_index = Suc (Suc n)\<rparr> (bl_clear l) = None"
    by (rule bounded.range_for_out_of_range) (simp_all add: bl_clear_def)
  with assms show ?thesis
    by (subst range_for.simps) (simp add: bl_begin_def bl_end_def it_noteq_def it_eq_def it_next_def bl_deref_def bl_index_def vec_index_def)
qed

end
