(* ===== verification/Accessors.thy ===== *)
theory Accessors
  imports Cdr_Messages Accessor_Lists
begin

text \<open>
  The accessors of the interface: the tags of \<open>accessorType.h\<close>, the types of \<open>xs/accessorType.h\<close>, the
  primitive and the string accessor (\<open>PrimitiveAccessors.h\<close>, \<open>StringAccessor.h\<close>), and \<open>copy\<close> of the
  generated types (\<open>tools/schema_compiler/compiler.py\<close>), on the objects that the readers fill.
\<close>

section \<open>Tags and value types\<close>

datatype accessor_tag = NullTag | BooleanTag | ByteTag | ShortTag | IntTag | LongTag | FloatTag | DoubleTag | StringTag
  | DateTimeTag | DurationTag | UuidTag | BinaryTag
  | SIMPLE_PRIMITIVE | STRING | UUID_TYPE | ENUMERATION | COMPLEX | CHOICE | GLOBAL_ELEMENT

fun tag_value :: "accessor_tag \<Rightarrow> u32" where
  "tag_value NullTag = 0" | "tag_value BooleanTag = 1" | "tag_value ByteTag = 2" | "tag_value ShortTag = 3"
| "tag_value IntTag = 4" | "tag_value LongTag = 5" | "tag_value FloatTag = 6" | "tag_value DoubleTag = 7"
| "tag_value StringTag = 8" | "tag_value DateTimeTag = 9" | "tag_value DurationTag = 10" | "tag_value UuidTag = 11"
| "tag_value BinaryTag = 12" | "tag_value SIMPLE_PRIMITIVE = 100" | "tag_value STRING = 101"
| "tag_value UUID_TYPE = 102" | "tag_value ENUMERATION = 103" | "tag_value COMPLEX = 104" | "tag_value CHOICE = 105"
| "tag_value GLOBAL_ELEMENT = 106"

text \<open>The C++ type behind an XSD type.\<close>

datatype cxx_type = CBool | CSigned nat | CUnsigned nat | CFloat | CDouble | CString | CBytes

datatype xs_type = XBoolean | XByte | XShort | XInt | XLong | XFloat | XDouble | XUnsignedByte | XUnsignedShort
  | XUnsignedInt | XUnsignedLong | XString | XAnyURI | XDuration | XTime | XDateTime | XDateTimeStamp | XDate | XID
  | XIDREF | XNMTOKEN | XBinary

fun xs_alias :: "xs_type \<Rightarrow> cxx_type" where
  "xs_alias XBoolean = CBool" | "xs_alias XByte = CSigned 8" | "xs_alias XShort = CSigned 16"
| "xs_alias XInt = CSigned 32" | "xs_alias XLong = CSigned 64" | "xs_alias XFloat = CFloat"
| "xs_alias XDouble = CDouble" | "xs_alias XUnsignedByte = CUnsigned 8" | "xs_alias XUnsignedShort = CUnsigned 16"
| "xs_alias XUnsignedInt = CUnsigned 32" | "xs_alias XUnsignedLong = CUnsigned 64" | "xs_alias XString = CString"
| "xs_alias XAnyURI = CString" | "xs_alias XDuration = CSigned 64" | "xs_alias XTime = CSigned 64"
| "xs_alias XDateTime = CSigned 64" | "xs_alias XDateTimeStamp = CString" | "xs_alias XDate = CString"
| "xs_alias XID = CString" | "xs_alias XIDREF = CString" | "xs_alias XNMTOKEN = CString" | "xs_alias XBinary = CBytes"

text \<open>The accessor classes: each with its value type and its tag.\<close>

datatype accessor_class = BooleanAccessor | ByteAccessor | ShortAccessor | IntAccessor | LongAccessor | FloatAccessor
  | DoubleAccessor | UnsignedByteAccessor | UnsignedShortAccessor | UnsignedIntAccessor | UnsignedLongAccessor
  | BinaryAccessor | DurationAccessor | TimeAccessor | DateTimeAccessor

fun class_of :: "accessor_class \<Rightarrow> xs_type \<times> accessor_tag" where
  "class_of BooleanAccessor = (XBoolean, BooleanTag)" | "class_of ByteAccessor = (XByte, ByteTag)"
| "class_of ShortAccessor = (XShort, ShortTag)" | "class_of IntAccessor = (XInt, IntTag)"
| "class_of LongAccessor = (XLong, LongTag)" | "class_of FloatAccessor = (XFloat, FloatTag)"
| "class_of DoubleAccessor = (XDouble, DoubleTag)" | "class_of UnsignedByteAccessor = (XUnsignedByte, ByteTag)"
| "class_of UnsignedShortAccessor = (XUnsignedShort, ShortTag)" | "class_of UnsignedIntAccessor = (XUnsignedInt, IntTag)"
| "class_of UnsignedLongAccessor = (XUnsignedLong, LongTag)" | "class_of BinaryAccessor = (XBinary, BinaryTag)"
| "class_of DurationAccessor = (XDuration, DurationTag)" | "class_of TimeAccessor = (XTime, DateTimeTag)"
| "class_of DateTimeAccessor = (XDateTime, DateTimeTag)"

text \<open>The tag of an accessor tells the size of its value, but not its sign.\<close>

fun storage_bits :: "cxx_type \<Rightarrow> nat option" where
  "storage_bits CBool = Some 8" | "storage_bits (CSigned n) = Some n" | "storage_bits (CUnsigned n) = Some n"
| "storage_bits CFloat = Some 32" | "storage_bits CDouble = Some 64" | "storage_bits _ = None"

lemma tag_value_inject: "tag_value s = tag_value t \<longleftrightarrow> s = t"
  by (cases s; cases t; simp)

lemma tag_determines_size:
  "snd (class_of c) = snd (class_of d) \<Longrightarrow>
    storage_bits (xs_alias (fst (class_of c))) = storage_bits (xs_alias (fst (class_of d)))"
  by (cases c; cases d; simp)

section \<open>Primitive and string accessors\<close>

record 'v primitive_accessor =
  pa_value :: 'v

definition pa_of :: "'v \<Rightarrow> 'v primitive_accessor" where
  "pa_of v = \<lparr>pa_value = v\<rparr>"

text \<open>\<open>ValueType{}\<close>, which \<open>reset\<close> and the default constructor give, is \<open>zero\<close>.\<close>

definition pa_reset :: "'v \<Rightarrow> 'v primitive_accessor \<Rightarrow> 'v primitive_accessor" where
  "pa_reset zero a = a\<lparr>pa_value := zero\<rparr>"

definition pa_copy :: "'v primitive_accessor \<Rightarrow> 'v primitive_accessor \<Rightarrow> 'v primitive_accessor" where
  "pa_copy rhs a = a\<lparr>pa_value := pa_value rhs\<rparr>"

definition pa_setValue :: "'v \<Rightarrow> 'v primitive_accessor \<Rightarrow> 'v primitive_accessor" where
  "pa_setValue v a = a\<lparr>pa_value := v\<rparr>"

record string_accessor =
  sa_value :: string

definition sa_reset :: "string_accessor \<Rightarrow> string_accessor" where
  "sa_reset a = a\<lparr>sa_value := []\<rparr>"

definition setStringValue :: "string \<Rightarrow> string_accessor \<Rightarrow> string_accessor" where
  "setStringValue v a = a\<lparr>sa_value := v\<rparr>"

text \<open>A C string ends at its first NUL; a null pointer is the empty string.\<close>

definition until_nul :: "string \<Rightarrow> string" where
  "until_nul = takeWhile (\<lambda>c. c \<noteq> CHR 0x00)"

definition setStringValue_cstr :: "string option \<Rightarrow> string_accessor \<Rightarrow> string_accessor" where
  "setStringValue_cstr v a = a\<lparr>sa_value := (case v of None \<Rightarrow> [] | Some s \<Rightarrow> until_nul s)\<rparr>"

definition c_str :: "string_accessor \<Rightarrow> string" where
  "c_str a = until_nul (sa_value a)"

text \<open>A string goes through \<open>c_str\<close> and back unharmed exactly when it has no NUL.\<close>

lemma c_str_back: "setStringValue_cstr (Some (c_str a)) b = setStringValue (sa_value a) b \<longleftrightarrow> CHR 0x00 \<notin> set (sa_value a)"
proof -
  have "until_nul (until_nul s) = s \<longleftrightarrow> CHR 0x00 \<notin> set s" for s
    unfolding until_nul_def by (induction s) auto
  then show ?thesis by (cases b) (simp add: setStringValue_cstr_def setStringValue_def c_str_def)
qed

section \<open>Copying a generated object\<close>

text \<open>
  \<open>copy\<close> into \<open>d\<close>: scalars are assigned, an optional that is absent in the source leaves what the target
  held behind the flag, a list is cleared and the copies of the items are pushed, of a choice only the
  chosen variant is copied.
\<close>

fun copy_obj :: "(prim \<Rightarrow> pval) \<Rightarrow> ty \<Rightarrow> obj \<Rightarrow> obj \<Rightarrow> obj res"
  and copy_fields :: "(prim \<Rightarrow> pval) \<Rightarrow> ty list \<Rightarrow> obj list \<Rightarrow> obj list \<Rightarrow> obj list res"
  and copy_variants :: "(prim \<Rightarrow> pval) \<Rightarrow> nat \<Rightarrow> nat \<Rightarrow> ty list \<Rightarrow> obj list \<Rightarrow> obj list \<Rightarrow> obj list res" where
  "copy_obj g (TPrim p) rhs dst = (case rhs of
     OPrim v \<Rightarrow> (case dst of OPrim _ \<Rightarrow> Inr (OPrim v) | _ \<Rightarrow> Inl BadCast) | _ \<Rightarrow> Inl BadCast)"
| "copy_obj g (TRec ts) rhs dst = (case rhs of
     ORec rs \<Rightarrow> (case dst of ORec ds \<Rightarrow> map_res ORec (copy_fields g ts rs ds) | _ \<Rightarrow> Inl BadCast) | _ \<Rightarrow> Inl BadCast)"
| "copy_obj g (TOpt t) rhs dst = (case rhs of
     OOpt has r \<Rightarrow> (case dst of
       OOpt _ d \<Rightarrow> if has then map_res (OOpt True) (copy_obj g t r d) else Inr (OOpt False d) | _ \<Rightarrow> Inl BadCast)
   | _ \<Rightarrow> Inl BadCast)"
| "copy_obj g (TList mx t) rhs dst = (case rhs of
     OList rs \<Rightarrow> (case dst of
       OList _ \<Rightarrow> map_res OList (read_items mx (\<lambda>r. copy_obj g t r (fresh g t)) rs []) | _ \<Rightarrow> Inl BadCast)
   | _ \<Rightarrow> Inl BadCast)"
| "copy_obj g (TChoice ts) rhs dst = (case rhs of
     OChoice ord rs \<Rightarrow> (case dst of
       OChoice _ ds \<Rightarrow> map_res (OChoice ord) (copy_variants g (unat ord) 1 ts rs ds) | _ \<Rightarrow> Inl BadCast)
   | _ \<Rightarrow> Inl BadCast)"
| "copy_fields g (t # ts) (r # rs) (d # ds) =
     rbind (copy_obj g t r d) (\<lambda>w. map_res (Cons w) (copy_fields g ts rs ds))"
| "copy_fields g [] [] [] = Inr []"
| "copy_fields g _ _ _ = Inl BadCast"
| "copy_variants g ord k (t # ts) (r # rs) (d # ds) =
     rbind (if ord = k then copy_obj g t r d else Inr d) (\<lambda>w. map_res (Cons w) (copy_variants g ord (k + 1) ts rs ds))"
| "copy_variants g ord k [] [] [] = Inr []"
| "copy_variants g ord k _ _ _ = Inl BadCast"

text \<open>\<open>copy\<close> of an object to itself: a list is cleared before it is read, so there is nothing to read.\<close>

fun self_copy :: "obj \<Rightarrow> obj"
  and self_copy_variants :: "nat \<Rightarrow> nat \<Rightarrow> obj list \<Rightarrow> obj list" where
  "self_copy (OPrim v) = OPrim v"
| "self_copy (ORec vs) = ORec (map self_copy vs)"
| "self_copy (OOpt has v) = OOpt has (if has then self_copy v else v)"
| "self_copy (OList vs) = OList []"
| "self_copy (OChoice ord vs) = OChoice ord (self_copy_variants (unat ord) 1 vs)"
| "self_copy_variants ord k [] = []"
| "self_copy_variants ord k (v # vs) = (if ord = k then self_copy v else v) # self_copy_variants ord (k + 1) vs"

definition copies :: "(prim \<Rightarrow> pval) \<Rightarrow> ty \<Rightarrow> bool" where
  "copies g t \<longleftrightarrow> (\<forall>r d. shaped t r \<longrightarrow> shaped t d \<longrightarrow>
     (\<exists>w. copy_obj g t r d = Inr w \<and> msg_of w = msg_of r \<and> shaped t w))"

lemma copiesD:
  "copies g t \<Longrightarrow> shaped t r \<Longrightarrow> shaped t d \<Longrightarrow> \<exists>w. copy_obj g t r d = Inr w \<and> msg_of w = msg_of r \<and> shaped t w"
  by (simp add: copies_def)

lemma copy_fields_copies:
  "list_all (copies g) ts \<Longrightarrow> list_all2 shaped ts rs \<Longrightarrow> list_all2 shaped ts ds \<Longrightarrow>
    \<exists>ws. copy_fields g ts rs ds = Inr ws \<and> map msg_of ws = map msg_of rs \<and> list_all2 shaped ts ws"
proof (induction ts arbitrary: rs ds)
  case (Cons t ts)
  from Cons.prems obtain r rs' d ds' where eq: "rs = r # rs'" "ds = d # ds'" by (auto simp: list_all2_Cons1)
  obtain w where "copy_obj g t r d = Inr w" "msg_of w = msg_of r" "shaped t w"
    using copiesD [of g t r d] Cons.prems eq by auto
  moreover obtain ws where "copy_fields g ts rs' ds' = Inr ws" "map msg_of ws = map msg_of rs'" "list_all2 shaped ts ws"
    using Cons.IH [of rs' ds'] Cons.prems eq by auto
  ultimately show ?case by (simp add: eq)
qed simp

lemma copy_variants_copies:
  "list_all (copies g) ts \<Longrightarrow> list_all2 shaped ts rs \<Longrightarrow> list_all2 shaped ts ds \<Longrightarrow>
    \<exists>ws. copy_variants g ord k ts rs ds = Inr ws \<and> list_all2 shaped ts ws \<and>
      (k \<le> ord \<longrightarrow> ord - k < length rs \<longrightarrow> msg_of (ws ! (ord - k)) = msg_of (rs ! (ord - k)))"
proof (induction ts arbitrary: rs ds k)
  case (Cons t ts)
  from Cons.prems obtain r rs' d ds' where eq: "rs = r # rs'" "ds = d # ds'" by (auto simp: list_all2_Cons1)
  obtain ws where ws: "copy_variants g ord (k + 1) ts rs' ds' = Inr ws" "list_all2 shaped ts ws"
      "k + 1 \<le> ord \<longrightarrow> ord - (k + 1) < length rs' \<longrightarrow> msg_of (ws ! (ord - (k + 1))) = msg_of (rs' ! (ord - (k + 1)))"
    using Cons.IH [of rs' ds' "k + 1"] Cons.prems eq by auto
  obtain w where w: "copy_obj g t r d = Inr w" "msg_of w = msg_of r" "shaped t w"
    using copiesD [of g t r d] Cons.prems eq by auto
  show ?case
  proof (cases "ord = k")
    case True
    with ws(1,2) w show ?thesis by (simp add: eq)
  next
    case False
    show ?thesis
    proof (cases "k \<le> ord")
      case True
      with False have "ord - k = Suc (ord - Suc k)" by simp
      with ws False True Cons.prems(3) show ?thesis by (simp add: eq)
    qed (use ws False Cons.prems(3) in \<open>simp add: eq\<close>)
  qed
qed simp

lemma copy_items_copies:
  "copies g t \<Longrightarrow> shaped t (fresh g t) \<Longrightarrow> list_all (shaped t) rs \<Longrightarrow> (\<And>m. mx = Some m \<Longrightarrow> length vs + length rs \<le> m) \<Longrightarrow>
    \<exists>ws. read_items mx (\<lambda>r. copy_obj g t r (fresh g t)) rs vs = Inr (vs @ ws) \<and> map msg_of ws = map msg_of rs \<and>
      list_all (shaped t) ws"
proof (induction rs arbitrary: vs)
  case (Cons r rs)
  obtain w where w: "copy_obj g t r (fresh g t) = Inr w" "msg_of w = msg_of r" "shaped t w"
    using copiesD [of g t r "fresh g t"] Cons.prems by auto
  have "\<not> (case mx of None \<Rightarrow> False | Some m \<Rightarrow> m \<le> length vs)" using Cons.prems(4) by (auto split: option.split)
  moreover obtain ws where "read_items mx (\<lambda>r. copy_obj g t r (fresh g t)) rs (vs @ [w]) = Inr ((vs @ [w]) @ ws)"
      "map msg_of ws = map msg_of rs" "list_all (shaped t) ws"
    using Cons.IH [of "vs @ [w]"] Cons.prems by fastforce
  ultimately show ?case using w by (intro exI [of _ "w # ws"]) simp
qed simp

lemma copy_copies:
  assumes g: "\<And>p. prim_of (g p) = p"
  shows "copies g t"
proof (induction t)
  case (TRec ts)
  then have "list_all (copies g) ts" by (simp add: list_all_iff)
  then show ?case using copy_fields_copies [of g ts] by (fastforce simp: copies_def)
next
  case (TOpt t)
  then show ?case by (fastforce simp: copies_def)
next
  case (TList mx t)
  show ?case unfolding copies_def
  proof (intro allI impI)
    fix r d assume "shaped (TList mx t) r" "shaped (TList mx t) d"
    then obtain rs ds where eq: "r = OList rs" "d = OList ds" "list_all (shaped t) rs" "\<And>m. mx = Some m \<Longrightarrow> length rs \<le> m"
      by auto
    with copy_items_copies [OF TList shaped_fresh [OF g] eq(3), of mx "[]"] obtain ws where
      "read_items mx (\<lambda>r. copy_obj g t r (fresh g t)) rs [] = Inr ws" "map msg_of ws = map msg_of rs" "list_all (shaped t) ws"
      by auto
    moreover from this(2) have "length ws = length rs" by (rule map_eq_imp_length_eq)
    ultimately show "\<exists>w. copy_obj g (TList mx t) r d = Inr w \<and> msg_of w = msg_of r \<and> shaped (TList mx t) w"
      using eq(4) by (simp add: eq)
  qed
next
  case (TChoice ts)
  then have ts: "list_all (copies g) ts" by (simp add: list_all_iff)
  show ?case unfolding copies_def
  proof (intro allI impI)
    fix r d assume "shaped (TChoice ts) r" "shaped (TChoice ts) d"
    then obtain ord rs o' ds where eq: "r = OChoice ord rs" "d = OChoice o' ds" "list_all2 shaped ts rs" "list_all2 shaped ts ds"
      by auto
    from copy_variants_copies [OF ts eq(3,4), of "unat ord" 1] obtain ws where ws:
      "copy_variants g (unat ord) 1 ts rs ds = Inr ws" "list_all2 shaped ts ws"
      "1 \<le> unat ord \<longrightarrow> unat ord - 1 < length rs \<longrightarrow> msg_of (ws ! (unat ord - 1)) = msg_of (rs ! (unat ord - 1))" by auto
    have "length ws = length rs" using ws(2) eq(3) by (simp add: list_all2_lengthD [symmetric])
    with ws(3) have "map_option msg_of (chosen (unat ord) ws) = map_option msg_of (chosen (unat ord) rs)"
      by (auto simp: chosen_def)
    with ws(1,2) show "\<exists>w. copy_obj g (TChoice ts) r d = Inr w \<and> msg_of w = msg_of r \<and> shaped (TChoice ts) w"
      by (simp add: eq msg_of_choice del: msg_of.simps)
  qed
qed (auto simp: copies_def)

text \<open>
  C9: A copy is the message: \<open>copy\<close> into an object of the type, whatever that held, raises nothing and gives
  an object of the type with the source's message, its optionals, list bounds and chosen variants.
\<close>

theorem copy_keeps_message:
  assumes "\<And>p. prim_of (g p) = p" and "shaped t rhs" and "shaped t dst"
  shows "\<exists>w. copy_obj g t rhs dst = Inr w \<and> msg_of w = msg_of rhs \<and> shaped t w"
  using copiesD [OF copy_copies [OF assms(1)] assms(2,3)] .

theorem copy_keeps_message_witness:
  "\<exists>w. copy_obj scalar_zero (TRec [TOpt (TPrim PInt8), TList (Some 2) (TPrim PInt8)])
      (ORec [OOpt False (OPrim (VInt8 1)), OList [OPrim (VInt8 5)]])
      (ORec [OOpt True (OPrim (VInt8 9)), OList [OPrim (VInt8 6), OPrim (VInt8 7)]]) = Inr w \<and>
    msg_of w = MRec [MOpt None, MList [MPrim (VInt8 5)]]"
  using copy_keeps_message [of scalar_zero "TRec [TOpt (TPrim PInt8), TList (Some 2) (TPrim PInt8)]"
      "ORec [OOpt False (OPrim (VInt8 1)), OList [OPrim (VInt8 5)]]"
      "ORec [OOpt True (OPrim (VInt8 9)), OList [OPrim (VInt8 6), OPrim (VInt8 7)]]"]
  by (auto simp: prim_of_scalar_zero)

text \<open>Copied to itself an object loses what its lists hold.\<close>

lemma self_copy_loses_lists:
  "msg_of (self_copy (ORec [OList (v # vs)])) \<noteq> msg_of (ORec [OList (v # vs)])"
  by simp

end
