(* ===== verification/Owning_Ptrs.thy ===== *)
theory Owning_Ptrs
  imports Prelude "HOL-Library.Multiset"
begin

text \<open>
  The owning pointers of \<open>include/uci/utils\<close>: \<open>ReaderPtr\<close> and \<open>WriterPtr\<close> (\<open>ReaderWriterPtr.h\<close>),
  \<open>ConnectionPtr\<close> and \<open>MessagePtr\<close>. The state is a heap of objects with the pointer variables in
  scope; an address that is used after its object was deleted, or a null pointer that is dereferenced, is
  undefined in C++ and \<open>None\<close> here. The four classes are one template with four ways to dispose of the
  object they own; what \<open>createReader\<close> and the others make is a parameter, and so are \<open>close\<close>,
  \<open>shutdown\<close> and the objects themselves.
\<close>

section \<open>Objects, variables, actions\<close>

record 'o store =
  objs :: "nat \<rightharpoonup> 'o"
  fresh :: nat
  ptrs :: "nat \<rightharpoonup> nat option"

type_synonym ('o, 'a) action = "'o store \<Rightarrow> ('a res \<times> 'o store) option"

definition return :: "'a \<Rightarrow> ('o, 'a) action" where
  "return x s = Some (Inr x, s)"

definition and_then :: "('o, 'a) action \<Rightarrow> ('a \<Rightarrow> ('o, 'b) action) \<Rightarrow> ('o, 'b) action" where
  "and_then m f s = (case m s of
     None \<Rightarrow> None | Some (Inl e, s') \<Rightarrow> Some (Inl e, s') | Some (Inr x, s') \<Rightarrow> f x s')"

text \<open>\<open>new\<close>, a call of a member function, \<open>delete\<close>.\<close>

definition new_obj :: "'o res \<Rightarrow> ('o, nat) action" where
  "new_obj made s = Some (case made of
     Inl e \<Rightarrow> (Inl e, s)
   | Inr x \<Rightarrow> (Inr (fresh s), s\<lparr>objs := (objs s)(fresh s \<mapsto> x), fresh := fresh s + 1\<rparr>))"

definition member_call :: "('o \<Rightarrow> 'o res) \<Rightarrow> nat \<Rightarrow> ('o, unit) action" where
  "member_call f a s = (case objs s a of
     None \<Rightarrow> None
   | Some x \<Rightarrow> (case f x of Inl e \<Rightarrow> Some (Inl e, s) | Inr y \<Rightarrow> Some (Inr (), s\<lparr>objs := (objs s)(a \<mapsto> y)\<rparr>)))"

definition delete_obj :: "nat \<Rightarrow> ('o, unit) action" where
  "delete_obj a s = (case objs s a of None \<Rightarrow> None | Some _ \<Rightarrow> Some (Inr (), s\<lparr>objs := (objs s)(a := None)\<rparr>))"

text \<open>The pointer member of a variable in scope, and a variable that comes into scope.\<close>

definition read_ptr :: "nat \<Rightarrow> ('o, nat option) action" where
  "read_ptr v s = (case ptrs s v of None \<Rightarrow> None | Some p \<Rightarrow> Some (Inr p, s))"

definition set_ptr :: "nat \<Rightarrow> nat option \<Rightarrow> ('o, unit) action" where
  "set_ptr v p s = Some (Inr (), s\<lparr>ptrs := (ptrs s)(v \<mapsto> p)\<rparr>)"

section \<open>Disposing of what is owned\<close>

text \<open>
  \<open>reset\<close> closes and then calls the destroy function of the message type, which closes again and deletes;
  a connection is shut down and deleted; an accessor is cast to the implementation class and deleted.
\<close>

definition destroyReader :: "('o \<Rightarrow> 'o res) \<Rightarrow> nat \<Rightarrow> ('o, unit) action" where
  "destroyReader close a = and_then (member_call close a) (\<lambda>_. delete_obj a)"

definition reader_dispose :: "('o \<Rightarrow> 'o res) \<Rightarrow> nat \<Rightarrow> ('o, unit) action" where
  "reader_dispose close a = and_then (member_call close a) (\<lambda>_. destroyReader close a)"

definition destroyWriter :: "('o \<Rightarrow> 'o res) \<Rightarrow> nat \<Rightarrow> ('o, unit) action" where
  "destroyWriter close a = and_then (member_call close a) (\<lambda>_. delete_obj a)"

definition writer_dispose :: "('o \<Rightarrow> 'o res) \<Rightarrow> nat \<Rightarrow> ('o, unit) action" where
  "writer_dispose close a = and_then (member_call close a) (\<lambda>_. destroyWriter close a)"

definition uci_destroyAbstractServiceBusConnection :: "nat \<Rightarrow> ('o, unit) action" where
  "uci_destroyAbstractServiceBusConnection a = delete_obj a"

definition connection_dispose :: "('o \<Rightarrow> 'o res) \<Rightarrow> nat \<Rightarrow> ('o, unit) action" where
  "connection_dispose shutdown a = and_then (member_call shutdown a) (\<lambda>_. uci_destroyAbstractServiceBusConnection a)"

definition destroy_accessor :: "('o \<Rightarrow> bool) \<Rightarrow> nat \<Rightarrow> ('o, unit) action" where
  "destroy_accessor is_impl a = and_then (member_call (\<lambda>x. if is_impl x then Inr x else Inl BadCast) a) (\<lambda>_. delete_obj a)"

definition message_dispose :: "('o \<Rightarrow> bool) \<Rightarrow> nat \<Rightarrow> ('o, unit) action" where
  "message_dispose is_impl a = destroy_accessor is_impl a"

text \<open>What the message type creates; \<open>as_dds\<close> is the \<open>dynamic_cast\<close> of the connection.\<close>

definition createReader :: "('asb \<Rightarrow> 'd option) \<Rightarrow> ('d \<Rightarrow> string \<Rightarrow> 'o) \<Rightarrow> string \<times> 'asb \<Rightarrow> 'o res" where
  "createReader as_dds construct = (\<lambda>(topic, asb). case as_dds asb of
     None \<Rightarrow> Inl (UCIException ''createReader: ASB is not a DDS connection'') | Some dds \<Rightarrow> Inr (construct dds topic))"

definition createWriter :: "('asb \<Rightarrow> 'd option) \<Rightarrow> ('d \<Rightarrow> string \<Rightarrow> 'o) \<Rightarrow> string \<times> 'asb \<Rightarrow> 'o res" where
  "createWriter as_dds construct = (\<lambda>(topic, asb). case as_dds asb of
     None \<Rightarrow> Inl (UCIException ''createWriter: ASB is not a DDS connection'') | Some dds \<Rightarrow> Inr (construct dds topic))"

section \<open>The operations of a pointer\<close>

definition ptr_create :: "('k \<Rightarrow> 'o res) \<Rightarrow> nat \<Rightarrow> 'k \<Rightarrow> ('o, unit) action" where
  "ptr_create create v k = and_then (new_obj (create k)) (\<lambda>a. set_ptr v (Some a))"

definition ptr_adopt :: "nat \<Rightarrow> nat \<Rightarrow> ('o, unit) action" where
  "ptr_adopt v a = set_ptr v (Some a)"

definition ptr_release :: "nat \<Rightarrow> ('o, nat option) action" where
  "ptr_release v = and_then (read_ptr v) (\<lambda>released. and_then (set_ptr v None) (\<lambda>_. return released))"

definition ptr_move :: "nat \<Rightarrow> nat \<Rightarrow> ('o, unit) action" where
  "ptr_move v rhs = and_then (ptr_release rhs) (set_ptr v)"

definition ptr_reset :: "(nat \<Rightarrow> ('o, unit) action) \<Rightarrow> nat \<Rightarrow> nat option \<Rightarrow> ('o, unit) action" where
  "ptr_reset dispose v new = and_then (read_ptr v) (\<lambda>p. case p of
     None \<Rightarrow> set_ptr v new
   | Some old \<Rightarrow> and_then (set_ptr v None) (\<lambda>_. and_then (dispose old) (\<lambda>_. set_ptr v new)))"

definition ptr_assign :: "(nat \<Rightarrow> ('o, unit) action) \<Rightarrow> nat \<Rightarrow> nat \<Rightarrow> ('o, unit) action" where
  "ptr_assign dispose v rhs =
     (if v = rhs then return ()
      else and_then (ptr_reset dispose v None) (\<lambda>_. and_then (ptr_release rhs) (set_ptr v)))"

definition resetNoThrow :: "(nat \<Rightarrow> ('o, unit) action) \<Rightarrow> nat \<Rightarrow> ('o, unit) action" where
  "resetNoThrow dispose v s = map_option (\<lambda>(_, s'). (Inr (), s')) (ptr_reset dispose v None s)"

text \<open>The end of a variable's scope: the destructor, then the variable is gone.\<close>

definition ptr_drop :: "(nat \<Rightarrow> ('o, unit) action) \<Rightarrow> nat \<Rightarrow> ('o, unit) action" where
  "ptr_drop dispose v = and_then (resetNoThrow dispose v) (\<lambda>_ s. Some (Inr (), s\<lparr>ptrs := (ptrs s)(v := None)\<rparr>))"

definition ptr_get :: "nat \<Rightarrow> ('o, nat) action" where
  "ptr_get v = and_then (read_ptr v) (\<lambda>p. case p of None \<Rightarrow> (\<lambda>_. None) | Some a \<Rightarrow> return a)"

definition ptr_bool :: "nat \<Rightarrow> ('o, bool) action" where
  "ptr_bool v = and_then (read_ptr v) (\<lambda>p. return (p \<noteq> None))"

section \<open>Programs that use the pointers\<close>

datatype 'k cmd =
  Create nat 'k | Adopt nat nat | Move nat nat | Assign nat nat | Release nat | ResetTo nat "nat option" | Drop nat

fun ptr_class :: "('k \<Rightarrow> 'o res) \<Rightarrow> (nat \<Rightarrow> ('o, unit) action) \<Rightarrow> 'k cmd \<Rightarrow> ('o, nat option) action" where
  "ptr_class create dispose (Create v k) = and_then (ptr_create create v k) (\<lambda>_. return None)"
| "ptr_class create dispose (Adopt v a) = and_then (ptr_adopt v a) (\<lambda>_. return None)"
| "ptr_class create dispose (Move v rhs) = and_then (ptr_move v rhs) (\<lambda>_. return None)"
| "ptr_class create dispose (Assign v rhs) = and_then (ptr_assign dispose v rhs) (\<lambda>_. return None)"
| "ptr_class create dispose (Release v) = ptr_release v"
| "ptr_class create dispose (ResetTo v new) = and_then (ptr_reset dispose v new) (\<lambda>_. return None)"
| "ptr_class create dispose (Drop v) = and_then (ptr_drop dispose v) (\<lambda>_. return None)"

text \<open>
  The four classes. \<open>makeReader\<close>, \<open>makeWriter\<close>, \<open>makeConnection\<close> and \<open>makeMessage\<close> are
  \<open>Create\<close>: what they are called with is \<open>'k\<close>.
\<close>

definition ReaderPtr ::
    "('asb \<Rightarrow> 'd option) \<Rightarrow> ('d \<Rightarrow> string \<Rightarrow> 'o) \<Rightarrow> ('o \<Rightarrow> 'o res) \<Rightarrow> (string \<times> 'asb) cmd \<Rightarrow> ('o, nat option) action" where
  "ReaderPtr as_dds construct close = ptr_class (createReader as_dds construct) (reader_dispose close)"

definition WriterPtr ::
    "('asb \<Rightarrow> 'd option) \<Rightarrow> ('d \<Rightarrow> string \<Rightarrow> 'o) \<Rightarrow> ('o \<Rightarrow> 'o res) \<Rightarrow> (string \<times> 'asb) cmd \<Rightarrow> ('o, nat option) action" where
  "WriterPtr as_dds construct close = ptr_class (createWriter as_dds construct) (writer_dispose close)"

definition ConnectionPtr :: "('k \<Rightarrow> 'o res) \<Rightarrow> ('o \<Rightarrow> 'o res) \<Rightarrow> 'k cmd \<Rightarrow> ('o, nat option) action" where
  "ConnectionPtr connect shutdown = ptr_class connect (connection_dispose shutdown)"

definition MessagePtr :: "('k \<Rightarrow> 'o) \<Rightarrow> ('o \<Rightarrow> bool) \<Rightarrow> 'k cmd \<Rightarrow> ('o, nat option) action" where
  "MessagePtr create is_impl = ptr_class (\<lambda>k. Inr (create k)) (message_dispose is_impl)"

text \<open>A run gives what the calls of \<open>release\<close> returned; the program catches what a call throws and goes on.\<close>

fun run_ptrs :: "('k cmd \<Rightarrow> ('o, nat option) action) \<Rightarrow> 'k cmd list \<Rightarrow> 'o store \<Rightarrow> (nat list \<times> 'o store) option" where
  "run_ptrs exec [] s = Some ([], s)"
| "run_ptrs exec (c # cs) s = (case exec c s of
     None \<Rightarrow> None
   | Some (Inr (Some a), s') \<Rightarrow> map_option (\<lambda>(out, t). (a # out, t)) (run_ptrs exec cs s')
   | Some (_, s') \<Rightarrow> run_ptrs exec cs s')"

section \<open>Who owns what\<close>

definition owned :: "'o store \<Rightarrow> nat set" where
  "owned s = {a. \<exists>v. ptrs s v = Some (Some a)}"

text \<open>Live objects that no pointer owns: the program itself has to see to them.\<close>

definition loose :: "'o store \<Rightarrow> nat set" where
  "loose s = dom (objs s) - owned s"

definition owners_ok :: "'o store \<Rightarrow> bool" where
  "owners_ok s \<longleftrightarrow> finite (dom (objs s)) \<and> (\<forall>a \<in> dom (objs s). a < fresh s) \<and> owned s \<subseteq> dom (objs s) \<and>
     (\<forall>v w a. ptrs s v = Some (Some a) \<longrightarrow> ptrs s w = Some (Some a) \<longrightarrow> v = w)"

text \<open>
  What the compiler sees to, that a constructed variable is new and the others are in scope, and the one
  thing the caller has to: a pointer is only given an object that nothing owns.
\<close>

fun allowed :: "'k cmd \<Rightarrow> 'o store \<Rightarrow> bool" where
  "allowed (Create v k) s \<longleftrightarrow> ptrs s v = None"
| "allowed (Adopt v a) s \<longleftrightarrow> ptrs s v = None \<and> a \<in> loose s"
| "allowed (Move v rhs) s \<longleftrightarrow> ptrs s v = None \<and> ptrs s rhs \<noteq> None"
| "allowed (Assign v rhs) s \<longleftrightarrow> ptrs s v \<noteq> None \<and> ptrs s rhs \<noteq> None"
| "allowed (Release v) s \<longleftrightarrow> ptrs s v \<noteq> None"
| "allowed (ResetTo v new) s \<longleftrightarrow> ptrs s v \<noteq> None \<and> set_option new \<subseteq> loose s"
| "allowed (Drop v) s \<longleftrightarrow> ptrs s v \<noteq> None"

fun all_allowed :: "('k cmd \<Rightarrow> ('o, nat option) action) \<Rightarrow> 'k cmd list \<Rightarrow> 'o store \<Rightarrow> bool" where
  "all_allowed exec [] s \<longleftrightarrow> True"
| "all_allowed exec (c # cs) s \<longleftrightarrow>
     allowed c s \<and> (case exec c s of None \<Rightarrow> True | Some (_, s') \<Rightarrow> all_allowed exec cs s')"

fun adopts :: "'k cmd \<Rightarrow> nat option" where
  "adopts (Adopt v a) = Some a"
| "adopts (ResetTo v new) = new"
| "adopts _ = None"

lemma owners_inj: "owners_ok s \<Longrightarrow> ptrs s v = Some (Some a) \<Longrightarrow> ptrs s w = Some (Some a) \<Longrightarrow> v = w"
  by (simp add: owners_ok_def)

text \<open>How the variables' map decides what is owned: one variable set, or gone, changes one owner.\<close>

lemma owned_update:
  "b \<in> owned (s\<lparr>ptrs := (ptrs s)(v := q)\<rparr>) \<longleftrightarrow> q = Some (Some b) \<or> (\<exists>w. w \<noteq> v \<and> ptrs s w = Some (Some b))"
  by (auto simp: owned_def)

lemma owned_set:
  assumes ok: "owners_ok s" and v: "ptrs s v = Some p"
  shows "owned (s\<lparr>ptrs := (ptrs s)(v := q)\<rparr>) = (owned s - set_option p) \<union> {b. q = Some (Some b)}"
proof -
  have "(\<exists>w. w \<noteq> v \<and> ptrs s w = Some (Some b)) \<longleftrightarrow> b \<in> owned s \<and> p \<noteq> Some b" for b
    unfolding owned_def mem_Collect_eq using v owners_inj [OF ok, of v b] by (metis option.inject)
  then show ?thesis by (auto simp: owned_update)
qed

lemma owned_new:
  assumes "ptrs s v = None"
  shows "owned (s\<lparr>ptrs := (ptrs s)(v \<mapsto> p)\<rparr>) = owned s \<union> set_option p"
proof -
  have "(\<exists>w. w \<noteq> v \<and> ptrs s w = Some (Some b)) \<longleftrightarrow> b \<in> owned s" for b
    unfolding owned_def mem_Collect_eq using assms by (metis option.distinct(1))
  then show ?thesis by (auto simp: owned_update)
qed

lemma owned_heap [simp]: "owned (s\<lparr>objs := h\<rparr>) = owned s" "owned (s\<lparr>fresh := n\<rparr>) = owned s"
  by (simp_all add: owned_def)

text \<open>
  The five things an operation is made of: a null or a new variable is given a loose object, a variable
  lets go of its object, a loose object is deleted, a new one is made, a null variable leaves its scope.
\<close>

lemma give:
  assumes ok: "owners_ok s" and v: "ptrs s v = None \<or> ptrs s v = Some None" and p: "set_option p \<subseteq> loose s"
  shows "owners_ok (s\<lparr>ptrs := (ptrs s)(v \<mapsto> p)\<rparr>)" "loose (s\<lparr>ptrs := (ptrs s)(v \<mapsto> p)\<rparr>) = loose s - set_option p"
proof -
  have o: "owned (s\<lparr>ptrs := (ptrs s)(v \<mapsto> p)\<rparr>) = owned s \<union> set_option p"
    using v owned_new [of s v p] owned_set [OF ok, of v None "Some p"] by (cases p) auto
  then show "loose (s\<lparr>ptrs := (ptrs s)(v \<mapsto> p)\<rparr>) = loose s - set_option p" by (auto simp: loose_def)
  have "ptrs s w \<noteq> Some (Some a)" if "p = Some a" for w a using p that by (auto simp: loose_def owned_def)
  then show "owners_ok (s\<lparr>ptrs := (ptrs s)(v \<mapsto> p)\<rparr>)"
    using ok p o owners_inj [OF ok] unfolding owners_ok_def by (simp add: loose_def) blast
qed

lemma let_go:
  assumes ok: "owners_ok s" and v: "ptrs s v = Some p"
  shows "owners_ok (s\<lparr>ptrs := (ptrs s)(v \<mapsto> None)\<rparr>)" "loose (s\<lparr>ptrs := (ptrs s)(v \<mapsto> None)\<rparr>) = loose s \<union> set_option p"
    "set_option p \<inter> loose s = {}"
proof -
  have o: "owned (s\<lparr>ptrs := (ptrs s)(v \<mapsto> None)\<rparr>) = owned s - set_option p"
    using owned_set [OF ok v, of "Some None"] by simp
  have p: "set_option p \<subseteq> owned s" using v by (auto simp: owned_def)
  with ok have "set_option p \<subseteq> dom (objs s)" by (auto simp: owners_ok_def)
  with o p show "loose (s\<lparr>ptrs := (ptrs s)(v \<mapsto> None)\<rparr>) = loose s \<union> set_option p" "set_option p \<inter> loose s = {}"
    by (auto simp: loose_def)
  show "owners_ok (s\<lparr>ptrs := (ptrs s)(v \<mapsto> None)\<rparr>)"
    using ok o owners_inj [OF ok] unfolding owners_ok_def by (simp add: Diff_subset_conv) blast
qed

lemma remove:
  assumes "owners_ok s" "A \<subseteq> loose s"
  shows "owners_ok (s\<lparr>objs := objs s |` (- A)\<rparr>)" "loose (s\<lparr>objs := objs s |` (- A)\<rparr>) = loose s - A"
  using assms by (auto simp: owners_ok_def loose_def)

lemma alloc:
  assumes "owners_ok s"
  shows "owners_ok (s\<lparr>objs := (objs s)(fresh s \<mapsto> x), fresh := Suc (fresh s)\<rparr>)"
    "loose (s\<lparr>objs := (objs s)(fresh s \<mapsto> x), fresh := Suc (fresh s)\<rparr>) = insert (fresh s) (loose s)"
    "fresh s \<notin> loose s"
proof -
  have new: "fresh s \<notin> dom (objs s)" "fresh s \<notin> owned s" using assms unfolding owners_ok_def by blast+
  show "fresh s \<notin> loose s" using new by (simp add: loose_def)
  show "loose (s\<lparr>objs := (objs s)(fresh s \<mapsto> x), fresh := Suc (fresh s)\<rparr>) = insert (fresh s) (loose s)"
    using new by (auto simp: loose_def owned_def)
  show "owners_ok (s\<lparr>objs := (objs s)(fresh s \<mapsto> x), fresh := Suc (fresh s)\<rparr>)"
    using assms by (auto simp: owners_ok_def owned_def less_Suc_eq)
qed

lemma leave:
  assumes ok: "owners_ok s" and v: "ptrs s v = Some None"
  shows "owners_ok (s\<lparr>ptrs := (ptrs s)(v := None)\<rparr>)" "loose (s\<lparr>ptrs := (ptrs s)(v := None)\<rparr>) = loose s"
proof -
  have o: "owned (s\<lparr>ptrs := (ptrs s)(v := None)\<rparr>) = owned s" using owned_set [OF ok v, of None] by simp
  then show "loose (s\<lparr>ptrs := (ptrs s)(v := None)\<rparr>) = loose s" by (simp add: loose_def)
  show "owners_ok (s\<lparr>ptrs := (ptrs s)(v := None)\<rparr>)"
    using ok o owners_inj [OF ok] unfolding owners_ok_def by simp
qed

section \<open>What a class of pointers needs\<close>

text \<open>Disposing of a live object deletes it, and it raises nothing.\<close>

locale disposer =
  fixes dispose :: "nat \<Rightarrow> ('o, unit) action"
  assumes disposes: "a \<in> dom (objs s) \<Longrightarrow> dispose a s = Some (Inr (), s\<lparr>objs := (objs s)(a := None)\<rparr>)"
begin

lemma ptr_reset_eq:
  assumes "owners_ok s" "ptrs s v = Some p"
  shows "ptr_reset dispose v new s =
    Some (Inr (), s\<lparr>objs := (objs s) |` (- set_option p), ptrs := (ptrs s)(v \<mapsto> new)\<rparr>)"
proof (cases p)
  case None
  moreover have "s = s\<lparr>objs := objs s |` UNIV\<rparr>" by (simp add: restrict_map_def)
  ultimately show ?thesis using assms by (simp add: ptr_reset_def and_then_def read_ptr_def set_ptr_def restrict_map_def)
next
  case (Some a)
  with assms have "a \<in> dom (objs s)" by (auto simp: owners_ok_def owned_def)
  then have "dispose a (s\<lparr>ptrs := (ptrs s)(v \<mapsto> None)\<rparr>) =
      Some (Inr (), s\<lparr>objs := (objs s)(a := None), ptrs := (ptrs s)(v \<mapsto> None)\<rparr>)"
    by (subst disposes) simp_all
  then show ?thesis using assms Some
    by (simp add: ptr_reset_def and_then_def read_ptr_def set_ptr_def restrict_complement_singleton_eq)
qed

end

definition given :: "nat option res \<Rightarrow> nat set" where
  "given r = (case r of Inr p \<Rightarrow> set_option p | Inl _ \<Rightarrow> {})"

lemma given_simps [simp]: "given (Inl e) = {}" "given (Inr p) = set_option p"
  by (simp_all add: given_def)

lemma finite_given [simp]: "finite (given r)"
  by (cases r) simp_all

lemmas ptr_defs = and_then_def read_ptr_def set_ptr_def return_def new_obj_def ptr_create_def ptr_adopt_def
  ptr_release_def ptr_move_def ptr_assign_def resetNoThrow_def ptr_drop_def

lemma mset_set_exchange:
  assumes "finite L" "finite G" "A \<subseteq> L" "G \<inter> L = {}"
  shows "mset_set (L - A \<union> G) + mset_set A = mset_set L + mset_set G"
proof -
  have "mset_set (L - A \<union> G) = mset_set (L - A) + mset_set G" using assms by (intro mset_set_Union) auto
  moreover have "mset_set L = mset_set (L - A) + mset_set A"
    using assms mset_set_Union [of "L - A" A] by (auto simp: finite_subset Un_absorb2)
  ultimately show ?thesis by simp
qed

context disposer
begin

text \<open>A reset is the first three in a row.\<close>

lemma reset_owners:
  assumes ok: "owners_ok s" and v: "ptrs s v = Some p" and q: "set_option q \<subseteq> loose s"
  shows "owners_ok (s\<lparr>objs := (objs s) |` (- set_option p), ptrs := (ptrs s)(v \<mapsto> q)\<rparr>)"
    "loose (s\<lparr>objs := (objs s) |` (- set_option p), ptrs := (ptrs s)(v \<mapsto> q)\<rparr>) = loose s - set_option q"
proof -
  let ?t = "s\<lparr>ptrs := (ptrs s)(v \<mapsto> None)\<rparr>"
  let ?u = "?t\<lparr>objs := objs ?t |` (- set_option p)\<rparr>"
  note t = let_go [OF ok v]
  have u: "owners_ok ?u" "loose ?u = loose s" using remove [OF t(1), of "set_option p"] t(2,3) by auto
  have "ptrs ?u v = Some None" by simp
  with give [of ?u v q] u q show
    "owners_ok (s\<lparr>objs := (objs s) |` (- set_option p), ptrs := (ptrs s)(v \<mapsto> q)\<rparr>)"
    "loose (s\<lparr>objs := (objs s) |` (- set_option p), ptrs := (ptrs s)(v \<mapsto> q)\<rparr>) = loose s - set_option q"
    by simp_all
qed

lemma ptr_step:
  assumes ok: "owners_ok s" and c: "allowed c s"
  shows "\<exists>r s'. ptr_class create dispose c s = Some (r, s') \<and> owners_ok s' \<and>
    loose s' = loose s - set_option (adopts c) \<union> given r \<and> set_option (adopts c) \<subseteq> loose s \<and> given r \<inter> loose s = {}"
proof (cases c)
  case (Create v k)
  show ?thesis
  proof (cases "create k")
    case (Inr x)
    with Create c alloc(2) [OF ok, of x] alloc(3) [OF ok] give [OF alloc(1) [OF ok, of x], of v "Some (fresh s)"] show ?thesis
      by (simp add: ptr_defs)
  qed (use Create ok in \<open>simp add: ptr_defs\<close>)
next
  case (Adopt v a)
  with c give [OF ok, of v "Some a"] show ?thesis by (simp add: ptr_defs)
next
  case (Move v rhs)
  with c obtain p where p: "ptrs s rhs = Some p" by auto
  note l = let_go [OF ok p]
  have "set_option p \<subseteq> loose (s\<lparr>ptrs := (ptrs s)(rhs \<mapsto> None)\<rparr>)" using l by auto
  with give [OF l(1), of v p] l Move c p show ?thesis by (auto simp: ptr_defs)
next
  case (Assign v rhs)
  show ?thesis
  proof (cases "v = rhs")
    case False
    from Assign c obtain p q where pq: "ptrs s v = Some p" "ptrs s rhs = Some q" by auto
    let ?t = "s\<lparr>objs := (objs s) |` (- set_option p), ptrs := (ptrs s)(v \<mapsto> None)\<rparr>"
    note t = reset_owners [OF ok pq(1), of None]
    have q: "ptrs ?t rhs = Some q" using pq False by simp
    note l = let_go [OF t(1) q]
    have "set_option q \<subseteq> loose (?t\<lparr>ptrs := (ptrs ?t)(rhs \<mapsto> None)\<rparr>)" using l by auto
    with give [OF l(1), of v q] l t Assign c q pq False show ?thesis
      by (auto simp: ptr_defs ptr_reset_eq [OF ok pq(1)])
  qed (use Assign ok in \<open>simp add: ptr_defs\<close>)
next
  case (Release v)
  with c obtain p where p: "ptrs s v = Some p" by auto
  with let_go [OF ok p] Release show ?thesis by (auto simp: ptr_defs)
next
  case (ResetTo v new)
  with c obtain p where p: "ptrs s v = Some p" by auto
  with reset_owners [OF ok p, of new] ResetTo c show ?thesis
    by (simp add: ptr_reset_eq [OF ok p] ptr_defs)
next
  case (Drop v)
  with c obtain p where p: "ptrs s v = Some p" by auto
  note t = reset_owners [OF ok p, of None]
  with leave [OF t(1), of v] Drop p show ?thesis
    by (simp add: ptr_reset_eq [OF ok p] ptr_defs)
qed

text \<open>
  The conservation of ownership: whatever a program does with its pointers, no address is used after its
  object was deleted, no object is deleted twice, and what is loose at the end is what was loose at the
  start, less what was adopted and with what was released.
\<close>

lemma ptr_run:
  assumes "owners_ok s" "all_allowed (ptr_class create dispose) cs s"
  shows "\<exists>out s'. run_ptrs (ptr_class create dispose) cs s = Some (out, s') \<and> owners_ok s' \<and>
    mset_set (loose s') + mset (List.map_filter adopts cs) = mset_set (loose s) + mset out"
  using assms
proof (induction cs arbitrary: s)
  case (Cons c cs)
  then have c: "allowed c s" by simp
  from ptr_step [OF Cons.prems(1) c] obtain r t where t: "ptr_class create dispose c s = Some (r, t)" "owners_ok t"
      "loose t = loose s - set_option (adopts c) \<union> given r" "set_option (adopts c) \<subseteq> loose s" "given r \<inter> loose s = {}"
    by blast
  with Cons obtain out s' where s': "run_ptrs (ptr_class create dispose) cs t = Some (out, s')" "owners_ok s'"
      "mset_set (loose s') + mset (List.map_filter adopts cs) = mset_set (loose t) + mset out"
    by fastforce
  have fin: "finite (loose s)" using Cons.prems(1) by (simp add: owners_ok_def loose_def)
  have "mset_set (loose t) + mset_set (set_option (adopts c)) = mset_set (loose s) + mset_set (given r)"
    unfolding t(3) using t(4,5) fin by (intro mset_set_exchange finite_given)
  with s' t(1) show ?case
    by (cases "adopts c"; cases r) (auto simp: List.map_filter_simps split: option.splits)
qed (simp add: List.map_filter_simps)

end

interpretation reader: disposer "reader_dispose (\<lambda>x. Inr (close x))" for close
  by unfold_locales (auto simp: reader_dispose_def destroyReader_def and_then_def member_call_def delete_obj_def)

interpretation writer: disposer "writer_dispose (\<lambda>x. Inr (close x))" for close
  by unfold_locales (auto simp: writer_dispose_def destroyWriter_def and_then_def member_call_def delete_obj_def)

interpretation connection: disposer "connection_dispose (\<lambda>x. Inr (shutdown x))" for shutdown
  by unfold_locales (auto simp: connection_dispose_def uci_destroyAbstractServiceBusConnection_def and_then_def
      member_call_def delete_obj_def)

interpretation message: disposer "message_dispose (\<lambda>_. True)"
  by unfold_locales (auto simp: message_dispose_def destroy_accessor_def and_then_def member_call_def delete_obj_def)

section \<open>Properties\<close>

definition conserves_ownership :: "('k cmd \<Rightarrow> ('o, nat option) action) \<Rightarrow> 'k cmd list \<Rightarrow> 'o store \<Rightarrow> bool" where
  "conserves_ownership exec cs s \<longleftrightarrow>
     (\<exists>out s'. run_ptrs exec cs s = Some (out, s') \<and> owners_ok s' \<and>
        mset_set (loose s') + mset (List.map_filter adopts cs) = mset_set (loose s) + mset out)"

text \<open>
  C19: Ownership is conserved: whatever a program does with its reader pointers, as long as it gives a pointer
  only objects that nothing owns, no object is used after it was deleted or deleted twice, each is owned by
  one pointer at most, and what nothing owns at the end is what nothing owned at the start, with what
  \<open>release\<close> gave out and without what was adopted: what the pointers made, they delete.
\<close>

theorem reader_pointers_conserve_ownership:
  assumes "owners_ok s" and "all_allowed (ReaderPtr as_dds construct (\<lambda>x. Inr (close x))) cs s"
  shows "conserves_ownership (ReaderPtr as_dds construct (\<lambda>x. Inr (close x))) cs s"
  using assms unfolding ReaderPtr_def conserves_ownership_def by (rule reader.ptr_run)

text \<open>So it is for the other three classes.\<close>

lemma writer_pointers_conserve_ownership:
  assumes "owners_ok s" and "all_allowed (WriterPtr as_dds construct (\<lambda>x. Inr (close x))) cs s"
  shows "conserves_ownership (WriterPtr as_dds construct (\<lambda>x. Inr (close x))) cs s"
  using assms unfolding WriterPtr_def conserves_ownership_def by (rule writer.ptr_run)

lemma connection_pointers_conserve_ownership:
  assumes "owners_ok s" and "all_allowed (ConnectionPtr connect (\<lambda>x. Inr (shutdown x))) cs s"
  shows "conserves_ownership (ConnectionPtr connect (\<lambda>x. Inr (shutdown x))) cs s"
  using assms unfolding ConnectionPtr_def conserves_ownership_def by (rule connection.ptr_run)

lemma message_pointers_conserve_ownership:
  assumes "owners_ok s" and "all_allowed (MessagePtr create (\<lambda>_. True)) cs s"
  shows "conserves_ownership (MessagePtr create (\<lambda>_. True)) cs s"
  using assms unfolding MessagePtr_def conserves_ownership_def by (rule message.ptr_run)

text \<open>
  A program with no objects at first: it makes two readers, moves the first onto the second, releases it
  and adopts it again. At the end of its scopes nothing is left.
\<close>

definition empty_store :: "'o store" where
  "empty_store = \<lparr>objs = (\<lambda>_. None), fresh = 0, ptrs = (\<lambda>_. None)\<rparr>"

lemma empty_store_ok: "owners_ok empty_store" "loose empty_store = {}"
  by (simp_all add: empty_store_def owners_ok_def loose_def owned_def)

definition reader_program :: "(string \<times> unit) cmd list" where
  "reader_program = [Create 0 (''A'', ()), Create 1 (''B'', ()), Assign 1 0, Release 1, Adopt 2 0, Drop 0, Drop 1, Drop 2]"

lemma reader_program_allowed:
  "all_allowed (ReaderPtr Some (\<lambda>_ topic. topic) (\<lambda>x. Inr x)) reader_program empty_store"
  by (simp add: reader_program_def empty_store_def ReaderPtr_def ptr_defs ptr_reset_def reader_dispose_def destroyReader_def
      createReader_def member_call_def delete_obj_def loose_def owned_def)

theorem reader_pointers_conserve_ownership_witness:
  "\<exists>out s'. run_ptrs (ReaderPtr Some (\<lambda>_ topic. topic) (\<lambda>x. Inr x)) reader_program empty_store = Some (out, s') \<and>
     mset_set (loose s') + {#0#} = mset out"
proof -
  have "conserves_ownership (ReaderPtr Some (\<lambda>_ topic. topic) (\<lambda>x. Inr x)) reader_program empty_store"
    by (rule reader_pointers_conserve_ownership [OF empty_store_ok(1) reader_program_allowed])
  then show ?thesis
    by (auto simp: conserves_ownership_def empty_store_ok(2) reader_program_def List.map_filter_simps)
qed

text \<open>
  It rests on disposal that raises nothing. When \<open>shutdown\<close> raises, \<open>reset\<close> has already cleared the
  pointer: the connection is never deleted, and the one it was to take over is not taken.
\<close>

lemma raising_reset_leaks:
  assumes "owners_ok s" "ptrs s v = Some (Some a)" "objs s a = Some x" "shutdown x = Inl e" "set_option new \<subseteq> loose s"
  shows "\<exists>s'. ConnectionPtr connect shutdown (ResetTo v new) s = Some (Inl e, s') \<and>
    ptrs s' v = Some None \<and> insert a (set_option new) \<subseteq> loose s'"
proof -
  have "loose (s\<lparr>ptrs := (ptrs s)(v \<mapsto> None)\<rparr>) = loose s \<union> {a}" using let_go(2) [OF assms(1,2)] by simp
  then show ?thesis using assms
    by (auto simp: ConnectionPtr_def ptr_reset_def connection_dispose_def member_call_def ptr_defs)
qed

end
