(* ===== verification/Json_Messages.thy ===== *)
theory Json_Messages
  imports Json_Handlers Cdr_Messages "HOL-Library.Sublist"
begin

text \<open>
  The JSON functions of a type and the documents they write and read: the text \<open>jser\<close> appends is the
  text of \<open>doc_of\<close> the object, and \<open>jdeser\<close> on a value that is this document restores the message, for
  every type whose names are the ones an XML schema allows.
\<close>

section \<open>Names\<close>

text \<open>A name that \<open>emit_key\<close> writes the way a string literal is written.\<close>

definition plain :: "string \<Rightarrow> bool" where
  "plain s = (utf8 s \<and> concat (map emit_char s) = s)"

fun names_of :: "jty \<Rightarrow> string list" and member_names :: "jmember \<Rightarrow> string list" where
  "names_of (JPrim p) = []"
| "names_of (JEnum n names) = []"
| "names_of (JRec n ms) = concat (map member_names ms)"
| "member_names (MBase t) = names_of t"
| "member_names (MChoices vs) = map fst vs"
| "member_names (MField name t) = [name]"
| "member_names (MOptional name t) = [name]"
| "member_names (MMany name mx t) = [name]"

text \<open>
  A well-formed type: the names of all members of an object, inherited ones included, are distinct and
  plain; the enumerators of an enumeration have distinct names; a base type is a record.
\<close>

definition enum_ok :: "string list \<Rightarrow> bool" where
  "enum_ok names = (distinct (''enumNotSet'' # names) \<and> list_all utf8 names \<and> length names < 2 ^ 31)"

fun wf_jty :: "jty \<Rightarrow> bool" and wf_member :: "jmember \<Rightarrow> bool" where
  "wf_jty (JPrim p) = (p \<noteq> PEnum)"
| "wf_jty (JEnum n names) = enum_ok names"
| "wf_jty (JRec n ms) = (distinct (names_of (JRec n ms)) \<and> list_all plain (names_of (JRec n ms)) \<and> list_all wf_member ms)"
| "wf_member (MBase t) = ((case t of JRec _ _ \<Rightarrow> True | _ \<Rightarrow> False) \<and> wf_jty t)"
| "wf_member (MChoices vs) = (list_all (\<lambda>(name, t). wf_jty t) vs \<and> length vs + 1 < 2 ^ 32)"
| "wf_member (MField name t) = wf_jty t"
| "wf_member (MOptional name t) = wf_jty t"
| "wf_member (MMany name mx t) = wf_jty t"

section \<open>Objects of a type\<close>

text \<open>An object whose visible part fits the type and can be written as text.\<close>

fun all_typed :: "(obj \<Rightarrow> bool) list \<Rightarrow> obj list \<Rightarrow> bool" where
  "all_typed (P # Ps) (ob # os) = (P ob \<and> all_typed Ps os)"
| "all_typed [] [] = True"
| "all_typed _ _ = False"

fun variant_typed :: "u32 \<Rightarrow> u32 \<Rightarrow> (obj \<Rightarrow> bool) list \<Rightarrow> obj list \<Rightarrow> bool" where
  "variant_typed ord k (P # Ps) (ob # os) = ((ord = k \<longrightarrow> P ob) \<and> variant_typed ord (k + 1) Ps os)"
| "variant_typed ord k [] [] = True"
| "variant_typed ord k _ _ = False"

fun jtyped :: "jty \<Rightarrow> obj \<Rightarrow> bool" and typed_member :: "jmember \<Rightarrow> obj \<Rightarrow> bool" where
  "jtyped (JPrim p) ob = (case ob of
     OPrim v \<Rightarrow> prim_of v = p \<and> textual (\<lambda>_. []) (enum_fromName [] []) v | _ \<Rightarrow> False)"
| "jtyped (JEnum n names) ob = (case ob of
     OPrim v \<Rightarrow> (case v of VEnum e \<Rightarrow> unat e \<le> length names | _ \<Rightarrow> False) | _ \<Rightarrow> False)"
| "jtyped (JRec n ms) ob = (case ob of ORec os \<Rightarrow> all_typed (map typed_member ms) os | _ \<Rightarrow> False)"
| "typed_member (MBase t) ob = jtyped t ob"
| "typed_member (MChoices vs) ob = (case ob of
     OChoice ord os \<Rightarrow> unat ord \<le> length vs \<and> variant_typed ord 1 (map (\<lambda>(name, t). jtyped t) vs) os | _ \<Rightarrow> False)"
| "typed_member (MField name t) ob = jtyped t ob"
| "typed_member (MOptional name t) ob = (case ob of OOpt has v \<Rightarrow> has \<longrightarrow> jtyped t v | _ \<Rightarrow> False)"
| "typed_member (MMany name mx t) ob = (case ob of
     OList os \<Rightarrow> list_all (jtyped t) os \<and> (case mx of None \<Rightarrow> True | Some m \<Rightarrow> length os \<le> m) | _ \<Rightarrow> False)"

section \<open>The document of an object\<close>

fun docs_of :: "(obj \<Rightarrow> (string \<times> jdoc) list) list \<Rightarrow> obj list \<Rightarrow> (string \<times> jdoc) list" where
  "docs_of (m # ms) (ob # os) = m ob @ docs_of ms os"
| "docs_of _ _ = []"

fun variant_docs :: "u32 \<Rightarrow> u32 \<Rightarrow> (string \<times> (obj \<Rightarrow> jdoc)) list \<Rightarrow> obj list \<Rightarrow> (string \<times> jdoc) list" where
  "variant_docs ord k (v # vs) (ob # os) = (if ord = k then [(fst v, snd v ob)] else []) @ variant_docs ord (k + 1) vs os"
| "variant_docs ord k _ _ = []"

fun doc_of :: "jty \<Rightarrow> obj \<Rightarrow> jdoc" and doc_fields :: "jty \<Rightarrow> obj \<Rightarrow> (string \<times> jdoc) list"
  and doc_member :: "jmember \<Rightarrow> obj \<Rightarrow> (string \<times> jdoc) list" where
  "doc_of (JPrim p) ob = (case ob of OPrim v \<Rightarrow> doc_of_val (\<lambda>_. []) v | _ \<Rightarrow> DStr [])"
| "doc_of (JEnum n names) ob = (case ob of OPrim v \<Rightarrow> doc_of_val (enum_toName names) v | _ \<Rightarrow> DStr [])"
| "doc_of (JRec n ms) ob = DObj (case ob of ORec os \<Rightarrow> docs_of (map doc_member ms) os | _ \<Rightarrow> [])"
| "doc_fields (JPrim p) ob = []"
| "doc_fields (JEnum n names) ob = []"
| "doc_fields (JRec n ms) ob = (case ob of ORec os \<Rightarrow> docs_of (map doc_member ms) os | _ \<Rightarrow> [])"
| "doc_member (MBase t) ob = doc_fields t ob"
| "doc_member (MChoices vs) ob = (case ob of
     OChoice ord os \<Rightarrow> variant_docs ord 1 (map (\<lambda>(name, t). (name, doc_of t)) vs) os | _ \<Rightarrow> [])"
| "doc_member (MField name t) ob = [(name, doc_of t ob)]"
| "doc_member (MOptional name t) ob = (case ob of OOpt has v \<Rightarrow> if has then [(name, doc_of t v)] else [] | _ \<Rightarrow> [])"
| "doc_member (MMany name mx t) ob = (case ob of OList os \<Rightarrow> [(name, DArr (map (doc_of t) os))] | _ \<Rightarrow> [])"

section \<open>The text of a message\<close>

text \<open>What \<open>jser_fields\<close> appends for the members, and the flag after it.\<close>

definition members_text :: "(string \<times> jdoc) list \<Rightarrow> string" where
  "members_text kvs = comma_join (map (\<lambda>(k, d). member_text k (print_doc d)) kvs)"

definition appended :: "(string \<times> jdoc) list \<Rightarrow> string \<Rightarrow> bool \<Rightarrow> string \<times> bool" where
  "appended kvs out first =
     (if kvs = [] then (out, first) else (out @ (if first then [] else '','') @ members_text kvs, False))"

lemma appended_Nil [simp]: "appended [] out first = (out, first)"
  by (simp add: appended_def)

lemma comma_join_append:
  "ss \<noteq> [] \<Longrightarrow> ts \<noteq> [] \<Longrightarrow> comma_join (ss @ ts) = comma_join ss @ '','' @ comma_join ts"
  by (cases ss; cases ts) (simp_all add: comma_join_def)

lemma appended_append:
  "appended (xs @ ys) out first = (case appended xs out first of (out, first) \<Rightarrow> appended ys out first)"
  by (auto simp: appended_def members_text_def comma_join_append)

lemma keyed_eq:
  assumes "plain name" and "\<And>out. ser out = out @ print_doc d"
  shows "keyed name ser out first = appended [(name, d)] out first"
  using assms by (simp add: keyed_def emit_key_def appended_def members_text_def member_text_def plain_def emit_string_eq)

lemma each_item_tail:
  "(\<And>ob out. ob \<in> set os \<Longrightarrow> ser ob out = out @ print_doc (d ob)) \<Longrightarrow>
     each_item ser os out False = out @ concat (map (\<lambda>ob. '','' @ print_doc (d ob)) os)"
  by (induction os arbitrary: out) simp_all

lemma each_item_eq:
  "(\<And>ob out. ob \<in> set os \<Longrightarrow> ser ob out = out @ print_doc (d ob)) \<Longrightarrow>
     each_item ser os out True = out @ comma_join (map print_doc (map d os))"
  by (cases os) (simp_all add: each_item_tail comma_join_def comp_def)

lemma each_member_eq:
  assumes "all_typed Ps os" and "length ms = length Ps" and "length ds = length Ps"
    and "\<And>i ob out first. i < length Ps \<Longrightarrow> (Ps ! i) ob \<Longrightarrow> (ms ! i) ob out first = appended ((ds ! i) ob) out first"
  shows "each_member ms os out first = appended (docs_of ds os) out first"
  using assms
proof (induction Ps os arbitrary: ms ds out first rule: all_typed.induct)
  case (1 P Ps ob os)
  then obtain m ms' d ds' where [simp]: "ms = m # ms'" "ds = d # ds'" by (metis length_Suc_conv)
  have "m ob out first = appended (d ob) out first" for out first
    using 1(5) [of 0] 1(2) by simp
  moreover have "each_member ms' os out first = appended (docs_of ds' os) out first" for out first
    using 1(2-4) 1(5) [of "Suc _"] by (intro 1(1)) auto
  ultimately show ?case by (simp add: appended_append split: prod.splits)
qed simp_all

lemma each_variant_eq:
  assumes "variant_typed ord k Ps os" and "length vs = length Ps" and "length ds = length Ps"
    and "\<And>i. i < length Ps \<Longrightarrow> fst (ds ! i) = fst (vs ! i) \<and> plain (fst (vs ! i)) \<and>
      (\<forall>ob out. (Ps ! i) ob \<longrightarrow> snd (vs ! i) ob out = out @ print_doc (snd (ds ! i) ob))"
  shows "each_variant ord k vs os out first = appended (variant_docs ord k ds os) out first"
  using assms
proof (induction ord k Ps os arbitrary: vs ds out first rule: variant_typed.induct)
  case (1 ord k P Ps ob os)
  then obtain v vs' d ds' where [simp]: "vs = v # vs'" "ds = d # ds'" by (metis length_Suc_conv)
  have v: "fst d = fst v" "plain (fst v)" "P ob \<Longrightarrow> snd v ob out = out @ print_doc (snd d ob)" for out
    using 1(5) [of 0] by auto
  have "each_variant ord (k + 1) vs' os out first = appended (variant_docs ord (k + 1) ds' os) out first" for out first
    using 1(2-4) 1(5) [of "Suc _"] by (intro 1(1)) auto
  moreover have "ord = k \<Longrightarrow> keyed (fst v) (snd v ob) out first = appended [(fst d, snd d ob)] out first"
    using v 1(2) keyed_eq [of "fst v" "snd v ob" "snd d ob"] by simp
  ultimately show ?case by (auto simp: appended_append split: prod.splits)
qed simp_all

lemma all_typed_length: "all_typed Ps os \<Longrightarrow> length os = length Ps"
  by (induction Ps os rule: all_typed.induct) simp_all

lemma set_concat_plain: "list_all P (concat xss) \<longleftrightarrow> list_all (list_all P) xss"
  by (induction xss) simp_all

text \<open>The text that is appended is the text of the document.\<close>

lemma jser_text:
  "jtyped t ob \<Longrightarrow> wf_jty t \<Longrightarrow>
     jser f t ob out = out @ print_doc (doc_of t ob) \<and>
     (\<forall>n ms. t = JRec n ms \<longrightarrow> jser_fields f t ob out first = appended (doc_fields t ob) out first)"
  "typed_member m ob \<Longrightarrow> wf_member m \<Longrightarrow> list_all plain (member_names m) \<Longrightarrow>
     jser_member f m ob out first = appended (doc_member m ob) out first"
proof (induction t and m arbitrary: ob out first and ob out first)
  case (JPrim p)
  then obtain v where "ob = OPrim v" "textual (\<lambda>_. []) (enum_fromName [] []) v" by (auto split: obj.splits)
  then show ?case by (simp add: emit_value_doc)
next
  case (JEnum n names)
  then show ?case by (auto simp: emit_string_eq split: obj.splits pval.splits)
next
  case (JRec n ms)
  then obtain os where ob: "ob = ORec os" "all_typed (map typed_member ms) os" by (auto split: obj.splits)
  have each: "each_member (map (jser_member f) ms) os out first = appended (docs_of (map doc_member ms) os) out first"
    for out first
  proof (rule each_member_eq [OF ob(2)])
    fix i ob out first assume i: "i < length (map typed_member ms)" "(map typed_member ms ! i) ob"
    then have "ms ! i \<in> set ms" by simp
    moreover from this have "wf_member (ms ! i)" "list_all plain (member_names (ms ! i))"
      using JRec.prems(2) by (auto simp: list_all_iff)
    ultimately show "(map (jser_member f) ms ! i) ob out first = appended ((map doc_member ms ! i) ob) out first"
      using JRec.IH i by simp
  qed simp_all
  then show ?case by (simp add: ob appended_def members_text_def)
next
  case (MBase t)
  then obtain n ms where "t = JRec n ms" by (auto split: jty.splits)
  with MBase show ?case by simp
next
  case (MChoices vs)
  then obtain ord os where ob: "ob = OChoice ord os" "variant_typed ord 1 (map (\<lambda>(name, t). jtyped t) vs) os"
    by (auto split: obj.splits)
  have "each_variant ord 1 (map (\<lambda>(name, t). (name, jser f t)) vs) os out first =
      appended (variant_docs ord 1 (map (\<lambda>(name, t). (name, doc_of t)) vs) os) out first"
  proof (rule each_variant_eq [OF ob(2)])
    fix i assume i: "i < length (map (\<lambda>(name, t). jtyped t) vs)"
    obtain name t where v: "vs ! i = (name, t)" by (cases "vs ! i")
    then have "(name, t) \<in> set vs" using i nth_mem by fastforce
    then have "wf_jty t" "plain name" and "\<And>ob out. jtyped t ob \<Longrightarrow> jser f t ob out = out @ print_doc (doc_of t ob)"
      using MChoices.IH [of "(name, t)" t] MChoices.prems by (auto simp: list_all_iff)
    then show "fst (map (\<lambda>(name, t). (name, doc_of t)) vs ! i) = fst (map (\<lambda>(name, t). (name, jser f t)) vs ! i) \<and>
        plain (fst (map (\<lambda>(name, t). (name, jser f t)) vs ! i)) \<and>
        (\<forall>ob out. (map (\<lambda>(name, t). jtyped t) vs ! i) ob \<longrightarrow>
          snd (map (\<lambda>(name, t). (name, jser f t)) vs ! i) ob out =
          out @ print_doc (snd (map (\<lambda>(name, t). (name, doc_of t)) vs ! i) ob))"
      using i v by simp
  qed simp_all
  then show ?case by (simp add: ob)
next
  case (MField name t)
  then show ?case by (auto intro!: keyed_eq)
next
  case (MOptional name t)
  then show ?case by (auto split: obj.splits intro!: keyed_eq)
next
  case (MMany name mx t)
  then obtain os where ob: "ob = OList os" "list_all (jtyped t) os" by (auto split: obj.splits)
  have "each_item (jser f t) os (out @ ''['') True = (out @ ''['') @ comma_join (map print_doc (map (doc_of t) os))" for out
    using MMany ob by (intro each_item_eq) (auto simp: list_all_iff)
  then show ?case using MMany.prems by (auto simp: ob intro!: keyed_eq)
qed

section \<open>The document is well formed\<close>

text \<open>The names in an object are names of its type, in their order.\<close>

lemma subseq_docs_of:
  assumes "length ms = length nss" and "\<And>i ob. i < length ms \<Longrightarrow> subseq (map fst ((ms ! i) ob)) (nss ! i)"
  shows "subseq (map fst (docs_of ms os)) (concat nss)"
  using assms
proof (induction ms os arbitrary: nss rule: docs_of.induct)
  case (1 m ms ob os)
  then obtain ns nss' where [simp]: "nss = ns # nss'" by (metis length_Suc_conv)
  have "subseq (map fst (docs_of ms os)) (concat nss')"
    using 1(2) 1(3) [of "Suc _"] by (intro 1(1)) auto
  moreover have "subseq (map fst (m ob)) ns" using 1(3) [of 0] by simp
  ultimately show ?case by (simp add: list_emb_append_mono)
qed simp_all

lemma subseq_variant_docs: "subseq (map fst (variant_docs ord k vs os)) (map fst vs)"
  by (induction ord k vs os rule: variant_docs.induct) auto

lemma subseq_names:
  "subseq (map fst (doc_fields t ob)) (names_of t)"
  "subseq (map fst (doc_member m ob)) (member_names m)"
proof (induction t and m arbitrary: ob and ob)
  case (JRec n ms)
  then show ?case by (auto split: obj.splits intro!: subseq_docs_of)
next
  case (MChoices vs)
  have e: "map (fst \<circ> (\<lambda>(name, t). (name, doc_of t))) vs = map fst vs" by (induction vs) auto
  have "subseq (map fst (variant_docs ord 1 (map (\<lambda>(name, t). (name, doc_of t)) vs) os)) (map fst vs)" for ord os
    using subseq_variant_docs [of ord 1 "map (\<lambda>(name, t). (name, doc_of t)) vs" os] by (simp only: map_map e)
  then show ?case by (simp split: obj.split)
qed (auto split: obj.splits)

lemma docs_of_elem:
  assumes "kv \<in> set (docs_of ms os)" and "all_typed Ps os" and "length Ps = length ms"
  obtains i where "i < length ms" "(Ps ! i) (os ! i)" "kv \<in> set ((ms ! i) (os ! i))"
  using assms
proof (induction ms os arbitrary: Ps thesis rule: docs_of.induct)
  case (1 m ms ob os)
  then obtain P Ps' where [simp]: "Ps = P # Ps'" by (metis length_Suc_conv)
  from 1(3) consider "kv \<in> set (m ob)" | "kv \<in> set (docs_of ms os)" by auto
  then show ?case
  proof cases
    case 1
    then show thesis using "1.prems"(3) by (intro "1.prems"(1) [of 0]) auto
  next
    case 2
    then obtain i where "i < length ms" "(Ps' ! i) (os ! i)" "kv \<in> set ((ms ! i) (os ! i))"
      using "1.prems"(3,4) "1.IH" [of Ps'] by auto
    then show thesis by (intro "1.prems"(1) [of "Suc i"]) auto
  qed
qed simp_all

lemma variant_docs_elem:
  assumes "kv \<in> set (variant_docs ord k vs os)" and "variant_typed ord k Ps os" and "length Ps = length vs"
  obtains i where "i < length vs" "(Ps ! i) (os ! i)" "kv = (fst (vs ! i), snd (vs ! i) (os ! i))"
  using assms
proof (induction ord k vs os arbitrary: Ps thesis rule: variant_docs.induct)
  case (1 ord k v vs ob os)
  then obtain P Ps' where [simp]: "Ps = P # Ps'" by (metis length_Suc_conv)
  from 1(3) consider "ord = k" "kv = (fst v, snd v ob)" | "kv \<in> set (variant_docs ord (k + 1) vs os)"
    by (auto split: if_splits)
  then show ?case
  proof cases
    case 1
    then show thesis using "1.prems"(3) by (intro "1.prems"(1) [of 0]) auto
  next
    case 2
    then obtain i where "i < length vs" "(Ps' ! i) (os ! i)" "kv = (fst (vs ! i), snd (vs ! i) (os ! i))"
      using "1.prems"(3,4) "1.IH" [of Ps'] by auto
    then show thesis by (intro "1.prems"(1) [of "Suc i"]) auto
  qed
qed simp_all

lemma subseq_distinct: "subseq xs ys \<Longrightarrow> distinct ys \<Longrightarrow> distinct xs"
  by (metis subseq_conv_nths distinct_nthsI)

lemma subseq_subset: "subseq xs ys \<Longrightarrow> set xs \<subseteq> set ys"
  by (metis subseq_conv_nths set_nths_subset)

lemma wf_doc_of:
  "jtyped t ob \<Longrightarrow> wf_jty t \<Longrightarrow> wf_doc (doc_of t ob) \<and> list_all (\<lambda>(k, d). wf_doc d) (doc_fields t ob)"
  "typed_member m ob \<Longrightarrow> wf_member m \<Longrightarrow> list_all (\<lambda>(k, d). wf_doc d) (doc_member m ob)"
proof (induction t and m arbitrary: ob and ob)
  case (JPrim p)
  then show ?case using wf_doc_of_val by (fastforce split: obj.splits)
next
  case (JEnum n names)
  then have "list_all utf8 (''enumNotSet'' # names)" by (simp add: enum_ok_def utf8_ascii)
  then have "utf8 (enum_toName names e)" if "unat e \<le> length names" for e
    using that nth_mem [of "unat e" "''enumNotSet'' # names"] unfolding enum_toName_def list_all_iff by auto
  with JEnum show ?case by (auto split: obj.splits pval.splits)
next
  case (JRec n ms)
  then obtain os where ob: "ob = ORec os" "all_typed (map typed_member ms) os" by (auto split: obj.splits)
  have "wf_doc d" if "(k, d) \<in> set (docs_of (map doc_member ms) os)" for k d
    using that ob(2)
  proof (rule docs_of_elem)
    fix i assume "i < length (map doc_member ms)" "(map typed_member ms ! i) (os ! i)" "(k, d) \<in> set ((map doc_member ms ! i) (os ! i))"
    then show "wf_doc d" using JRec.IH [of "ms ! i" "os ! i"] JRec.prems(2) by (auto simp: list_all_iff)
  qed simp
  moreover have "subseq (map fst (docs_of (map doc_member ms) os)) (names_of (JRec n ms))"
    using subseq_names(1) [of "JRec n ms" ob] by (simp only: ob doc_fields.simps obj.case)
  then have "distinct (map fst (docs_of (map doc_member ms) os))"
      "set (map fst (docs_of (map doc_member ms) os)) \<subseteq> set (names_of (JRec n ms))"
    using JRec.prems(2) by (simp_all only: wf_jty.simps subseq_distinct subseq_subset)
  ultimately show ?case
    using JRec.prems(2) by (fastforce simp: ob list_all_iff plain_def)
next
  case (MChoices vs)
  then obtain ord os where ob: "ob = OChoice ord os" "variant_typed ord 1 (map (\<lambda>(name, t). jtyped t) vs) os"
    by (auto split: obj.splits)
  have "wf_doc (snd kv)" if "kv \<in> set (variant_docs ord 1 (map (\<lambda>(name, t). (name, doc_of t)) vs) os)" for kv
    using that ob(2)
  proof (rule variant_docs_elem)
    fix i assume i: "i < length (map (\<lambda>(name, t). (name, doc_of t)) vs)" "(map (\<lambda>(name, t). jtyped t) vs ! i) (os ! i)"
      "kv = (fst (map (\<lambda>(name, t). (name, doc_of t)) vs ! i), snd (map (\<lambda>(name, t). (name, doc_of t)) vs ! i) (os ! i))"
    obtain name t where v: "vs ! i = (name, t)" by (cases "vs ! i")
    then have "(name, t) \<in> set vs" using i nth_mem by fastforce
    then show "wf_doc (snd kv)"
      using MChoices.IH [of "(name, t)" t "os ! i"] MChoices.prems i v by (auto simp: list_all_iff)
  qed simp
  then show ?case by (fastforce simp: ob list_all_iff)
qed (auto simp: list_all_iff split: obj.splits)

section \<open>Reading the document back\<close>

text \<open>What a part of a type sees of an object: its own names and nothing else.\<close>

definition sees :: "'j json_api \<Rightarrow> 'j \<Rightarrow> string \<Rightarrow> jdoc option \<Rightarrow> bool" where
  "sees J j k d = (case d of
     None \<Rightarrow> find_member J j k = None | Some d \<Rightarrow> \<exists>v. find_member J j k = Some v \<and> is_doc J d v)"

definition has_members :: "'j json_api \<Rightarrow> 'j \<Rightarrow> string list \<Rightarrow> (string \<times> jdoc) list \<Rightarrow> bool" where
  "has_members J j names kvs = (is_object J j \<and> (\<forall>k \<in> set names. sees J j k (map_of kvs k)))"

lemma is_doc_has_members:
  assumes "is_doc J (DObj kvs) j"
  shows "has_members J j names kvs"
  unfolding has_members_def
proof (intro conjI ballI)
  show "is_object J j" using assms by simp
  fix k
  show "sees J j k (map_of kvs k)"
  proof (cases "map_of kvs k")
    case None
    then have "k \<notin> fst ` set kvs" by (simp add: map_of_eq_None_iff)
    with assms None show ?thesis by (simp add: sees_def)
  next
    case (Some d)
    then have "(k, d) \<in> set kvs" by (rule map_of_SomeD)
    then obtain v where "find_member J j k = Some v" "is_doc J d v" by (rule is_doc_member [OF assms])
    with Some show ?thesis by (simp add: sees_def)
  qed
qed

lemma has_members_append:
  assumes "has_members J j (ns @ ms) (xs @ ys)" and "set (map fst xs) \<subseteq> set ns" and "set (map fst ys) \<subseteq> set ms"
    and "distinct (ns @ ms)"
  shows "has_members J j ns xs" "has_members J j ms ys"
proof -
  have "map_of (xs @ ys) k = map_of xs k" if "k \<in> set ns" for k
  proof -
    have "map_of ys k = None" using that assms(3,4) by (auto simp: map_of_eq_None_iff)
    then show ?thesis by (simp add: map_add_def split: option.split)
  qed
  moreover have "map_of (xs @ ys) k = map_of ys k" if "k \<in> set ms" for k
  proof -
    have "map_of xs k = None" using that assms(2,4) by (auto simp: map_of_eq_None_iff)
    then show ?thesis by (simp add: map_add_def split: option.split)
  qed
  ultimately show "has_members J j ns xs" "has_members J j ms ys"
    using assms(1) unfolding has_members_def by (metis UnI1 UnI2 set_append)+
qed

lemma has_member_present:
  "has_members J j [k] [(k, d)] \<Longrightarrow> \<exists>v. is_object J j \<and> find_member J j k = Some v \<and> is_doc J d v"
  by (simp add: has_members_def sees_def)

lemma enum_read_back:
  assumes "enum_ok names" and "unat e \<le> length names"
  shows "enum_fromName n names (enum_toName names e) = Inr e"
proof -
  have ix: "distinct ns \<Longrightarrow> i < length ns \<Longrightarrow> index_of (ns ! i) ns k = Some (i + k)" for ns i k
  proof (induction ns arbitrary: i k)
    case (Cons a ns)
    then show ?case by (cases i) auto
  qed simp
  have "enum_toName names e = (''enumNotSet'' # names) ! unat e" using assms(2) by (simp add: enum_toName_def)
  moreover have "index_of ((''enumNotSet'' # names) ! unat e) (''enumNotSet'' # names) 0 = Some (unat e + 0)"
    using assms by (intro ix) (auto simp: enum_ok_def)
  ultimately show ?thesis by (simp add: enum_fromName_def del: index_of.simps)
qed

lemma read_members_back:
  assumes "\<And>m ob old. m \<in> set ms \<Longrightarrow> typed_member m ob \<Longrightarrow> blank (member_ty m) old \<Longrightarrow>
      has_members J j (member_names m) (doc_member m ob) \<Longrightarrow> \<exists>w. jdeser_member J g m n j old = Inr w \<and> msg_of w = msg_of ob"
    and "all_typed (map typed_member ms) os" and "list_all2 blank (map member_ty ms) olds"
    and "distinct (concat (map member_names ms))"
    and "has_members J j (concat (map member_names ms)) (docs_of (map doc_member ms) os)"
  shows "\<exists>ws. read_members (map (\<lambda>m. jdeser_member J g m n j) ms) olds = Inr ws \<and> map msg_of ws = map msg_of os"
  using assms
proof (induction ms arbitrary: os olds)
  case Nil
  then show ?case by (cases os) simp_all
next
  case (Cons m ms)
  from Cons.prems(2) obtain ob os' where os: "os = ob # os'" "typed_member m ob" "all_typed (map typed_member ms) os'"
    by (cases os) auto
  from Cons.prems(3) obtain old olds' where olds: "olds = old # olds'" "blank (member_ty m) old"
    "list_all2 blank (map member_ty ms) olds'" by (auto simp: list_all2_Cons1)
  have "set (map fst (docs_of (map doc_member ms) os')) \<subseteq> set (concat (map member_names ms))"
    by (intro subseq_subset subseq_docs_of) (auto intro: subseq_names)
  moreover have "set (map fst (doc_member m ob)) \<subseteq> set (member_names m)" by (intro subseq_subset subseq_names)
  ultimately have hm: "has_members J j (member_names m) (doc_member m ob)"
      "has_members J j (concat (map member_names ms)) (docs_of (map doc_member ms) os')"
    using has_members_append [of J j "member_names m" "concat (map member_names ms)" "doc_member m ob"
        "docs_of (map doc_member ms) os'"] Cons.prems(4,5) by (simp_all add: os)
  obtain w where "jdeser_member J g m n j old = Inr w" "msg_of w = msg_of ob"
    using Cons.prems(1) [OF _ os(2) olds(2) hm(1)] by auto
  moreover obtain ws where "read_members (map (\<lambda>m. jdeser_member J g m n j) ms) olds' = Inr ws"
      "map msg_of ws = map msg_of os'"
    using Cons.IH [OF _ os(3) olds(3) _ hm(2)] Cons.prems(1,4) by auto
  ultimately show ?case by (simp add: os olds)
qed

lemma read_items_back:
  assumes "\<And>ob j. ob \<in> set os \<Longrightarrow> is_doc J (d ob) j \<Longrightarrow> \<exists>w. dec j = Inr w \<and> msg_of w = msg_of ob"
    and "list_all2 (is_doc J) (map d os) js" and "\<And>m. mx = Some m \<Longrightarrow> length vs + length os \<le> m"
  shows "\<exists>ws. read_items mx dec js vs = Inr (vs @ ws) \<and> map msg_of ws = map msg_of os"
  using assms
proof (induction os arbitrary: js vs)
  case Nil
  then show ?case by simp
next
  case (Cons ob os)
  from Cons.prems(2) obtain j js' where js: "js = j # js'" "is_doc J (d ob) j" "list_all2 (is_doc J) (map d os) js'"
    by (auto simp: list_all2_Cons1)
  obtain w where w: "dec j = Inr w" "msg_of w = msg_of ob" using Cons.prems(1) js(2) by auto
  have "\<exists>ws. read_items mx dec js' (vs @ [w]) = Inr ((vs @ [w]) @ ws) \<and> map msg_of ws = map msg_of os"
    using Cons.prems js by (intro Cons.IH) auto
  then obtain ws where "read_items mx dec js' (vs @ [w]) = Inr (vs @ w # ws)" "map msg_of ws = map msg_of os" by auto
  moreover have "\<not> (case mx of None \<Rightarrow> False | Some m \<Rightarrow> m \<le> length vs)"
    using Cons.prems(3) by (auto split: option.split)
  ultimately show ?case using w by (simp add: js)
qed

lemma variant_typed_length: "variant_typed ord k Ps os \<Longrightarrow> length os = length Ps"
  by (induction ord k Ps os rule: variant_typed.induct) simp_all

lemma variant_docs_past: "unat ord < unat k \<Longrightarrow> unat k + length vs < 2 ^ 32 \<Longrightarrow> variant_docs ord k vs os = []"
proof (induction ord k vs os rule: variant_docs.induct)
  case (1 ord k v vs ob os)
  then have "unat (k + 1) = unat k + 1" by (simp add: unat_word_ariths)
  with 1 show ?case by auto
qed simp_all

definition in_range :: "u32 \<Rightarrow> u32 \<Rightarrow> nat \<Rightarrow> bool" where
  "in_range ord k n = (unat k \<le> unat ord \<and> unat ord < unat k + n)"

lemma read_variants_back:
  assumes "\<And>name t ob old m. (name, t) \<in> set vs \<Longrightarrow> jtyped t ob \<Longrightarrow> blank (ty_of t) old \<Longrightarrow> is_doc J (doc_of t ob) m \<Longrightarrow>
      \<exists>w. jdeser J g t (dotted n name) m old = Inr w \<and> msg_of w = msg_of ob"
    and "variant_typed ord k (map (\<lambda>(name, t). jtyped t) vs) os"
    and "list_all2 blank (map (\<lambda>(name, t). ty_of t) vs) olds"
    and "distinct (map fst vs)" and "unat k + length vs < 2 ^ 32"
    and "has_members J j (map fst vs) (variant_docs ord k (map (\<lambda>(name, t). (name, doc_of t)) vs) os)"
  shows "\<exists>ws. read_variants (\<lambda>name. optional_member J j name n) k
        (map (\<lambda>(name, t). (name, jdeser J g t (dotted n name))) vs) olds old0 c =
      Inr (if in_range ord k (length vs) then ord else old0, if in_range ord k (length vs) then c + 1 else c, ws) \<and>
    length ws = length os \<and>
    (in_range ord k (length vs) \<longrightarrow> msg_of (ws ! (unat ord - unat k)) = msg_of (os ! (unat ord - unat k)))"
  using assms
proof (induction vs arbitrary: k os olds old0 c)
  case Nil
  then show ?case by (cases os) (auto simp: in_range_def)
next
  case (Cons v vs)
  obtain name t where v: "v = (name, t)" by (cases v)
  from Cons.prems(2) obtain ob os' where os: "os = ob # os'" "ord = k \<Longrightarrow> jtyped t ob"
      "variant_typed ord (k + 1) (map (\<lambda>(name, t). jtyped t) vs) os'"
    by (cases os) (auto simp: v)
  from Cons.prems(3) obtain old olds' where olds: "olds = old # olds'" "blank (ty_of t) old"
    "list_all2 blank (map (\<lambda>(name, t). ty_of t) vs) olds'" by (auto simp: list_all2_Cons1 v)
  let ?ds = "map (\<lambda>(name, t). (name, doc_of t)) vs"
  have k1: "unat (k + 1) = unat k + 1" using Cons.prems(5) by (simp add: unat_word_ariths)
  have obj: "is_object J j" using Cons.prems(6) by (simp add: has_members_def)
  have "map fst ?ds = map fst vs" by (induction vs) auto
  then have "set (map fst (variant_docs ord (k + 1) ?ds os')) \<subseteq> set (map fst vs)"
    by (metis subseq_subset subseq_variant_docs)
  moreover have "has_members J j ([name] @ map fst vs)
      ((if ord = k then [(name, doc_of t ob)] else []) @ variant_docs ord (k + 1) ?ds os')"
    using Cons.prems(6) by (cases "ord = k") (simp_all add: os v)
  moreover have "set (map fst (if ord = k then [(name, doc_of t ob)] else [])) \<subseteq> set [name]" by auto
  moreover have "distinct ([name] @ map fst vs)" using Cons.prems(4) by (simp add: v)
  ultimately have hm: "has_members J j [name] (if ord = k then [(name, doc_of t ob)] else [])"
      "has_members J j (map fst vs) (variant_docs ord (k + 1) ?ds os')"
    by (blast intro: has_members_append)+
  have IH: "\<exists>ws. read_variants (\<lambda>name. optional_member J j name n) (k + 1)
        (map (\<lambda>(name, t). (name, jdeser J g t (dotted n name))) vs) olds' old0 c =
      Inr (if in_range ord (k + 1) (length vs) then ord else old0, if in_range ord (k + 1) (length vs) then c + 1 else c, ws) \<and>
    length ws = length os' \<and>
    (in_range ord (k + 1) (length vs) \<longrightarrow> msg_of (ws ! (unat ord - unat (k + 1))) = msg_of (os' ! (unat ord - unat (k + 1))))"
    for old0 c
    using Cons.prems(1,4,5) os(3) olds(3) hm(2) by (intro Cons.IH) (auto simp: k1)
  show ?case
  proof (cases "ord = k")
    case True
    then obtain m where m: "find_member J j name = Some m" "is_doc J (doc_of t ob) m" using hm(1) has_member_present by fastforce
    obtain w where w: "jdeser J g t (dotted n name) m old = Inr w" "msg_of w = msg_of ob"
      using Cons.prems(1) [of name t ob old m] os(2) olds(2) m(2) True by (auto simp: v)
    have r: "in_range ord k (length (v # vs))" "\<not> in_range ord (k + 1) (length vs)" using True by (simp_all add: in_range_def k1)
    from IH [of k "c + 1"] obtain ws where "read_variants (\<lambda>name. optional_member J j name n) (k + 1)
        (map (\<lambda>(name, t). (name, jdeser J g t (dotted n name))) vs) olds' k (c + 1) = Inr (k, c + 1, ws)" "length ws = length os'"
      using r(2) by auto
    with r True w m obj show ?thesis
      by (simp add: os olds v optional_member_def require_object_def)
  next
    case False
    then have none: "find_member J j name = None" using hm(1) by (simp add: has_members_def sees_def)
    have "unat ord \<noteq> unat k" using False by (metis unsigned_word_eqI)
    then have r: "in_range ord k (length (v # vs)) = in_range ord (k + 1) (length vs)" by (auto simp: in_range_def k1)
    moreover have "unat ord - unat k = Suc (unat ord - unat (k + 1))" if "in_range ord (k + 1) (length vs)"
      using that by (auto simp: in_range_def k1)
    ultimately show ?thesis using IH [of old0 c] none obj
      by (auto simp: os olds v optional_member_def require_object_def)
  qed
qed

text \<open>Reading the document of an object into a blank one gives the object's message.\<close>

lemma jdeser_reads_fields:
  assumes "\<And>m ob old. m \<in> set ms \<Longrightarrow> typed_member m ob \<Longrightarrow> blank (member_ty m) old \<Longrightarrow>
      has_members J j (member_names m) (doc_member m ob) \<Longrightarrow> \<exists>w. jdeser_member J g m n j old = Inr w \<and> msg_of w = msg_of ob"
    and "jtyped (JRec n ms) ob" and "wf_jty (JRec n ms)" and "blank (ty_of (JRec n ms)) old"
    and "has_members J j (names_of (JRec n ms)) (doc_fields (JRec n ms) ob)"
  shows "\<exists>w. jdeser J g (JRec n ms) ctx j old = Inr w \<and> msg_of w = msg_of ob"
proof -
  obtain os where os: "ob = ORec os" "all_typed (map typed_member ms) os" using assms(2) by (auto split: obj.splits)
  obtain olds where olds: "old = ORec olds" "list_all2 blank (map member_ty ms) olds" using assms(4) by auto
  have "is_object J j" using assms(5) by (simp add: has_members_def)
  moreover obtain ws where "read_members (map (\<lambda>m. jdeser_member J g m n j) ms) olds = Inr ws" "map msg_of ws = map msg_of os"
    using read_members_back [OF assms(1) os(2) olds(2)] assms(3,5) by (auto simp: os)
  ultimately show ?thesis by (simp add: os olds require_object_def)
qed

lemma jdeser_reads:
  "jtyped t ob \<Longrightarrow> wf_jty t \<Longrightarrow> blank (ty_of t) old \<Longrightarrow>
     (is_doc J (doc_of t ob) j \<longrightarrow> (\<exists>w. jdeser J g t ctx j old = Inr w \<and> msg_of w = msg_of ob)) \<and>
     (\<forall>n ms. t = JRec n ms \<longrightarrow> has_members J j (names_of t) (doc_fields t ob) \<longrightarrow>
       (\<exists>w. jdeser J g t ctx j old = Inr w \<and> msg_of w = msg_of ob))"
  "typed_member m ob \<Longrightarrow> wf_member m \<Longrightarrow> distinct (member_names m) \<Longrightarrow> blank (member_ty m) old \<Longrightarrow>
     has_members J j (member_names m) (doc_member m ob) \<Longrightarrow>
     \<exists>w. jdeser_member J g m ctx j old = Inr w \<and> msg_of w = msg_of ob"
proof (induction t and m arbitrary: ob old ctx j and ob old ctx j)
  case (JPrim p)
  then obtain v where v: "ob = OPrim v" "prim_of v = p" "textual (\<lambda>_. []) (enum_fromName [] []) v"
    by (auto split: obj.splits)
  then have "\<And>j. is_doc J (doc_of_val (\<lambda>_. []) v) j \<Longrightarrow> parse_value J (enum_fromName [] []) p j ctx = Inr v"
    using parse_value_doc [OF v(3)] v(2) by auto
  then show ?case using JPrim.prems(3) by (auto simp: v(1))
next
  case (JEnum n names)
  then obtain e where e: "ob = OPrim (VEnum e)" "unat e \<le> length names" by (auto split: obj.splits pval.splits)
  then have "enum_fromName n names (enum_toName names e) = Inr e" using JEnum.prems(2) by (simp add: enum_read_back)
  then show ?case using JEnum.prems(3) by (auto simp: e(1) parse_enum_def)
next
  case (JRec n ms)
  have ms: "\<exists>w. jdeser_member J g m n j old = Inr w \<and> msg_of w = msg_of ob"
    if "m \<in> set ms" "typed_member m ob" "blank (member_ty m) old" "has_members J j (member_names m) (doc_member m ob)"
    for m ob old
  proof -
    have "wf_member m" "distinct (member_names m)"
      using that(1) JRec.prems(2) by (auto simp: list_all_iff distinct_concat_iff)
    then show ?thesis using JRec.IH [OF that(1,2)] that(3,4) by blast
  qed
  have fields: "\<exists>w. jdeser J g (JRec n ms) ctx j old = Inr w \<and> msg_of w = msg_of ob"
    if "has_members J j (names_of (JRec n ms)) (doc_fields (JRec n ms) ob)"
    by (rule jdeser_reads_fields [OF ms JRec.prems(1,2,3) that])
  have "doc_of (JRec n ms) ob = DObj (doc_fields (JRec n ms) ob)" by (simp split: obj.split)
  then have "has_members J j (names_of (JRec n ms)) (doc_fields (JRec n ms) ob)" if "is_doc J (doc_of (JRec n ms) ob) j"
    using that by (simp only: is_doc_has_members)
  with fields show ?case by (simp del: jdeser.simps is_doc.simps doc_of.simps names_of.simps doc_fields.simps msg_of.simps)
next
  case (MBase t)
  then obtain n ms where t: "t = JRec n ms" by (auto split: jty.splits)
  have "jtyped t ob" "wf_jty t" "blank (ty_of t) old" "has_members J j (names_of t) (doc_fields t ob)"
    using MBase.prems by (simp_all add: t)
  then show ?case using MBase.IH [of ob old j ctx] t by simp
next
  case (MChoices vs)
  then obtain ord os where ob: "ob = OChoice ord os" "unat ord \<le> length vs"
    "variant_typed ord 1 (map (\<lambda>(name, t). jtyped t) vs) os" by (auto split: obj.splits)
  obtain olds where olds: "old = OChoice 0 olds" "list_all2 blank (map (\<lambda>(name, t). ty_of t) vs) olds"
    using MChoices.prems(4) by auto
  have "\<exists>w. jdeser J g t (dotted ctx name) m old = Inr w \<and> msg_of w = msg_of ob"
    if "(name, t) \<in> set vs" "jtyped t ob" "blank (ty_of t) old" "is_doc J (doc_of t ob) m" for name t ob old m
    using MChoices.IH [of "(name, t)" t] that MChoices.prems(2) by (auto simp: list_all_iff)
  then obtain ws where ws: "read_variants (\<lambda>name. optional_member J j name ctx) 1
        (map (\<lambda>(name, t). (name, jdeser J g t (dotted ctx name))) vs) olds 0 0 =
      Inr (if in_range ord 1 (length vs) then ord else 0, if in_range ord 1 (length vs) then 0 + 1 else 0, ws)"
    "length ws = length os" "in_range ord 1 (length vs) \<longrightarrow> msg_of (ws ! (unat ord - unat (1::u32))) = msg_of (os ! (unat ord - unat (1::u32)))"
    using read_variants_back [of vs J g ctx ord 1 os olds j 0 0] ob(3) olds(2) MChoices.prems by (auto simp: ob(1))
  have "in_range ord 1 (length vs) \<or> ord = 0" using ob(2) by (auto simp: in_range_def Suc_le_eq unat_gt_0)
  then have "msg_of (OChoice (if in_range ord 1 (length vs) then ord else 0) ws) = msg_of ob"
    using ws(2,3) by (auto simp: ob(1) msg_of_choice chosen_def in_range_def simp del: msg_of.simps)
  then show ?case by (simp add: olds(1) ws(1) choice_result_def del: msg_of.simps)
next
  case (MField name t)
  then obtain v where "is_object J j" "find_member J j name = Some v" "is_doc J (doc_of t ob) v"
    using has_member_present by fastforce
  then show ?case using MField by (simp add: require_member_def require_object_def)
next
  case (MOptional name t)
  then obtain has v u where ob: "ob = OOpt has v" "has \<longrightarrow> jtyped t v" "old = OOpt False u" "blank (ty_of t) u"
    by (auto split: obj.splits)
  have obj: "is_object J j" using MOptional.prems(5) by (simp add: has_members_def)
  show ?case
  proof (cases "has")
    case True
    then obtain x where x: "find_member J j name = Some x" "is_doc J (doc_of t v) x"
      using MOptional.prems(5) has_member_present by (fastforce simp: ob)
    obtain w where "jdeser J g t (dotted ctx name) x u = Inr w" "msg_of w = msg_of v"
      using MOptional.IH [of v u x "dotted ctx name"] MOptional.prems(2) ob x True by auto
    with True x obj show ?thesis by (simp add: ob optional_member_def require_object_def)
  next
    case False
    then have "find_member J j name = None" using MOptional.prems(5) by (simp add: ob has_members_def sees_def)
    with False obj show ?thesis by (simp add: ob optional_member_def require_object_def)
  qed
next
  case (MMany name mx t)
  then obtain os where ob: "ob = OList os" "list_all (jtyped t) os" "case mx of None \<Rightarrow> True | Some m \<Rightarrow> length os \<le> m"
    by (auto split: obj.splits)
  from MMany.prems(5) obtain v where v: "is_object J j" "find_member J j name = Some v"
      "is_array J v" "list_all2 (is_doc J) (map (doc_of t) os) (items J v)"
    using has_member_present by (fastforce simp: ob)
  have "\<exists>ws. read_items mx (\<lambda>i. jdeser J g t (dotted ctx name) i (fresh g (ty_of t))) (items J v) [] = Inr ([] @ ws) \<and>
      map msg_of ws = map msg_of os"
  proof (rule read_items_back [OF _ v(4)])
    fix x i assume "x \<in> set os" "is_doc J (doc_of t x) i"
    then show "\<exists>w. jdeser J g t (dotted ctx name) i (fresh g (ty_of t)) = Inr w \<and> msg_of w = msg_of x"
      using MMany.IH [of x "fresh g (ty_of t)"] MMany.prems(2) ob(2) by (auto simp: list_all_iff blank_fresh)
  qed (use ob(3) in simp)
  then show ?case using v MMany.prems(4) by (auto simp: ob(1) require_member_def require_object_def require_array_def)
qed


definition sample_jty :: jty where
  "sample_jty = JRec ''TrackMDT''
     [MBase (JRec ''BaseMDT'' [MField ''Id'' (JPrim PUuid)]), MOptional ''Name'' (JPrim PString),
      MMany ''Codes'' (Some 3) (JPrim PInt16), MField ''Kind'' (JEnum ''KindEnum'' [''AIR'', ''LAND'']),
      MChoices [(''Flag'', JPrim PBool), (''Blob'', JPrim PBytes)]]"

definition sample_jobj :: obj where
  "sample_jobj = ORec
     [ORec [OPrim (VUuid (UUID zero_octets))], OOpt True (OPrim (VString ''a b'')),
      OList [OPrim (VInt16 1), OPrim (VInt16 (- 2))], OPrim (VEnum 2),
      OChoice 2 [OPrim (VBool False), OPrim (VBytes [0xAB])]]"

lemma sample_jty_wf: "wf_jty sample_jty"
  by (simp add: sample_jty_def enum_ok_def plain_def utf8_ascii emit_char_def quote_def backslash_def)

lemma sample_jobj_typed: "jtyped sample_jty sample_jobj"
  by (simp add: sample_jty_def sample_jobj_def utf8_ascii zero_octets_def wf_uuid_def)


section \<open>The text depends on the message only\<close>

text \<open>
  Two objects of the type with the same message, whatever else their storage holds: when one can be
  written as text so can the other, and the documents are the same.
\<close>

lemma same_members:
  assumes "\<And>m x y. m \<in> set ms \<Longrightarrow> shaped (member_ty m) y \<Longrightarrow> msg_of y = msg_of x \<Longrightarrow> typed_member m x \<Longrightarrow>
      typed_member m y \<and> doc_member m y = doc_member m x"
    and "list_all2 shaped (map member_ty ms) ys" and "map msg_of ys = map msg_of xs" and "all_typed (map typed_member ms) xs"
  shows "all_typed (map typed_member ms) ys \<and> docs_of (map doc_member ms) ys = docs_of (map doc_member ms) xs"
  using assms
proof (induction ms arbitrary: xs ys)
  case Nil
  then show ?case by (cases xs) simp_all
next
  case (Cons m ms)
  then obtain x xs' y ys' where [simp]: "xs = x # xs'" "ys = y # ys'" by (cases xs; cases ys) auto
  from Cons have "typed_member m y \<and> doc_member m y = doc_member m x" by simp
  moreover have "all_typed (map typed_member ms) ys' \<and> docs_of (map doc_member ms) ys' = docs_of (map doc_member ms) xs'"
    using Cons by (intro Cons.IH) simp_all
  ultimately show ?case by simp
qed

lemma same_variants:
  assumes "\<And>name t x y. (name, t) \<in> set vs \<Longrightarrow> shaped (ty_of t) y \<Longrightarrow> msg_of y = msg_of x \<Longrightarrow> jtyped t x \<Longrightarrow>
      jtyped t y \<and> doc_of t y = doc_of t x"
    and "list_all2 shaped (map (\<lambda>(name, t). ty_of t) vs) ys" and "length xs = length ys"
    and "in_range ord k (length vs) \<Longrightarrow> msg_of (ys ! (unat ord - unat k)) = msg_of (xs ! (unat ord - unat k))"
    and "variant_typed ord k (map (\<lambda>(name, t). jtyped t) vs) xs" and "unat k + length vs < 2 ^ 32"
  shows "variant_typed ord k (map (\<lambda>(name, t). jtyped t) vs) ys \<and>
    variant_docs ord k (map (\<lambda>(name, t). (name, doc_of t)) vs) ys = variant_docs ord k (map (\<lambda>(name, t). (name, doc_of t)) vs) xs"
  using assms
proof (induction vs arbitrary: xs ys k)
  case Nil
  then show ?case by (cases xs) simp_all
next
  case (Cons v vs)
  obtain name t where v: "v = (name, t)" by (cases v)
  from Cons.prems(2,3) obtain x xs' y ys' where [simp]: "xs = x # xs'" "ys = y # ys'" by (cases xs; cases ys) auto
  have k1: "unat (k + 1) = unat k + 1" using Cons.prems(6) by (simp add: unat_word_ariths)
  have "msg_of (ys' ! (unat ord - unat (k + 1))) = msg_of (xs' ! (unat ord - unat (k + 1)))" if r: "in_range ord (k + 1) (length vs)"
  proof -
    have "in_range ord k (length (v # vs))" "unat ord - unat k = Suc (unat ord - unat (k + 1))"
      using r by (auto simp: in_range_def k1)
    then show ?thesis using Cons.prems(4) by simp
  qed
  then have "variant_typed ord (k + 1) (map (\<lambda>(name, t). jtyped t) vs) ys' \<and>
      variant_docs ord (k + 1) (map (\<lambda>(name, t). (name, doc_of t)) vs) ys' =
      variant_docs ord (k + 1) (map (\<lambda>(name, t). (name, doc_of t)) vs) xs'"
    using Cons.prems by (intro Cons.IH) (auto simp: v k1)
  moreover have "jtyped t y \<and> doc_of t y = doc_of t x" if "ord = k"
    using Cons.prems(1) [of name t y x] Cons.prems(2,4,5) that by (simp add: v in_range_def)
  ultimately show ?case by (auto simp: v)
qed

lemma same_message_same_doc:
  "shaped (ty_of t) y \<Longrightarrow> msg_of y = msg_of x \<Longrightarrow> jtyped t x \<Longrightarrow> wf_jty t \<Longrightarrow>
     jtyped t y \<and> doc_of t y = doc_of t x \<and> doc_fields t y = doc_fields t x"
  "shaped (member_ty m) y \<Longrightarrow> msg_of y = msg_of x \<Longrightarrow> typed_member m x \<Longrightarrow> wf_member m \<Longrightarrow>
     typed_member m y \<and> doc_member m y = doc_member m x"
proof (induction t and m arbitrary: x y and x y)
  case (JPrim p)
  then show ?case by (auto split: obj.splits)
next
  case (JEnum n names)
  then show ?case by (auto split: obj.splits)
next
  case (JRec n ms)
  then obtain xs ys where xs: "x = ORec xs" "y = ORec ys" "map msg_of ys = map msg_of xs"
      "list_all2 shaped (map member_ty ms) ys" "all_typed (map typed_member ms) xs" by (auto split: obj.splits)
  have "all_typed (map typed_member ms) ys \<and> docs_of (map doc_member ms) ys = docs_of (map doc_member ms) xs"
    using JRec.IH JRec.prems(4) xs by (intro same_members) (auto simp: list_all_iff)
  then show ?case by (simp add: xs)
next
  case (MBase t)
  then show ?case by simp
next
  case (MChoices vs)
  then obtain ord xs where x: "x = OChoice ord xs" "unat ord \<le> length vs"
      "variant_typed ord 1 (map (\<lambda>(name, t). jtyped t) vs) xs" by (auto split: obj.splits)
  from MChoices.prems(1,2) obtain ys where y: "y = OChoice ord ys" "list_all2 shaped (map (\<lambda>(name, t). ty_of t) vs) ys"
    by (auto simp: x(1) word_unat_eq_iff)
  have len: "length ys = length vs" "length xs = length vs"
    using y(2) x(3) by (auto dest: list_all2_lengthD variant_typed_length)
  have "msg_of (ys ! (unat ord - unat (1 :: u32))) = msg_of (xs ! (unat ord - unat (1 :: u32)))" if "in_range ord 1 (length vs)"
    using MChoices.prems(2) that len
    by (simp add: x(1) y(1) msg_of_choice chosen_def in_range_def del: msg_of.simps split: if_splits)
  moreover have "jtyped t y \<and> doc_of t y = doc_of t x"
    if "(name, t) \<in> set vs" "shaped (ty_of t) y" "msg_of y = msg_of x" "jtyped t x" for name t x y
    using MChoices.IH [of "(name, t)" t y x] that MChoices.prems(4) by (auto simp: list_all_iff)
  ultimately have "variant_typed ord 1 (map (\<lambda>(name, t). jtyped t) vs) ys \<and>
      variant_docs ord 1 (map (\<lambda>(name, t). (name, doc_of t)) vs) ys = variant_docs ord 1 (map (\<lambda>(name, t). (name, doc_of t)) vs) xs"
    using x y len MChoices.prems(4) by (intro same_variants) auto
  then show ?case using x(2) by (simp add: x(1) y(1))
next
  case (MField name t)
  then show ?case by simp
next
  case (MOptional name t)
  then show ?case by (auto split: obj.splits if_splits)
next
  case (MMany name mx t)
  then obtain xs ys where xs: "x = OList xs" "y = OList ys" "map msg_of ys = map msg_of xs" "list_all (shaped (ty_of t)) ys"
      "list_all (jtyped t) xs" "case mx of None \<Rightarrow> True | Some m \<Rightarrow> length xs \<le> m" by (auto split: obj.splits)
  have "list_all2 (\<lambda>x y. jtyped t y \<and> doc_of t y = doc_of t x) xs ys"
  proof (rule list_all2_all_nthI)
    show len: "length xs = length ys" using xs(3) by (metis length_map)
    fix i assume i: "i < length xs"
    then have "msg_of (ys ! i) = msg_of (xs ! i)" using xs(3) len by (metis nth_map)
    with i len show "jtyped t (ys ! i) \<and> doc_of t (ys ! i) = doc_of t (xs ! i)"
      using MMany.IH xs(4,5) MMany.prems(4) by (simp add: list_all_length)
  qed
  then have "list_all (jtyped t) ys" "map (doc_of t) ys = map (doc_of t) xs" and len: "length ys = length xs"
    by (auto simp: list_all_length list_all2_conv_all_nth intro: nth_equalityI)
  then show ?case using xs(6) by (simp add: xs(1,2) len cong: option.case_cong)
qed

end
