(* ===== verification/Json_Externalizer.thy ===== *)
theory Json_Externalizer
  imports Json_Messages Cdr_Dispatch
begin

text \<open>
  The JSON externalizer (\<open>externalizer/json/JsonExternalizer.cpp\<close>), the handlers the template emits for
  a type and their registration when the library is loaded (\<open>externalizer/json/ExternalizerLoader.cpp\<close>).
  The JSON library and what \<open>snprintf\<close> prints for a float are parameters.
\<close>

section \<open>The handlers of a type\<close>

text \<open>\<open>JsonHandlers\<close>: what a function writes through its reference argument is its result.\<close>

record 'j json_handlers =
  serialize_json :: "accessor \<Rightarrow> string \<Rightarrow> string res"
  serialize_json_fields :: "accessor \<Rightarrow> string \<Rightarrow> bool \<Rightarrow> (string \<times> bool) res"
  deserialize_json :: "'j \<Rightarrow> accessor \<Rightarrow> accessor res"

definition json_gen_handlers ::
    "fmt \<Rightarrow> 'j json_api \<Rightarrow> (prim \<Rightarrow> pval) \<Rightarrow> string \<times> jty \<Rightarrow> string \<times> 'j json_handlers" where
  "json_gen_handlers f J g e = (fst e,
     \<lparr>serialize_json = (\<lambda>a out. if typeName a = fst e then Inr (jser f (snd e) (body a) out) else Inl BadCast),
      serialize_json_fields = (\<lambda>a out first.
        if typeName a = fst e then Inr (jser_fields f (snd e) (body a) out first) else Inl BadCast),
      deserialize_json = (\<lambda>j a. if typeName a = fst e
        then map_res (\<lambda>w. a\<lparr>body := w\<rparr>) (jdeser J g (snd e) (fst e) j (body a)) else Inl BadCast)\<rparr>)"

text \<open>\<open>JsonAutoRegister\<close>.\<close>

definition json_auto_register ::
    "fmt \<Rightarrow> 'j json_api \<Rightarrow> (prim \<Rightarrow> pval) \<Rightarrow> (string \<times> jty) list \<Rightarrow> 'j json_handlers json_registry res" where
  "json_auto_register f J g schema = register_all_json_handlers (map (json_gen_handlers f J g) schema) (\<lambda>_. None)"

text \<open>\<open>reset()\<close> of the accessor: \<open>*this = Impl{}\<close>.\<close>

fun reset_obj :: "(prim \<Rightarrow> pval) \<Rightarrow> obj \<Rightarrow> obj" where
  "reset_obj g (OPrim v) = OPrim (fresh_prim g (prim_of v))"
| "reset_obj g (ORec os) = ORec (map (reset_obj g) os)"
| "reset_obj g (OOpt has v) = OOpt False (reset_obj g v)"
| "reset_obj g (OList os) = OList []"
| "reset_obj g (OChoice ord os) = OChoice 0 (map (reset_obj g) os)"

definition reset :: "(prim \<Rightarrow> pval) \<Rightarrow> accessor \<Rightarrow> accessor" where
  "reset g a = a\<lparr>body := reset_obj g (body a)\<rparr>"

section \<open>The externalizer\<close>

definition json_write :: "'j json_handlers json_registry \<Rightarrow> accessor \<Rightarrow> string \<Rightarrow> string res" where
  "json_write r a str = (case rbind (json_lookup r (typeName a)) (\<lambda>h. serialize_json h a str) of
     Inr str \<Rightarrow> Inr str
   | Inl e \<Rightarrow>
       if is_uci_exception e then Inl e
       else if is_runtime_error e then Inl (UCIException (''JsonExternalizer::write: '' @ what e))
       else Inl e)"

definition json_write_stream :: "'j json_handlers json_registry \<Rightarrow> accessor \<Rightarrow> string \<Rightarrow> string res" where
  "json_write_stream r a ostream = rbind (json_write r a []) (\<lambda>str. Inr (ostream @ str))"

definition json_write_vector :: "accessor \<Rightarrow> bytes \<Rightarrow> bytes res" where
  "json_write_vector a vec = Inl (UCIException ''JsonExternalizer: binary write not supported; use write(type, string)'')"

definition json_read ::
    "'j json_api \<Rightarrow> (prim \<Rightarrow> pval) \<Rightarrow> 'j json_handlers json_registry \<Rightarrow> string \<Rightarrow> accessor \<Rightarrow> accessor res" where
  "json_read J g r str a =
     (case rbind (parse J str) (\<lambda>doc.
        let a = reset g a in rbind (json_lookup r (typeName a)) (\<lambda>h. deserialize_json h doc a)) of
     Inr a \<Rightarrow> Inr a
   | Inl e \<Rightarrow>
       if is_uci_exception e then Inl e
       else if is_json_exception e then Inl (UCIException (''JsonExternalizer::read: '' @ what e))
       else if is_runtime_error e then Inl (UCIException (''JsonExternalizer::read: '' @ what e))
       else Inl e)"

definition json_read_stream ::
    "'j json_api \<Rightarrow> (prim \<Rightarrow> pval) \<Rightarrow> 'j json_handlers json_registry \<Rightarrow> string \<Rightarrow> accessor \<Rightarrow> accessor res" where
  "json_read_stream J g r istream a = json_read J g r istream a"

definition json_read_vector ::
    "'j json_api \<Rightarrow> (prim \<Rightarrow> pval) \<Rightarrow> 'j json_handlers json_registry \<Rightarrow> bytes \<Rightarrow> accessor \<Rightarrow> accessor res" where
  "json_read_vector J g r vec a = json_read J g r (map char_of_byte vec) a"

text \<open>The getters of the two externalizers.\<close>

record externalizer_info =
  messageReadOnly :: bool
  messageWriteOnly :: bool
  supportsObjectRead :: bool
  supportsObjectWrite :: bool
  getCalApiVersion :: string
  getEncoding :: string
  getSchemaVersion :: string
  getVendorVersion :: string
  getVendor :: string

definition json_info :: externalizer_info where
  "json_info = \<lparr>messageReadOnly = False, messageWriteOnly = False, supportsObjectRead = True,
     supportsObjectWrite = True, getCalApiVersion = ''2.5.0'', getEncoding = ''JSON'',
     getSchemaVersion = ''2.5.0'', getVendorVersion = ''0.1.0'', getVendor = ''arcal''\<rparr>"

section \<open>What a reset leaves\<close>

lemma blank_reset: "shaped t x \<Longrightarrow> blank t (reset_obj g x)"
proof (induction t arbitrary: x)
  case (TRec ts)
  then show ?case by (fastforce simp: list.rel_map elim!: list.rel_mono_strong)
next
  case (TChoice ts)
  then show ?case by (fastforce simp: list.rel_map elim!: list.rel_mono_strong)
qed auto

lemma shaped_reset: "(\<And>p. prim_of (g p) = p) \<Longrightarrow> shaped t x \<Longrightarrow> shaped t (reset_obj g x)"
proof (induction t arbitrary: x)
  case (TPrim p)
  then show ?case by (cases p) auto
next
  case (TRec ts)
  then show ?case by (fastforce simp: list.rel_map elim!: list.rel_mono_strong)
next
  case (TChoice ts)
  then show ?case by (fastforce simp: list.rel_map elim!: list.rel_mono_strong)
qed auto

section \<open>A loaded externalizer\<close>

lemma json_loaded_lookup:
  assumes "json_auto_register f J g schema = Inr r" and "distinct (map fst schema)" and "(name, t) \<in> set schema"
  shows "json_lookup r name = Inr (snd (json_gen_handlers f J g (name, t)))"
proof -
  have "map fst (map (json_gen_handlers f J g) schema) = map fst schema" by (simp add: json_gen_handlers_def)
  moreover have "(name, snd (json_gen_handlers f J g (name, t))) \<in> set (map (json_gen_handlers f J g) schema)"
    using assms(3) by (force simp: json_gen_handlers_def)
  ultimately show ?thesis
    using json_registration [of "map (json_gen_handlers f J g) schema" name] assms(1,2)
    by (fastforce simp only: json_auto_register_def sum.inject)
qed

lemma json_auto_register_total: "distinct (map fst schema) \<Longrightarrow> \<exists>r. json_auto_register f J g schema = Inr r"
  using json.register_all_distinct [OF TrueI, of "map (json_gen_handlers f J g) schema" "\<lambda>_. None"]
  by (simp add: json_auto_register_def register_all_json_handlers_def json_gen_handlers_def comp_def)

lemma json_write_loaded:
  assumes "json_auto_register f J g schema = Inr r" and "distinct (map fst schema)" and "(name, t) \<in> set schema"
  shows "json_write r \<lparr>typeName = name, body = v\<rparr> str = Inr (jser f t v str)"
  using json_loaded_lookup [OF assms] by (simp add: json_write_def json_gen_handlers_def)

lemma json_read_loaded:
  assumes "json_auto_register f J g schema = Inr r" and "distinct (map fst schema)" and "(name, t) \<in> set schema"
    and "parse J str = Inr j"
  shows "json_read J g r str \<lparr>typeName = name, body = x\<rparr> =
    (case jdeser J g t name j (reset_obj g x) of
       Inl e \<Rightarrow> if is_uci_exception e then Inl e
         else if is_json_exception e \<or> is_runtime_error e then Inl (UCIException (''JsonExternalizer::read: '' @ what e)) else Inl e
     | Inr w \<Rightarrow> Inr \<lparr>typeName = name, body = w\<rparr>)"
  using json_loaded_lookup [OF assms(1-3)] assms(4)
  by (simp add: json_read_def json_gen_handlers_def reset_def split: sum.splits)

lemma json_reads_text:
  assumes r: "json_auto_register f J g schema = Inr r" "distinct (map fst schema)" "(name, t) \<in> set schema"
    and J: "reads_documents J" and v: "jtyped t v" "wf_jty t" and x: "shaped (ty_of t) x"
  shows "\<exists>w. json_read J g r (print_doc (doc_of t v)) \<lparr>typeName = name, body = x\<rparr> = Inr \<lparr>typeName = name, body = w\<rparr> \<and>
    msg_of w = msg_of v"
proof -
  obtain j where "parse J (print_doc (doc_of t v)) = Inr j" "is_doc J (doc_of t v) j"
    using J wf_doc_of(1) [OF v] by (auto simp: reads_documents_def)
  moreover obtain w where "jdeser J g t name j (reset_obj g x) = Inr w" "msg_of w = msg_of v"
    using jdeser_reads(1) [OF v blank_reset [OF x], where J = J and g = g and ctx = name] calculation(2) by blast
  ultimately show ?thesis by (simp add: json_read_loaded [OF r])
qed


lemma sample_jobj_shaped: "shaped (ty_of sample_jty) sample_jobj"
  by (auto simp: sample_jty_def sample_jobj_def)


section \<open>Reading any text\<close>

lemma parse_value_prim: "parse_value J fromName p j ctx = Inr v \<Longrightarrow> prim_of v = p"
  by (cases p) (auto simp: map_res_def rbind_eq_Inr_iff)

lemma outcome_read_members:
  "list_all2 (\<lambda>m t. \<forall>x. shaped t x \<longrightarrow> outcome E (shaped t) (m x)) ms ts \<Longrightarrow> list_all2 shaped ts xs \<Longrightarrow>
     outcome E (list_all2 shaped ts) (read_members ms xs)"
proof (induction ms ts arbitrary: xs rule: list_all2_induct)
  case (Cons m ms t ts)
  then show ?case
    by (auto simp: list_all2_Cons1 intro!: outcome_rbind [where S = "shaped t"] outcome_map elim!: outcome_weaken)
qed simp

lemma outcome_read_items:
  assumes "\<And>j. outcome E (shaped t) (dec j)" and E: "\<And>m. E (UCIException m)"
  shows "list_all (shaped t) vs \<Longrightarrow> (\<And>m. mx = Some m \<Longrightarrow> length vs \<le> m) \<Longrightarrow>
    outcome E (\<lambda>vs. shaped (TList mx t) (OList vs)) (read_items mx dec js vs)"
proof (induction js arbitrary: vs)
  case (Cons j js)
  have "outcome E (\<lambda>vs. shaped (TList mx t) (OList vs))
      (if (case mx of None \<Rightarrow> False | Some m \<Rightarrow> m \<le> length vs)
       then Inl (UCIException (''BoundedList::push_back exceeds maxOccurs='' @ dec_of_nat (the mx)))
       else read_items mx dec js (vs @ [v]))" if "shaped t v" for v
  proof (cases "case mx of None \<Rightarrow> False | Some m \<Rightarrow> m \<le> length vs")
    case True
    then show ?thesis by (simp add: E)
  next
    case False
    have "outcome E (\<lambda>vs. shaped (TList mx t) (OList vs)) (read_items mx dec js (vs @ [v]))"
      using Cons.prems False that by (intro Cons.IH) auto
    with False show ?thesis by simp
  qed
  then show ?case unfolding read_items.simps by (intro outcome_rbind [OF assms(1)])
qed auto

lemma outcome_read_variants:
  assumes E: "\<And>name. outcome E (\<lambda>_. True) (member name)"
  shows "list_all2 (\<lambda>(name, d) t. \<forall>j x. shaped t x \<longrightarrow> outcome E (shaped t) (d j x)) vs ts \<Longrightarrow> list_all2 shaped ts xs \<Longrightarrow>
     outcome E (\<lambda>(ord, matched, ws). list_all2 shaped ts ws) (read_variants member k vs xs ord matched)"
proof (induction vs ts arbitrary: xs k ord matched rule: list_all2_induct)
  case (Cons v vs t ts)
  from Cons.prems obtain x xs' where xs: "xs = x # xs'" "shaped t x" "list_all2 shaped ts xs'"
    by (auto simp: list_all2_Cons1)
  have IH: "outcome E (\<lambda>r. list_all2 shaped ts (snd (snd r))) (read_variants member k vs xs' ord matched)" for k ord matched
    using Cons.IH [OF xs(3)] by (simp add: case_prod_unfold)
  have d: "outcome E (shaped t) (snd v m x)" for m using Cons.hyps(1) xs(2) by (cases v) auto
  show ?case unfolding xs(1) read_variants.simps
  proof (rule outcome_rbind [OF E])
    fix found
    show "outcome E (\<lambda>(ord, matched, ws). list_all2 shaped (t # ts) ws) (case found of
       Some m \<Rightarrow> rbind (snd v m x) (\<lambda>w.
         map_res (\<lambda>(ord, matched, ws). (ord, matched, w # ws)) (read_variants member (k + 1) vs xs' k (matched + 1)))
     | None \<Rightarrow> map_res (\<lambda>(ord, matched, ws). (ord, matched, x # ws)) (read_variants member (k + 1) vs xs' ord matched))"
      using xs(2) IH by (cases found) (auto simp: case_prod_unfold intro!: outcome_rbind [OF d] outcome_map elim!: outcome_weaken)
  qed
qed simp

lemma outcome_member:
  assumes E: "\<And>m. E (UCIException m)"
  shows "outcome E (\<lambda>_. True) (require_object J j ctx)" "outcome E (\<lambda>_. True) (require_member J j name ctx)"
    "outcome E (\<lambda>_. True) (optional_member J j name ctx)" "outcome E (\<lambda>_. True) (require_array J j ctx)"
  by (simp_all add: require_object_def require_member_def optional_member_def require_array_def read_error_def E split: option.split)

lemma outcome_prim:
  assumes J: "typed_access J" and E: "\<And>m. E (UCIException m)" and p: "p = PUuid \<Longrightarrow> E (InvalidArgument ''stoul'')"
  shows "outcome E (\<lambda>v. prim_of v = p) (parse_value J fromName p j ctx)"
proof (cases "parse_value J fromName p j ctx")
  case (Inl e)
  then have "is_uci_exception e \<or> p = PUuid \<and> e = InvalidArgument ''stoul''" by (rule parse_value_raises [OF J])
  with E p show ?thesis unfolding Inl outcome_simps by (cases e) auto
next
  case (Inr v)
  with parse_value_prim show ?thesis by auto
qed

lemma jdeser_outcome:
  assumes J: "typed_access J" and g: "\<And>p. prim_of (g p) = p" and E: "\<And>m. E (UCIException m)"
  shows "PUuid \<in> prims (ty_of t) \<longrightarrow> E (InvalidArgument ''stoul'') \<Longrightarrow> shaped (ty_of t) x \<Longrightarrow>
      outcome E (shaped (ty_of t)) (jdeser J g t ctx j x)"
    and "PUuid \<in> prims (member_ty m) \<longrightarrow> E (InvalidArgument ''stoul'') \<Longrightarrow> shaped (member_ty m) x \<Longrightarrow>
      outcome E (shaped (member_ty m)) (jdeser_member J g m ctx j x)"
proof (induction t and m arbitrary: x ctx j and x ctx j)
  case (JPrim p)
  then show ?case by (auto intro!: outcome_map outcome_prim [OF J] E)
next
  case (JEnum n names)
  then show ?case using outcome_prim [of J E PEnum "enum_fromName n names" j n, OF J E]
    by (auto simp: outcome_map_iff)
next
  case (JRec n ms)
  have "list_all2 (\<lambda>m t. \<forall>x. shaped t x \<longrightarrow> outcome E (shaped t) (m x)) (map (\<lambda>m. jdeser_member J g m n j) ms) (map member_ty ms)"
    using JRec by (auto simp: list.rel_map intro!: list.rel_refl_strong)
  then show ?case using JRec.prems(2)
    by (auto intro!: outcome_rbind [OF outcome_member(1) [of E, OF E]] outcome_map outcome_read_members)
next
  case (MBase t)
  then show ?case by simp
next
  case (MChoices vs)
  have "list_all2 (\<lambda>(name, d) t. \<forall>j x. shaped t x \<longrightarrow> outcome E (shaped t) (d j x))
      (map (\<lambda>(name, t). (name, jdeser J g t (dotted ctx name))) vs) (map (\<lambda>(name, t). ty_of t) vs)"
    using MChoices by (fastforce simp: list.rel_map intro!: list.rel_refl_strong)
  with MChoices.prems(2) show ?case
    by (auto simp: choice_result_def E read_error_def
        intro!: outcome_rbind [OF outcome_read_variants [OF outcome_member(3) [of E, OF E]]])
next
  case (MField name t)
  then show ?case by (auto intro!: outcome_rbind [OF outcome_member(2) [of E, OF E]])
next
  case (MOptional name t)
  then show ?case
    by (auto simp: ex_bool_eq intro!: outcome_rbind [OF outcome_member(3) [of E, OF E]] outcome_map elim!: outcome_weaken
        split: option.split)
next
  case (MMany name mx t)
  have "outcome E (shaped (ty_of t)) (jdeser J g t (dotted ctx name) i (fresh g (ty_of t)))" for i
    using MMany by (simp add: shaped_fresh g)
  then have "outcome E (shaped (TList mx (ty_of t))) (map_res OList
      (read_items mx (\<lambda>i. jdeser J g t (dotted ctx name) i (fresh g (ty_of t))) js []))" for js
    by (intro outcome_map outcome_read_items E) auto
  moreover obtain vs where "x = OList vs" using MMany.prems(2) by auto
  ultimately show ?case
    by (auto intro!: outcome_rbind [OF outcome_member(2) [of E, OF E]] outcome_rbind [OF outcome_member(4) [of E, OF E]]
        simp del: shaped.simps(4))
qed

text \<open>
  C8: A read of any text, parseable or not, into an accessor of a type of the schema leaves an accessor of
  that type, list bounds included, or raises a \<open>UCIException\<close>, or, when the type holds a uuid, lets the
  \<open>std::invalid_argument\<close> of \<open>UUID::fromString\<close> through; the JSON library's own exceptions never come out.
\<close>

theorem json_read_any_text:
  assumes r: "json_auto_register f J g schema = Inr r" "distinct (map fst schema)" "(name, t) \<in> set schema"
    and J: "typed_access J" "\<And>e. parse J str = Inl e \<Longrightarrow> is_json_exception e"
    and g: "\<And>p. prim_of (g p) = p" and x: "shaped (ty_of t) x"
  shows "case json_read J g r str \<lparr>typeName = name, body = x\<rparr> of
      Inl e \<Rightarrow> is_uci_exception e \<or> (PUuid \<in> prims (ty_of t) \<and> e = InvalidArgument ''stoul'')
    | Inr a \<Rightarrow> typeName a = name \<and> shaped (ty_of t) (body a)"
proof (cases "parse J str")
  case (Inl e)
  with J(2) show ?thesis by (simp add: json_read_def)
next
  case (Inr j)
  define E where "E = (\<lambda>e. is_uci_exception e \<or> (PUuid \<in> prims (ty_of t) \<and> e = InvalidArgument ''stoul''))"
  have "outcome E (shaped (ty_of t)) (jdeser J g t name j (reset_obj g x))"
    by (rule jdeser_outcome [OF J(1) g]) (simp_all add: E_def shaped_reset [OF g x])
  then show ?thesis
    by (cases "jdeser J g t name j (reset_obj g x)") (auto simp: json_read_loaded [OF r Inr] E_def)
qed

theorem json_read_any_text_witness:
  "\<exists>r. json_auto_register ((\<lambda>_. []), (\<lambda>_. [])) doc_json scalar_zero [(''TrackMDT'', sample_jty)] = Inr r \<and>
     (case json_read doc_json scalar_zero r ''[1,2'' \<lparr>typeName = ''TrackMDT'', body = sample_jobj\<rparr> of
        Inl e \<Rightarrow> is_uci_exception e \<or> (PUuid \<in> prims (ty_of sample_jty) \<and> e = InvalidArgument ''stoul'')
      | Inr a \<Rightarrow> typeName a = ''TrackMDT'' \<and> shaped (ty_of sample_jty) (body a))"
proof -
  obtain r where r: "json_auto_register ((\<lambda>_. []), (\<lambda>_. [])) doc_json scalar_zero [(''TrackMDT'', sample_jty)] = Inr r"
    using json_auto_register_total [of "[(''TrackMDT'', sample_jty)]" "((\<lambda>_. []), (\<lambda>_. []))" doc_json scalar_zero] by auto
  have d: "typed_access doc_json" by (auto simp: typed_access_def doc_json_def split: jdoc.splits)
  have e: "is_json_exception e" if "parse doc_json ''[1,2'' = Inl e" for e
    using that by (auto simp: doc_json_def doc_parse_def no_document_def split: option.splits prod.splits list.splits)
  have "distinct (map fst [(''TrackMDT'', sample_jty)])" "(''TrackMDT'', sample_jty) \<in> set [(''TrackMDT'', sample_jty)]"
    by simp_all
  from json_read_any_text [OF r this d e prim_of_scalar_zero sample_jobj_shaped] r show ?thesis by blast
qed

definition id_jty :: jty where
  "id_jty = JRec ''IdMDT'' [MField ''Id'' (JPrim PUuid)]"

text \<open>
  The exception that escapes: a uuid member whose text is not hexadecimal makes \<open>read\<close> of the JSON
  externalizer raise \<open>std::invalid_argument\<close>, which none of its three handler clauses matches.
\<close>

theorem json_read_leaks_invalid_argument:
  assumes doc: "parse J str = Inr j" "is_doc J (DObj [(''Id'', DStr ''zz000000-0000-0000-0000-000000000000'')]) j"
    and r: "json_auto_register f J g [(''IdMDT'', id_jty)] = Inr r"
  shows "json_read J g r str (create g (''IdMDT'', ty_of id_jty)) = Inl (InvalidArgument ''stoul'')"
proof -
  let ?s = "''zz000000-0000-0000-0000-000000000000''"
  have "fromString ?s = Inl (InvalidArgument ''stoul'')"
    by (simp add: fromString_def upt_16 stoul16_def hex_val_def isspace_def hex_value_def)
  moreover obtain v where "find_member J j ''Id'' = Some v" "is_doc J (DStr ?s) v"
    using doc(2) by (rule is_doc_member) simp
  moreover have "is_object J j" using doc(2) by simp
  ultimately have "jdeser J g id_jty ''IdMDT'' j (reset_obj g (fresh g (ty_of id_jty))) = Inl (InvalidArgument ''stoul'')"
    by (simp add: id_jty_def require_object_def require_member_def parse_uuid_def)
  then show ?thesis
    using json_read_loaded [OF r _ _ doc(1), of "''IdMDT''" id_jty "fresh g (ty_of id_jty)"] by (simp add: create_def)
qed

theorem json_read_leaks_invalid_argument_witness:
  "\<exists>r str. json_auto_register ((\<lambda>_. []), (\<lambda>_. [])) doc_json scalar_zero [(''IdMDT'', id_jty)] = Inr r \<and>
     json_read doc_json scalar_zero r str (create scalar_zero (''IdMDT'', ty_of id_jty)) = Inl (InvalidArgument ''stoul'')"
proof -
  let ?d = "DObj [(''Id'', DStr ''zz000000-0000-0000-0000-000000000000'')]"
  obtain r where r: "json_auto_register ((\<lambda>_. []), (\<lambda>_. [])) doc_json scalar_zero [(''IdMDT'', id_jty)] = Inr r"
    using json_auto_register_total [of "[(''IdMDT'', id_jty)]" "((\<lambda>_. []), (\<lambda>_. []))" doc_json scalar_zero] by auto
  have "wf_doc ?d" by (simp add: utf8_ascii)
  then have "is_doc doc_json ?d ?d" by (rule is_doc_self)
  moreover have "parse doc_json (print_doc ?d) = Inr ?d" using doc_parse_print [of ?d] by (simp add: doc_json_def)
  ultimately show ?thesis using json_read_leaks_invalid_argument [OF _ _ r] r by blast
qed

end
