(* ===== verification/Owp_Protocol.thy ===== *)
theory Owp_Protocol
  imports Digits
begin

text \<open>
  The text helpers of the OMS Web Protocol bridge (\<open>lacal/src/Protocol.cpp\<close>): trimming and splitting
  lines, tokens, wildcard patterns. \<open>globMatch\<close> keeps the loop and the four indices of the code and is
  proved to return, and to compute the usual meaning of a wildcard pattern. The JSON library is a
  parameter of \<open>makeInfoJson\<close>.
\<close>

section \<open>Lines and tokens\<close>

definition is_ws :: "char \<Rightarrow> bool" where
  "is_ws c = (c = CHR '' '' \<or> c = CHR 0x09 \<or> c = CHR 0x0D \<or> c = CHR 0x0A)"

text \<open>Erase white space from the front, then from the back.\<close>

definition trim :: "string \<Rightarrow> string" where
  "trim s = rev (dropWhile is_ws (rev (dropWhile is_ws s)))"

definition is_alnum :: "char \<Rightarrow> bool" where
  "is_alnum c = (let n = of_char c :: nat in (48 \<le> n \<and> n \<le> 57) \<or> (65 \<le> n \<and> n \<le> 90) \<or> (97 \<le> n \<and> n \<le> 122))"

definition validToken :: "string \<Rightarrow> bool" where
  "validToken s = (s \<noteq> [] \<and> list_all (\<lambda>c. is_alnum c \<or> c = CHR ''_'' \<or> c = CHR ''-'' \<or> c = CHR ''.'') s)"

text \<open>\<open>std::getline\<close> with a comma: no part after a final comma.\<close>

function comma_parts :: "string \<Rightarrow> string list" where
  "comma_parts s =
     (if s = [] then []
      else takeWhile (\<lambda>c. c \<noteq> CHR '','') s # comma_parts (drop 1 (dropWhile (\<lambda>c. c \<noteq> CHR '','') s)))"
  by pat_completeness auto
termination
proof (relation "measure length", goal_cases)
  case (2 s)
  then show ?case
    using length_dropWhile_le [of "\<lambda>c. c \<noteq> CHR '',''" s] by (cases s) (auto simp: less_Suc_eq_le)
qed simp

declare comma_parts.simps [simp del]

definition headerContainsToken :: "string \<Rightarrow> string \<Rightarrow> bool" where
  "headerContainsToken value token = list_ex (\<lambda>part. trim part = token) (comma_parts value)"

text \<open>The first field and the rest; the field ends at the first blank.\<close>

definition firstField :: "string \<Rightarrow> (string \<times> string) option" where
  "firstField line =
     (let s = trim line in
      if s = [] then None
      else if CHR '' '' \<notin> set s then Some (s, [])
      else let pos = length (takeWhile (\<lambda>c. c \<noteq> CHR '' '') s)
           in Some (take pos s, trim (drop (pos + 1) s)))"

text \<open>The extraction \<open>in >> field\<close>, repeated.\<close>

function splitFields :: "string \<Rightarrow> string list" where
  "splitFields s =
     (let r = dropWhile isspace s in
      if r = [] then []
      else takeWhile (\<lambda>c. \<not> isspace c) r # splitFields (dropWhile (\<lambda>c. \<not> isspace c) r))"
  by pat_completeness auto
termination
proof (relation "measure length", goal_cases)
  case (2 s r)
  then have "r \<noteq> []" by simp
  then obtain c r' where r: "r = c # r'" by (cases r) simp_all
  with 2(1) have d: "dropWhile isspace s = c # r'" by simp
  have "\<not> isspace c" using iffD1 [OF dropWhile_eq_Cons_conv d] by blast
  have "length (dropWhile (\<lambda>c. \<not> isspace c) r) \<le> length r'"
    using \<open>\<not> isspace c\<close> by (simp add: r length_dropWhile_le)
  also have "\<dots> < length r" by (simp add: r)
  also have "\<dots> \<le> length s" using 2(1) by (simp add: length_dropWhile_le)
  finally show ?case by simp
qed simp

declare splitFields.simps [simp del]

section \<open>Wildcard patterns\<close>

text \<open>
  The loop of \<open>globMatch\<close>, with its indices \<open>p\<close> into the pattern, \<open>t\<close> into the text, \<open>star\<close> (None is
  \<open>npos\<close>) and \<open>mtch\<close>. Whether it returns is part of what is proved.
\<close>

partial_function (option) glob_loop ::
    "string \<Rightarrow> string \<Rightarrow> nat \<Rightarrow> nat \<Rightarrow> nat option \<Rightarrow> nat \<Rightarrow> bool option" where
  "glob_loop pattern text p t star mtch =
     (if t < length text then
        if p < length pattern \<and> (pattern ! p = CHR ''?'' \<or> pattern ! p = text ! t)
        then glob_loop pattern text (p + 1) (t + 1) star mtch
        else if p < length pattern \<and> pattern ! p = CHR ''*''
        then glob_loop pattern text (p + 1) t (Some p) t
        else (case star of
          Some s \<Rightarrow> glob_loop pattern text (s + 1) (mtch + 1) star (mtch + 1)
        | None \<Rightarrow> Some False)
      else Some (list_all (\<lambda>c. c = CHR ''*'') (drop p pattern)))"

definition globMatch :: "string \<Rightarrow> string \<Rightarrow> bool option" where
  "globMatch pattern text = glob_loop pattern text 0 0 None 0"

text \<open>What a pattern means: a star is any text, a question mark any character.\<close>

fun glob :: "string \<Rightarrow> string \<Rightarrow> bool" where
  "glob [] ts = (ts = [])"
| "glob (q # ps) [] = (q = CHR ''*'' \<and> glob ps [])"
| "glob (q # ps) (c # ts) =
     (if q = CHR ''*'' then glob ps (c # ts) \<or> glob (q # ps) ts
      else (q = CHR ''?'' \<or> q = c) \<and> glob ps ts)"

lemma glob_star: "glob (CHR ''*'' # ps) ts \<longleftrightarrow> (\<exists>k \<le> length ts. glob ps (drop k ts))"
proof (induction ts)
  case Nil
  then show ?case by simp
next
  case (Cons c ts)
  have "(\<exists>k \<le> length (c # ts). glob ps (drop k (c # ts))) \<longleftrightarrow> glob ps (c # ts) \<or> (\<exists>k \<le> length ts. glob ps (drop k ts))"
    by (metis Suc_le_mono drop0 drop_Suc_Cons le0 length_Cons not0_implies_Suc)
  with Cons show ?case by simp
qed

lemma glob_star_drop: "glob (CHR ''*'' # ps) (drop n ts) \<Longrightarrow> glob (CHR ''*'' # ps) ts"
proof (induction n arbitrary: ts)
  case 0
  then show ?case by simp
next
  case (Suc n)
  then show ?case by (cases ts) (auto dest: Suc.IH)
qed

lemma glob_Nil: "glob ps [] \<longleftrightarrow> list_all (\<lambda>c. c = CHR ''*'') ps"
  by (induction ps) auto

text \<open>A piece without stars fits a text of its length, character by character.\<close>

fun fits :: "string \<Rightarrow> string \<Rightarrow> bool" where
  "fits [] ts = (ts = [])"
| "fits (q # ps) [] = False"
| "fits (q # ps) (c # ts) = (q \<noteq> CHR ''*'' \<and> (q = CHR ''?'' \<or> q = c) \<and> fits ps ts)"

lemma fits_snoc: "fits seg ts \<Longrightarrow> q \<noteq> CHR ''*'' \<Longrightarrow> q = CHR ''?'' \<or> q = c \<Longrightarrow> fits (seg @ [q]) (ts @ [c])"
  by (induction seg ts rule: fits.induct) auto

lemma fits_length: "fits seg ts \<Longrightarrow> length seg = length ts"
  by (induction seg ts rule: fits.induct) auto

lemma fits_no_star: "fits seg ts \<Longrightarrow> CHR ''*'' \<notin> set seg"
  by (induction seg ts rule: fits.induct) auto

lemma glob_no_star:
  "CHR ''*'' \<notin> set seg \<Longrightarrow> glob (seg @ ps) us \<longleftrightarrow>
     length seg \<le> length us \<and> fits seg (take (length seg) us) \<and> glob ps (drop (length seg) us)"
proof (induction seg arbitrary: us)
  case Nil
  then show ?case by simp
next
  case (Cons q seg)
  then show ?case by (cases us) auto
qed

lemma glob_fits: "fits seg tseg \<Longrightarrow> glob (seg @ ps) (tseg @ ts) \<longleftrightarrow> glob ps ts"
  by (induction seg tseg rule: fits.induct) auto

text \<open>The three moves of the loop, on what remains to be matched after the last star.\<close>

lemma glob_restart:
  assumes "\<not> glob ps ts" and "fits seg tseg"
  shows "glob (CHR ''*'' # seg @ ps) (tseg @ ts) \<longleftrightarrow>
    tseg @ ts \<noteq> [] \<and> glob (CHR ''*'' # seg @ ps) (tl (tseg @ ts))"
  using assms glob_fits [OF assms(2), of ps ts] by (cases "tseg @ ts") (auto simp: glob_star)

lemma glob_new_star:
  assumes "fits seg tseg"
  shows "glob (CHR ''*'' # seg @ CHR ''*'' # ps) (tseg @ ts) \<longleftrightarrow> glob (CHR ''*'' # ps) ts"
proof
  assume "glob (CHR ''*'' # ps) ts"
  then have "glob (seg @ CHR ''*'' # ps) (tseg @ ts)" using glob_fits [OF assms] by blast
  then show "glob (CHR ''*'' # seg @ CHR ''*'' # ps) (tseg @ ts)"
    unfolding glob_star by (intro exI [of _ 0]) simp
next
  assume "glob (CHR ''*'' # seg @ CHR ''*'' # ps) (tseg @ ts)"
  then obtain k where "glob (seg @ CHR ''*'' # ps) (drop k (tseg @ ts))" unfolding glob_star by blast
  then have "glob (CHR ''*'' # ps) (drop (length seg) (drop k (tseg @ ts)))"
    using glob_no_star [OF fits_no_star [OF assms]] by blast
  moreover have "drop (length seg) (drop k (tseg @ ts)) = drop k (drop (length seg) (tseg @ ts))"
    by (simp only: drop_drop add.commute)
  then have "drop (length seg) (drop k (tseg @ ts)) = drop k ts"
    using fits_length [OF assms] by simp
  ultimately show "glob (CHR ''*'' # ps) ts" using glob_star_drop by metis
qed

lemma glob_at_end:
  assumes "fits seg tseg"
  shows "glob (CHR ''*'' # seg @ ps) tseg \<longleftrightarrow> list_all (\<lambda>c. c = CHR ''*'') ps"
proof
  assume "glob (CHR ''*'' # seg @ ps) tseg"
  then obtain k where k: "k \<le> length tseg" "glob (seg @ ps) (drop k tseg)" unfolding glob_star by blast
  then have "length seg \<le> length tseg - k" "glob ps (drop (length seg) (drop k tseg))"
    using glob_no_star [OF fits_no_star [OF assms]] by auto
  then have "glob ps []" using fits_length [OF assms] k(1) by simp
  then show "list_all (\<lambda>c. c = CHR ''*'') ps" by (simp add: glob_Nil)
next
  assume "list_all (\<lambda>c. c = CHR ''*'') ps"
  then have "glob (seg @ ps) (tseg @ [])" using glob_fits [OF assms, of ps "[]"] by (simp add: glob_Nil)
  then show "glob (CHR ''*'' # seg @ ps) tseg" unfolding glob_star by (intro exI [of _ 0]) simp
qed

text \<open>The loop once it has passed a star.\<close>

lemma glob_loop_star:
  assumes no_star: "CHR ''*'' \<notin> set text"
  shows "pattern = pre @ CHR ''*'' # seg @ ps \<Longrightarrow> text = tpre @ tseg @ ts \<Longrightarrow> fits seg tseg \<Longrightarrow>
    glob_loop pattern text (length pre + 1 + length seg) (length tpre + length tseg) (Some (length pre)) (length tpre) =
      Some (glob (CHR ''*'' # seg @ ps) (tseg @ ts))"
proof (induction "(seg, ps, tseg, ts)" arbitrary: pre seg ps tpre tseg ts
    rule: wf_induct_rule [OF wf_measures [of "[\<lambda>(seg, ps, tseg, ts). length (seg @ ps),
      \<lambda>(seg, ps, tseg, ts). length (tseg @ ts), \<lambda>(seg, ps, tseg, ts). length ts]"]])
  case (1 seg ps tseg ts pre tpre)
  note IH = "1.hyps" and P = "1.prems"(1) and T = "1.prems"(2) and fit = "1.prems"(3)
  have len: "length tseg = length seg" using fits_length [OF fit] by simp
  show ?case
  proof (cases ts)
    case Nil
    then show ?thesis
      by (subst glob_loop.simps) (simp add: P T glob_at_end [OF fit] del: glob.simps)
  next
    case (Cons c ts')
    have t: "text ! (length tpre + length tseg) = c" by (simp add: T Cons nth_append)
    have c: "c \<noteq> CHR ''*''" using no_star T Cons by auto
    have restart: "glob_loop pattern text (length pre + 1) (length tpre + 1) (Some (length pre)) (length tpre + 1) =
        Some (glob (CHR ''*'' # seg @ ps) (tl (tseg @ ts)))"
    proof -
      obtain d us where us: "tseg @ ts = d # us" using Cons by (cases tseg) auto
      then have "length tseg + length ts = Suc (length us)" by (metis length_append length_Cons)
      have "glob_loop pattern text (length pre + 1 + length ([] :: string)) (length (tpre @ [d]) + length ([] :: string)) (Some (length pre)) (length (tpre @ [d])) =
          Some (glob (CHR ''*'' # [] @ (seg @ ps)) ([] @ us))"
        by (rule IH) (use us \<open>length tseg + length ts = Suc (length us)\<close> in \<open>auto simp: P T\<close>)
      then show ?thesis by (simp add: us del: glob.simps)
    qed
    show ?thesis
    proof (cases ps)
      case Nil
      have "\<not> glob ps ts" by (simp add: Nil Cons)
      from glob_restart [OF this fit] restart show ?thesis
        by (subst glob_loop.simps) (simp add: P T Nil Cons del: glob.simps)
    next
      case (Cons q ps')
      note ps = Cons
      have p: "pattern ! (length pre + 1 + length seg) = q" by (simp add: P ps nth_append)
      consider (step) "q = CHR ''?'' \<or> q = c" | (star) "q = CHR ''*''" | (retry) "q \<noteq> CHR ''?''" "q \<noteq> c" "q \<noteq> CHR ''*''"
        by blast
      then show ?thesis
      proof cases
        case step
        then have "q \<noteq> CHR ''*''" using c by auto
        have "glob_loop pattern text (length pre + 1 + length (seg @ [q])) (length tpre + length (tseg @ [c]))
            (Some (length pre)) (length tpre) = Some (glob (CHR ''*'' # (seg @ [q]) @ ps') ((tseg @ [c]) @ ts'))"
          by (rule IH) (use step \<open>q \<noteq> CHR ''*''\<close> in \<open>auto simp: P T ps \<open>ts = c # ts'\<close> intro: fits_snoc [OF fit]\<close>)
        with step p t show ?thesis
          by (subst glob_loop.simps) (simp add: P T ps \<open>ts = c # ts'\<close> del: glob.simps)
      next
        case star
        then have "q \<noteq> c" using c by auto
        have "glob_loop pattern text (length (pre @ CHR ''*'' # seg) + 1 + length ([] :: string)) (length (tpre @ tseg) + length ([] :: string))
            (Some (length (pre @ CHR ''*'' # seg))) (length (tpre @ tseg)) = Some (glob (CHR ''*'' # [] @ ps') ([] @ ts))"
          by (rule IH) (auto simp: P T ps star)
        with star \<open>q \<noteq> c\<close> p t show ?thesis
          by (subst glob_loop.simps)
            (simp add: P T ps \<open>ts = c # ts'\<close> glob_new_star [OF fit] len del: glob.simps)
      next
        case retry
        then have "\<not> glob ps ts" by (simp add: ps \<open>ts = c # ts'\<close>)
        from glob_restart [OF this fit] restart retry p t show ?thesis
          by (subst glob_loop.simps) (simp add: P T ps \<open>ts = c # ts'\<close> del: glob.simps)
      qed
    qed
  qed
qed

text \<open>The loop before any star.\<close>

lemma glob_loop_plain:
  assumes no_star: "CHR ''*'' \<notin> set text"
  shows "pattern = seg @ ps \<Longrightarrow> text = tseg @ ts \<Longrightarrow> fits seg tseg \<Longrightarrow>
    glob_loop pattern text (length seg) (length tseg) None 0 = Some (glob ps ts)"
proof (induction ts arbitrary: seg ps tseg)
  case Nil
  then show ?case by (subst glob_loop.simps) (simp add: glob_Nil)
next
  case (Cons c ts)
  note P = Cons.prems(1) and T = Cons.prems(2) and fit = Cons.prems(3)
  have t: "text ! length tseg = c" by (simp add: T)
  have c: "c \<noteq> CHR ''*''" using no_star T by auto
  show ?case
  proof (cases ps)
    case Nil
    then show ?thesis by (subst glob_loop.simps) (simp add: P T)
  next
    case (Cons q ps')
    have p: "pattern ! length seg = q" by (simp add: P Cons)
    consider (step) "q = CHR ''?'' \<or> q = c" | (star) "q = CHR ''*''" | (fail) "q \<noteq> CHR ''?''" "q \<noteq> c" "q \<noteq> CHR ''*''"
      by blast
    then show ?thesis
    proof cases
      case step
      then have "q \<noteq> CHR ''*''" using c by auto
      have "glob_loop pattern text (length (seg @ [q])) (length (tseg @ [c])) None 0 = Some (glob ps' ts)"
        by (rule Cons.IH) (use step \<open>q \<noteq> CHR ''*''\<close> in \<open>auto simp: P T Cons intro: fits_snoc [OF fit]\<close>)
      with step p t \<open>q \<noteq> CHR ''*''\<close> show ?thesis
        by (subst glob_loop.simps) (auto simp add: P T Cons)
    next
      case star
      then have "q \<noteq> c" using c by auto
      have "glob_loop pattern text (length seg + 1 + length ([] :: string)) (length tseg + length ([] :: string))
          (Some (length seg)) (length tseg) = Some (glob (CHR ''*'' # [] @ ps') ([] @ c # ts))"
        by (rule glob_loop_star [OF no_star]) (simp_all add: P T Cons star)
      with star \<open>q \<noteq> c\<close> p t show ?thesis
        by (subst glob_loop.simps) (simp add: P T Cons)
    next
      case fail
      with p t show ?thesis by (subst glob_loop.simps) (simp add: P T Cons)
    qed
  qed
qed

text \<open>The loop returns on every pattern and every text.\<close>

lemma glob_loop_star_returns:
  "s < p \<Longrightarrow> mtch \<le> t \<Longrightarrow> \<exists>b. glob_loop pattern text p t (Some s) mtch = Some b"
proof (induction "(s, mtch, t)" arbitrary: s p mtch t
    rule: wf_induct_rule [OF wf_measures [of "[\<lambda>(s, mtch, t). length pattern - s,
      \<lambda>(s, mtch, t). length text - mtch, \<lambda>(s, mtch, t). length text - t]"]])
  case (1 s mtch t p)
  note IH = "1.hyps" and P = "1.prems"(1) and T = "1.prems"(2)
  show ?case
  proof (cases "t < length text")
    case False
    then show ?thesis by (subst glob_loop.simps) simp
  next
    case t: True
    have "\<exists>b. glob_loop pattern text (p + 1) (t + 1) (Some s) mtch = Some b" by (rule IH) (use P T t in auto)
    moreover have "\<exists>b. glob_loop pattern text (p + 1) t (Some p) t = Some b" if "p < length pattern"
      by (rule IH) (use P T t that in auto)
    moreover have "\<exists>b. glob_loop pattern text (s + 1) (mtch + 1) (Some s) (mtch + 1) = Some b"
      by (rule IH) (use P T t in auto)
    ultimately show ?thesis by (subst glob_loop.simps) simp
  qed
qed

lemma glob_loop_plain_returns: "\<exists>b. glob_loop pattern text p t None mtch = Some b"
proof (induction "length text - t" arbitrary: p t)
  case 0
  then show ?case by (subst glob_loop.simps) simp
next
  case (Suc n)
  then have "\<exists>b. glob_loop pattern text (p + 1) (t + 1) None mtch = Some b" by simp
  moreover have "\<exists>b. glob_loop pattern text (p + 1) t (Some p) t = Some b"
    by (rule glob_loop_star_returns) simp_all
  ultimately show ?case by (subst glob_loop.simps) auto
qed

lemma globMatch_eq: "CHR ''*'' \<notin> set s \<Longrightarrow> globMatch pattern s = Some (glob pattern s)"
  using glob_loop_plain [of s pattern "[]" pattern "[]" s] by (simp add: globMatch_def)

text \<open>
  C35: \<open>globMatch\<close> returns on every pattern and every text, and on a text without a star it decides
  whether the pattern matches the whole text, a star standing for any text and a question mark for any
  character.
\<close>

theorem globMatch_correct:
  "\<exists>b. globMatch pattern text = Some b \<and> (CHR ''*'' \<notin> set text \<longrightarrow> b = glob pattern text)"
  using glob_loop_plain_returns [of pattern "text" 0 0 0] glob_loop_plain [of "text" pattern "[]" pattern "[]" "text"]
  by (auto simp: globMatch_def)

theorem globMatch_correct_witness: "globMatch ''Sys*m?tus'' ''SystemStatus'' = Some False"
  using globMatch_correct [of "''Sys*m?tus''" "''SystemStatus''"] by auto

text \<open>
  On a text with a star the code can reject what the pattern means to accept: it compares the
  two stars as equal characters before it looks for a wildcard, so the pattern \<open>*\<close> does not match every
  text.
\<close>

theorem globMatch_star_in_text: "globMatch ''*'' ''*a'' = Some False \<and> glob ''*'' ''*a''"
proof -
  have "glob_loop ''*'' ''*a'' 1 1 None 0 = Some False" by (subst glob_loop.simps) simp
  then show ?thesis unfolding globMatch_def by (subst glob_loop.simps) simp
qed

section \<open>Splitting what was joined\<close>

definition field_ok :: "string \<Rightarrow> bool" where
  "field_ok f = (f \<noteq> [] \<and> list_all (\<lambda>c. \<not> isspace c) f)"

fun join :: "string list \<Rightarrow> string" where
  "join [] = []"
| "join [f] = f"
| "join (f # fs) = f @ CHR '' '' # join fs"

lemma field_ok_dropWhile: "field_ok f \<Longrightarrow> dropWhile isspace (f @ s) = f @ s"
  by (cases f) (auto simp: field_ok_def)

lemma splitFields_Nil [simp]: "splitFields [] = []"
  by (subst splitFields.simps) simp

lemma splitFields_blank: "isspace c \<Longrightarrow> splitFields (c # s) = splitFields s"
  by (subst (1 2) splitFields.simps) simp

lemma splitFields_field:
  assumes "field_ok f"
  shows "splitFields f = [f]" and "isspace c \<Longrightarrow> splitFields (f @ c # s) = f # splitFields s"
proof -
  have f: "list_all (\<lambda>c. \<not> isspace c) f" "f \<noteq> []" using assms by (auto simp: field_ok_def)
  have tw: "takeWhile (\<lambda>c. \<not> isspace c) f = f" "dropWhile (\<lambda>c. \<not> isspace c) f = []"
    using f(1) by (auto simp: list_all_iff takeWhile_eq_all_conv dropWhile_eq_Nil_conv)
  from f field_ok_dropWhile [OF assms, of "[]"] show "splitFields f = [f]"
    by (subst splitFields.simps) (simp add: tw)
  assume c: "isspace c"
  have "takeWhile (\<lambda>c. \<not> isspace c) (f @ c # s) = f" "dropWhile (\<lambda>c. \<not> isspace c) (f @ c # s) = c # s"
    using f(1) c by (auto simp: list_all_iff takeWhile_append2 dropWhile_append2)
  with f field_ok_dropWhile [OF assms, of "c # s"] show "splitFields (f @ c # s) = f # splitFields s"
    by (subst splitFields.simps) (simp add: splitFields_blank [OF c])
qed

lemma splitFields_join: "list_all field_ok fs \<Longrightarrow> splitFields (join fs) = fs"
  by (induction fs rule: join.induct) (auto simp: splitFields_field isspace_def)

lemma splitFields_fields: "f \<in> set (splitFields s) \<Longrightarrow> field_ok f"
proof (induction s rule: splitFields.induct)
  case (1 s)
  let ?r = "dropWhile isspace s"
  show ?case
  proof (cases "?r = []")
    case True
    with "1.prems" show ?thesis by (subst (asm) splitFields.simps) simp
  next
    case False
    then have "\<not> isspace (hd ?r)" by (rule hd_dropWhile)
    with False have "field_ok (takeWhile (\<lambda>c. \<not> isspace c) ?r)"
      by (cases ?r) (auto simp: field_ok_def list_all_iff dest: set_takeWhileD)
    with "1.IH" [OF refl False] "1.prems" False show ?thesis
      by (subst (asm) splitFields.simps) (auto simp: Let_def split: if_splits)
  qed
qed

lemma splitFields_eq_iff: "splitFields s = fs \<Longrightarrow> list_all field_ok fs"
  by (auto simp: list_all_iff splitFields_fields)

lemma is_ws_isspace: "is_ws c \<Longrightarrow> isspace c"
  by (auto simp: is_ws_def isspace_def)

lemma validToken_field_ok: "validToken t \<Longrightarrow> field_ok t"
proof -
  have "\<not> isspace c" if "is_alnum c \<or> c = CHR ''_'' \<or> c = CHR ''-'' \<or> c = CHR ''.''" for c
    using that by (auto simp: is_alnum_def isspace_def)
  then show "validToken t \<Longrightarrow> field_ok t" by (auto simp: validToken_def field_ok_def list_all_iff)
qed

lemma newline_isspace: "isspace (CHR 0x0A)"
  by (simp add: isspace_def)

lemma field_ok_no_newline: "field_ok f \<Longrightarrow> CHR 0x0A \<notin> set f"
  using newline_isspace by (auto simp: field_ok_def list_all_iff)

lemma field_ok_ends: "field_ok f \<Longrightarrow> f \<noteq> [] \<and> \<not> is_ws (hd f) \<and> \<not> is_ws (last f)"
  by (metis field_ok_def hd_in_set last_in_set is_ws_isspace list_all_iff)

lemma trim_id: "s = [] \<or> \<not> is_ws (hd s) \<and> \<not> is_ws (last s) \<Longrightarrow> trim s = s"
proof -
  assume s: "s = [] \<or> \<not> is_ws (hd s) \<and> \<not> is_ws (last s)"
  then have "dropWhile is_ws s = s" "dropWhile is_ws (rev s) = rev s"
    by (auto simp: dropWhile_eq_self_iff hd_rev)
  then show "trim s = s" by (simp add: trim_def)
qed

lemma trim_field: "field_ok f \<Longrightarrow> trim f = f"
  by (rule trim_id) (simp add: field_ok_ends)

text \<open>What a client sends as an operation and its fields is what the handlers see.\<close>

lemma trim_join: "list_all field_ok fs \<Longrightarrow> trim (join fs) = join fs"
proof -
  assume fs: "list_all field_ok fs"
  have "join fs = [] \<or> \<not> is_ws (hd (join fs)) \<and> \<not> is_ws (last (join fs))"
    using fs
  proof (induction fs rule: join.induct)
    case (2 f)
    then show ?case by (simp add: field_ok_ends)
  next
    case (3 f g fs)
    then have "join (g # fs) \<noteq> []" by (cases fs) (auto simp: field_ok_def)
    with 3 show ?case by (auto dest: field_ok_ends)
  qed simp
  then show "trim (join fs) = join fs" by (rule trim_id)
qed

lemma firstField_of_join:
  assumes "field_ok op" and "list_all field_ok fs" and "list_all is_ws before" and "list_all is_ws behind"
  shows "\<exists>rest. firstField (before @ join (op # fs) @ behind) = Some (op, rest) \<and> splitFields rest = fs"
proof -
  have trim: "trim (before @ join (op # fs) @ behind) = join (op # fs)"
  proof -
    have "\<not> is_ws (hd (join (op # fs)))"
      using assms(1) is_ws_isspace by (cases fs; cases op) (auto simp: field_ok_def)
    moreover have "join (op # fs) \<noteq> []" using assms(1) by (cases fs) (auto simp: field_ok_def)
    ultimately have d: "dropWhile is_ws (before @ join (op # fs) @ behind) = join (op # fs) @ behind"
      using assms(3) by (cases "join (op # fs)") (auto simp: list_all_iff dropWhile_append2)
    have "trim (join (op # fs)) = join (op # fs)" by (rule trim_join) (simp add: assms)
    then have "dropWhile is_ws (rev (join (op # fs))) = rev (join (op # fs))"
      using \<open>\<not> is_ws (hd (join (op # fs)))\<close> \<open>join (op # fs) \<noteq> []\<close>
      by (cases "join (op # fs)") (auto simp: trim_def rev_swap)
    moreover have "dropWhile is_ws (rev behind @ rev (join (op # fs))) = dropWhile is_ws (rev (join (op # fs)))"
      using assms(4) by (intro dropWhile_append2) (auto simp: list_all_iff)
    ultimately show ?thesis by (simp only: trim_def d rev_append rev_rev_ident)
  qed
  have "CHR '' '' \<notin> set op" using assms(1) by (auto simp: field_ok_def list_all_iff isspace_def)
  show ?thesis
  proof (cases fs)
    case Nil
    with trim assms(1) \<open>CHR '' '' \<notin> set op\<close> show ?thesis by (simp add: firstField_def Let_def field_ok_def)
  next
    case (Cons f fs')
    have "takeWhile (\<lambda>c. c \<noteq> CHR '' '') (op @ CHR '' '' # join fs) = op"
      using \<open>CHR '' '' \<notin> set op\<close> by (subst takeWhile_append2) auto
    with trim have "firstField (before @ join (op # fs) @ behind) = Some (op, trim (join fs))"
      by (simp add: firstField_def Let_def Cons)
    with assms(2) show ?thesis by (simp add: trim_join splitFields_join)
  qed
qed

text \<open>
  A line made of an operation and its fields, blanks around it allowed, is taken apart into that
  operation and those fields.
\<close>

theorem line_is_parsed_back:
  assumes "field_ok op" and "list_all field_ok fs" and "list_all is_ws before" and "list_all is_ws behind"
  shows "\<exists>rest. firstField (before @ join (op # fs) @ behind) = Some (op, rest) \<and> splitFields rest = fs"
  using firstField_of_join [OF assms] .

theorem line_is_parsed_back_witness:
  "\<exists>rest. firstField ''  SUB sub1 ActionCommandMT ActionCommand '' = Some (''SUB'', rest) \<and>
     splitFields rest = [''sub1'', ''ActionCommandMT'', ''ActionCommand'']"
  using line_is_parsed_back [of "''SUB''" "[''sub1'', ''ActionCommandMT'', ''ActionCommand'']" "''  ''" "'' ''"]
  by (simp add: field_ok_def isspace_def is_ws_def)

section \<open>The INFO payload\<close>

text \<open>The JSON values the code builds, for the library to print.\<close>

datatype jval = JStr string | JArr "jval list" | JObj "(string \<times> jval) list"

definition makeInfoJson :: "(jval \<Rightarrow> string) \<Rightarrow> string \<Rightarrow> u16 \<Rightarrow> string" where
  "makeInfoJson dump serviceId port = dump (JObj
     [(''version'', JStr ''1.0''),
      (''server_id'', JStr ''arlacal-server''),
      (''system_label'', JStr ''arcal''),
      (''service_id'', JStr serviceId),
      (''connect_urls'', JArr [JStr (''ws://127.0.0.1:'' @ dec_of_nat (unat port))]),
      (''extensions'', JArr [JStr ''arcal.xsub.v1'']),
      (''uuids'', JObj [(''system'', JStr ''00000000-0000-0000-0000-000000000000''),
                       (''service'', JStr ''00000000-0000-0000-0000-000000000000'')])])"

end
