(* ===== verification/Owp_Session.thy ===== *)
theory Owp_Session
  imports Owp_Protocol Json_Api
begin

text \<open>
  A client session of the OMS Web Protocol bridge (\<open>lacal/src/ClientSession.h\<close>, \<open>ClientSession.cpp\<close>): the
  line handlers, the concrete subscriptions of wildcard streams, the write queue, and the delivery of
  a message to a session (\<open>TopicMonitor::deliver\<close>). The socket is outside: \<open>posted\<close> are the lines handed
  to \<open>sendLine\<close> while the session was open, in order.
\<close>

section \<open>The session\<close>

record xsub =
  streamId :: string
  topicPattern :: string
  messagePattern :: string

record standard_sub =
  subscriptionId :: string
  messageName :: string
  topic :: string

text \<open>
  An \<open>unordered_map\<close> is its list of entries, in the order an iteration visits them; the claims do not
  depend on that order.
\<close>

record client =
  is_open :: bool
  initialized :: bool
  verbose :: bool
  serviceId :: string
  xsubs :: "xsub list"
  standardSubs :: "(string \<times> standard_sub) list"
  concreteSubs :: "(string \<times> string) list"
  nextSubId :: u64
  posted :: "string list"

definition new_client :: client where
  "new_client = \<lparr>is_open = True, initialized = False, verbose = True, serviceId = [], xsubs = [],
     standardSubs = [], concreteSubs = [], nextSubId = 1, posted = []\<rparr>"

definition sendLine :: "string \<Rightarrow> client \<Rightarrow> client" where
  "sendLine line c = (if is_open c then c\<lparr>posted := posted c @ [line]\<rparr> else c)"

definition send_ok :: "client \<Rightarrow> client" where
  "send_ok c = (if verbose c then sendLine ''+OK'' c else c)"

section \<open>The handlers\<close>

text \<open>
  \<open>handleInit\<close>: the block in the \<open>try\<close> returns the line of a refusal or the new settings; the setting
  of \<open>verbose\<close> stays when a later statement throws.
\<close>

definition some_version_10 :: "'j json_api \<Rightarrow> 'j list \<Rightarrow> bool res" where
  "some_version_10 J vs =
     foldR (\<lambda>v acc. if acc then Inr True else rbind (get_string J v) (\<lambda>s. Inr (s = ''1.0''))) vs False"

definition handleInit :: "'j json_api \<Rightarrow> (jval \<Rightarrow> string) \<Rightarrow> string \<Rightarrow> u16 \<Rightarrow> client \<Rightarrow> client \<times> bool" where
  "handleInit J dump rest port c =
     (let fail = \<lambda>c e. (sendLine (''-ERR Illegal-Argument '' @ what e) c, False) in
      if initialized c then (sendLine ''-ERR Illegal-State INIT already received'' c, False)
      else (case parse J rest of
        Inl e \<Rightarrow> fail c e
      | Inr init \<Rightarrow>
          if \<not> contains J init ''versions'' \<or> \<not> contains J init ''schema'' \<or> \<not> contains J init ''service_id''
          then (sendLine ''-ERR Illegal-Argument INIT missing required field'' c, False)
          else (case rbind (element J init ''versions'') (\<lambda>vs. some_version_10 J (items J vs)) of
            Inl e \<Rightarrow> fail c e
          | Inr False \<Rightarrow> (sendLine ''-ERR Unsupported-Version no supported OWP version'' c, False)
          | Inr True \<Rightarrow> (case value_bool J init ''verbose'' True of
              Inl e \<Rightarrow> fail c e
            | Inr vb \<Rightarrow> (case rbind (element J init ''service_id'') (get_string J) of
                Inl e \<Rightarrow> fail (c\<lparr>verbose := vb\<rparr>) e
              | Inr sid \<Rightarrow>
                  (send_ok (sendLine (''INFO '' @ makeInfoJson dump sid port)
                     (c\<lparr>verbose := vb, serviceId := sid, initialized := True\<rparr>)), True))))))"

definition handleXSub :: "string \<Rightarrow> client \<Rightarrow> client" where
  "handleXSub rest c =
     (let fields = splitFields rest in
      if length fields < 2 \<or> 3 < length fields
      then sendLine ''-ERR Illegal-Argument XSUB requires stream-id topic-pattern [message-pattern]'' c
      else if \<not> validToken (fields ! 0) then sendLine ''-ERR Illegal-Argument invalid stream-id'' c
      else send_ok (c\<lparr>xsubs := xsubs c @ [\<lparr>streamId = fields ! 0, topicPattern = fields ! 1,
             messagePattern = (if length fields = 3 then fields ! 2 else ''*'')\<rparr>]\<rparr>))"

definition handleSub :: "string \<Rightarrow> client \<Rightarrow> client" where
  "handleSub rest c =
     (let fields = splitFields rest in
      if length fields < 3 \<or> 4 < length fields
      then sendLine ''-ERR Illegal-Argument SUB requires subscription-id message-name topic [group]'' c
      else if \<not> validToken (fields ! 0) \<or> \<not> validToken (fields ! 2) \<or> (length fields = 4 \<and> \<not> validToken (fields ! 3))
      then sendLine ''-ERR Illegal-Argument invalid SUB token'' c
      else if map_of (standardSubs c) (fields ! 0) \<noteq> None
      then sendLine ''-ERR Illegal-State subscription-id already in use'' c
      else send_ok (c\<lparr>standardSubs := standardSubs c @ [(fields ! 0,
             \<lparr>subscriptionId = fields ! 0, messageName = fields ! 1, topic = fields ! 2\<rparr>)]\<rparr>))"

definition handleUnsub :: "string \<Rightarrow> client \<Rightarrow> client" where
  "handleUnsub rest c =
     (let fields = splitFields rest in
      if length fields \<noteq> 1 \<or> \<not> validToken (fields ! 0)
      then sendLine ''-ERR Illegal-Argument UNSUB requires subscription-id'' c
      else if map_of (standardSubs c) (fields ! 0) = None
      then sendLine ''-ERR Illegal-State subscription-id is not active'' c
      else send_ok (c\<lparr>standardSubs := filter (\<lambda>e. fst e \<noteq> fields ! 0) (standardSubs c)\<rparr>))"

definition newline :: string where
  "newline = [CHR 0x0A]"

text \<open>\<open>it->first.rfind(streamId + "\n", 0) == 0\<close>: the key starts with the stream and a newline.\<close>

definition key_of_stream :: "string \<Rightarrow> string \<Rightarrow> bool" where
  "key_of_stream sid key = (take (length (sid @ newline)) key = sid @ newline)"

definition handleXUnsub :: "string \<Rightarrow> client \<Rightarrow> client" where
  "handleXUnsub rest c =
     (let fields = splitFields rest in
      if length fields \<noteq> 1 \<or> \<not> validToken (fields ! 0)
      then sendLine ''-ERR Illegal-Argument XUNSUB requires stream-id'' c
      else send_ok (c\<lparr>xsubs := filter (\<lambda>x. streamId x \<noteq> fields ! 0) (xsubs c),
             concreteSubs := filter (\<lambda>e. \<not> key_of_stream (fields ! 0) (fst e)) (concreteSubs c)\<rparr>))"

definition handleLine :: "'j json_api \<Rightarrow> (jval \<Rightarrow> string) \<Rightarrow> u16 \<Rightarrow> string \<Rightarrow> client \<Rightarrow> client" where
  "handleLine J dump port payload c = (case firstField payload of
     None \<Rightarrow> c
   | Some (op, rest) \<Rightarrow>
       if op = ''INIT'' then
         (let (c', ok) = handleInit J dump rest port c in if ok then c' else c'\<lparr>is_open := False\<rparr>)
       else if \<not> initialized c then
         (sendLine ''-ERR Illegal-State INIT must be first operation'' c)\<lparr>is_open := False\<rparr>
       else if op = ''XSUB'' then handleXSub rest c
       else if op = ''XUNSUB'' then handleXUnsub rest c
       else if op = ''SUB'' then handleSub rest c
       else if op = ''UNSUB'' then handleUnsub rest c
       else if op = ''PUB'' then
         sendLine ''-ERR Illegal-State operation not implemented in this arlacal-server build'' c
       else sendLine ''-ERR Illegal-Argument unknown operation'' c)"

section \<open>Delivery\<close>

definition concrete_key :: "string \<Rightarrow> string \<Rightarrow> string \<Rightarrow> string" where
  "concrete_key sid tn mn = sid @ newline @ tn @ newline @ mn"

text \<open>The id, whether it is new, and the session.\<close>

definition ensureConcreteSubscription :: "string \<Rightarrow> string \<Rightarrow> string \<Rightarrow> client \<Rightarrow> (string \<times> bool) \<times> client" where
  "ensureConcreteSubscription sid tn mn c =
     (let key = concrete_key sid tn mn in
      case map_of (concreteSubs c) key of
        Some i \<Rightarrow> ((i, False), c)
      | None \<Rightarrow>
          let i = ''xsub.'' @ dec_of_nat (unat (nextSubId c))
          in ((i, True), c\<lparr>nextSubId := nextSubId c + 1, concreteSubs := (key, i) # concreteSubs c\<rparr>))"

definition glob_matches :: "string \<Rightarrow> string \<Rightarrow> bool" where
  "glob_matches pattern s = (globMatch pattern s = Some True)"

definition msg_line :: "string \<Rightarrow> string \<Rightarrow> string" where
  "msg_line i json = ''MSG '' @ i @ '' '' @ json"

definition xsubinfo_line :: "string \<Rightarrow> string \<Rightarrow> string \<Rightarrow> string \<Rightarrow> string" where
  "xsubinfo_line sid i tn mn = ''XSUBINFO '' @ sid @ '' '' @ i @ '' '' @ tn @ '' '' @ mn"

definition deliver_standard :: "string \<Rightarrow> string \<Rightarrow> string \<Rightarrow> standard_sub \<Rightarrow> client \<Rightarrow> client" where
  "deliver_standard tn mn json s c =
     (if topic s = tn \<and> messageName s = mn then sendLine (msg_line (subscriptionId s) json) c else c)"

definition deliver_xsub :: "string \<Rightarrow> string \<Rightarrow> string \<Rightarrow> xsub \<Rightarrow> client \<Rightarrow> client" where
  "deliver_xsub tn mn json x c =
     (if \<not> glob_matches (topicPattern x) tn \<or> \<not> glob_matches (messagePattern x) mn then c
      else let ((i, isNew), c) = ensureConcreteSubscription (streamId x) tn mn c;
               c = (if isNew then sendLine (xsubinfo_line (streamId x) i tn mn) c else c)
           in sendLine (msg_line i json) c)"

text \<open>
  The two phases of the loop body: the copy of the subscriptions, under the mutex, and the sending,
  which takes the mutex once for each stream.
\<close>

definition subs_snapshot :: "client \<Rightarrow> xsub list \<times> standard_sub list" where
  "subs_snapshot c = (xsubs c, map snd (standardSubs c))"

definition send_snapshot :: "string \<Rightarrow> string \<Rightarrow> string \<Rightarrow> xsub list \<times> standard_sub list \<Rightarrow> client \<Rightarrow> client" where
  "send_snapshot tn mn json snap c =
     fold (deliver_xsub tn mn json) (fst snap) (fold (deliver_standard tn mn json) (snd snap) c)"

definition deliver_client :: "string \<Rightarrow> string \<Rightarrow> string \<Rightarrow> client \<Rightarrow> client" where
  "deliver_client tn mn json c = send_snapshot tn mn json (subs_snapshot c) c"

section \<open>The registry of sessions\<close>

text \<open>A weak pointer is None once the session is gone.\<close>

type_synonym client_registry = "client option list"

definition registry_add :: "client \<Rightarrow> client_registry \<Rightarrow> client_registry" where
  "registry_add c r = r @ [Some c]"

definition removeClosed :: "client_registry \<Rightarrow> client_registry" where
  "removeClosed r = filter (\<lambda>w. case w of None \<Rightarrow> False | Some c \<Rightarrow> is_open c) r"

text \<open>\<open>snapshot()\<close>: the open sessions, and the registry without the sessions that are gone.\<close>

definition registry_snapshot :: "client_registry \<Rightarrow> client list \<times> client_registry" where
  "registry_snapshot r =
     (filter is_open (map the (filter (\<lambda>w. w \<noteq> None) r)), filter (\<lambda>w. w \<noteq> None) r)"

text \<open>\<open>TopicMonitor::deliver\<close>: every open session of the registry, then the closed ones removed.\<close>

definition deliver :: "string \<Rightarrow> string \<Rightarrow> string \<Rightarrow> client_registry \<Rightarrow> client_registry" where
  "deliver tn mn json r =
     removeClosed (map (map_option (\<lambda>c. if is_open c then deliver_client tn mn json c else c))
       (snd (registry_snapshot r)))"

end
