(* ===== verification/Owp_Subscriptions.thy ===== *)
theory Owp_Subscriptions
  imports Owp_Session
begin

text \<open>
  What an OWP session promises its client: nothing before INIT, the subscriptions the client asked for
  and no other, stable and distinct ids for the concrete subscriptions of its wildcard streams, each
  announced, and lines written in order, one at a time. Two places where a promise is not kept are
  stated as theorems too.
\<close>

section \<open>Runs of a session\<close>

text \<open>
  A line from the client (read only while the session is open), a message delivered to the session,
  or the end of the connection.
\<close>

datatype event = Line string | Message string string string | Disconnect

fun session_step :: "'j json_api \<Rightarrow> (jval \<Rightarrow> string) \<Rightarrow> u16 \<Rightarrow> event \<Rightarrow> client \<Rightarrow> client" where
  "session_step J dump port (Line p) c = (if is_open c then handleLine J dump port p c else c)"
| "session_step J dump port (Message tn mn json) c = (if is_open c then deliver_client tn mn json c else c)"
| "session_step J dump port Disconnect c = c\<lparr>is_open := False\<rparr>"

definition session_run :: "'j json_api \<Rightarrow> (jval \<Rightarrow> string) \<Rightarrow> u16 \<Rightarrow> event list \<Rightarrow> client" where
  "session_run J dump port es = fold (session_step J dump port) es new_client"

lemma session_run_invariant:
  assumes "I new_client" and "\<And>e c. I c \<Longrightarrow> I (session_step J dump port e c)"
  shows "I (session_run J dump port es)"
proof -
  have "I (fold (session_step J dump port) es c)" if "I c" for c
    using that by (induction es arbitrary: c) (simp_all add: assms(2))
  then show ?thesis using assms(1) by (simp add: session_run_def)
qed

lemma sendLine_simps [simp]:
  "initialized (sendLine l c) = initialized c" "xsubs (sendLine l c) = xsubs c"
  "standardSubs (sendLine l c) = standardSubs c" "concreteSubs (sendLine l c) = concreteSubs c"
  "is_open (sendLine l c) = is_open c" "nextSubId (sendLine l c) = nextSubId c" "verbose (sendLine l c) = verbose c"
  by (simp_all add: sendLine_def)

lemma send_ok_simps [simp]:
  "initialized (send_ok c) = initialized c" "xsubs (send_ok c) = xsubs c"
  "standardSubs (send_ok c) = standardSubs c" "concreteSubs (send_ok c) = concreteSubs c"
  "is_open (send_ok c) = is_open c" "nextSubId (send_ok c) = nextSubId c"
  by (simp_all add: send_ok_def)

lemma posted_sendLine: "posted (sendLine l c) = posted c @ (if is_open c then [l] else [])"
  by (simp add: sendLine_def)

lemma posted_send_ok: "posted (send_ok c) = posted c @ (if is_open c \<and> verbose c then [''+OK''] else [])"
  by (simp add: send_ok_def sendLine_def)

section \<open>INIT first\<close>

definition is_err :: "string \<Rightarrow> bool" where
  "is_err l = (take 5 l = ''-ERR '')"

text \<open>A session that is not initialised has no subscription and has been sent errors only.\<close>

definition gated :: "client \<Rightarrow> bool" where
  "gated c = (initialized c \<or>
     (xsubs c = [] \<and> standardSubs c = [] \<and> concreteSubs c = [] \<and> list_all is_err (posted c)))"

lemma is_err_simp [simp]: "is_err (CHR ''-'' # CHR ''E'' # CHR ''R'' # CHR ''R'' # CHR '' '' # l)"
  by (simp add: is_err_def)

lemma gated_sendLine: "gated c \<Longrightarrow> is_err l \<Longrightarrow> gated (sendLine l c)"
  by (auto simp: gated_def posted_sendLine)

lemma gated_update [simp]:
  "gated (c\<lparr>verbose := v\<rparr>) = gated c" "gated (c\<lparr>is_open := w\<rparr>) = gated c"
  by (simp_all add: gated_def)

lemma gated_initialized: "initialized c \<Longrightarrow> gated c"
  by (simp add: gated_def)

lemma handleInit_gated: "gated c \<Longrightarrow> gated (fst (handleInit J dump rest port c))"
  by (simp add: handleInit_def Let_def gated_sendLine gated_initialized split: sum.splits bool.splits)

lemma handleLine_gated: "gated c \<Longrightarrow> gated (handleLine J dump port p c)"
proof (cases "firstField p")
  case None
  then show "gated c \<Longrightarrow> gated (handleLine J dump port p c)" by (simp add: handleLine_def)
next
  case (Some f)
  assume c: "gated c"
  obtain op rest where f: "f = (op, rest)" by (cases f)
  obtain c' ok where i: "handleInit J dump rest port c = (c', ok)" by (cases "handleInit J dump rest port c")
  with handleInit_gated [OF c, of J dump rest port] have "gated c'" by simp
  moreover have "gated (if \<not> initialized c
      then (sendLine ''-ERR Illegal-State INIT must be first operation'' c)\<lparr>is_open := False\<rparr> else c1)"
    if "initialized c \<Longrightarrow> gated c1" for c1
    using that c by (simp add: gated_sendLine)
  moreover have "initialized (handleXSub rest c) = initialized c" "initialized (handleXUnsub rest c) = initialized c"
    "initialized (handleSub rest c) = initialized c" "initialized (handleUnsub rest c) = initialized c"
    by (simp_all add: handleXSub_def handleXUnsub_def handleSub_def handleUnsub_def Let_def)
  ultimately show "gated (handleLine J dump port p c)"
    by (simp add: handleLine_def Some f i gated_initialized)
qed

lemma fold_id: "(\<And>x. x \<in> set xs \<Longrightarrow> f x c = c) \<Longrightarrow> fold f xs c = c"
  by (induction xs) simp_all

lemma deliver_client_initialized [simp]:
  "initialized (deliver_client tn mn json c) = initialized c"
proof -
  have "initialized (fold (deliver_standard tn mn json) ss c) = initialized c" for ss c
    by (induction ss arbitrary: c) (simp_all add: deliver_standard_def)
  moreover have "initialized (deliver_xsub tn mn json x c) = initialized c" for x c
    by (simp add: deliver_xsub_def ensureConcreteSubscription_def Let_def split: option.splits prod.splits)
  then have "initialized (fold (deliver_xsub tn mn json) xs c) = initialized c" for xs c
    by (induction xs arbitrary: c) simp_all
  ultimately show ?thesis by (simp add: deliver_client_def send_snapshot_def)
qed

lemma session_step_gated: "gated c \<Longrightarrow> gated (session_step J dump port e c)"
proof (cases e)
  case (Message tn mn json)
  assume c: "gated c"
  show ?thesis
  proof (cases "initialized c")
    case True
    then show ?thesis by (simp add: Message gated_def)
  next
    case False
    with c have "deliver_client tn mn json c = c"
      by (simp add: gated_def deliver_client_def send_snapshot_def subs_snapshot_def)
    with c show ?thesis by (simp add: Message)
  qed
qed (simp_all add: handleLine_gated)

text \<open>
  Nothing before INIT: after any sequence of lines, deliveries and disconnections, a session that
  has not completed INIT has no subscription of any kind and every line it was sent is an error.
\<close>

theorem nothing_before_init:
  assumes "\<not> initialized (session_run J dump port es)"
  shows "xsubs (session_run J dump port es) = [] \<and> standardSubs (session_run J dump port es) = [] \<and>
    concreteSubs (session_run J dump port es) = [] \<and> list_all is_err (posted (session_run J dump port es))"
proof -
  have "gated new_client" by (simp add: gated_def new_client_def)
  then have "gated (session_run J dump port es)"
    by (rule session_run_invariant) (rule session_step_gated)
  with assms show ?thesis by (simp add: gated_def)
qed

text \<open>A JSON library that rejects every text, to run sessions with.\<close>

definition no_json :: "unit json_api" where
  "no_json = \<lparr>parse = (\<lambda>_. Inl (JsonException ''parse error'')), contains = (\<lambda>_ _. False),
     element = (\<lambda>_ _. Inl (JsonException ''type error'')), items = (\<lambda>_. []), is_object = (\<lambda>_. False),
     is_array = (\<lambda>_. False), is_string = (\<lambda>_. False), is_boolean = (\<lambda>_. False), is_number = (\<lambda>_. False),
     is_number_integer = (\<lambda>_. False), is_number_unsigned = (\<lambda>_. False),
     get_string = (\<lambda>_. Inl (JsonException ''type error'')), get_bool = (\<lambda>_. Inl (JsonException ''type error'')),
     get_int64 = (\<lambda>_. Inl (JsonException ''type error'')), get_uint64 = (\<lambda>_. Inl (JsonException ''type error'')),
     get_float = (\<lambda>_. Inl (JsonException ''type error'')), get_double = (\<lambda>_. Inl (JsonException ''type error'')),
     find_member = (\<lambda>_ _. None)\<rparr>"

lemma firstField_join: "list_all field_ok (op # fs) \<Longrightarrow>
    \<exists>rest. firstField (join (op # fs)) = Some (op, rest) \<and> splitFields rest = fs"
  using firstField_of_join [of op fs "[]" "[]"] by simp

theorem nothing_before_init_witness:
  "standardSubs (session_run no_json (\<lambda>_. []) 8766 [Line ''SUB s1 EntityMDT Entity'', Message ''Entity'' ''EntityMDT'' ''{}'']) = []"
proof -
  let ?es = "[Line ''SUB s1 EntityMDT Entity'', Message ''Entity'' ''EntityMDT'' ''{}'']"
  obtain rest where "firstField ''SUB s1 EntityMDT Entity'' = Some (''SUB'', rest)"
    using firstField_join [of "''SUB''" "[''s1'', ''EntityMDT'', ''Entity'']"] by (auto simp: field_ok_def isspace_def)
  then have "\<not> initialized (session_run no_json (\<lambda>_. []) 8766 ?es)"
    by (simp add: session_run_def handleLine_def new_client_def)
  from nothing_before_init [OF this] show ?thesis by blast
qed

section \<open>SUB and UNSUB are a map\<close>

lemma map_of_filter_key: "map_of (filter (\<lambda>e. fst e \<noteq> k) xs) = (map_of xs)(k := None)"
  by (induction xs) (auto simp: fun_eq_iff)

lemma map_of_snoc: "map_of xs k = None \<Longrightarrow> map_of (xs @ [(k, v)]) = (map_of xs)(k \<mapsto> v)"
  by (auto simp: fun_eq_iff map_add_def split: option.splits)

text \<open>The standard subscriptions of a session, as the client knows them: a map from ids.\<close>

definition subs :: "client \<Rightarrow> string \<Rightarrow> standard_sub option" where
  "subs c = map_of (standardSubs c)"

lemma validToken_fields: "validToken t \<Longrightarrow> field_ok t"
  by (rule validToken_field_ok)

lemma handleLine_fields:
  assumes "list_all field_ok (op # fs)"
  obtains rest where "firstField (join (op # fs)) = Some (op, rest)" "splitFields rest = fs"
  using firstField_join [OF assms] by blast

text \<open>
  C20: On an initialised session SUB and UNSUB are insertion into and deletion from a map of
  subscription ids: SUB with a free id adds exactly that subscription, SUB with a used id and UNSUB of
  an unknown one change nothing and are answered with an error, UNSUB removes exactly its id.
\<close>

theorem sub_unsub_are_map_operations:
  assumes "is_open c" and "initialized c" and "validToken i" and "validToken t" and "field_ok m"
  shows "(let c1 = handleLine J dump port (join [''SUB'', i, m, t]) c;
              c2 = handleLine J dump port (join [''UNSUB'', i]) c;
              ack = (if verbose c then [''+OK''] else []) in
    subs c1 = (case subs c i of None \<Rightarrow> (subs c)(i \<mapsto> \<lparr>subscriptionId = i, messageName = m, topic = t\<rparr>) | Some _ \<Rightarrow> subs c) \<and>
    posted c1 = posted c @ (case subs c i of None \<Rightarrow> ack | Some _ \<Rightarrow> [''-ERR Illegal-State subscription-id already in use'']) \<and>
    subs c2 = (subs c)(i := None) \<and>
    posted c2 = posted c @ (case subs c i of None \<Rightarrow> [''-ERR Illegal-State subscription-id is not active''] | Some _ \<Rightarrow> ack) \<and>
    is_open c1 \<and> is_open c2 \<and> xsubs c1 = xsubs c \<and> xsubs c2 = xsubs c)"
proof -
  have op: "field_ok ''SUB''" "field_ok ''UNSUB''" by (simp_all add: field_ok_def isspace_def)
  obtain r1 where r1: "firstField (join [''SUB'', i, m, t]) = Some (''SUB'', r1)" "splitFields r1 = [i, m, t]"
    by (rule handleLine_fields [of "''SUB''" "[i, m, t]"]) (simp_all add: op assms validToken_fields)
  obtain r2 where r2: "firstField (join [''UNSUB'', i]) = Some (''UNSUB'', r2)" "splitFields r2 = [i]"
    by (rule handleLine_fields [of "''UNSUB''" "[i]"]) (simp_all add: op assms validToken_fields)
  have c1: "handleLine J dump port (join [''SUB'', i, m, t]) c = handleSub r1 c"
    using r1(1) assms(2) by (simp add: handleLine_def)
  have c2: "handleLine J dump port (join [''UNSUB'', i]) c = handleUnsub r2 c"
    using r2(1) assms(2) by (simp add: handleLine_def)
  show ?thesis
    unfolding Let_def c1 c2
    by (cases "map_of (standardSubs c) i")
      (auto simp: handleSub_def handleUnsub_def Let_def r1(2) r2(2) assms subs_def map_of_snoc map_of_filter_key
        posted_sendLine posted_send_ok fun_upd_idem simp del: map_of_append)
qed

theorem sub_unsub_are_map_operations_witness:
  "subs (handleLine no_json (\<lambda>_. []) 8766 (join [''SUB'', ''s1'', ''EntityMDT'', ''Entity'']) (new_client\<lparr>initialized := True\<rparr>)) ''s1'' =
     Some \<lparr>subscriptionId = ''s1'', messageName = ''EntityMDT'', topic = ''Entity''\<rparr>"
  using sub_unsub_are_map_operations [of "new_client\<lparr>initialized := True\<rparr>" "''s1''" "''Entity''" "''EntityMDT''"
      no_json "\<lambda>_. []" 8766]
  by (simp add: new_client_def validToken_def is_alnum_def field_ok_def isspace_def subs_def Let_def)

section \<open>Concrete subscriptions of wildcard streams\<close>

definition xsub_id :: "nat \<Rightarrow> string" where
  "xsub_id n = ''xsub.'' @ dec_of_nat n"

lemma xsub_id_inject [simp]: "xsub_id m = xsub_id n \<longleftrightarrow> m = n"
  by (simp add: xsub_id_def)

text \<open>Ids were handed out in order and none twice.\<close>

definition ids_ok :: "client \<Rightarrow> bool" where
  "ids_ok c = (distinct (map fst (concreteSubs c)) \<and> distinct (map snd (concreteSubs c)) \<and>
     (\<forall>e \<in> set (concreteSubs c). \<exists>n. n < unat (nextSubId c) \<and> snd e = xsub_id n))"

text \<open>A key determines its stream, topic and message name when no newline occurs in the first two.\<close>

lemma newline_split: "a @ newline @ b = a' @ newline @ b' \<Longrightarrow> CHR 0x0A \<notin> set a \<Longrightarrow> CHR 0x0A \<notin> set a' \<Longrightarrow> a = a' \<and> b = b'"
proof (induction a arbitrary: a')
  case Nil
  then show ?case by (cases a') (auto simp: newline_def)
next
  case (Cons c a)
  then show ?case by (cases a') (auto simp: newline_def)
qed

lemma concrete_key_inject:
  assumes "concrete_key s t m = concrete_key s' t' m'"
    and "CHR 0x0A \<notin> set s \<union> set s' \<union> set t \<union> set t'"
  shows "s = s' \<and> t = t' \<and> m = m'"
proof -
  have "s = s' \<and> t @ newline @ m = t' @ newline @ m'"
    using assms by (intro newline_split) (auto simp: concrete_key_def)
  moreover from this have "t = t' \<and> m = m'"
    using assms(2) by (intro newline_split) auto
  ultimately show ?thesis by blast
qed

lemma key_of_stream_concrete_key:
  assumes "CHR 0x0A \<notin> set s \<union> set s'"
  shows "key_of_stream s (concrete_key s' t m) \<longleftrightarrow> s = s'"
proof
  assume "key_of_stream s (concrete_key s' t m)"
  then have "s @ newline @ drop (length (s @ newline)) (concrete_key s' t m) = s' @ newline @ t @ newline @ m"
    unfolding key_of_stream_def concrete_key_def by (metis append_assoc append_take_drop_id)
  then show "s = s'" using newline_split assms by blast
next
  assume "s = s'"
  then show "key_of_stream s (concrete_key s' t m)"
    by (simp add: key_of_stream_def concrete_key_def)
qed

text \<open>
  The id of a concrete subscription is stable and unique: the first message of a stream on a
  topic creates an id no concrete subscription of the session has, later ones find it again, the ids of
  the other concrete subscriptions do not change, and no two concrete subscriptions share an id (until
  \<open>2^64 - 1\<close> ids have been handed out).
\<close>

theorem concrete_ids_are_stable_and_unique:
  assumes "ids_ok c" and "unat (nextSubId c) + 1 < 2 ^ 64"
    and "ensureConcreteSubscription sid tn mn c = ((i, isNew), c')"
  shows "ids_ok c' \<and> map_of (concreteSubs c') (concrete_key sid tn mn) = Some i \<and>
    (isNew \<longleftrightarrow> map_of (concreteSubs c) (concrete_key sid tn mn) = None) \<and>
    (isNew \<longrightarrow> i \<notin> snd ` set (concreteSubs c)) \<and>
    (\<forall>k. k \<noteq> concrete_key sid tn mn \<longrightarrow> map_of (concreteSubs c') k = map_of (concreteSubs c) k) \<and>
    ensureConcreteSubscription sid tn mn c' = ((i, False), c')"
proof (cases "map_of (concreteSubs c) (concrete_key sid tn mn)")
  case None
  have next_id: "unat (nextSubId c + 1) = unat (nextSubId c) + 1"
    using assms(2) by (simp add: unat_word_ariths)
  have i: "i = xsub_id (unat (nextSubId c))" "isNew"
      "c' = c\<lparr>nextSubId := nextSubId c + 1, concreteSubs := (concrete_key sid tn mn, i) # concreteSubs c\<rparr>"
    using assms(3) None by (auto simp: ensureConcreteSubscription_def Let_def xsub_id_def)
  have fresh: "i \<notin> snd ` set (concreteSubs c)"
    using assms(1) by (auto simp: ids_ok_def i(1))
  have "concrete_key sid tn mn \<notin> fst ` set (concreteSubs c)"
    using None by (simp add: map_of_eq_None_iff)
  moreover have "\<exists>n. n < unat (nextSubId c + 1) \<and> snd e = xsub_id n" if "e \<in> set (concreteSubs c)" for e
    using assms(1) that by (auto simp: ids_ok_def next_id intro: less_SucI)
  ultimately have "ids_ok c'"
    using assms(1) fresh by (auto simp: ids_ok_def i next_id image_iff)
  with fresh i None show ?thesis by (simp add: ensureConcreteSubscription_def Let_def)
next
  case (Some j)
  with assms show ?thesis by (auto simp: ensureConcreteSubscription_def Let_def)
qed

lemma ids_ok_new_client: "ids_ok new_client"
  by (simp add: ids_ok_def new_client_def)

theorem concrete_ids_are_stable_and_unique_witness:
  "ids_ok (snd (ensureConcreteSubscription ''s'' ''T'' ''M'' new_client))"
  using concrete_ids_are_stable_and_unique [OF ids_ok_new_client, of "''s''" "''T''" "''M''" "''xsub.1''" True
      "snd (ensureConcreteSubscription ''s'' ''T'' ''M'' new_client)"]
  by (simp add: new_client_def ensureConcreteSubscription_def Let_def dec_of_nat.simps hex_digit_def)

text \<open>
  C21: XUNSUB of a stream removes the stream and exactly its concrete subscriptions: those of every
  other stream, and the standard subscriptions, stay.
\<close>

theorem xunsub_removes_exactly_the_stream:
  assumes "is_open c" and "initialized c" and "validToken sid"
  shows "(let c' = handleLine J dump port (join [''XUNSUB'', sid]) c in
    xsubs c' = filter (\<lambda>x. streamId x \<noteq> sid) (xsubs c) \<and> standardSubs c' = standardSubs c \<and>
    (\<forall>s t m. CHR 0x0A \<notin> set s \<longrightarrow>
      map_of (concreteSubs c') (concrete_key s t m) =
        (if s = sid then None else map_of (concreteSubs c) (concrete_key s t m))))"
proof -
  have op: "field_ok ''XUNSUB''" by (simp add: field_ok_def isspace_def)
  obtain r where r: "firstField (join [''XUNSUB'', sid]) = Some (''XUNSUB'', r)" "splitFields r = [sid]"
    by (rule handleLine_fields [of "''XUNSUB''" "[sid]"]) (simp_all add: op assms validToken_fields)
  have nl: "CHR 0x0A \<notin> set sid" by (rule field_ok_no_newline) (rule validToken_field_ok [OF assms(3)])
  have filter: "map_of (filter (\<lambda>e. \<not> key_of_stream sid (fst e)) xs) k =
      (if key_of_stream sid k then None else map_of xs k)" for xs :: "(string \<times> string) list" and k
    by (induction xs) auto
  have "handleLine J dump port (join [''XUNSUB'', sid]) c = handleXUnsub r c"
    using r(1) assms(2) by (simp add: handleLine_def)
  then show ?thesis
    using nl assms(3) by (auto simp: handleXUnsub_def Let_def r(2) filter key_of_stream_concrete_key)
qed

theorem xunsub_removes_exactly_the_stream_witness:
  "xsubs (handleLine no_json (\<lambda>_. []) 8766 (join [''XUNSUB'', ''s''])
     (new_client\<lparr>initialized := True, xsubs := [\<lparr>streamId = ''s'', topicPattern = ''*'', messagePattern = ''*''\<rparr>]\<rparr>)) = []"
  using xunsub_removes_exactly_the_stream [of "new_client\<lparr>initialized := True,
      xsubs := [\<lparr>streamId = ''s'', topicPattern = ''*'', messagePattern = ''*''\<rparr>]\<rparr>" "''s''" no_json "\<lambda>_. []" 8766]
  by (simp add: new_client_def validToken_def is_alnum_def Let_def)

section \<open>Delivery\<close>

definition wants :: "string \<Rightarrow> string \<Rightarrow> standard_sub \<Rightarrow> bool" where
  "wants tn mn s = (topic s = tn \<and> messageName s = mn)"

definition stream_wants :: "string \<Rightarrow> string \<Rightarrow> xsub \<Rightarrow> bool" where
  "stream_wants tn mn x = (glob_matches (topicPattern x) tn \<and> glob_matches (messagePattern x) mn)"

lemma fold_deliver_standard:
  "is_open c \<Longrightarrow> fold (deliver_standard tn mn json) ss c =
     c\<lparr>posted := posted c @ map (\<lambda>s. msg_line (subscriptionId s) json) (filter (wants tn mn) ss)\<rparr>"
  by (induction ss arbitrary: c) (auto simp: deliver_standard_def wants_def sendLine_def)

text \<open>What sending to one wildcard stream does, on an open session.\<close>

lemma deliver_xsub_open:
  assumes "is_open c"
  shows "deliver_xsub tn mn json x c =
    (if stream_wants tn mn x
     then let ((i, isNew), c') = ensureConcreteSubscription (streamId x) tn mn c
          in c'\<lparr>posted := posted c @ (if isNew then [xsubinfo_line (streamId x) i tn mn] else []) @ [msg_line i json]\<rparr>
     else c)"
  using assms by (auto simp: deliver_xsub_def stream_wants_def Let_def ensureConcreteSubscription_def sendLine_def
      split: option.splits)

text \<open>Facts that survive sending: what was posted, and the ids that exist.\<close>

definition extends :: "client \<Rightarrow> client \<Rightarrow> bool" where
  "extends c c' = (is_open c' = is_open c \<and> xsubs c' = xsubs c \<and> standardSubs c' = standardSubs c \<and>
     (\<exists>ls. posted c' = posted c @ ls) \<and>
     (\<forall>k i. map_of (concreteSubs c) k = Some i \<longrightarrow> map_of (concreteSubs c') k = Some i))"

lemma extends_refl [simp]: "extends c c"
  by (simp add: extends_def)

lemma extends_trans: "extends a b \<Longrightarrow> extends b c \<Longrightarrow> extends a c"
  by (auto simp: extends_def)

lemma deliver_xsub_extends: "is_open c \<Longrightarrow> extends c (deliver_xsub tn mn json x c)"
  by (auto simp: deliver_xsub_open extends_def ensureConcreteSubscription_def Let_def split: option.splits)

lemma fold_deliver_xsub_extends: "is_open c \<Longrightarrow> extends c (fold (deliver_xsub tn mn json) xs c)"
proof (induction xs arbitrary: c)
  case (Cons x xs)
  have "extends c (deliver_xsub tn mn json x c)" by (rule deliver_xsub_extends [OF Cons.prems])
  moreover from this Cons.prems have "is_open (deliver_xsub tn mn json x c)" by (simp add: extends_def)
  ultimately show ?case using Cons.IH extends_trans by fastforce
qed simp

lemma deliver_xsub_sends:
  assumes "is_open c" "stream_wants tn mn x"
  shows "\<exists>i. map_of (concreteSubs (deliver_xsub tn mn json x c)) (concrete_key (streamId x) tn mn) = Some i \<and>
    msg_line i json \<in> set (posted (deliver_xsub tn mn json x c))"
  using assms by (simp add: deliver_xsub_open ensureConcreteSubscription_def Let_def split: option.splits)

lemma fold_deliver_xsub_sends:
  "is_open c \<Longrightarrow> x \<in> set xs \<Longrightarrow> stream_wants tn mn x \<Longrightarrow>
    \<exists>i. map_of (concreteSubs (fold (deliver_xsub tn mn json) xs c)) (concrete_key (streamId x) tn mn) = Some i \<and>
      msg_line i json \<in> set (posted (fold (deliver_xsub tn mn json) xs c))"
proof (induction xs arbitrary: c)
  case Nil
  then show ?case by simp
next
  case (Cons y xs)
  let ?c = "deliver_xsub tn mn json y c"
  have ext: "extends c ?c" by (rule deliver_xsub_extends [OF Cons.prems(1)])
  then have op: "is_open ?c" using Cons.prems(1) by (simp add: extends_def)
  show ?case
  proof (cases "x \<in> set xs")
    case True
    with Cons.IH [OF op] Cons.prems show ?thesis by simp
  next
    case False
    with Cons.prems have "x = y" by simp
    with deliver_xsub_sends [OF Cons.prems(1), of tn mn x json] Cons.prems(3) obtain i where
      "map_of (concreteSubs ?c) (concrete_key (streamId x) tn mn) = Some i" "msg_line i json \<in> set (posted ?c)" by auto
    with fold_deliver_xsub_extends [OF op, of tn mn json xs] show ?thesis
      by (auto simp: extends_def intro!: exI [of _ i])
  qed
qed



lemma glob_matches_any: "CHR ''*'' \<notin> set s \<Longrightarrow> glob_matches ''*'' s"
proof -
  assume "CHR ''*'' \<notin> set s"
  moreover have "glob ''*'' s" by (auto simp: glob_star intro: exI [of _ "length s"])
  ultimately show ?thesis using globMatch_eq [of s "''*''"] by (simp add: glob_matches_def)
qed

section \<open>Concrete subscriptions are announced\<close>

definition announced :: "client \<Rightarrow> bool" where
  "announced c = (is_open c \<longrightarrow> (\<forall>(k, i) \<in> set (concreteSubs c). \<exists>sid tn mn.
     k = concrete_key sid tn mn \<and> xsubinfo_line sid i tn mn \<in> set (posted c)))"

lemma announced_mono:
  "announced c \<Longrightarrow> is_open c \<Longrightarrow> set (concreteSubs c') \<subseteq> set (concreteSubs c) \<Longrightarrow>
     set (posted c) \<subseteq> set (posted c') \<Longrightarrow> announced c'"
  unfolding announced_def by blast

lemma deliver_xsub_announced: "is_open c \<Longrightarrow> announced c \<Longrightarrow> announced (deliver_xsub tn mn json x c)"
  by (auto simp: deliver_xsub_open ensureConcreteSubscription_def Let_def announced_def split: option.splits)
     blast+

lemma fold_deliver_xsub_announced:
  "is_open c \<Longrightarrow> announced c \<Longrightarrow> announced (fold (deliver_xsub tn mn json) xs c)"
proof (induction xs arbitrary: c)
  case (Cons x xs)
  then show ?case
    using deliver_xsub_extends [of c tn mn json x] by (auto simp: extends_def intro!: Cons.IH deliver_xsub_announced)
qed simp

lemma deliver_client_announced: "is_open c \<Longrightarrow> announced c \<Longrightarrow> announced (deliver_client tn mn json c)"
  unfolding deliver_client_def send_snapshot_def subs_snapshot_def fst_conv snd_conv
  by (rule fold_deliver_xsub_announced)
    (auto simp: fold_deliver_standard intro: announced_mono)

text \<open>A line adds no concrete subscription and takes back nothing that was sent.\<close>

definition keeps :: "client \<Rightarrow> client \<Rightarrow> bool" where
  "keeps c c' = (set (concreteSubs c') \<subseteq> set (concreteSubs c) \<and> set (posted c) \<subseteq> set (posted c') \<and>
     (is_open c' \<longrightarrow> is_open c))"

lemma keeps_sendLine: "keeps c c' \<Longrightarrow> keeps c (sendLine l c')"
  by (auto simp: keeps_def posted_sendLine)

lemma keeps_send_ok: "keeps c c' \<Longrightarrow> keeps c (send_ok c')"
  by (simp add: send_ok_def keeps_sendLine)

lemma keeps_refl [simp]: "keeps c c"
  by (simp add: keeps_def)

lemma keeps_closed: "keeps c c' \<Longrightarrow> keeps c (c'\<lparr>is_open := False\<rparr>)"
  by (simp add: keeps_def)

lemma keeps_settings: "keeps c (c\<lparr>verbose := v\<rparr>)" "keeps c (c\<lparr>verbose := v, serviceId := sid, initialized := True\<rparr>)"
  by (simp_all add: keeps_def)

lemma keeps_subs: "keeps c (c\<lparr>xsubs := xs\<rparr>)" "keeps c (c\<lparr>standardSubs := ss\<rparr>)"
    "keeps c (c\<lparr>xsubs := xs, concreteSubs := filter P (concreteSubs c)\<rparr>)"
  by (auto simp: keeps_def)

lemmas keeps_intros = keeps_sendLine keeps_send_ok keeps_closed keeps_settings keeps_subs

lemma handleInit_keeps: "keeps c (fst (handleInit J dump rest port c))"
  by (simp add: handleInit_def Let_def keeps_intros split: sum.splits bool.splits)

lemma handleLine_keeps: "keeps c (handleLine J dump port p c)"
proof (cases "firstField p")
  case None
  then show ?thesis by (simp add: handleLine_def)
next
  case (Some f)
  obtain op rest where f: "f = (op, rest)" by (cases f)
  obtain c' ok where i: "handleInit J dump rest port c = (c', ok)" by (cases "handleInit J dump rest port c")
  with handleInit_keeps [of c J dump rest port] have "keeps c c'" by simp
  then show ?thesis
    by (simp add: handleLine_def Some f i handleXSub_def handleXUnsub_def handleSub_def handleUnsub_def Let_def keeps_intros)
qed

lemma keeps_announced: "keeps c c' \<Longrightarrow> announced c \<Longrightarrow> announced c'"
  unfolding keeps_def announced_def by blast

text \<open>
  C22: In every run of a session that is still open, each concrete subscription has been announced to
  the client by an XSUBINFO line that names its stream, its id, its topic and its message name.
\<close>

theorem concrete_subscriptions_are_announced:
  assumes "is_open (session_run J dump port es)" and "(k, i) \<in> set (concreteSubs (session_run J dump port es))"
  shows "\<exists>sid tn mn. k = concrete_key sid tn mn \<and> xsubinfo_line sid i tn mn \<in> set (posted (session_run J dump port es))"
proof -
  have "announced (session_run J dump port es)"
  proof (rule session_run_invariant)
    show "announced new_client" by (simp add: announced_def new_client_def)
    show "announced (session_step J dump port e c)" if "announced c" for e c
    proof (cases e)
      case Disconnect
      then show ?thesis by (simp add: announced_def)
    qed (simp_all add: that keeps_announced [OF handleLine_keeps] deliver_client_announced)
  qed
  with assms show ?thesis unfolding announced_def by blast
qed

text \<open>A JSON library that reads every text as a document with all the fields of INIT.\<close>

definition any_json :: "unit json_api" where
  "any_json = no_json\<lparr>parse := (\<lambda>_. Inr ()), contains := (\<lambda>_ _. True), element := (\<lambda>_ _. Inr ()),
     is_object := (\<lambda>_. True), items := (\<lambda>_. [()]), get_string := (\<lambda>_. Inr ''1.0''), get_bool := (\<lambda>_. Inr True)\<rparr>"

lemma streaming_run:
  "let c = session_run any_json (\<lambda>_. []) 8766
      [Line (join [''INIT'', ''{}'']), Line (join [''XSUB'', ''bus'', ''*'']), Message ''Strike'' ''StrikeMDT'' ''{}''] in
    is_open c \<and> concreteSubs c = [(concrete_key ''bus'' ''Strike'' ''StrikeMDT'', ''xsub.1'')]"
proof -
  obtain r1 where r1: "firstField (join [''INIT'', ''{}'']) = Some (''INIT'', r1)"
    by (rule handleLine_fields [of "''INIT''" "[''{}'']"]) (simp_all add: field_ok_def isspace_def)
  obtain r2 where r2: "firstField (join [''XSUB'', ''bus'', ''*'']) = Some (''XSUB'', r2)" "splitFields r2 = [''bus'', ''*'']"
    by (rule handleLine_fields [of "''XSUB''" "[''bus'', ''*'']"]) (simp_all add: field_ok_def isspace_def)
  let ?c1 = "handleLine any_json (\<lambda>_. []) 8766 (join [''INIT'', ''{}'']) new_client"
  have c1: "is_open ?c1" "initialized ?c1" "xsubs ?c1 = []" "standardSubs ?c1 = []" "concreteSubs ?c1 = []" "nextSubId ?c1 = 1"
    using r1 by (simp_all add: handleLine_def handleInit_def any_json_def no_json_def some_version_10_def
        value_bool_def new_client_def rbind_def Let_def send_ok_def sendLine_def)
  let ?c2 = "handleLine any_json (\<lambda>_. []) 8766 (join [''XSUB'', ''bus'', ''*'']) ?c1"
  have c2: "?c2 = send_ok (?c1\<lparr>xsubs := [\<lparr>streamId = ''bus'', topicPattern = ''*'', messagePattern = ''*''\<rparr>]\<rparr>)"
  proof -
    have "handleLine any_json (\<lambda>_. []) 8766 (join [''XSUB'', ''bus'', ''*'']) c =
        send_ok (c\<lparr>xsubs := xsubs c @ [\<lparr>streamId = ''bus'', topicPattern = ''*'', messagePattern = ''*''\<rparr>]\<rparr>)"
      if "initialized c" for c
      using r2 that by (simp add: handleLine_def handleXSub_def validToken_def is_alnum_def)
    from this [OF c1(2)] c1(3) show ?thesis by simp
  qed
  have w: "stream_wants ''Strike'' ''StrikeMDT'' \<lparr>streamId = ''bus'', topicPattern = ''*'', messagePattern = ''*''\<rparr>"
    by (simp add: stream_wants_def glob_matches_any)
  have i: "''xsub.'' @ dec_of_nat 1 = ''xsub.1''" by (simp add: dec_of_nat.simps hex_digit_def)
  show ?thesis
    unfolding session_run_def
    by (simp add: c1 c2 deliver_client_def send_snapshot_def subs_snapshot_def deliver_xsub_open w
        ensureConcreteSubscription_def Let_def i [simplified] new_client_def [THEN arg_cong [of _ _ is_open]] del: join.simps)
qed

theorem concrete_subscriptions_are_announced_witness:
  "\<exists>sid tn mn. xsubinfo_line sid ''xsub.1'' tn mn \<in> set (posted (session_run any_json (\<lambda>_. []) 8766
      [Line (join [''INIT'', ''{}'']), Line (join [''XSUB'', ''bus'', ''*'']), Message ''Strike'' ''StrikeMDT'' ''{}'']))"
  using concrete_subscriptions_are_announced [of any_json "\<lambda>_. []" 8766
      "[Line (join [''INIT'', ''{}'']), Line (join [''XSUB'', ''bus'', ''*'']), Message ''Strike'' ''StrikeMDT'' ''{}'']"
      "concrete_key ''bus'' ''Strike'' ''StrikeMDT''" "''xsub.1''"] streaming_run
  unfolding Let_def by auto

section \<open>Promises not kept\<close>

text \<open>A session with one wildcard stream, ready to receive.\<close>

definition streaming :: client where
  "streaming = new_client\<lparr>initialized := True,
     xsubs := [\<lparr>streamId = ''bus'', topicPattern = ''*'', messagePattern = ''*''\<rparr>]\<rparr>"

text \<open>
  A client can take the id of a concrete subscription the server has not created yet: after SUB
  with the id \<open>xsub.1\<close>, the first wildcard message is given the same id, and its messages arrive under
  the id of an unrelated subscription.
\<close>

theorem concrete_id_collides_with_client_id:
  "(let c = handleLine J dump port (join [''SUB'', ''xsub.1'', ''EntityMDT'', ''Entity'']) streaming;
        c' = deliver_client ''Strike'' ''StrikeMDT'' json c in
    (\<exists>s. subs c' ''xsub.1'' = Some s \<and> \<not> wants ''Strike'' ''StrikeMDT'' s) \<and>
    map_of (concreteSubs c') (concrete_key ''bus'' ''Strike'' ''StrikeMDT'') = Some ''xsub.1'' \<and>
    msg_line ''xsub.1'' json \<in> set (posted c'))"
proof -
  have op: "field_ok ''SUB''" by (simp add: field_ok_def isspace_def)
  have fs: "list_all field_ok [''xsub.1'', ''EntityMDT'', ''Entity'']" by (simp add: field_ok_def isspace_def)
  obtain r where r: "firstField (join [''SUB'', ''xsub.1'', ''EntityMDT'', ''Entity'']) = Some (''SUB'', r)"
      "splitFields r = [''xsub.1'', ''EntityMDT'', ''Entity'']"
    by (rule handleLine_fields [of "''SUB''" "[''xsub.1'', ''EntityMDT'', ''Entity'']"]) (use op fs in auto)
  let ?s = "\<lparr>subscriptionId = ''xsub.1'', messageName = ''EntityMDT'', topic = ''Entity''\<rparr>"
  have c: "handleLine J dump port (join [''SUB'', ''xsub.1'', ''EntityMDT'', ''Entity'']) streaming =
      streaming\<lparr>standardSubs := [(''xsub.1'', ?s)], posted := [''+OK'']\<rparr>"
    using r by (simp add: handleLine_def handleSub_def Let_def streaming_def new_client_def validToken_def is_alnum_def
        send_ok_def sendLine_def)
  have w: "stream_wants ''Strike'' ''StrikeMDT'' \<lparr>streamId = ''bus'', topicPattern = ''*'', messagePattern = ''*''\<rparr>"
    by (simp add: stream_wants_def glob_matches_any)
  have i: "''xsub.'' @ dec_of_nat 1 = ''xsub.1''" by (simp add: dec_of_nat.simps hex_digit_def)
  show ?thesis
    unfolding c Let_def
    by (simp add: deliver_client_def send_snapshot_def subs_snapshot_def streaming_def new_client_def
        deliver_standard_def deliver_xsub_open w ensureConcreteSubscription_def Let_def i [simplified] subs_def wants_def)
qed

text \<open>
  XUNSUB can be outrun: when the delivery thread has copied the streams of a session and the
  session then handles XUNSUB, the delivery still creates a concrete subscription of the removed stream
  and sends its message after the +OK.
\<close>

theorem delivery_outruns_xunsub:
  "(let snap = subs_snapshot streaming;
        c = handleLine J dump port (join [''XUNSUB'', ''bus'']) streaming;
        c' = send_snapshot ''Strike'' ''StrikeMDT'' json snap c in
    xsubs c' = [] \<and> map_of (concreteSubs c') (concrete_key ''bus'' ''Strike'' ''StrikeMDT'') = Some ''xsub.1'' \<and>
    posted c' = [''+OK'', xsubinfo_line ''bus'' ''xsub.1'' ''Strike'' ''StrikeMDT'', msg_line ''xsub.1'' json])"
proof -
  have op: "list_all field_ok [''XUNSUB'', ''bus'']" by (simp add: field_ok_def isspace_def)
  obtain r where r: "firstField (join [''XUNSUB'', ''bus'']) = Some (''XUNSUB'', r)" "splitFields r = [''bus'']"
    by (rule handleLine_fields [OF op])
  have c: "handleLine J dump port (join [''XUNSUB'', ''bus'']) streaming = streaming\<lparr>xsubs := [], posted := [''+OK'']\<rparr>"
    using r by (simp add: handleLine_def handleXUnsub_def Let_def streaming_def new_client_def validToken_def is_alnum_def
        send_ok_def sendLine_def)
  have w: "stream_wants ''Strike'' ''StrikeMDT'' \<lparr>streamId = ''bus'', topicPattern = ''*'', messagePattern = ''*''\<rparr>"
    by (simp add: stream_wants_def glob_matches_any)
  have i: "''xsub.'' @ dec_of_nat 1 = ''xsub.1''" by (simp add: dec_of_nat.simps hex_digit_def)
  show ?thesis
    unfolding c Let_def
    by (simp add: send_snapshot_def subs_snapshot_def streaming_def new_client_def
        deliver_xsub_open w ensureConcreteSubscription_def Let_def i [simplified])
qed

section \<open>The write queue\<close>

text \<open>
  The lines posted to the executor, the writes in flight and done (\<open>sendLine\<close>'s closure, \<open>writeNext\<close>).
\<close>

record write_queue =
  writeQueue :: "string list"
  in_flight :: nat
  sent :: "string list"
  failed :: bool

definition writeNext :: "write_queue \<Rightarrow> write_queue" where
  "writeNext w = w\<lparr>in_flight := in_flight w + 1\<rparr>"

definition post_line :: "string \<Rightarrow> write_queue \<Rightarrow> write_queue" where
  "post_line l w =
     (let inProgress = (writeQueue w \<noteq> []); w = w\<lparr>writeQueue := writeQueue w @ [l]\<rparr>
      in if inProgress then w else writeNext w)"

definition write_done :: "write_queue \<Rightarrow> write_queue" where
  "write_done w =
     (let w = w\<lparr>in_flight := in_flight w - 1, sent := sent w @ [hd (writeQueue w)], writeQueue := tl (writeQueue w)\<rparr>
      in if writeQueue w \<noteq> [] then writeNext w else w)"

definition write_error :: "write_queue \<Rightarrow> write_queue" where
  "write_error w = w\<lparr>in_flight := in_flight w - 1, failed := True\<rparr>"

text \<open>Runs: lines come in at any time; a write in flight completes or fails.\<close>

inductive queue_run :: "string list \<Rightarrow> write_queue \<Rightarrow> bool" where
  empty: "queue_run [] \<lparr>writeQueue = [], in_flight = 0, sent = [], failed = False\<rparr>"
| post: "queue_run ls w \<Longrightarrow> queue_run (ls @ [l]) (post_line l w)"
| complete: "queue_run ls w \<Longrightarrow> 0 < in_flight w \<Longrightarrow> queue_run ls (write_done w)"
| error: "queue_run ls w \<Longrightarrow> 0 < in_flight w \<Longrightarrow> queue_run ls (write_error w)"

text \<open>
  C23: The write queue loses and reorders nothing: at any time the lines written, followed by the
  lines queued, are the lines posted; at most one write is in flight; and while no write has failed
  one is in flight exactly when a line is queued, so every line is written in the end.
\<close>

theorem write_queue_is_fifo:
  assumes "queue_run ls w"
  shows "sent w @ writeQueue w = ls \<and> in_flight w \<le> 1 \<and> (\<not> failed w \<longrightarrow> (in_flight w = 1 \<longleftrightarrow> writeQueue w \<noteq> []))"
proof -
  have "sent w @ writeQueue w = ls \<and> (in_flight w = 1 \<longrightarrow> writeQueue w \<noteq> []) \<and> in_flight w \<le> 1 \<and>
      (\<not> failed w \<longrightarrow> (in_flight w = 1 \<longleftrightarrow> writeQueue w \<noteq> [])) \<and> (failed w \<longrightarrow> in_flight w = 0 \<and> writeQueue w \<noteq> [])"
    using assms
  proof (induction rule: queue_run.induct)
    case (complete ls w)
    then show ?case by (cases "writeQueue w") (auto simp: write_done_def writeNext_def Let_def)
  qed (auto simp: post_line_def write_error_def writeNext_def Let_def)
  then show ?thesis by blast
qed

theorem write_queue_is_fifo_witness:
  "sent (write_done (post_line ''b'' (post_line ''a'' \<lparr>writeQueue = [], in_flight = 0, sent = [], failed = False\<rparr>))) = [''a'']"
proof -
  let ?w = "write_done (post_line ''b'' (post_line ''a'' \<lparr>writeQueue = [], in_flight = 0, sent = [], failed = False\<rparr>))"
  have "queue_run ([] @ [''a''] @ [''b'']) ?w"
    by (intro queue_run.complete) (use queue_run.post [OF queue_run.post [OF queue_run.empty]] in \<open>auto simp: post_line_def writeNext_def\<close>)
  from write_queue_is_fifo [OF this] show ?thesis by (simp add: write_done_def post_line_def writeNext_def)
qed

end
