(* ===== verification/Topic_Monitor.thy ===== *)
theory Topic_Monitor
  imports Json_Externalizer Dds_Transport Owp_Subscriptions "HOL-Library.AList"
begin

text \<open>
  The topic monitor of the local server (\<open>lacal/src/TopicMonitor.cpp\<close>): it discovers the topics that
  carry payloads of this library, keeps one DDS reader per topic, and turns every sample it takes into
  the JSON lines of the subscribed sessions. The DDS C library is a parameter: a record of the functions
  the code calls, over the library's own state \<open>'w\<close>. The externalizer is the function its \<open>write\<close> is.
\<close>

section \<open>The DDS library\<close>

type_synonym entity = int

record endpoint =
  ep_valid :: bool
  ep_topic_name :: "string option"
  ep_type_name :: "string option"

record 'w dds =
  dds_create_participant :: "int \<Rightarrow> 'w \<Rightarrow> entity \<times> 'w"
  dds_create_builtin_reader :: "entity \<Rightarrow> 'w \<Rightarrow> entity \<times> 'w"
  dds_create_topic :: "entity \<Rightarrow> string \<Rightarrow> 'w \<Rightarrow> entity \<times> 'w"
  dds_create_reader :: "entity \<Rightarrow> entity \<Rightarrow> 'w \<Rightarrow> entity \<times> 'w"
  dds_create_readcondition :: "entity \<Rightarrow> 'w \<Rightarrow> entity \<times> 'w"
  dds_create_waitset :: "entity \<Rightarrow> 'w \<Rightarrow> entity \<times> 'w"
  dds_waitset_attach :: "entity \<Rightarrow> entity \<Rightarrow> 'w \<Rightarrow> 'w"
  dds_take_endpoints :: "entity \<Rightarrow> nat \<Rightarrow> 'w \<Rightarrow> endpoint list \<times> 'w"
  dds_take :: "entity \<Rightarrow> nat \<Rightarrow> 'w \<Rightarrow> sample list \<times> 'w"
  dds_delete :: "entity \<Rightarrow> 'w \<Rightarrow> 'w"

section \<open>The monitor\<close>

text \<open>
  The members of the class, with the library's state and the lines written to the two console streams.
  The maps are association lists: the order an \<open>unordered_map\<close> is iterated in is one of its orders.
\<close>

record 'w monitor =
  dds_state :: 'w
  clients :: client_registry
  participant :: entity
  builtinReader :: entity
  builtinCond :: entity
  waitset :: entity
  m_running :: bool
  readers :: "(string \<times> entity) list"
  conditions :: "(string \<times> entity) list"
  condTopics :: "(entity \<times> string) list"
  console :: "string list"

definition kArcalTypeName :: string where
  "kArcalTypeName = ''arcal_dds::OpaquePayload''"

text \<open>A constructor that throws leaves the library's state and no object.\<close>

definition new_monitor :: "'w dds \<Rightarrow> client_registry \<Rightarrow> int \<Rightarrow> 'w \<Rightarrow> 'w monitor res \<times> 'w" where
  "new_monitor D cs domainId w =
     (let (p, w) = dds_create_participant D domainId w in
      if p < 0 then (Inl (RuntimeError ''failed to create DDS participant''), w)
      else let (br, w) = dds_create_builtin_reader D p w in
      if br < 0 then (Inl (RuntimeError ''failed to create DDS builtin publication reader''), w)
      else let (bc, w) = dds_create_readcondition D br w;
               (ws, w) = dds_create_waitset D p w;
               w = dds_waitset_attach D ws bc w
           in (Inr \<lparr>dds_state = w, clients = cs, participant = p, builtinReader = br, builtinCond = bc, waitset = ws,
                m_running = False, readers = [], conditions = [], condTopics = [], console = []\<rparr>, w))"

definition start :: "'w monitor \<Rightarrow> 'w monitor" where
  "start m = m\<lparr>m_running := True\<rparr>"

definition stop :: "'w monitor \<Rightarrow> 'w monitor" where
  "stop m = m\<lparr>m_running := False\<rparr>"

text \<open>The destructor, once the thread has been joined: what it deletes, in its order.\<close>

definition teardown :: "'w monitor \<Rightarrow> entity list" where
  "teardown m = map snd (conditions m) @ map snd (readers m) @
     filter (\<lambda>e. 0 \<le> e) [waitset m, builtinCond m, builtinReader m, participant m]"

definition destroy :: "'w dds \<Rightarrow> 'w monitor \<Rightarrow> 'w" where
  "destroy D m = fold (dds_delete D) (teardown (stop m)) (dds_state m)"

section \<open>Discovery\<close>

definition ensureReader :: "'w dds \<Rightarrow> string \<Rightarrow> 'w monitor \<Rightarrow> 'w monitor" where
  "ensureReader D tn m =
     (if tn \<in> fst ` set (readers m) then m
      else let (tp, w) = dds_create_topic D (participant m) tn (dds_state m) in
      if tp < 0 then m\<lparr>dds_state := w, console := console m @ [''[arlacal] failed to create topic reader for '' @ tn]\<rparr>
      else let (rd, w) = dds_create_reader D (participant m) tp w;
               w = dds_delete D tp w in
      if rd < 0 then m\<lparr>dds_state := w, console := console m @ [''[arlacal] failed to create reader for '' @ tn]\<rparr>
      else let (cond, w) = dds_create_readcondition D rd w;
               w = dds_waitset_attach D (waitset m) cond w
           in m\<lparr>dds_state := w, readers := AList.update tn rd (readers m),
                conditions := AList.update tn cond (conditions m),
                condTopics := AList.update cond tn (condTopics m),
                console := console m @ [''[arlacal] discovered topic='' @ tn]\<rparr>)"

definition see_endpoint :: "'w dds \<Rightarrow> endpoint \<Rightarrow> 'w monitor \<Rightarrow> 'w monitor" where
  "see_endpoint D ep m =
     (if \<not> ep_valid ep then m
      else case (ep_topic_name ep, ep_type_name ep) of
        (Some tn, Some ty) \<Rightarrow> if ty = kArcalTypeName then ensureReader D tn m else m
      | _ \<Rightarrow> m)"

definition pollBuiltin :: "'w dds \<Rightarrow> 'w monitor \<Rightarrow> 'w monitor" where
  "pollBuiltin D m =
     (let (eps, w) = dds_take_endpoints D (builtinReader m) 32 (dds_state m)
      in fold (see_endpoint D) eps (m\<lparr>dds_state := w\<rparr>))"

section \<open>Samples\<close>

text \<open>\<open>arcalCreateAccessor\<close>: the generated table of the global elements, keyed by tag.\<close>

definition arcalCreateAccessor :: "(prim \<Rightarrow> pval) \<Rightarrow> (string \<times> ty) list \<Rightarrow> u32 \<Rightarrow> accessor option" where
  "arcalCreateAccessor g globals tag = map_option (create g) (find (\<lambda>e. type_tag (fst e) = tag) globals)"

text \<open>\<open>std::hex\<close>.\<close>

fun hex_of_nat :: "nat \<Rightarrow> string" where
  "hex_of_nat n = (if n < 16 then [hex_digit n] else hex_of_nat (n div 16) @ [hex_digit (n mod 16)])"

declare hex_of_nat.simps [simp del]

text \<open>What does not change while samples are published: the loaded functions and the externalizer.\<close>

record 'e codecs =
  cdr_bridge :: "'e bridge"
  scalars :: "prim \<Rightarrow> pval"
  globals :: "(string \<times> ty) list"
  json_ext :: "accessor \<Rightarrow> string \<Rightarrow> string res"

definition publishDecoded :: "'e codecs \<Rightarrow> string \<Rightarrow> u32 \<Rightarrow> bytes \<Rightarrow> 'w monitor \<Rightarrow> 'w monitor" where
  "publishDecoded K tn tag data m =
     (case arcalCreateAccessor (scalars K) (globals K) tag of
       None \<Rightarrow> m\<lparr>console := console m @ [''[arlacal] unknown type tag 0x'' @ hex_of_nat (unat tag) @ '' topic='' @ tn]\<rparr>
     | Some acc \<Rightarrow>
         (case rbind (cdrDeserialize (cdr_bridge K) tag data acc) (\<lambda>acc.
             rbind (json_ext K acc []) (\<lambda>json. Inr (typeName acc, json))) of
           Inr (mn, json) \<Rightarrow> m\<lparr>clients := deliver tn mn json (clients m)\<rparr>
         | Inl e \<Rightarrow> m\<lparr>console := console m @
             [''[arlacal] decode failed topic='' @ tn @ '' tag=0x'' @ hex_of_nat (unat tag) @ '': '' @ what e]\<rparr>))"

definition publish_sample :: "'e codecs \<Rightarrow> string \<Rightarrow> sample \<Rightarrow> 'w monitor \<Rightarrow> 'w monitor" where
  "publish_sample K tn s m = (if \<not> valid s then m else publishDecoded K tn (sample_tag s) (sample_data s) m)"

definition drainReader :: "'w dds \<Rightarrow> 'e codecs \<Rightarrow> string \<Rightarrow> 'w monitor \<Rightarrow> 'w monitor" where
  "drainReader D K tn m = (case map_of (readers m) tn of
     None \<Rightarrow> m
   | Some rd \<Rightarrow>
       let (ss, w) = dds_take D rd 16 (dds_state m)
       in fold (publish_sample K tn) ss (m\<lparr>dds_state := w\<rparr>))"

section \<open>The thread\<close>

definition on_trigger :: "'w dds \<Rightarrow> 'e codecs \<Rightarrow> entity \<Rightarrow> 'w monitor \<Rightarrow> 'w monitor" where
  "on_trigger D K cond m =
     (if cond = builtinCond m then pollBuiltin D m
      else case map_of (condTopics m) cond of None \<Rightarrow> m | Some tn \<Rightarrow> drainReader D K tn m)"

text \<open>
  \<open>run()\<close> over the results of its waits, each with the change of the library's state while it waited
  and the flag the loop sees before it: None is a negative result.
\<close>

fun run :: "'w dds \<Rightarrow> 'e codecs \<Rightarrow> (bool \<times> ('w \<Rightarrow> 'w) \<times> entity list option) list \<Rightarrow> 'w monitor \<Rightarrow> 'w monitor" where
  "run D K [] m = m"
| "run D K ((go, arrive, n) # rounds) m =
     (let m = (if go then m else stop m) in
      if \<not> m_running m then m
      else let m = m\<lparr>dds_state := arrive (dds_state m)\<rparr> in
      case n of None \<Rightarrow> m | Some triggered \<Rightarrow> run D K rounds (fold (on_trigger D K) triggered m))"

section \<open>What a sample becomes\<close>

text \<open>The message name and the text of a sample that is valid, of a known type and well formed.\<close>

definition message_of :: "'e codecs \<Rightarrow> sample \<Rightarrow> (string \<times> string) option" where
  "message_of K s =
     (if \<not> valid s then None
      else case arcalCreateAccessor (scalars K) (globals K) (sample_tag s) of
        None \<Rightarrow> None
      | Some acc \<Rightarrow>
          (case rbind (cdrDeserialize (cdr_bridge K) (sample_tag s) (sample_data s) acc) (\<lambda>acc.
              rbind (json_ext K acc []) (\<lambda>json. Inr (typeName acc, json))) of
            Inr r \<Rightarrow> Some r | Inl e \<Rightarrow> None))"

definition deliver_text :: "string \<Rightarrow> string \<times> string \<Rightarrow> client_registry \<Rightarrow> client_registry" where
  "deliver_text tn r = deliver tn (fst r) (snd r)"

lemma publish_sample_eq:
  "clients (publish_sample K tn s m) = (case message_of K s of None \<Rightarrow> clients m | Some r \<Rightarrow> deliver_text tn r (clients m))"
  "dds_state (publish_sample K tn s m) = dds_state m" "readers (publish_sample K tn s m) = readers m"
  "conditions (publish_sample K tn s m) = conditions m" "condTopics (publish_sample K tn s m) = condTopics m"
  "participant (publish_sample K tn s m) = participant m" "builtinReader (publish_sample K tn s m) = builtinReader m"
  "builtinCond (publish_sample K tn s m) = builtinCond m" "waitset (publish_sample K tn s m) = waitset m"
  by (simp_all add: publish_sample_def publishDecoded_def message_of_def deliver_text_def split: option.split sum.split prod.split)

lemma publish_all_eq:
  "clients (fold (publish_sample K tn) ss m) = fold (deliver_text tn) (List.map_filter (message_of K) ss) (clients m)"
  "dds_state (fold (publish_sample K tn) ss m) = dds_state m" "readers (fold (publish_sample K tn) ss m) = readers m"
  "conditions (fold (publish_sample K tn) ss m) = conditions m" "condTopics (fold (publish_sample K tn) ss m) = condTopics m"
  "participant (fold (publish_sample K tn) ss m) = participant m" "builtinReader (fold (publish_sample K tn) ss m) = builtinReader m"
  "builtinCond (fold (publish_sample K tn) ss m) = builtinCond m" "waitset (fold (publish_sample K tn) ss m) = waitset m"
  by (induction ss arbitrary: m) (auto simp: publish_sample_eq List.map_filter_simps split: option.split)

lemma map_filter_append: "List.map_filter f (xs @ ys) = List.map_filter f xs @ List.map_filter f ys"
  by (induction xs) (simp_all add: List.map_filter_simps split: option.split)

text \<open>
  What the code relies on \<open>dds_take\<close> for: it hands out the oldest samples of a reader, at most as many
  as asked for, and keeps the others.
\<close>

definition takes_in_order :: "'w dds \<Rightarrow> ('w \<Rightarrow> entity \<Rightarrow> sample list) \<Rightarrow> bool" where
  "takes_in_order D pending = (\<forall>e k w. fst (dds_take D e k w) = take k (pending w e) \<and>
     pending (snd (dds_take D e k w)) = (pending w)(e := drop k (pending w e)))"

lemma drainReader_eq:
  assumes "takes_in_order D pending" and "map_of (readers m) tn = Some rd"
  shows "clients (drainReader D K tn m) =
      fold (deliver_text tn) (List.map_filter (message_of K) (take 16 (pending (dds_state m) rd))) (clients m)"
    "pending (dds_state (drainReader D K tn m)) = (pending (dds_state m))(rd := drop 16 (pending (dds_state m) rd))"
    "readers (drainReader D K tn m) = readers m"
  using assms by (simp_all add: drainReader_def takes_in_order_def publish_all_eq case_prod_unfold Let_def)

lemma drains_eq:
  assumes D: "takes_in_order D pending" and rd: "map_of (readers m) tn = Some rd"
  shows "clients ((drainReader D K tn ^^ n) m) =
      fold (deliver_text tn) (List.map_filter (message_of K) (take (16 * n) (pending (dds_state m) rd))) (clients m) \<and>
    pending (dds_state ((drainReader D K tn ^^ n) m)) rd = drop (16 * n) (pending (dds_state m) rd) \<and>
    readers ((drainReader D K tn ^^ n) m) = readers m"
proof (induction n)
  case 0
  then show ?case by (simp add: List.map_filter_simps)
next
  case (Suc n)
  let ?m = "(drainReader D K tn ^^ n) m"
  have rd': "map_of (readers ?m) tn = Some rd" using Suc rd by simp
  have "take (16 * Suc n) (pending (dds_state m) rd) =
      take (16 * n) (pending (dds_state m) rd) @ take 16 (drop (16 * n) (pending (dds_state m) rd))"
    by (metis add.commute mult_Suc_right take_add)
  with Suc drainReader_eq [OF D rd', of K] show ?case by (simp add: map_filter_append add.commute)
qed

text \<open>
  C11: A backlog is worked off: when a topic's reader holds \<open>n\<close> samples, \<open>k\<close> drains with \<open>n \<le> 16 * k\<close> leave
  none, and the sessions have been given exactly the messages of the well-formed ones, in order; samples
  that are invalid, of an unknown type or malformed are passed over and stop nothing.
\<close>

theorem backlog_is_delivered:
  assumes "takes_in_order D pending" and "map_of (readers m) tn = Some rd"
    and "length (pending (dds_state m) rd) \<le> 16 * k"
  shows "clients ((drainReader D K tn ^^ k) m) =
      fold (deliver_text tn) (List.map_filter (message_of K) (pending (dds_state m) rd)) (clients m) \<and>
    pending (dds_state ((drainReader D K tn ^^ k) m)) rd = []"
  using drains_eq [OF assms(1,2), of k K] assms(3) by simp


section \<open>From a writer to the sessions\<close>

text \<open>What is loaded in the server: both externalizers, for a schema whose global elements have accessors.\<close>

definition loaded ::
    "fmt \<Rightarrow> 'j json_api \<Rightarrow> (prim \<Rightarrow> pval) \<Rightarrow> (string \<times> jty) list \<Rightarrow> 'e \<Rightarrow> 'e codecs \<Rightarrow> 'j json_handlers json_registry \<Rightarrow> bool" where
  "loaded f J g schema ext K r =
     (auto_register g (map (\<lambda>(name, t). (name, ty_of t)) schema) ext not_loaded = Inr (cdr_bridge K) \<and>
      json_auto_register f J g schema = Inr r \<and> scalars K = g \<and>
      globals K = map (\<lambda>(name, t). (name, ty_of t)) schema \<and> json_ext K = json_write r)"

lemma loaded_distinct:
  assumes "auto_register g (map (\<lambda>(name, t). (name, ty_of t)) schema) ext not_loaded = Inr b"
  shows "distinct (map fst schema)" "distinct (map (\<lambda>e. type_tag (fst e)) (map (\<lambda>(name, t). (name, ty_of t)) schema))"
proof -
  have "\<exists>b. auto_register g (map (\<lambda>(name, t). (name, ty_of t)) schema) ext not_loaded = Inr b" using assms by blast
  then show d: "distinct (map (\<lambda>e. type_tag (fst e)) (map (\<lambda>(name, t). (name, ty_of t)) schema))"
    by (rule iffD1 [OF auto_register_iff])
  have "map (\<lambda>e. type_tag (fst e)) (map (\<lambda>(name, t). (name, ty_of t)) schema) = map type_tag (map fst schema)" by auto
  with d show "distinct (map fst schema)" by (metis distinct_map)
qed

lemma create_by_tag:
  assumes "distinct (map (\<lambda>e. type_tag (fst e)) es)" and "(name, t) \<in> set es"
  shows "arcalCreateAccessor g es (type_tag name) = Some (create g (name, t))"
proof -
  have "find (\<lambda>e. type_tag (fst e) = type_tag name) es = Some (name, t)"
    using assms
  proof (induction es)
    case (Cons e es)
    then show ?case by (cases "e = (name, t)") force+
  qed simp
  then show ?thesis by (simp add: arcalCreateAccessor_def)
qed

lemma message_of_written:
  assumes L: "loaded f J g schema ext K r" and e: "(name, t) \<in> set schema"
    and v: "has_type (ty_of t) v" "jtyped t v" "wf_jty t" and g: "\<And>p. prim_of (g p) = p"
  shows "message_of K (sample_of name v) = Some (name, print_doc (doc_of t v))"
proof -
  let ?es = "map (\<lambda>(name, t). (name, ty_of t)) schema"
  from L have b: "auto_register g ?es ext not_loaded = Inr (cdr_bridge K)" and r: "json_auto_register f J g schema = Inr r"
    and K: "scalars K = g" "globals K = ?es" "json_ext K = json_write r" by (simp_all add: loaded_def)
  have mem: "(name, ty_of t) \<in> set ?es" using e by force
  obtain w where w: "deserialize_at g (ty_of t) (fresh g (ty_of t)) (serialize [] v) 0 = Inr (w, length (serialize [] v))"
      "msg_of w = msg_of v"
    using codes_whole [OF codes_message(1) [OF v(1) blank_fresh], of g g "[]" "[]"] by auto
  have "case deserialize_at g (ty_of t) (fresh g (ty_of t)) (serialize [] v) 0 of
      Inl e \<Rightarrow> is_uci_exception e \<or> (PUuid \<in> prims (ty_of t) \<and> e = InvalidArgument ''stoul'')
    | Inr (w, off') \<Rightarrow> shaped (ty_of t) w \<and> 0 \<le> off' \<and> off' \<le> length (serialize [] v)"
    using g by (intro deserialize_safe) (simp_all add: shaped_fresh)
  then have "shaped (ty_of t) w" by (simp add: w(1))
  then have same: "jtyped t w" "doc_of t w = doc_of t v" using same_message_same_doc(1) [OF _ w(2) v(2,3)] by auto
  have "jser f t w [] = print_doc (doc_of t v)" using jser_text(1) [OF same(1) v(3), of f "[]"] same(2) by simp
  then show ?thesis
    by (simp add: message_of_def sample_of_def K create_by_tag [OF loaded_distinct(2) [OF b] mem] create_def
        cdrDeserialize_loaded [OF b mem] w(1) json_write_loaded [OF r loaded_distinct(1) [OF b] e])
qed


text \<open>The schema of the witness: a track with a name, codes and a choice.\<close>

lemma sample_jobj_has_type: "has_type (ty_of sample_jty) sample_jobj"
  by (simp add: sample_jty_def sample_jobj_def zero_octets_def wf_uuid_def)

definition sample_codecs :: "unit bridge \<Rightarrow> 'j json_handlers json_registry \<Rightarrow> unit codecs" where
  "sample_codecs b r = \<lparr>cdr_bridge = b, scalars = scalar_zero, globals = [(''TrackMDT'', ty_of sample_jty)], json_ext = json_write r\<rparr>"

lemma sample_codecs_loaded:
  "\<exists>b r. loaded ((\<lambda>_. []), (\<lambda>_. [])) doc_json scalar_zero [(''TrackMDT'', sample_jty)] () (sample_codecs b r) r"
proof -
  obtain b where "auto_register scalar_zero [(''TrackMDT'', ty_of sample_jty)] () not_loaded = Inr b"
    using auto_register_iff [of scalar_zero "[(''TrackMDT'', ty_of sample_jty)]" "()"] by auto
  moreover obtain r where "json_auto_register ((\<lambda>_. []), (\<lambda>_. [])) doc_json scalar_zero [(''TrackMDT'', sample_jty)] = Inr r"
    using json_auto_register_total [of "[(''TrackMDT'', sample_jty)]" "((\<lambda>_. []), (\<lambda>_. []))" doc_json scalar_zero] by auto
  ultimately have "loaded ((\<lambda>_. []), (\<lambda>_. [])) doc_json scalar_zero [(''TrackMDT'', sample_jty)] () (sample_codecs b r) r"
    by (simp add: loaded_def sample_codecs_def)
  then show ?thesis by blast
qed


section \<open>The entities of the library\<close>

text \<open>
  What the code relies on the DDS library for: \<open>live w\<close> are the entities that exist; a creation fails with a
  negative number or adds a new entity, a deletion removes one, and nothing else changes them.
\<close>

definition creates :: "('w \<Rightarrow> entity set) \<Rightarrow> ('w \<Rightarrow> entity \<times> 'w) \<Rightarrow> bool" where
  "creates live f = (\<forall>w. let (e, w') = f w in
     (if e < 0 then live w' = live w else e \<notin> live w \<and> live w' = insert e (live w)))"

definition manages_entities :: "'w dds \<Rightarrow> ('w \<Rightarrow> entity set) \<Rightarrow> bool" where
  "manages_entities D live = (
     (\<forall>i. creates live (dds_create_participant D i)) \<and> (\<forall>p. creates live (dds_create_builtin_reader D p)) \<and>
     (\<forall>p tn. creates live (dds_create_topic D p tn)) \<and> (\<forall>p t. creates live (dds_create_reader D p t)) \<and>
     (\<forall>r. creates live (dds_create_readcondition D r)) \<and> (\<forall>p. creates live (dds_create_waitset D p)) \<and>
     (\<forall>s e w. live (dds_waitset_attach D s e w) = live w) \<and>
     (\<forall>r k w. live (snd (dds_take_endpoints D r k w)) = live w) \<and> (\<forall>r k w. live (snd (dds_take D r k w)) = live w) \<and>
     (\<forall>e w. live (dds_delete D e w) = live w - {e}))"

text \<open>The entities the monitor holds, and that they are all there is above what was there before it.\<close>

definition holds :: "('w \<Rightarrow> entity set) \<Rightarrow> entity set \<Rightarrow> 'w monitor \<Rightarrow> bool" where
  "holds live before m = (
     live (dds_state m) = before \<union> {e \<in> set (teardown m). 0 \<le> e} \<and>
     before \<inter> {e \<in> set (teardown m). 0 \<le> e} = {} \<and>
     map fst (conditions m) = map fst (readers m))"

lemma createsE:
  assumes "creates live f"
  obtains e w' where "f w = (e, w')" "e < 0" "live w' = live w"
  | e w' where "f w = (e, w')" "0 \<le> e" "e \<notin> live w" "live w' = insert e (live w)"
  using assms by (cases "f w"; cases "fst (f w) < 0") (auto simp: creates_def Let_def dest: spec [of _ w])

lemma update_new:
  "k \<notin> fst ` set xs \<Longrightarrow> map snd (AList.update k v xs) = map snd xs @ [v] \<and> map fst (AList.update k v xs) = map fst xs @ [k]"
  by (induction xs) auto

lemma teardown_cong:
  "conditions m' = conditions m \<Longrightarrow> readers m' = readers m \<Longrightarrow> waitset m' = waitset m \<Longrightarrow> builtinCond m' = builtinCond m \<Longrightarrow>
     builtinReader m' = builtinReader m \<Longrightarrow> participant m' = participant m \<Longrightarrow> teardown m' = teardown m"
  by (simp add: teardown_def)

lemma holds_cong:
  "holds live before m \<Longrightarrow> live (dds_state m') = live (dds_state m) \<Longrightarrow> conditions m' = conditions m \<Longrightarrow> readers m' = readers m \<Longrightarrow>
     waitset m' = waitset m \<Longrightarrow> builtinCond m' = builtinCond m \<Longrightarrow> builtinReader m' = builtinReader m \<Longrightarrow>
     participant m' = participant m \<Longrightarrow> holds live before m'"
  by (simp add: holds_def teardown_cong [of m' m])

text \<open>One more reader, with its condition (which may have failed).\<close>

lemma holds_add:
  assumes "holds live before m" and "tn \<notin> fst ` set (readers m)" and "0 \<le> rd" and "rd \<notin> live (dds_state m)"
    and "live w = insert rd (live (dds_state m)) \<and> cond < 0 \<or>
      live w = insert cond (insert rd (live (dds_state m))) \<and> 0 \<le> cond \<and> cond \<notin> live (dds_state m)"
  shows "holds live before (m\<lparr>dds_state := w, readers := AList.update tn rd (readers m),
      conditions := AList.update tn cond (conditions m), condTopics := ct, console := cons\<rparr>)"
proof -
  have keys: "map fst (conditions m) = map fst (readers m)" using assms(1) by (simp add: holds_def)
  then have "tn \<notin> fst ` set (conditions m)" using assms(2) by (metis image_set)
  note u = update_new [OF assms(2), of rd] update_new [OF this, of cond]
  let ?m = "m\<lparr>dds_state := w, readers := AList.update tn rd (readers m),
      conditions := AList.update tn cond (conditions m), condTopics := ct, console := cons\<rparr>"
  have "set (teardown ?m) = insert rd (insert cond (set (teardown m)))"
    by (auto simp: teardown_def u simp del: set_map)
  then have t: "{e \<in> set (teardown ?m). 0 \<le> e} =
      insert rd ((if 0 \<le> cond then {cond} else {}) \<union> {e \<in> set (teardown m). 0 \<le> e})"
    using assms(3) by auto
  have k: "map fst (conditions ?m) = map fst (readers ?m)" using keys by (simp add: u)
  show ?thesis using assms(1,3-5) unfolding holds_def t k by auto
qed

lemma holds_ensureReader:
  assumes D: "manages_entities D live" and h: "holds live before m"
  shows "holds live before (ensureReader D tn m)"
proof (cases "tn \<in> fst ` set (readers m)")
  case True
  then show ?thesis using h by (simp add: ensureReader_def)
next
  case new: False
  from D have topic: "creates live (dds_create_topic D (participant m) tn)"
    and reader: "\<And>tp. creates live (dds_create_reader D (participant m) tp)"
    and cond: "\<And>rd. creates live (dds_create_readcondition D rd)"
    and attach: "\<And>s e w. live (dds_waitset_attach D s e w) = live w" and del: "\<And>e w. live (dds_delete D e w) = live w - {e}"
    by (simp_all add: manages_entities_def)
  show ?thesis
  proof (cases rule: createsE [OF topic, of "dds_state m"])
    case (1 tp w)
    then show ?thesis using new h by (auto simp: ensureReader_def intro: holds_cong)
  next
    case tp: (2 tp w)
    show ?thesis
    proof (cases rule: createsE [OF reader, of tp w])
      case (1 rd w')
      then show ?thesis using new h tp by (auto simp: ensureReader_def del intro: holds_cong)
    next
      case rd: (2 rd w')
      have rd': "live (dds_delete D tp w') = insert rd (live (dds_state m))" "rd \<notin> live (dds_state m)" using tp rd by (auto simp: del)
      show ?thesis
        by (cases rule: createsE [OF cond, of rd "dds_delete D tp w'"])
          (use new tp rd rd' in \<open>simp_all add: ensureReader_def attach holds_add [OF h new]\<close>)
    qed
  qed
qed

lemma holds_pollBuiltin:
  assumes D: "manages_entities D live" and h: "holds live before m"
  shows "holds live before (pollBuiltin D m)"
proof -
  obtain eps w where w: "dds_take_endpoints D (builtinReader m) 32 (dds_state m) = (eps, w)" by fastforce
  with D have "live w = live (dds_state m)" unfolding manages_entities_def by (metis snd_conv)
  then have "holds live before (m\<lparr>dds_state := w\<rparr>)" using h by (auto intro: holds_cong)
  moreover have "holds live before (fold (see_endpoint D) eps m)" if "holds live before m" for m
    using that
  proof (induction eps arbitrary: m)
    case (Cons ep eps)
    have "holds live before (see_endpoint D ep m)"
      using Cons.prems D by (auto simp: see_endpoint_def holds_ensureReader split: option.split)
    then show ?case using Cons.IH by simp
  qed simp
  ultimately show ?thesis by (simp add: pollBuiltin_def w)
qed

lemma holds_on_trigger:
  assumes D: "manages_entities D live" and h: "holds live before m"
  shows "holds live before (on_trigger D K cond m)"
proof -
  have "holds live before (drainReader D K tn m)" for tn
  proof (cases "map_of (readers m) tn")
    case (Some rd)
    obtain ss w where w: "dds_take D rd 16 (dds_state m) = (ss, w)" by fastforce
    with D have "live w = live (dds_state m)" unfolding manages_entities_def by (metis snd_conv)
    then show ?thesis using h by (auto simp: drainReader_def Some w publish_all_eq intro: holds_cong)
  qed (use h in \<open>simp add: drainReader_def\<close>)
  with holds_pollBuiltin [OF D h] h show ?thesis by (auto simp: on_trigger_def split: option.split)
qed

lemma holds_run:
  assumes D: "manages_entities D live"
  shows "list_all (\<lambda>(go, arrive, n). \<forall>w. live (arrive w) = live w) rounds \<Longrightarrow> holds live before m \<Longrightarrow> holds live before (run D K rounds m)"
proof (induction rounds arbitrary: m)
  case (Cons rd rounds)
  obtain go arrive n where rd: "rd = (go, arrive, n)" by (cases rd)
  have fold: "holds live before (fold (on_trigger D K) ts m)" if "holds live before m" for ts m
    using that by (induction ts arbitrary: m) (auto simp: holds_on_trigger [OF D])
  have m: "holds live before (if go then m else stop m)" using Cons.prems(2) by (auto simp: stop_def intro: holds_cong)
  then have "holds live before ((if go then m else stop m)\<lparr>dds_state := arrive (dds_state m)\<rparr>)"
    using Cons.prems(1) by (auto simp: rd stop_def intro: holds_cong)
  then show ?case using m Cons.IH Cons.prems(1) fold
    by (auto simp: rd Let_def stop_def split: option.split if_split)
qed simp

lemma holds_new_monitor:
  assumes D: "manages_entities D live" and m: "new_monitor D cs i w = (Inr m, w')"
  shows "holds live (live w) m" "dds_state m = w'"
proof -
  from D have p: "creates live (dds_create_participant D i)" and br: "\<And>p. creates live (dds_create_builtin_reader D p)"
    and bc: "\<And>r. creates live (dds_create_readcondition D r)" and ws: "\<And>p. creates live (dds_create_waitset D p)"
    and attach: "\<And>s e w. live (dds_waitset_attach D s e w) = live w"
    by (simp_all add: manages_entities_def)
  have "holds live (live w) m \<and> dds_state m = w'"
  proof (cases rule: createsE [OF p, of w])
    case 1
    with m show ?thesis by (simp add: new_monitor_def)
  next
    case p: (2 p w1)
    show ?thesis
    proof (cases rule: createsE [OF br, of p w1])
      case 1
      with m p show ?thesis by (simp add: new_monitor_def)
    next
      case br: (2 br w2)
      obtain bc w3 where w3: "dds_create_readcondition D br w2 = (bc, w3)" by fastforce
      obtain ws w4 where w4: "dds_create_waitset D p w3 = (ws, w4)" by fastforce
      from m p br w3 w4 have m': "m = \<lparr>dds_state = w', clients = cs, participant = p, builtinReader = br, builtinCond = bc,
          waitset = ws, m_running = False, readers = [], conditions = [], condTopics = [], console = []\<rparr>"
          "w' = dds_waitset_attach D ws bc w4"
        by (auto simp: new_monitor_def Let_def split: prod.splits)
      have "live w3 = live w2 \<and> bc < 0 \<or> live w3 = insert bc (live w2) \<and> 0 \<le> bc \<and> bc \<notin> live w2"
        by (cases rule: createsE [OF bc, of br w2]) (use w3 in auto)
      moreover have "live w4 = live w3 \<and> ws < 0 \<or> live w4 = insert ws (live w3) \<and> 0 \<le> ws \<and> ws \<notin> live w3"
        by (cases rule: createsE [OF ws, of p w3]) (use w4 in auto)
      ultimately show ?thesis using p br by (auto simp: m' holds_def teardown_def attach)
    qed
  qed
  then show "holds live (live w) m" "dds_state m = w'" by simp_all
qed

lemma live_destroy:
  assumes D: "manages_entities D live" and h: "holds live before m" and "\<forall>e \<in> before. 0 \<le> e"
  shows "live (destroy D m) = before"
proof -
  have "live (fold (dds_delete D) es w) = live w - set es" for es w
    using D by (induction es arbitrary: w) (auto simp: manages_entities_def)
  moreover have "teardown (stop m) = teardown m" by (rule teardown_cong) (simp_all add: stop_def)
  ultimately have "live (destroy D m) = live (dds_state m) - set (teardown m)" by (simp add: destroy_def)
  with h assms(3) show ?thesis by (auto simp: holds_def)
qed


text \<open>
  The constructor does: when the participant was created and the reader of the built-in topic was not,
  it throws, no destructor runs, and the participant stays.
\<close>

theorem failed_constructor_leaks_participant:
  assumes D: "manages_entities D live" and p: "dds_create_participant D i w = (p, w1)" "0 \<le> p"
    and br: "dds_create_builtin_reader D p w1 = (br, w2)" "br < 0"
  shows "\<exists>e. new_monitor D cs i w = (Inl e, w2) \<and> live w2 = insert p (live w) \<and> p \<notin> live w"
proof -
  have "creates live (dds_create_participant D i)" "creates live (dds_create_builtin_reader D p)"
    using D by (simp_all add: manages_entities_def)
  then have "live w1 = insert p (live w)" "p \<notin> live w" "live w2 = live w1"
    using p br by (simp_all add: creates_def split: prod.splits if_splits)
  with p br show ?thesis by (simp add: new_monitor_def)
qed

section \<open>An instance\<close>

text \<open>
  A small DDS library that meets the laws, so they can be met: entities are numbered, a reader's samples
  are a queue; \<open>builtin\<close> says whether the reader of the built-in topic can be created.
\<close>

record broker =
  alive :: "entity list"
  queues :: "entity \<Rightarrow> sample list"
  endpoints :: "endpoint list"

definition broker_create :: "broker \<Rightarrow> entity \<times> broker" where
  "broker_create w = (let e = fold max (alive w) 0 + 1 in (e, w\<lparr>alive := e # alive w\<rparr>))"

definition broker_dds :: "bool \<Rightarrow> broker dds" where
  "broker_dds builtin = \<lparr>dds_create_participant = (\<lambda>_. broker_create),
     dds_create_builtin_reader = (\<lambda>_. if builtin then broker_create else Pair (- 1)),
     dds_create_topic = (\<lambda>_ _. broker_create), dds_create_reader = (\<lambda>_ _. broker_create),
     dds_create_readcondition = (\<lambda>_. broker_create), dds_create_waitset = (\<lambda>_. broker_create),
     dds_waitset_attach = (\<lambda>_ _ w. w),
     dds_take_endpoints = (\<lambda>_ k w. (take k (endpoints w), w\<lparr>endpoints := drop k (endpoints w)\<rparr>)),
     dds_take = (\<lambda>e k w. (take k (queues w e), w\<lparr>queues := (queues w)(e := drop k (queues w e))\<rparr>)),
     dds_delete = (\<lambda>e w. w\<lparr>alive := removeAll e (alive w)\<rparr>)\<rparr>"

definition broker_live :: "broker \<Rightarrow> entity set" where
  "broker_live w = set (alive w)"

lemma broker_takes_in_order: "takes_in_order (broker_dds builtin) queues"
  by (simp add: takes_in_order_def broker_dds_def)

lemma max_list_bound: "(e \<in> set es \<or> e = a \<longrightarrow> e \<le> fold max es (a :: int)) \<and> a \<le> fold max es a"
proof (induction es arbitrary: a)
  case (Cons x es)
  show ?case using Cons [of "max x a"] by auto
qed simp

lemma broker_creates: "creates broker_live broker_create"
proof -
  have "fold max (alive w) 0 + 1 \<notin> set (alive w)" "\<not> fold max (alive w) 0 + 1 < 0" for w :: broker
    using max_list_bound [of "fold max (alive w) 0 + 1" "alive w" 0] by auto
  then show ?thesis by (simp add: creates_def broker_create_def broker_live_def Let_def)
qed

lemma broker_manages_entities: "manages_entities (broker_dds builtin) broker_live"
  using broker_creates
  by (simp add: manages_entities_def broker_dds_def) (simp add: creates_def broker_live_def)

definition no_dds :: broker where
  "no_dds = \<lparr>alive = [], queues = (\<lambda>_. []), endpoints = []\<rparr>"

theorem backlog_is_delivered_witness:
  "\<forall>K s. \<exists>m :: broker monitor. map_of (readers m) ''Tracks'' = Some 1 \<and>
     clients ((drainReader (broker_dds True) K ''Tracks'' ^^ 2) m) =
       fold (deliver_text ''Tracks'') (List.map_filter (message_of K) (replicate 20 s)) (clients m) \<and>
     queues (dds_state ((drainReader (broker_dds True) K ''Tracks'' ^^ 2) m)) 1 = []"
proof (intro allI, goal_cases)
  case (1 K s)
  define m :: "broker monitor" where "m = \<lparr>dds_state = no_dds\<lparr>queues := (\<lambda>_. replicate 20 s)\<rparr>, clients = [], participant = 5,
    builtinReader = 6, builtinCond = 7, waitset = 8, m_running = True, readers = [(''Tracks'', 1)], conditions = [(''Tracks'', 2)],
    condTopics = [(2, ''Tracks'')], console = []\<rparr>"
  have r: "map_of (readers m) ''Tracks'' = Some 1" by (simp add: m_def)
  have q: "queues (dds_state m) 1 = replicate 20 s" by (simp add: m_def)
  have "length (queues (dds_state m) 1) \<le> 16 * 2" by (simp add: q)
  from backlog_is_delivered [OF broker_takes_in_order r this, where K = K] r show ?case unfolding q by blast
qed


theorem failed_constructor_leaks_participant_witness:
  "\<exists>e w. new_monitor (broker_dds False) [] 0 no_dds = (Inl e, w) \<and> broker_live w = {1}"
proof -
  have p: "dds_create_participant (broker_dds False) 0 no_dds = (1, no_dds\<lparr>alive := [1]\<rparr>)"
    by (simp add: broker_dds_def broker_create_def no_dds_def)
  have br: "dds_create_builtin_reader (broker_dds False) 1 (no_dds\<lparr>alive := [1]\<rparr>) = (- 1, no_dds\<lparr>alive := [1]\<rparr>)"
    by (simp add: broker_dds_def)
  from failed_constructor_leaks_participant [OF broker_manages_entities p _ br, of "[]"]
  obtain e where "new_monitor (broker_dds False) [] 0 no_dds = (Inl e, no_dds\<lparr>alive := [1]\<rparr>)" by auto
  then show ?thesis by (intro exI conjI) (assumption, simp add: broker_live_def)
qed

end
