(* ===== verification/Owp_Connection.thy ===== *)
theory Owp_Connection
  imports Owp_Subscriptions
begin

text \<open>
  The life of a connection (\<open>lacal/src/ClientSession.cpp\<close>: \<open>readHttpRequest\<close>, \<open>acceptWebSocket\<close>,
  \<open>readNext\<close>) and the accept loop of the server (\<open>lacal/src/Server.cpp\<close>). The I/O library calls a completion
  handler for each operation that was started; here the completions are events, and a connection always has
  the one operation outstanding that its \<open>link\<close> names, until it has none.
\<close>

section \<open>One connection\<close>

text \<open>
  What is outstanding: reading the HTTP request, writing the refusal, the WebSocket upgrade, reading a
  frame, or nothing.
\<close>

datatype link = Requesting | Refusing | Upgrading | Reading | Ended

record http_response =
  status_code :: nat
  header_fields :: "(string \<times> string) list"
  response_body :: string

record connection =
  link :: link
  session :: client
  upgrade_fields :: "(string \<times> string) list"
  responses :: "http_response list"
  errors :: "string list"

definition new_connection :: connection where
  "new_connection = \<lparr>link = Requesting, session = new_client, upgrade_fields = [], responses = [], errors = []\<rparr>"

text \<open>\<open>open = false\<close> and no further operation.\<close>

definition end_link :: "connection \<Rightarrow> connection" where
  "end_link k = k\<lparr>link := Ended, session := (session k)\<lparr>is_open := False\<rparr>\<rparr>"

definition refusal :: http_response where
  "refusal = \<lparr>status_code = 400, header_fields = [(''Server'', ''arlacal-server''), (''Connection'', ''close'')],
     response_body = ''Sec-WebSocket-Protocol: owp required'' @ newline\<rparr>"

text \<open>
  The header is empty when the request does not have it; \<open>upgrade_fields\<close> is what the decorator puts into
  the response of the upgrade.
\<close>

definition acceptWebSocket :: "string \<Rightarrow> connection \<Rightarrow> connection" where
  "acceptWebSocket protocol k =
     (if \<not> headerContainsToken protocol ''owp'' then k\<lparr>link := Refusing, responses := responses k @ [refusal]\<rparr>
      else k\<lparr>link := Upgrading, upgrade_fields := [(''Server'', ''arlacal-server''), (''Sec-WebSocket-Protocol'', ''owp'')]\<rparr>)"

definition readHttpRequest :: "string option \<Rightarrow> connection \<Rightarrow> connection" where
  "readHttpRequest request k = (case request of None \<Rightarrow> end_link k | Some protocol \<Rightarrow> acceptWebSocket protocol k)"

definition accepted :: "bool \<Rightarrow> connection \<Rightarrow> connection" where
  "accepted ok k = (if ok then k\<lparr>link := Reading\<rparr> else end_link k)"

text \<open>
  The completion of a read: the peer closed, an error, a text frame, a binary frame (ignored). A line is
  handled even when a failed write has closed the session in the meantime.
\<close>

datatype frame = PeerClosed | ReadError string | TextFrame string | BinaryFrame string

definition readNext :: "'j json_api \<Rightarrow> (jval \<Rightarrow> string) \<Rightarrow> u16 \<Rightarrow> frame \<Rightarrow> connection \<Rightarrow> connection" where
  "readNext J dump port f k = (case f of
     PeerClosed \<Rightarrow> end_link k
   | ReadError m \<Rightarrow> (end_link k)\<lparr>errors := errors k @ [''[arlacal] client read error: '' @ m]\<rparr>
   | TextFrame payload \<Rightarrow>
       (let c = handleLine J dump port payload (session k)
        in k\<lparr>session := c, link := (if is_open c then Reading else Ended)\<rparr>)
   | BinaryFrame _ \<Rightarrow> k\<lparr>link := (if is_open (session k) then Reading else Ended)\<rparr>)"

datatype link_event =
  RequestRead "string option" | RefusalWritten | UpgradeDone bool | FrameRead frame | WriteFailed
| Delivered string string string

text \<open>An event that is not the completion of the outstanding operation does not occur; it changes nothing.\<close>

fun link_step :: "'j json_api \<Rightarrow> (jval \<Rightarrow> string) \<Rightarrow> u16 \<Rightarrow> link_event \<Rightarrow> connection \<Rightarrow> connection" where
  "link_step J dump port (RequestRead r) k = (if link k = Requesting then readHttpRequest r k else k)"
| "link_step J dump port RefusalWritten k = (if link k = Refusing then end_link k else k)"
| "link_step J dump port (UpgradeDone ok) k = (if link k = Upgrading then accepted ok k else k)"
| "link_step J dump port (FrameRead f) k = (if link k = Reading then readNext J dump port f k else k)"
| "link_step J dump port WriteFailed k = k\<lparr>session := (session k)\<lparr>is_open := False\<rparr>\<rparr>"
| "link_step J dump port (Delivered tn mn json) k =
     (if is_open (session k) then k\<lparr>session := deliver_client tn mn json (session k)\<rparr> else k)"

definition link_run :: "'j json_api \<Rightarrow> (jval \<Rightarrow> string) \<Rightarrow> u16 \<Rightarrow> link_event list \<Rightarrow> connection" where
  "link_run J dump port es = fold (link_step J dump port) es new_connection"

section \<open>Nothing is sent before the handshake\<close>

definition quiet :: "client \<Rightarrow> bool" where
  "quiet c \<longleftrightarrow> posted c = [] \<and> xsubs c = [] \<and> standardSubs c = [] \<and> concreteSubs c = [] \<and> \<not> initialized c"

lemma quiet_deliver: "quiet c \<Longrightarrow> deliver_client tn mn json c = c"
  by (simp add: quiet_def deliver_client_def send_snapshot_def subs_snapshot_def)

lemma quiet_close [simp]: "quiet (c\<lparr>is_open := b\<rparr>) = quiet c"
  by (simp add: quiet_def)

lemma end_link_simps [simp]: "link (end_link k) = Ended" "quiet (session (end_link k)) = quiet (session k)"
  by (simp_all add: end_link_def)

lemma link_run_snoc: "link_run J dump port (es @ [e]) = link_step J dump port e (link_run J dump port es)"
  by (simp add: link_run_def)

definition handshaken :: "link_event list \<Rightarrow> bool" where
  "handshaken es \<longleftrightarrow> UpgradeDone True \<in> set es \<and>
     (\<exists>protocol. RequestRead (Some protocol) \<in> set es \<and> headerContainsToken protocol ''owp'')"

lemma handshaken_snoc: "handshaken es \<Longrightarrow> handshaken (es @ [e])"
  by (auto simp: handshaken_def)

lemma link_run_shaken:
  fixes J :: "'j json_api" and dump :: "jval \<Rightarrow> string" and port :: u16
  defines "run \<equiv> link_run J dump port"
  shows "(quiet (session (run es)) \<or> handshaken es) \<and>
    (link (run es) = Upgrading \<longrightarrow>
      (\<exists>protocol. RequestRead (Some protocol) \<in> set es \<and> headerContainsToken protocol ''owp'')) \<and>
    (link (run es) = Reading \<longrightarrow> handshaken es)"
proof (induction es rule: rev_induct)
  case Nil
  show ?case by (simp add: run_def link_run_def new_connection_def new_client_def quiet_def)
next
  case (snoc e es)
  note h = handshaken_snoc [of es e]
  show ?case
  proof (cases e)
    case (RequestRead r)
    with snoc h show ?thesis
      by (auto simp: run_def link_run_snoc readHttpRequest_def acceptWebSocket_def split: option.splits)
  next
    case RefusalWritten
    with snoc h show ?thesis by (auto simp: run_def link_run_snoc)
  next
    case (UpgradeDone ok)
    with snoc h show ?thesis by (auto simp: run_def link_run_snoc accepted_def handshaken_def)
  next
    case (FrameRead f)
    with snoc h show ?thesis
      by (cases "link (run es) = Reading") (auto simp: run_def link_run_snoc readNext_def Let_def split: frame.splits)
  next
    case WriteFailed
    with snoc h show ?thesis by (auto simp: run_def link_run_snoc)
  next
    case (Delivered tn mn json)
    with snoc h show ?thesis by (auto simp: run_def link_run_snoc quiet_deliver)
  qed
qed

text \<open>
  C24: Nothing goes over a connection that did not become an OWP WebSocket: whatever completes in whatever
  order, failures and deliveries included, a session that posted a line, has a subscription or is
  initialised is one whose request named the \<open>owp\<close> subprotocol and whose upgrade succeeded.
\<close>

theorem no_line_before_handshake:
  assumes "posted (session (link_run J dump port es)) \<noteq> [] \<or> initialized (session (link_run J dump port es)) \<or>
    standardSubs (session (link_run J dump port es)) \<noteq> [] \<or> xsubs (session (link_run J dump port es)) \<noteq> []"
  shows "UpgradeDone True \<in> set es \<and>
    (\<exists>protocol. RequestRead (Some protocol) \<in> set es \<and> headerContainsToken protocol ''owp'')"
proof -
  have "\<not> quiet (session (link_run J dump port es))" using assms by (auto simp: quiet_def)
  then have "handshaken es" using link_run_shaken [of J dump port es] by blast
  then show ?thesis by (simp add: handshaken_def)
qed

text \<open>A client that asks for \<open>owp\<close> among others, is upgraded and sends a line too early.\<close>

definition early_line :: "link_event list" where
  "early_line = [RequestRead (Some ''chat, owp''), UpgradeDone True,
     FrameRead (TextFrame (join [''SUB'', ''s1'', ''EntityMDT'', ''Entity'']))]"

lemma offers_owp: "headerContainsToken ''chat, owp'' ''owp''"
  by (simp add: headerContainsToken_def comma_parts.simps trim_def is_ws_def)

theorem no_line_before_handshake_witness:
  "posted (session (link_run no_json (\<lambda>_. []) 8766 early_line)) =
     [''-ERR Illegal-State INIT must be first operation''] \<and>
   (\<exists>protocol. RequestRead (Some protocol) \<in> set early_line \<and> headerContainsToken protocol ''owp'')"
proof -
  obtain rest where "firstField (join [''SUB'', ''s1'', ''EntityMDT'', ''Entity'']) = Some (''SUB'', rest)"
    using firstField_join [of "''SUB''" "[''s1'', ''EntityMDT'', ''Entity'']"] by (auto simp: field_ok_def isspace_def)
  then have p: "posted (session (link_run no_json (\<lambda>_. []) 8766 early_line)) =
      [''-ERR Illegal-State INIT must be first operation'']"
    using offers_owp
    by (simp add: link_run_def early_line_def new_connection_def readHttpRequest_def acceptWebSocket_def accepted_def
        readNext_def Let_def handleLine_def new_client_def sendLine_def)
  with no_line_before_handshake [of no_json "\<lambda>_. []" 8766 early_line] show ?thesis by simp
qed

text \<open>A request that does not name \<open>owp\<close> gets one 400 response and the connection ends.\<close>

lemma refused:
  assumes "\<not> headerContainsToken protocol ''owp''"
  shows "link_run J dump port [RequestRead (Some protocol), RefusalWritten] =
    (end_link new_connection)\<lparr>responses := [refusal]\<rparr>"
  using assms by (simp add: link_run_def readHttpRequest_def acceptWebSocket_def new_connection_def end_link_def)

section \<open>The accept loop\<close>

text \<open>
  The part of \<open>runServer\<close> that the I/O loop runs: one accept at most is outstanding, and the wait for a
  signal; the sockets that were accepted are connections of their own.
\<close>

record server_loop =
  sv_running :: bool
  acceptor_open :: bool
  accepting :: bool
  signal_wait :: bool
  conns :: "connection list"
  sv_console :: "string list"

definition server_start :: server_loop where
  "server_start = \<lparr>sv_running = True, acceptor_open = True, accepting = True, signal_wait = True, conns = [], sv_console = []\<rparr>"

datatype accept_result = Incoming | Aborted | AcceptFailed string

definition doAccept :: "accept_result \<Rightarrow> server_loop \<Rightarrow> server_loop" where
  "doAccept r s =
     (let s = (case r of
        Incoming \<Rightarrow> s\<lparr>conns := conns s @ [new_connection]\<rparr>
      | Aborted \<Rightarrow> s
      | AcceptFailed m \<Rightarrow> s\<lparr>sv_console := sv_console s @ [''[arlacal] accept failed: '' @ m]\<rparr>)
      in s\<lparr>accepting := sv_running s \<and> acceptor_open s\<rparr>)"

definition on_signal :: "server_loop \<Rightarrow> server_loop" where
  "on_signal s = s\<lparr>sv_running := False, acceptor_open := False, signal_wait := False\<rparr>"

datatype server_event = Accepted accept_result | Signal | ToConnection nat link_event

fun server_step :: "'j json_api \<Rightarrow> (jval \<Rightarrow> string) \<Rightarrow> u16 \<Rightarrow> server_event \<Rightarrow> server_loop \<Rightarrow> server_loop" where
  "server_step J dump port (Accepted r) s = (if accepting s then doAccept r s else s)"
| "server_step J dump port Signal s = (if signal_wait s then on_signal s else s)"
| "server_step J dump port (ToConnection i e) s =
     (if i < length (conns s) then s\<lparr>conns := (conns s)[i := link_step J dump port e (conns s ! i)]\<rparr> else s)"

text \<open>\<open>io_context::run\<close> returns when nothing is outstanding; it needs at least this.\<close>

definition run_returns :: "server_loop \<Rightarrow> bool" where
  "run_returns s \<longleftrightarrow> \<not> accepting s \<and> \<not> signal_wait s \<and> list_all (\<lambda>k. link k = Ended) (conns s)"

definition loop_run :: "'j json_api \<Rightarrow> (jval \<Rightarrow> string) \<Rightarrow> u16 \<Rightarrow> server_event list \<Rightarrow> server_loop \<Rightarrow> server_loop" where
  "loop_run J dump port es s = fold (server_step J dump port) es s"

text \<open>Once a signal was handled no connection is accepted but the one that was on its way.\<close>

definition stopping :: "server_loop \<Rightarrow> bool" where
  "stopping s \<longleftrightarrow> \<not> sv_running s \<and> \<not> acceptor_open s \<and> \<not> signal_wait s"

lemma stopping_step:
  "stopping s \<Longrightarrow> stopping (server_step J dump port e s) \<and>
    (\<not> accepting s \<longrightarrow> \<not> accepting (server_step J dump port e s) \<and>
       length (conns (server_step J dump port e s)) = length (conns s))"
  by (cases e) (auto simp: stopping_def doAccept_def Let_def on_signal_def split: accept_result.splits)

lemma stopping_accept: "stopping s \<Longrightarrow> accepting s \<Longrightarrow> \<not> accepting (server_step J dump port (Accepted r) s)"
  by (simp add: stopping_def doAccept_def Let_def split: accept_result.splits)

lemma stopping_run:
  "stopping s \<Longrightarrow> \<not> accepting s \<Longrightarrow> stopping (loop_run J dump port es s) \<and> \<not> accepting (loop_run J dump port es s) \<and>
    length (conns (loop_run J dump port es s)) = length (conns s)"
proof (induction es arbitrary: s)
  case (Cons e es)
  with stopping_step [OF Cons.prems(1), of J dump port e] show ?case by (simp add: loop_run_def)
qed (simp add: loop_run_def)

lemma untouched_link:
  "i < length (conns s) \<Longrightarrow> list_all (\<lambda>e. \<forall>ev. e \<noteq> ToConnection i ev) es \<Longrightarrow>
    i < length (conns (loop_run J dump port es s)) \<and> conns (loop_run J dump port es s) ! i = conns s ! i"
proof (induction es arbitrary: s)
  case (Cons e es)
  have "i < length (conns (server_step J dump port e s)) \<and> conns (server_step J dump port e s) ! i = conns s ! i"
    using Cons.prems
    by (cases e) (auto simp: doAccept_def Let_def on_signal_def nth_append split: accept_result.splits)
  with Cons show ?case by (simp add: loop_run_def)
qed (simp add: loop_run_def)

text \<open>
  A signal stops the accepting and nothing else: from then on, and once the accept under way is done, no
  connection comes in any more and the loop returns exactly when each connection has ended; but a
  connection whose peer stays and sends nothing keeps the loop, and the process, running for ever,
  whatever else happens and however many signals arrive.
\<close>

theorem signal_waits_for_sessions:
  fixes J :: "'j json_api" and dump :: "jval \<Rightarrow> string" and port :: u16
  assumes "signal_wait s" "accepting s"
  defines "t \<equiv> loop_run J dump port [Signal, Accepted Aborted] s"
  defines "run \<equiv> \<lambda>es. loop_run J dump port es t"
  shows "length (conns (run es)) = length (conns s) \<and>
    (run_returns (run es) \<longleftrightarrow> list_all (\<lambda>k. link k = Ended) (conns (run es))) \<and>
    (i < length (conns s) \<longrightarrow> link (conns s ! i) \<noteq> Ended \<longrightarrow> list_all (\<lambda>e. \<forall>ev. e \<noteq> ToConnection i ev) es \<longrightarrow>
      \<not> run_returns (run es))"
proof -
  have t: "stopping t" "\<not> accepting t" "conns t = conns s"
    using assms by (simp_all add: t_def loop_run_def on_signal_def doAccept_def stopping_def)
  note r = stopping_run [OF t(1,2), of J dump port es]
  have ret: "run_returns (run es) \<longleftrightarrow> list_all (\<lambda>k. link k = Ended) (conns (run es))"
    using r by (simp add: run_def run_returns_def stopping_def)
  moreover have "\<not> run_returns (run es)"
    if "i < length (conns s)" "link (conns s ! i) \<noteq> Ended" "list_all (\<lambda>e. \<forall>ev. e \<noteq> ToConnection i ev) es"
    using untouched_link [of i t es J dump port] that t(3) unfolding ret by (auto simp: run_def list_all_length)
  ultimately show ?thesis using r t(3) by (simp add: run_def)
qed

text \<open>One connection is up when the signal comes; nothing else then ends the loop, a second signal included.\<close>

theorem signal_waits_for_sessions_witness:
  "\<not> run_returns (loop_run no_json (\<lambda>_. []) 8766 [Signal, Signal]
     (loop_run no_json (\<lambda>_. []) 8766 [Signal, Accepted Aborted]
       (loop_run no_json (\<lambda>_. []) 8766 [Accepted Incoming] server_start)))"
proof -
  let ?s = "loop_run no_json (\<lambda>_. []) 8766 [Accepted Incoming] server_start"
  have "signal_wait ?s" "accepting ?s" "length (conns ?s) = 1" "link (conns ?s ! 0) = Requesting"
    by (simp_all add: loop_run_def server_start_def doAccept_def new_connection_def)
  with signal_waits_for_sessions [of ?s no_json "\<lambda>_. []" 8766 "[Signal, Signal]" 0] show ?thesis by auto
qed

end
