(* ===== verification/Owp_Server.thy ===== *)
theory Owp_Server
  imports Topic_Monitor Owp_Connection
begin

text \<open>
  The server program (\<open>lacal/src/Server.cpp\<close>, \<open>main.cpp\<close>): its command line, and \<open>runServer\<close>, which
  puts the externalizer, the topic monitor and the acceptor together and takes them apart again. The
  address parser and the socket calls of the I/O library are parameters, as are the rounds the monitor's
  thread makes before and after the acceptor is there; the I/O loop itself is in \<open>Owp_Connection\<close>.
\<close>

section \<open>The command line\<close>

record options =
  opt_host :: string
  opt_port :: u16
  opt_domain :: int

definition default_options :: options where
  "default_options = \<lparr>opt_host = ''127.0.0.1'', opt_port = 8766, opt_domain = 0\<rparr>"

text \<open>\<open>std::stoi\<close>: blanks, a sign, digits; what follows the digits is ignored.\<close>

definition stoi :: "string \<Rightarrow> int res" where
  "stoi s =
     (let t = dropWhile isspace s;
          neg = (take 1 t = ''-'');
          u = (if take 1 t \<in> {''-'', ''+''} then drop 1 t else t);
          digits = takeWhile (\<lambda>c. dec_digit c \<noteq> None) u;
          n = (if neg then - int (nat_of_dec digits) else int (nat_of_dec digits))
      in if digits = [] then Inl (InvalidArgument ''stoi'')
         else if - (2 ^ 31) \<le> n \<and> n < 2 ^ 31 then Inr n
         else Inl (OutOfRange ''stoi''))"

text \<open>\<open>None\<close>: the usage was printed and the process has left with 1.\<close>

fun parse_options :: "string list \<Rightarrow> options \<Rightarrow> options option res" where
  "parse_options [] opts = Inr (Some opts)"
| "parse_options (arg # v # args) opts =
     (if arg = ''--host'' then parse_options args (opts\<lparr>opt_host := v\<rparr>)
      else if arg = ''--port'' then rbind (stoi v) (\<lambda>n. parse_options args (opts\<lparr>opt_port := word_of_int n\<rparr>))
      else if arg = ''--domain'' then rbind (stoi v) (\<lambda>n. parse_options args (opts\<lparr>opt_domain := n\<rparr>))
      else Inr None)"
| "parse_options [arg] opts = Inr None"

definition parseArgs :: "string list \<Rightarrow> options option res" where
  "parseArgs argv = parse_options (tl argv) default_options"

section \<open>The externalizer's handle\<close>

record 'x ext_handle =
  h_loader :: bool
  h_ext :: "'x option"

datatype freed = ExternalizerDestroyed | LoaderDestroyed

text \<open>What is destroyed and the handle; the destructor is another \<open>reset\<close>.\<close>

definition handle_reset :: "'x ext_handle \<Rightarrow> freed list \<times> 'x ext_handle" where
  "handle_reset h = (if h_loader h \<and> h_ext h \<noteq> None then ([ExternalizerDestroyed], h\<lparr>h_ext := None\<rparr>) else ([], h))"

section \<open>Running the server\<close>

definition createAcceptor :: "(string \<Rightarrow> string + 'a) \<Rightarrow> ('a \<Rightarrow> u16 \<Rightarrow> unit res) \<Rightarrow> options \<Rightarrow> unit res" where
  "createAcceptor make_address listen opts = (case make_address (opt_host opts) of
     Inl m \<Rightarrow> Inl (RuntimeError (''invalid host address: '' @ m))
   | Inr address \<Rightarrow> listen address (opt_port opts))"

text \<open>
  The \<open>try\<close> block: an exception unwinds what has been built, and the monitor's destructor stops and joins
  its thread.
\<close>

definition serve :: "'w dds \<Rightarrow> 'e codecs \<Rightarrow> (options \<Rightarrow> unit res) \<Rightarrow>
    (bool \<times> ('w \<Rightarrow> 'w) \<times> entity list option) list \<Rightarrow> (bool \<times> ('w \<Rightarrow> 'w) \<times> entity list option) list \<Rightarrow>
    options \<Rightarrow> 'w \<Rightarrow> unit res \<times> 'w" where
  "serve D K acceptor early late opts w = (case new_monitor D [] (opt_domain opts) w of
     (Inl e, w) \<Rightarrow> (Inl e, w)
   | (Inr m, w) \<Rightarrow>
       (let m = run D K early (start m) in
        case acceptor opts of
          Inl e \<Rightarrow> (Inl e, destroy D m)
        | Inr _ \<Rightarrow> (Inr (), destroy D (stop (run D K late m)))))"

text \<open>
  The exit code, or an exception that leaves \<open>runServer\<close>; what was destroyed, in order; the error output.
  \<open>loader\<close> is whether there is one, \<open>ext\<close> what its \<open>getExternalizer\<close> gave.
\<close>

definition runServer :: "bool \<Rightarrow> 'x option res \<Rightarrow> (options \<Rightarrow> 'w \<Rightarrow> unit res \<times> 'w) \<Rightarrow> options \<Rightarrow> 'w \<Rightarrow>
    (int res \<times> freed list \<times> string list) \<times> 'w" where
  "runServer loader ext serving opts w =
     (if \<not> loader then ((Inr 1, [], [''[arlacal] failed to create externalizer loader'']), w)
      else case ext of
        Inl e \<Rightarrow> ((Inl e, [], []), w)
      | Inr x \<Rightarrow>
          let h = \<lparr>h_loader = True, h_ext = x\<rparr> in
          if h_ext h = None
          then ((Inr 1, LoaderDestroyed # fst (handle_reset h), [''[arlacal] JSON externalizer unavailable'']), w)
          else case serving opts w of
            (Inl e, w) \<Rightarrow>
              (let (fs, h) = handle_reset h
               in ((Inr 1, fs @ [LoaderDestroyed] @ fst (handle_reset h), [''[arlacal] fatal: '' @ what e]), w))
          | (Inr _, w) \<Rightarrow>
              (let (fs, h) = handle_reset h
               in ((Inr 0, fs @ [LoaderDestroyed] @ fst (handle_reset h), []), w)))"

text \<open>\<open>main\<close>: an exception of the command line or of \<open>runServer\<close> is uncaught.\<close>

definition server_main :: "bool \<Rightarrow> 'x option res \<Rightarrow> (options \<Rightarrow> 'w \<Rightarrow> unit res \<times> 'w) \<Rightarrow> string list \<Rightarrow> 'w \<Rightarrow>
    (int res \<times> freed list \<times> string list) \<times> 'w" where
  "server_main loader ext serving argv w = (case parseArgs argv of
     Inl e \<Rightarrow> ((Inl e, [], []), w)
   | Inr None \<Rightarrow>
       ((Inr 1, [], [''usage: '' @ hd argv @ '' [--host ADDR] [--port PORT] [--domain ID]'']), w)
   | Inr (Some opts) \<Rightarrow> runServer loader ext serving opts w)"

section \<open>The command line is read back\<close>

lemma takeWhile_digits [simp]: "takeWhile (\<lambda>c. \<exists>d. dec_digit c = Some d) (dec_of_nat n) = dec_of_nat n"
  using dec_of_nat_digits [of _ n] by (auto simp: takeWhile_eq_all_conv)

lemma digit_not_space: "dec_digit c \<noteq> None \<Longrightarrow> \<not> isspace c \<and> c \<noteq> CHR ''+'' \<and> c \<noteq> CHR ''-''"
  by (auto simp: dec_digit_def isspace_def Let_def split: if_splits)

lemma stoi_dec_of_nat:
  assumes "int n < 2 ^ 31"
  shows "stoi (dec_of_nat n) = Inr (int n)"
proof -
  obtain c cs where c: "dec_of_nat n = c # cs" by (cases "dec_of_nat n") simp_all
  have "dec_digit c \<noteq> None" using dec_of_nat_digits [of c n] by (simp add: c)
  then have "dropWhile isspace (dec_of_nat n) = dec_of_nat n" "take 1 (dec_of_nat n) \<noteq> ''-''" "take 1 (dec_of_nat n) \<noteq> ''+''"
    using digit_not_space [of c] by (simp_all add: c)
  with assms show ?thesis by (simp add: stoi_def Let_def)
qed

lemma stoi_minus:
  assumes "int n \<le> 2 ^ 31"
  shows "stoi (CHR ''-'' # dec_of_nat n) = Inr (- int n)"
  using assms by (simp add: stoi_def Let_def isspace_def)

lemma stoi_dec_of_int: "- (2 ^ 31) \<le> i \<Longrightarrow> i < 2 ^ 31 \<Longrightarrow> stoi (dec_of_int i) = Inr i"
  using stoi_dec_of_nat [of "nat i"] stoi_minus [of "nat (- i)"] by (auto simp: dec_of_int_def)

datatype argument = HostArg string | PortArg int | DomainArg int

fun words_of_argument :: "argument \<Rightarrow> string list" where
  "words_of_argument (HostArg h) = [''--host'', h]"
| "words_of_argument (PortArg n) = [''--port'', dec_of_int n]"
| "words_of_argument (DomainArg n) = [''--domain'', dec_of_int n]"

fun int_argument :: "argument \<Rightarrow> bool" where
  "int_argument (HostArg h) \<longleftrightarrow> True"
| "int_argument (PortArg n) \<longleftrightarrow> - (2 ^ 31) \<le> n \<and> n < 2 ^ 31"
| "int_argument (DomainArg n) \<longleftrightarrow> - (2 ^ 31) \<le> n \<and> n < 2 ^ 31"

text \<open>The port is what the number is modulo \<open>2^16\<close>.\<close>

fun set_option_of :: "argument \<Rightarrow> options \<Rightarrow> options" where
  "set_option_of (HostArg h) opts = opts\<lparr>opt_host := h\<rparr>"
| "set_option_of (PortArg n) opts = opts\<lparr>opt_port := word_of_int (n mod 2 ^ 16)\<rparr>"
| "set_option_of (DomainArg n) opts = opts\<lparr>opt_domain := n\<rparr>"

lemma word_of_int_mod16: "(word_of_int (n mod 65536) :: u16) = word_of_int n"
  by (simp add: word_of_int_eq_iff take_bit_eq_mod)

lemma parse_options_words:
  "list_all int_argument args \<Longrightarrow> parse_options (concat (map words_of_argument args)) opts = Inr (Some (fold set_option_of args opts))"
proof (induction args arbitrary: opts)
  case (Cons a args)
  then show ?case by (cases a) (simp_all add: stoi_dec_of_int word_of_int_mod16)
qed simp

text \<open>
  The command line is read back: any sequence of the three options, each number an \<open>int\<close>, sets what it
  names, the last one of a kind winning; but a port is taken modulo \<open>2^16\<close> without a word.
\<close>

theorem command_line_is_read_back:
  assumes "list_all int_argument args"
  shows "parseArgs (prog # concat (map words_of_argument args)) = Inr (Some (fold set_option_of args default_options))"
  using assms by (simp add: parseArgs_def parse_options_words)

theorem command_line_is_read_back_witness:
  "parseArgs (''arlacal-server'' # concat (map words_of_argument [PortArg 65536, DomainArg (- 3)])) =
     Inr (Some \<lparr>opt_host = ''127.0.0.1'', opt_port = 0, opt_domain = - 3\<rparr>)"
  by (subst command_line_is_read_back) (simp_all add: default_options_def)

section \<open>The server cleans up\<close>

lemma live_serve:
  assumes D: "manages_entities D live" and w: "\<forall>e \<in> live w. 0 \<le> e"
    and m: "new_monitor D [] (opt_domain opts) w = (Inr m, w')"
    and rounds: "list_all (\<lambda>(go, arrive, n). \<forall>w. live (arrive w) = live w) early"
      "list_all (\<lambda>(go, arrive, n). \<forall>w. live (arrive w) = live w) late"
  shows "live (snd (serve D K acceptor early late opts w)) = live w \<and>
    (isl (fst (serve D K acceptor early late opts w)) \<longleftrightarrow> isl (acceptor opts))"
proof -
  have "holds live (live w) (start m)"
    using holds_new_monitor(1) [OF D m] by (rule holds_cong) (simp_all add: start_def)
  then have early: "holds live (live w) (run D K early (start m))" by (rule holds_run [OF D rounds(1)])
  then have "holds live (live w) (run D K late (run D K early (start m)))" by (rule holds_run [OF D rounds(2)])
  then have "holds live (live w) (stop (run D K late (run D K early (start m))))"
    by (rule holds_cong) (simp_all add: stop_def)
  with early show ?thesis by (simp add: serve_def m Let_def live_destroy [OF D _ w] split: sum.splits)
qed



text \<open>
  When the plugin of the externalizer cannot be loaded the loader throws; \<open>runServer\<close> calls it outside its
  \<open>try\<close>, so the exception leaves it, nothing is printed, the loader is not destroyed, and the branch that
  reports an unavailable externalizer is not taken.
\<close>

lemma missing_plugin_is_uncaught:
  assumes "dlopen ''libarcal_externalizer_json.so'' = Inl message"
  shows "\<exists>e. runServer True (map_res Some (getExternalizer dlopen dlsym b ''JSON'' ''2.5.0'' ''2.5.0'')) serving opts w =
    ((Inl (UCIException e), [], []), w)"
  using assms by (simp add: runServer_def getExternalizer_def plugin_map_def loadPlugin_def)

end
