(* ===== verification/Client_Utils.thy ===== *)
theory Client_Utils
  imports Dds_Transport Uuid_String
begin

text \<open>
  What is around the readers and writers: the quality of service a connection asks the middleware for
  (\<open>src/dds/CalQos.h\<close>, \<open>QosMapper.h\<close>), the scoped registration of a listener and the identifiers of the
  client utilities (\<open>include/uci/utils/MessageListener.h\<close>, \<open>Id.h\<close>).
\<close>

section \<open>Quality of service\<close>

datatype reliability = BestEffort | Reliable | Ordering

record cal_qos =
  timeBasedFilterMs :: u64
  reliability :: reliability
  expirationMs :: u64
  messageBufferDepth :: u32

definition default_qos :: cal_qos where
  "default_qos = \<lparr>timeBasedFilterMs = 0, reliability = BestEffort, expirationMs = 0, messageBufferDepth = 1\<rparr>"

text \<open>
  The policies that are set on the middleware's defaults; a duration is in milliseconds. The depth is the
  32-bit number handed to \<open>KeepLast\<close>; \<open>LENGTH_UNLIMITED\<close> is \<open>-1\<close>.
\<close>

datatype dds_reliability = DdsBestEffort | DdsReliable

record dds_qos =
  q_reliability :: dds_reliability
  q_keep_last :: u32
  q_time_filter :: "u64 option"
  q_lifespan :: "u64 option"

definition LENGTH_UNLIMITED :: u32 where
  "LENGTH_UNLIMITED = - 1"

definition toReaderQos :: "cal_qos \<Rightarrow> dds_qos" where
  "toReaderQos cal =
     \<lparr>q_reliability = (if reliability cal = BestEffort then DdsBestEffort else DdsReliable),
      q_keep_last = (if 0 < messageBufferDepth cal then messageBufferDepth cal else LENGTH_UNLIMITED),
      q_time_filter = (if 0 < timeBasedFilterMs cal then Some (timeBasedFilterMs cal) else None),
      q_lifespan = None\<rparr>"

definition toWriterQos :: "cal_qos \<Rightarrow> dds_qos" where
  "toWriterQos cal =
     \<lparr>q_reliability = (if reliability cal = BestEffort then DdsBestEffort else DdsReliable),
      q_keep_last = (if 0 < messageBufferDepth cal then messageBufferDepth cal else LENGTH_UNLIMITED),
      q_time_filter = None,
      q_lifespan = (if 0 < expirationMs cal then Some (expirationMs cal) else None)\<rparr>"

text \<open>
  The matching rule of DDS for the one policy of these that is matched: a reader that asks for reliable
  delivery needs a writer that offers it.
\<close>

definition matches :: "dds_qos \<Rightarrow> dds_qos \<Rightarrow> bool" where
  "matches offered requested \<longleftrightarrow> q_reliability requested = DdsReliable \<longrightarrow> q_reliability offered = DdsReliable"

lemma same_qos_matches: "matches (toWriterQos cal) (toReaderQos cal)"
  by (simp add: matches_def toWriterQos_def toReaderQos_def)

lemma default_writer_matches_iff:
  "matches (toWriterQos default_qos) (toReaderQos cal) \<longleftrightarrow> reliability cal = BestEffort"
  by (simp add: matches_def toWriterQos_def toReaderQos_def default_qos_def)

section \<open>Listeners\<close>

text \<open>
  A listener made of a callback: what the callback captures by reference is the state it changes, and the
  callback may throw.
\<close>

datatype ('m, 's) message_listener = MessageListener (callback: "'m \<Rightarrow> 's \<Rightarrow> 's res")

definition listener_handleMessage :: "('m, 's) message_listener \<Rightarrow> 'm \<Rightarrow> 's \<Rightarrow> 's res" where
  "listener_handleMessage l message captured = callback l message captured"

text \<open>The registration of a listener for the length of a scope.\<close>

definition scope_begin :: "listener \<Rightarrow> reader \<Rightarrow> reader" where
  "scope_begin l r = addListener l r"

definition scope_end :: "listener \<Rightarrow> reader \<Rightarrow> reader" where
  "scope_end l r = removeListener l r"

definition ScopedListener :: "listener \<Rightarrow> (reader \<Rightarrow> reader) \<Rightarrow> reader \<Rightarrow> reader" where
  "ScopedListener l scope r = scope_end l (scope (scope_begin l r))"

text \<open>Scopes of different listeners nest: each leaves the listeners it found.\<close>

lemma scoped_listener_restores:
  assumes "l \<notin> set (r_listeners r)" "r_listeners (scope (scope_begin l r)) = r_listeners (scope_begin l r)"
  shows "r_listeners (ScopedListener l scope r) = r_listeners r"
  using assms by (simp add: ScopedListener_def scope_begin_def scope_end_def addListener_def removeListener_def)
    (auto simp: filter_id_conv)

text \<open>
  Two scopes of the same listener do not: the end of the inner one takes the outer registration with it,
  and what the outer scope reads from then on is not delivered to the listener.
\<close>

lemma inner_scope_unregisters_outer:
  "l \<notin> set (r_listeners (ScopedListener l scope (scope_begin l r)))"
  by (simp add: ScopedListener_def scope_end_def removeListener_def)

section \<open>Identifiers\<close>

record id_type =
  id_uuid :: uuid
  descriptiveLabel :: "string option"

definition setId :: "uuid \<Rightarrow> id_type \<Rightarrow> id_type" where
  "setId u i = i\<lparr>id_uuid := u\<rparr>"

definition setId_labelled :: "uuid \<Rightarrow> string \<Rightarrow> id_type \<Rightarrow> id_type" where
  "setId_labelled u label i = (setId u i)\<lparr>descriptiveLabel := Some label\<rparr>"

definition setId_string :: "string \<Rightarrow> id_type \<Rightarrow> id_type res" where
  "setId_string s i = map_res (\<lambda>u. setId u i) (fromString s)"

definition setId_string_labelled :: "string \<Rightarrow> string \<Rightarrow> id_type \<Rightarrow> id_type res" where
  "setId_string_labelled s label i = map_res (\<lambda>u. setId_labelled u label i) (fromString s)"

definition assignNewId :: "bytes \<Rightarrow> id_type \<Rightarrow> uuid \<times> id_type" where
  "assignNewId random i = (let u = generateUUID random in (u, setId u i))"

definition assignNewId_labelled :: "bytes \<Rightarrow> string \<Rightarrow> id_type \<Rightarrow> uuid \<times> id_type" where
  "assignNewId_labelled random label i = (let u = generateUUID random in (u, setId_labelled u label i))"

text \<open>An identifier set from the printed form of another is that one; a label stays unless one is given.\<close>

lemma setId_printed:
  "wf_uuid u \<Longrightarrow> setId_string (toString u) i = Inr (i\<lparr>id_uuid := u\<rparr>)"
  by (simp add: setId_string_def setId_def fromString_toString)

lemma assignNewId_label: "descriptiveLabel (snd (assignNewId random i)) = descriptiveLabel i"
  by (simp add: assignNewId_def setId_def Let_def)

end
