(* ===== verification/Demo_World.thy ===== *)
theory Demo_World
  imports Client_Utils "HOL-Library.Sublist"
begin

text \<open>
  What the two demo programs (\<open>examples/amti_service_demo\<close>, \<open>examples/smti_service_demo\<close>) share: the
  parts of the messages they set and look at, and the library as a program sees it. A program is a
  sequential process over a script of inputs, the clock samples and the outcomes of its reads; it returns,
  throws, or waits for the next input when the script is at its end, so that a longer script continues the
  run. Every call of the library is recorded and may throw, as the environment decides. The records of the
  messages hold the fields the programs touch (the types themselves are generated from the message schema);
  an item of a generated enumeration is its name, which is what \<open>toName\<close> gives. Printing is left out.
\<close>

section \<open>Messages\<close>

type_synonym enum_item = string

record capability_type =
  cap_id :: id_type
  cap_type :: enum_item
  cap_subtype :: "enum_item option"
  interruptOtherActivities :: bool
  collectionPolicy :: bool
  trackingSupported :: "bool option"
  concurrentOperationSupported :: bool
  messageOutput :: "enum_item list"

record capability_mt =
  cap_objectState :: "enum_item option"
  capability :: "capability_type list"

record capability_status_type =
  status_cap_id :: id_type
  availability :: enum_item

record capability_status_mt =
  capabilityStatus :: "capability_status_type list"

record resulting_activity_type =
  resulting_id :: id_type
  newActivity :: bool

record command_status_mt =
  status_command_id :: id_type
  commandProcessingState :: enum_item
  resulting :: "resulting_activity_type list"

record activity_type =
  act_id :: id_type
  interactive :: bool
  activityState :: enum_item
  allProductsAndMessagesProduced :: bool
  act_capabilities :: "id_type list"

record activity_mt =
  act_objectState :: "enum_item option"
  subsystemID :: id_type
  activity :: "activity_type list"

record capability_command =
  capcmd_id :: id_type
  capcmd_state :: enum_item
  capcmd_capability :: id_type
  priority :: int

record activity_command =
  actcmd_id :: id_type
  actcmd_state :: enum_item
  actcmd_activity :: id_type
  changeActivityState :: "enum_item option"

datatype command_choice =
  NoChoice | Capability (getCapability: capability_command) | Activity (getActivity: activity_command)

record command_mt =
  command :: "command_choice list"

text \<open>What \<open>create\<close> and \<open>resize\<close> start from; the programs overwrite every field they leave set.\<close>

definition new_id :: id_type where
  "new_id = \<lparr>id_uuid = UUID zero_octets, descriptiveLabel = None\<rparr>"

definition new_capability :: capability_type where
  "new_capability = \<lparr>cap_id = new_id, cap_type = [], cap_subtype = None, interruptOtherActivities = False,
     collectionPolicy = False, trackingSupported = None, concurrentOperationSupported = False, messageOutput = []\<rparr>"

definition new_capability_status :: capability_status_type where
  "new_capability_status = \<lparr>status_cap_id = new_id, availability = []\<rparr>"

definition new_resulting :: resulting_activity_type where
  "new_resulting = \<lparr>resulting_id = new_id, newActivity = False\<rparr>"

definition new_command_status :: command_status_mt where
  "new_command_status = \<lparr>status_command_id = new_id, commandProcessingState = [], resulting = []\<rparr>"

definition new_activity :: activity_type where
  "new_activity = \<lparr>act_id = new_id, interactive = False, activityState = [], allProductsAndMessagesProduced = False,
     act_capabilities = []\<rparr>"

definition new_activity_mt :: activity_mt where
  "new_activity_mt = \<lparr>act_objectState = None, subsystemID = new_id, activity = []\<rparr>"

definition new_capability_command :: capability_command where
  "new_capability_command = \<lparr>capcmd_id = new_id, capcmd_state = [], capcmd_capability = new_id, priority = 0\<rparr>"

definition new_activity_command :: activity_command where
  "new_activity_command = \<lparr>actcmd_id = new_id, actcmd_state = [], actcmd_activity = new_id, changeActivityState = None\<rparr>"

definition resize1 :: "'a \<Rightarrow> 'a list \<Rightarrow> 'a list" where
  "resize1 d xs = take 1 xs @ replicate (1 - length xs) d"

lemma resize1_Nil [simp]: "resize1 d [] = [d]"
  by (simp add: resize1_def)

text \<open>\<open>struct ReceivedCommand\<close>, the same in both programs.\<close>

record received_command =
  rc_received :: bool
  rc_start :: bool
  rc_commandUuid :: uuid
  rc_activityUuid :: uuid

definition ReceivedCommand :: received_command where
  "ReceivedCommand = \<lparr>rc_received = False, rc_start = False, rc_commandUuid = UUID zero_octets, rc_activityUuid = UUID zero_octets\<rparr>"

datatype bus_message =
    CapabilityMsg capability_mt
  | CapabilityStatusMsg capability_status_mt
  | CommandMsg command_mt
  | CommandStatusMsg command_status_mt
  | ActivityMsg activity_mt

section \<open>The library as the programs call it\<close>

datatype kind = KCapability | KCapabilityStatus | KCommand | KCommandStatus | KActivity

datatype resource = Connection | Reader kind | Writer kind | Message kind

datatype call =
    GetConnection string string
  | GetCapabilityUUID string
  | GetSubsystemUUID
  | CreateReader kind string
  | CreateWriter kind string
  | CreateMessage kind
  | Write kind
  | Read kind nat nat
  | Close resource
  | Destroy resource
  | Shutdown
  | SleepMs nat

datatype input = Tick nat | CommandRead "command_mt option" | StatusRead "command_status_mt option" | ActivityRead "activity_mt option"

datatype request = ForClock | ForCommand | ForStatus | ForActivity

record world =
  script :: "input list"
  sent :: "bus_message list"
  calls :: "call list"
  generated :: nat

text \<open>
  The environment: what the connection answers, the random octets of the n-th identifier, and which call
  throws what after which calls.
\<close>

record env =
  env_capability :: "string \<Rightarrow> uuid"
  env_subsystem :: uuid
  env_random :: "nat \<Rightarrow> bytes"
  env_fault :: "call list \<Rightarrow> call \<Rightarrow> exn option"

datatype 'a result = Returns 'a | Throws exn | Waits request

type_synonym 'a proc = "world \<Rightarrow> 'a result \<times> world"

definition ret :: "'a \<Rightarrow> 'a proc" where
  "ret x w = (Returns x, w)"

definition throw :: "exn \<Rightarrow> 'a proc" where
  "throw e w = (Throws e, w)"

text \<open>What follows a process that returned or threw; one that waits, waits.\<close>

definition handle :: "'a proc \<Rightarrow> ('a \<Rightarrow> 'b proc) \<Rightarrow> (exn \<Rightarrow> 'b proc) \<Rightarrow> 'b proc" where
  "handle m f h w = (case m w of
     (Returns x, v) \<Rightarrow> f x v | (Throws e, v) \<Rightarrow> h e v | (Waits r, v) \<Rightarrow> (Waits r, v))"

definition bind :: "'a proc \<Rightarrow> ('a \<Rightarrow> 'b proc) \<Rightarrow> 'b proc" where
  "bind m f = handle m f throw"

definition seq :: "unit proc \<Rightarrow> 'b proc \<Rightarrow> 'b proc" where
  "seq m n = bind m (\<lambda>_. n)"

text \<open>\<open>catch (...)\<close> whose handler throws the exception again, and the \<open>noexcept\<close> reset of a pointer.\<close>

definition catch_rethrow :: "'a proc \<Rightarrow> unit proc \<Rightarrow> 'a proc" where
  "catch_rethrow m h = handle m ret (\<lambda>e. seq h (throw e))"

definition no_throw :: "unit proc \<Rightarrow> unit proc" where
  "no_throw m = handle m ret (\<lambda>_. ret ())"

definition perform :: "env \<Rightarrow> call \<Rightarrow> unit proc" where
  "perform E c w = (case env_fault E (calls w) c of
     Some e \<Rightarrow> (Throws e, w) | None \<Rightarrow> (Returns (), w\<lparr>calls := calls w @ [c]\<rparr>))"

text \<open>\<open>write\<close>: the message goes out.\<close>

definition submit :: "bus_message \<Rightarrow> unit proc" where
  "submit m w = (Returns (), w\<lparr>sent := sent w @ [m]\<rparr>)"

definition put :: "env \<Rightarrow> kind \<Rightarrow> bus_message \<Rightarrow> unit proc" where
  "put E k m = seq (perform E (Write k)) (submit m)"

text \<open>What is made of the random octets of the next identifier.\<close>

definition draw :: "env \<Rightarrow> (bytes \<Rightarrow> 'a) \<Rightarrow> 'a proc" where
  "draw E f w = (Returns (f (env_random E (generated w))), w\<lparr>generated := generated w + 1\<rparr>)"

definition generate :: "env \<Rightarrow> uuid proc" where
  "generate E = draw E generateUUID"

text \<open>
  The next input of the script, when it is of the kind that is asked for: a sample of the clock, or the
  outcome of \<open>read(timeout, 1, listener)\<close>, which calls the listener with one message at most.
\<close>

definition take_input :: "request \<Rightarrow> (input \<Rightarrow> 'a option) \<Rightarrow> 'a proc" where
  "take_input r pick w = (case script w of
     [] \<Rightarrow> (Waits r, w)
   | x # s \<Rightarrow> (case pick x of None \<Rightarrow> (Waits r, w) | Some y \<Rightarrow> (Returns y, w\<lparr>script := s\<rparr>)))"

fun tick_of :: "input \<Rightarrow> nat option" where
  "tick_of (Tick t) = Some t" | "tick_of _ = None"

fun command_of :: "input \<Rightarrow> command_mt option option" where
  "command_of (CommandRead m) = Some m" | "command_of _ = None"

fun status_of :: "input \<Rightarrow> command_status_mt option option" where
  "status_of (StatusRead m) = Some m" | "status_of _ = None"

fun activity_of :: "input \<Rightarrow> activity_mt option option" where
  "activity_of (ActivityRead m) = Some m" | "activity_of _ = None"

definition now :: "nat proc" where
  "now = take_input ForClock tick_of"

definition read_command :: "env \<Rightarrow> nat \<Rightarrow> command_mt option proc" where
  "read_command E ms = seq (perform E (Read KCommand ms 1)) (take_input ForCommand command_of)"

definition read_status :: "env \<Rightarrow> nat \<Rightarrow> command_status_mt option proc" where
  "read_status E ms = seq (perform E (Read KCommandStatus ms 1)) (take_input ForStatus status_of)"

definition read_activity :: "env \<Rightarrow> nat \<Rightarrow> activity_mt option proc" where
  "read_activity E ms = seq (perform E (Read KActivity ms 1)) (take_input ForActivity activity_of)"

text \<open>A listener's members after a read.\<close>

definition heard :: "('m \<Rightarrow> 'l \<Rightarrow> 'l) \<Rightarrow> 'm option \<Rightarrow> 'l \<Rightarrow> 'l" where
  "heard f m l = (case m of None \<Rightarrow> l | Some msg \<Rightarrow> f msg l)"

text \<open>The same for a listener that is a callback.\<close>

definition delivered :: "('m, 's) message_listener \<Rightarrow> 'm option \<Rightarrow> 's \<Rightarrow> 's proc" where
  "delivered l m s = (case m of None \<Rightarrow> ret s
     | Some msg \<Rightarrow> (case listener_handleMessage l msg s of Inl e \<Rightarrow> throw e | Inr s' \<Rightarrow> ret s'))"

definition start_world :: "input list \<Rightarrow> world" where
  "start_world s = \<lparr>script = s, sent = [], calls = [], generated = 0\<rparr>"

text \<open>A pointer of \<open>uci::utils\<close> in a scope: what is acquired is released however the scope is left.\<close>

definition leaving :: "unit proc \<Rightarrow> 'a proc \<Rightarrow> 'a proc" where
  "leaving release block =
     handle block (\<lambda>x. seq (no_throw release) (ret x)) (\<lambda>e. seq (no_throw release) (throw e))"

definition scoped :: "unit proc \<Rightarrow> unit proc \<Rightarrow> 'a proc \<Rightarrow> 'a proc" where
  "scoped acquire release block = seq acquire (leaving release block)"

text \<open>\<open>main\<close>'s handler: whatever is thrown derives from \<open>std::exception\<close>.\<close>

definition exit_code :: "int proc \<Rightarrow> int proc" where
  "exit_code m = handle m ret (\<lambda>_. ret 1)"

section \<open>Facts on processes\<close>

lemmas handle_defs = bind_def seq_def catch_rethrow_def no_throw_def leaving_def scoped_def exit_code_def

lemmas prim_defs = ret_def throw_def perform_def submit_def draw_def take_input_def

lemmas io_defs = put_def generate_def now_def read_command_def read_status_def read_activity_def

lemma bind_cong [fundef_cong]:
  assumes "w = w'" "m w' = m' w'" "\<And>x v. m' w' = (Returns x, v) \<Longrightarrow> f x v = g x v"
  shows "bind m f w = bind m' g w'"
  using assms by (auto simp: bind_def handle_def split: result.split prod.split)

text \<open>A run only reads its script on, sends more and calls more.\<close>

definition later :: "world \<Rightarrow> world \<Rightarrow> bool" where
  "later w v \<longleftrightarrow> suffix (script v) (script w) \<and> prefix (sent w) (sent v) \<and> prefix (calls w) (calls v)"

lemma later_refl [simp]: "later w w"
  by (simp add: later_def)

lemma later_trans [trans]: "later w v \<Longrightarrow> later v u \<Longrightarrow> later w u"
  by (auto simp: later_def intro: suffix_order.trans prefix_order.trans)

definition progresses :: "'a proc \<Rightarrow> bool" where
  "progresses m \<longleftrightarrow> (\<forall>w. later w (snd (m w)))"

named_theorems lawful

lemma progressesD: "progresses m \<Longrightarrow> m w = (r, v) \<Longrightarrow> later w v"
  unfolding progresses_def by (metis snd_conv)

lemma progresses_handle [lawful]:
  assumes m: "progresses m" and f: "\<And>x. progresses (f x)" and h: "\<And>e. progresses (h e)"
  shows "progresses (handle m f h)"
  unfolding progresses_def
proof
  fix w
  obtain r v where v: "m w = (r, v)" by fastforce
  have "later v (snd (f x v))" "later v (snd (h e v))" for x e
    using f h by (auto intro: progressesD [OF _ surjective_pairing])
  with progressesD [OF m v] v show "later w (snd (handle m f h w))"
    by (auto simp: handle_def split: result.split intro: later_trans)
qed

lemma progresses_prim [lawful, simp]:
  "progresses (ret x)" "progresses (throw e)" "progresses (perform E c)" "progresses (submit msg)" "progresses (draw E g)"
  "progresses (take_input r pick)"
  by (simp_all add: progresses_def later_def prim_defs suffix_ConsI split: option.split list.split)

lemma progresses_combinators [lawful]:
  "progresses m \<Longrightarrow> (\<And>x. progresses (f x)) \<Longrightarrow> progresses (bind m f)"
  "progresses n \<Longrightarrow> progresses m \<Longrightarrow> progresses (seq n m)"
  "progresses m \<Longrightarrow> progresses h \<Longrightarrow> progresses (catch_rethrow m h)"
  "progresses h \<Longrightarrow> progresses (no_throw h)"
  "progresses h \<Longrightarrow> progresses m \<Longrightarrow> progresses (leaving h m)"
  "progresses n \<Longrightarrow> progresses h \<Longrightarrow> progresses m \<Longrightarrow> progresses (scoped n h m)"
  "progresses k \<Longrightarrow> progresses (exit_code k)"
  by (simp_all add: handle_defs lawful)

lemma progresses_io [lawful, simp]:
  "progresses (put E k msg)" "progresses now" "progresses (generate E)"
  "progresses (read_command E ms)" "progresses (read_status E ms)" "progresses (read_activity E ms)"
  by (simp_all add: io_defs lawful)

lemma progresses_delivered [lawful, simp]: "progresses (delivered l m s)"
  by (auto simp: delivered_def split: option.split sum.split)

lemma progresses_if [lawful]: "progresses m \<Longrightarrow> progresses n \<Longrightarrow> progresses (if b then m else n)"
  by simp

text \<open>Hence the loops end: an iteration has read a clock sample at least.\<close>

lemma now_reads: "now w = (Returns t, v) \<Longrightarrow> length (script v) < length (script w)"
  by (auto simp: now_def take_input_def split: list.splits option.splits)

lemma later_length: "later w v \<Longrightarrow> length (script v) \<le> length (script w)"
  by (simp add: later_def suffix_length_le)

lemma loop_reads:
  "now w = (Returns t, v) \<Longrightarrow> progresses m \<Longrightarrow> m v = (r, u) \<Longrightarrow> length (script u) < length (script w)"
  using now_reads [of w t v] progressesD [of m v r u] later_length [of v u] by simp

lemma updates_read:
  assumes "now w = (Returns t, w1)" "progresses m" "m w1 = (r, w2)" "progresses n" "n w2 = (q, w3)"
  shows "length (script w3) < length (script w)"
  using loop_reads [OF assms(1-3)] progressesD [OF assms(4,5)] later_length [of w2 w3] by simp

end
