(* ===== verification/Amti_Demo.thy ===== *)
theory Amti_Demo
  imports Demo_World
begin

text \<open>
  \<open>examples/amti_service_demo/main.cpp\<close>: the service publishes its capability, waits for a start command,
  answers with a status and an activity, waits for the stop command of that activity and completes it; the
  client sends the two commands and waits for the answers. The resources are released by hand, in the
  handler of the \<open>try\<close> block and after it.
\<close>

section \<open>Publishing\<close>

definition amti_setId :: "uuid \<Rightarrow> string \<Rightarrow> id_type \<Rightarrow> id_type" where
  "amti_setId u label i = i\<lparr>id_uuid := u, descriptiveLabel := Some label\<rparr>"

definition kAmtiCapabilityName :: string where
  "kAmtiCapabilityName = ''AmtiSurveillanceCapability''"

definition amti_capability_message :: "uuid \<Rightarrow> capability_mt" where
  "amti_capability_message capabilityUuid =
     (let cap = hd (resize1 new_capability []);
          cap = cap\<lparr>cap_id := amti_setId capabilityUuid kAmtiCapabilityName (cap_id cap)\<rparr>;
          cap = cap\<lparr>cap_type := ''VOLUME''\<rparr>;
          cap = cap\<lparr>interruptOtherActivities := False, collectionPolicy := True, concurrentOperationSupported := False\<rparr>;
          cap = cap\<lparr>messageOutput := map (\<lambda>_. ''AMTI_ACTIVITY'') (resize1 [] (messageOutput cap))\<rparr>
      in \<lparr>cap_objectState = Some ''NEW'', capability = [cap]\<rparr>)"

definition amti_publishCapability :: "env \<Rightarrow> uuid \<Rightarrow> unit proc" where
  "amti_publishCapability E capabilityUuid =
     seq (perform E (CreateMessage KCapability))
     (seq (put E KCapability (CapabilityMsg (amti_capability_message capabilityUuid)))
     (perform E (Destroy (Message KCapability))))"

definition amti_capability_status_message :: "uuid \<Rightarrow> capability_status_mt" where
  "amti_capability_status_message capabilityUuid =
     (let status = hd (resize1 new_capability_status []);
          status = status\<lparr>status_cap_id := amti_setId capabilityUuid kAmtiCapabilityName (status_cap_id status)\<rparr>;
          status = status\<lparr>availability := ''AVAILABLE''\<rparr>
      in \<lparr>capabilityStatus = [status]\<rparr>)"

definition amti_publishCapabilityStatus :: "env \<Rightarrow> uuid \<Rightarrow> unit proc" where
  "amti_publishCapabilityStatus E capabilityUuid =
     seq (perform E (CreateMessage KCapabilityStatus))
     (seq (put E KCapabilityStatus (CapabilityStatusMsg (amti_capability_status_message capabilityUuid)))
     (perform E (Destroy (Message KCapabilityStatus))))"

definition amti_command_status_message :: "uuid \<Rightarrow> uuid option \<Rightarrow> command_status_mt" where
  "amti_command_status_message commandUuid activityUuid =
     (let data = new_command_status;
          data = data\<lparr>status_command_id := amti_setId commandUuid ''AMTI command'' (status_command_id data)\<rparr>;
          data = data\<lparr>commandProcessingState := ''ACCEPTED''\<rparr>
      in case activityUuid of None \<Rightarrow> data
         | Some u \<Rightarrow> data\<lparr>resulting := map (\<lambda>a. a\<lparr>resulting_id := amti_setId u ''AMTI activity'' (resulting_id a), newActivity := True\<rparr>)
                                       (resize1 new_resulting (resulting data))\<rparr>)"

definition amti_publishCommandStatus :: "env \<Rightarrow> uuid \<Rightarrow> uuid option \<Rightarrow> unit proc" where
  "amti_publishCommandStatus E commandUuid activityUuid =
     seq (perform E (CreateMessage KCommandStatus))
     (seq (put E KCommandStatus (CommandStatusMsg (amti_command_status_message commandUuid activityUuid)))
     (perform E (Destroy (Message KCommandStatus))))"

definition amti_activity_message :: "uuid \<Rightarrow> uuid \<Rightarrow> uuid \<Rightarrow> enum_item \<Rightarrow> enum_item \<Rightarrow> activity_mt" where
  "amti_activity_message subsystemUuid capabilityUuid activityUuid state objectState =
     (let message = new_activity_mt\<lparr>act_objectState := Some objectState\<rparr>;
          message = message\<lparr>subsystemID := amti_setId subsystemUuid ''AmtiPayload'' (subsystemID message)\<rparr>;
          act = hd (resize1 new_activity (activity message));
          act = act\<lparr>act_id := amti_setId activityUuid ''AMTI activity'' (act_id act)\<rparr>;
          act = act\<lparr>interactive := False, activityState := state, allProductsAndMessagesProduced := state = ''COMPLETED''\<rparr>;
          act = act\<lparr>act_capabilities := map (amti_setId capabilityUuid kAmtiCapabilityName) (resize1 new_id (act_capabilities act))\<rparr>
      in message\<lparr>activity := [act]\<rparr>)"

definition amti_publishActivity :: "env \<Rightarrow> uuid \<Rightarrow> uuid \<Rightarrow> enum_item \<Rightarrow> enum_item \<Rightarrow> unit proc" where
  "amti_publishActivity E capabilityUuid activityUuid state objectState =
     seq (perform E (CreateMessage KActivity))
     (seq (perform E GetSubsystemUUID)
     (seq (put E KActivity (ActivityMsg (amti_activity_message (env_subsystem E) capabilityUuid activityUuid state objectState)))
     (perform E (Destroy (Message KActivity)))))"

section \<open>Listening\<close>

text \<open>The member \<open>last\<close> of \<open>CommandListener\<close>.\<close>

definition amti_handleCommand :: "command_mt \<Rightarrow> received_command \<Rightarrow> received_command" where
  "amti_handleCommand message latest = (case command message of
     [] \<Rightarrow> latest
   | Capability cap # _ \<Rightarrow> latest\<lparr>rc_received := True, rc_start := True, rc_commandUuid := id_uuid (capcmd_id cap),
                                   rc_activityUuid := UUID zero_octets\<rparr>
   | Activity act # _ \<Rightarrow> latest\<lparr>rc_received := True, rc_start := False, rc_commandUuid := id_uuid (actcmd_id act),
                                 rc_activityUuid := id_uuid (actcmd_activity act)\<rparr>
   | NoChoice # _ \<Rightarrow> latest)"

definition amti_take :: "received_command \<Rightarrow> received_command \<times> received_command" where
  "amti_take latest = (latest, ReceivedCommand)"

record amti_status_listener =
  sl_received :: int
  sl_lastCommandUuid :: uuid
  sl_lastState :: string

record amti_activity_listener =
  al_received :: int
  al_lastActivityUuid :: uuid
  al_lastState :: string

definition amti_new_status_listener :: amti_status_listener where
  "amti_new_status_listener = \<lparr>sl_received = 0, sl_lastCommandUuid = UUID zero_octets, sl_lastState = []\<rparr>"

definition amti_new_activity_listener :: amti_activity_listener where
  "amti_new_activity_listener = \<lparr>al_received = 0, al_lastActivityUuid = UUID zero_octets, al_lastState = []\<rparr>"

definition amti_handleStatus :: "command_status_mt \<Rightarrow> amti_status_listener \<Rightarrow> amti_status_listener" where
  "amti_handleStatus message sl = sl\<lparr>sl_received := sl_received sl + 1,
     sl_lastCommandUuid := id_uuid (status_command_id message), sl_lastState := commandProcessingState message\<rparr>"

definition amti_handleActivity :: "activity_mt \<Rightarrow> amti_activity_listener \<Rightarrow> amti_activity_listener" where
  "amti_handleActivity message al = (case activity message of
     [] \<Rightarrow> al
   | act # _ \<Rightarrow> al\<lparr>al_received := al_received al + 1, al_lastActivityUuid := id_uuid (act_id act), al_lastState := activityState act\<rparr>)"

section \<open>Waiting\<close>

function amti_commandLoop :: "env \<Rightarrow> nat \<Rightarrow> received_command \<Rightarrow> received_command \<Rightarrow>
    (bool \<times> received_command \<times> received_command) proc" where
  "amti_commandLoop E deadline latest cmd w = bind now (\<lambda>t w.
     if t < deadline then
       bind (read_command E 250) (\<lambda>m w.
         let (cmd, latest) = amti_take (heard amti_handleCommand m latest)
         in if rc_received cmd then ret (True, latest, cmd) w
            else amti_commandLoop E deadline latest cmd w) w
     else ret (False, latest, cmd) w) w"
  by pat_completeness auto

termination amti_commandLoop
  by (relation "measure (\<lambda>(E, deadline, latest, cmd, w). length (script w))") (auto intro: loop_reads [OF _ progresses_io(4)])

definition amti_waitForCommand :: "env \<Rightarrow> received_command \<Rightarrow> received_command \<Rightarrow> nat \<Rightarrow>
    (bool \<times> received_command \<times> received_command) proc" where
  "amti_waitForCommand E latest cmd timeoutMs = bind now (\<lambda>t. amti_commandLoop E (t + timeoutMs) latest cmd)"

definition amti_pollStatus :: "env \<Rightarrow> int \<Rightarrow> amti_status_listener \<Rightarrow> amti_status_listener proc" where
  "amti_pollStatus E targetCount sl =
     (if sl_received sl < targetCount then bind (read_status E 100) (\<lambda>m. ret (heard amti_handleStatus m sl)) else ret sl)"

definition amti_pollActivity :: "env \<Rightarrow> string \<Rightarrow> amti_activity_listener \<Rightarrow> amti_activity_listener proc" where
  "amti_pollActivity E targetState al =
     (if al_lastState al \<noteq> targetState then bind (read_activity E 100) (\<lambda>m. ret (heard amti_handleActivity m al)) else ret al)"

lemma progresses_amti_polls [lawful, simp]: "progresses (amti_pollStatus E n sl)" "progresses (amti_pollActivity E st al)"
  by (simp_all add: amti_pollStatus_def amti_pollActivity_def lawful)

function amti_updatesLoop :: "env \<Rightarrow> nat \<Rightarrow> int \<Rightarrow> string \<Rightarrow> amti_status_listener \<Rightarrow> amti_activity_listener \<Rightarrow>
    (bool \<times> amti_status_listener \<times> amti_activity_listener) proc" where
  "amti_updatesLoop E deadline targetCount targetState sl al w = bind now (\<lambda>t w.
     if t < deadline then
       bind (amti_pollStatus E targetCount sl) (\<lambda>sl w.
       bind (amti_pollActivity E targetState al) (\<lambda>al w.
         if targetCount \<le> sl_received sl \<and> al_lastState al = targetState then ret (True, sl, al) w
         else amti_updatesLoop E deadline targetCount targetState sl al w) w) w
     else ret (False, sl, al) w) w"
  by pat_completeness auto

termination amti_updatesLoop
  by (relation "measure (\<lambda>(E, deadline, target, state, sl, al, w). length (script w))")
    (auto intro: updates_read [OF _ progresses_amti_polls(1) _ progresses_amti_polls(2)])

definition amti_waitForClientUpdates :: "env \<Rightarrow> amti_status_listener \<Rightarrow> int \<Rightarrow> amti_activity_listener \<Rightarrow> string \<Rightarrow> nat \<Rightarrow>
    (bool \<times> amti_status_listener \<times> amti_activity_listener) proc" where
  "amti_waitForClientUpdates E sl targetCount al targetState timeoutMs =
     bind now (\<lambda>t. amti_updatesLoop E (t + timeoutMs) targetCount targetState sl al)"

section \<open>Commanding\<close>

definition amti_start_message :: "uuid \<Rightarrow> uuid \<Rightarrow> command_mt" where
  "amti_start_message capabilityUuid commandUuid =
     (let cc = new_capability_command;
          cc = cc\<lparr>capcmd_id := amti_setId commandUuid ''Start AMTI command'' (capcmd_id cc)\<rparr>;
          cc = cc\<lparr>capcmd_state := ''NEW''\<rparr>;
          cc = cc\<lparr>capcmd_capability := amti_setId capabilityUuid kAmtiCapabilityName (capcmd_capability cc)\<rparr>;
          cc = cc\<lparr>priority := 1\<rparr>
      in \<lparr>command = map (\<lambda>_. Capability cc) (resize1 NoChoice [])\<rparr>)"

definition amti_sendStartCommand :: "env \<Rightarrow> uuid \<Rightarrow> uuid \<Rightarrow> unit proc" where
  "amti_sendStartCommand E capabilityUuid commandUuid =
     seq (perform E (CreateMessage KCommand))
     (seq (put E KCommand (CommandMsg (amti_start_message capabilityUuid commandUuid)))
     (perform E (Destroy (Message KCommand))))"

definition amti_stop_message :: "uuid \<Rightarrow> uuid \<Rightarrow> command_mt" where
  "amti_stop_message activityUuid commandUuid =
     (let ac = new_activity_command;
          ac = ac\<lparr>actcmd_id := amti_setId commandUuid ''Stop AMTI command'' (actcmd_id ac)\<rparr>;
          ac = ac\<lparr>actcmd_state := ''NEW''\<rparr>;
          ac = ac\<lparr>actcmd_activity := amti_setId activityUuid ''AMTI activity'' (actcmd_activity ac)\<rparr>;
          ac = ac\<lparr>changeActivityState := Some ''DISABLE''\<rparr>
      in \<lparr>command = map (\<lambda>_. Activity ac) (resize1 NoChoice [])\<rparr>)"

definition amti_sendStopCommand :: "env \<Rightarrow> uuid \<Rightarrow> uuid \<Rightarrow> unit proc" where
  "amti_sendStopCommand E activityUuid commandUuid =
     seq (perform E (CreateMessage KCommand))
     (seq (put E KCommand (CommandMsg (amti_stop_message activityUuid commandUuid)))
     (perform E (Destroy (Message KCommand))))"

section \<open>The two programs\<close>

definition amti_releaseService :: "env \<Rightarrow> unit proc" where
  "amti_releaseService E =
     seq (perform E (Close (Reader KCommand)))
     (seq (perform E (Close (Writer KCapability)))
     (seq (perform E (Close (Writer KCapabilityStatus)))
     (seq (perform E (Close (Writer KCommandStatus)))
     (seq (perform E (Close (Writer KActivity)))
     (seq (perform E (Destroy (Reader KCommand)))
     (seq (perform E (Destroy (Writer KCapability)))
     (seq (perform E (Destroy (Writer KCapabilityStatus)))
     (seq (perform E (Destroy (Writer KCommandStatus)))
     (seq (perform E (Destroy (Writer KActivity)))
     (seq (perform E Shutdown)
     (perform E (Destroy Connection))))))))))))"

text \<open>The body of the \<open>try\<close> block.\<close>

definition amti_serve :: "env \<Rightarrow> uuid \<Rightarrow> unit proc" where
  "amti_serve E capabilityUuid =
     seq (amti_publishCapability E capabilityUuid)
     (seq (amti_publishCapabilityStatus E capabilityUuid)
     (bind (amti_waitForCommand E ReceivedCommand ReceivedCommand 30000) (\<lambda>(ok, latest, cmd).
      if \<not> ok then throw (RuntimeError ''start command timeout'')
      else if \<not> rc_start cmd then throw (RuntimeError ''first command was not a capability start command'')
      else bind (generate E) (\<lambda>activityUuid.
        seq (amti_publishCommandStatus E (rc_commandUuid cmd) (Some activityUuid))
        (seq (amti_publishActivity E capabilityUuid activityUuid ''ACTIVE_UNCONSTRAINED'' ''NEW'')
        (bind (amti_waitForCommand E latest cmd 30000) (\<lambda>(ok, latest, cmd).
          if \<not> ok then throw (RuntimeError ''stop command timeout'')
          else if rc_start cmd \<or> rc_activityUuid cmd \<noteq> activityUuid
          then throw (RuntimeError ''stop command did not reference the active activity'')
          else seq (amti_publishCommandStatus E (rc_commandUuid cmd) None)
            (seq (amti_publishActivity E capabilityUuid activityUuid ''COMPLETED'' ''UPDATED'')
            (perform E (SleepMs 200))))))))))"

definition amti_runService :: "env \<Rightarrow> int proc" where
  "amti_runService E =
     seq (perform E (GetConnection ''AmtiSensorService'' ''DDS''))
     (seq (perform E (GetCapabilityUUID kAmtiCapabilityName))
     (let capabilityUuid = env_capability E kAmtiCapabilityName in
      seq (perform E (CreateWriter KCapability ''AMTI_Capability''))
      (seq (perform E (CreateWriter KCapabilityStatus ''AMTI_CapabilityStatus''))
      (seq (perform E (CreateWriter KCommandStatus ''AMTI_CommandStatus''))
      (seq (perform E (CreateWriter KActivity ''AMTI_Activity''))
      (seq (perform E (CreateReader KCommand ''AMTI_Command''))
      (seq (catch_rethrow (amti_serve E capabilityUuid) (amti_releaseService E))
      (seq (amti_releaseService E) (ret 0)))))))))"

definition amti_releaseClient :: "env \<Rightarrow> unit proc" where
  "amti_releaseClient E =
     seq (perform E (Close (Writer KCommand)))
     (seq (perform E (Close (Reader KCommandStatus)))
     (seq (perform E (Close (Reader KActivity)))
     (seq (perform E (Destroy (Writer KCommand)))
     (seq (perform E (Destroy (Reader KCommandStatus)))
     (seq (perform E (Destroy (Reader KActivity)))
     (seq (perform E Shutdown)
     (perform E (Destroy Connection))))))))"

definition amti_operate :: "env \<Rightarrow> uuid \<Rightarrow> unit proc" where
  "amti_operate E capabilityUuid =
     seq (perform E (SleepMs 300))
     (bind (generate E) (\<lambda>startUuid.
      seq (amti_sendStartCommand E capabilityUuid startUuid)
      (bind (amti_waitForClientUpdates E amti_new_status_listener 1 amti_new_activity_listener ''ACTIVE_UNCONSTRAINED'' 10000)
      (\<lambda>(ok, sl, al).
        if \<not> ok then throw (RuntimeError ''client timed out waiting for active activity'')
        else let activityUuid = al_lastActivityUuid al in
          bind (generate E) (\<lambda>stopUuid.
          seq (amti_sendStopCommand E activityUuid stopUuid)
          (bind (amti_waitForClientUpdates E sl 2 al ''COMPLETED'' 10000) (\<lambda>(ok, sl, al).
            if \<not> ok then throw (RuntimeError ''client timed out waiting for completed activity'')
            else ret ())))))))"

definition amti_runClient :: "env \<Rightarrow> int proc" where
  "amti_runClient E =
     seq (perform E (GetConnection ''AmtiOperatorService'' ''DDS''))
     (seq (perform E (GetCapabilityUUID kAmtiCapabilityName))
     (let capabilityUuid = env_capability E kAmtiCapabilityName in
      seq (perform E (CreateWriter KCommand ''AMTI_Command''))
      (seq (perform E (CreateReader KCommandStatus ''AMTI_CommandStatus''))
      (seq (perform E (CreateReader KActivity ''AMTI_Activity''))
      (seq (catch_rethrow (amti_operate E capabilityUuid) (amti_releaseClient E))
      (seq (amti_releaseClient E) (ret 0)))))))"

definition amti_main :: "env \<Rightarrow> string list \<Rightarrow> int proc" where
  "amti_main E argv =
     (if length argv < 2 then ret 2
      else exit_code (if argv ! 1 = ''service'' then amti_runService E
                      else if argv ! 1 = ''client'' then amti_runClient E
                      else ret 2))"

end
