(* ===== verification/Demo_Runs.thy ===== *)
theory Demo_Runs
  imports Demo_World
begin

text \<open>
  What the runs of the demo processes have in common: a longer script continues a run, a run that satisfies
  an assertion at each point where it may stop, and the resources it holds. Each is closed under the ways
  the programs are put together, so that a program has it because its parts have.
\<close>

section \<open>At one world\<close>

text \<open>For the loops, whose laws are shown by induction over the runs.\<close>

lemma later_handle:
  assumes "later w (snd (m w))" "\<And>x v. m w = (Returns x, v) \<Longrightarrow> later v (snd (f x v))" "\<And>e v. m w = (Throws e, v) \<Longrightarrow> later v (snd (h e v))"
  shows "later w (snd (handle m f h w))"
  using assms by (cases "m w"; cases "fst (m w)") (auto simp: handle_def intro: later_trans)

lemma later_bind: "progresses m \<Longrightarrow> (\<And>x v. m w = (Returns x, v) \<Longrightarrow> later v (snd (f x v))) \<Longrightarrow> later w (snd (bind m f w))"
  unfolding bind_def by (rule later_handle) (auto simp: progresses_def throw_def)

lemma later_prim [simp]: "later w (snd (ret x w))" by (simp add: ret_def)

section \<open>A longer script continues the run\<close>

definition more :: "input list \<Rightarrow> world \<Rightarrow> world" where
  "more t w = w\<lparr>script := script w @ t\<rparr>"

lemma more_simps [simp]:
  "script (more t w) = script w @ t" "sent (more t w) = sent w" "calls (more t w) = calls w" "generated (more t w) = generated w"
  "more t (w\<lparr>sent := x\<rparr>) = (more t w)\<lparr>sent := x\<rparr>" "more t (w\<lparr>calls := y\<rparr>) = (more t w)\<lparr>calls := y\<rparr>"
  "more t (w\<lparr>generated := n\<rparr>) = (more t w)\<lparr>generated := n\<rparr>" "more t (start_world s) = start_world (s @ t)"
  by (simp_all add: more_def start_world_def)

definition resumes_at :: "'a proc \<Rightarrow> world \<Rightarrow> bool" where
  "resumes_at m w \<longleftrightarrow> (\<forall>t. case m w of
     (Waits r, v) \<Rightarrow> prefix (sent v) (sent (snd (m (more t w))))
   | (r, v) \<Rightarrow> m (more t w) = (r, more t v))"

definition resumes :: "'a proc \<Rightarrow> bool" where
  "resumes m \<longleftrightarrow> progresses m \<and> (\<forall>w. resumes_at m w)"

lemma resumesI: "progresses m \<Longrightarrow> (\<And>w. resumes_at m w) \<Longrightarrow> resumes m"
  by (simp add: resumes_def)

lemma resumes_at_handle:
  assumes m: "resumes_at m w" and g: "\<And>x. progresses (f x)" "\<And>e. progresses (h e)"
    and f: "\<And>x v. m w = (Returns x, v) \<Longrightarrow> resumes_at (f x) v" and h: "\<And>e v. m w = (Throws e, v) \<Longrightarrow> resumes_at (h e) v"
  shows "resumes_at (handle m f h) w"
  unfolding resumes_at_def
proof
  fix t
  obtain r v where v: "m w = (r, v)" by fastforce
  show "case handle m f h w of (Waits r, v) \<Rightarrow> prefix (sent v) (sent (snd (handle m f h (more t w))))
      | (r, v) \<Rightarrow> handle m f h (more t w) = (r, more t v)"
  proof (cases r)
    case (Returns x)
    with m v have "m (more t w) = (Returns x, more t v)" by (simp add: resumes_at_def)
    with f [of x v] v Returns show ?thesis by (auto simp: resumes_at_def handle_def split: result.splits prod.splits)
  next
    case (Throws e)
    with m v have "m (more t w) = (Throws e, more t v)" by (simp add: resumes_at_def)
    with h [of e v] v Throws show ?thesis by (auto simp: resumes_at_def handle_def split: result.splits prod.splits)
  next
    case (Waits q)
    with m v have "prefix (sent v) (sent (snd (m (more t w))))" by (simp add: resumes_at_def)
    moreover have "later (snd (m (more t w))) (snd (handle m f h (more t w)))"
      using g by (auto simp: handle_def split: result.split prod.split intro: progressesD [OF _ surjective_pairing])
    ultimately show ?thesis using v Waits by (auto simp: handle_def later_def intro: prefix_order.trans)
  qed
qed

lemma resumes_handle [lawful]:
  "resumes m \<Longrightarrow> (\<And>x. resumes (f x)) \<Longrightarrow> (\<And>e. resumes (h e)) \<Longrightarrow> resumes (handle m f h)"
  by (auto simp: resumes_def intro: resumes_at_handle lawful)

lemma resumes_at_bind:
  "resumes m \<Longrightarrow> (\<And>x. progresses (f x)) \<Longrightarrow> (\<And>x v. m w = (Returns x, v) \<Longrightarrow> resumes_at (f x) v) \<Longrightarrow> resumes_at (bind m f) w"
  unfolding bind_def by (rule resumes_at_handle) (auto simp: resumes_def lawful resumes_at_def throw_def)

lemma resumes_prim [lawful, simp]:
  "resumes (ret x)" "resumes (throw e)" "resumes (perform E c)" "resumes (submit msg)" "resumes (draw E g)"
  "resumes (take_input r pick)"
  unfolding resumes_def
  by (auto simp: lawful resumes_at_def more_def prim_defs split: option.split list.split)

lemma resumes_combinators [lawful]:
  "resumes m \<Longrightarrow> (\<And>x. resumes (f x)) \<Longrightarrow> resumes (bind m f)"
  "resumes n \<Longrightarrow> resumes m \<Longrightarrow> resumes (seq n m)"
  "resumes m \<Longrightarrow> resumes h \<Longrightarrow> resumes (catch_rethrow m h)"
  "resumes h \<Longrightarrow> resumes (no_throw h)"
  "resumes h \<Longrightarrow> resumes m \<Longrightarrow> resumes (leaving h m)"
  "resumes n \<Longrightarrow> resumes h \<Longrightarrow> resumes m \<Longrightarrow> resumes (scoped n h m)"
  "resumes k \<Longrightarrow> resumes (exit_code k)"
  by (simp_all add: handle_defs lawful)

lemma resumes_io [lawful, simp]:
  "resumes (put E k msg)" "resumes now" "resumes (generate E)"
  "resumes (read_command E ms)" "resumes (read_status E ms)" "resumes (read_activity E ms)"
  by (simp_all add: io_defs lawful)

lemma resumes_delivered [lawful, simp]: "resumes (delivered l m s)"
  by (auto simp: delivered_def split: option.split sum.split)

lemma resumes_case_prod [lawful]: "(\<And>a b. resumes (f a b)) \<Longrightarrow> resumes (case p of (a, b) \<Rightarrow> f a b)"
  by (simp split: prod.split)

lemma resumes_at_ret [simp]: "resumes_at (ret x) w"
  by (simp add: resumes_at_def ret_def)

lemma resumes_if [lawful]: "resumes m \<Longrightarrow> resumes n \<Longrightarrow> resumes (if b then m else n)"
  by simp

section \<open>Assertions\<close>

text \<open>From \<open>P\<close>, what is returned satisfies \<open>Q\<close>, and \<open>R\<close> holds where the run throws or waits.\<close>

definition settles :: "('a \<Rightarrow> world \<Rightarrow> bool) \<Rightarrow> (world \<Rightarrow> bool) \<Rightarrow> 'a result \<times> world \<Rightarrow> bool" where
  "settles Q R p \<longleftrightarrow> (case p of (Returns x, v) \<Rightarrow> Q x v | (_, v) \<Rightarrow> R v)"

definition achieves :: "(world \<Rightarrow> bool) \<Rightarrow> 'a proc \<Rightarrow> ('a \<Rightarrow> world \<Rightarrow> bool) \<Rightarrow> (world \<Rightarrow> bool) \<Rightarrow> bool" where
  "achieves P m Q R \<longleftrightarrow> (\<forall>w. P w \<longrightarrow> settles Q R (m w))"

lemma settles_bind:
  "achieves P m Q R \<Longrightarrow> P w \<Longrightarrow> (\<And>x v. m w = (Returns x, v) \<Longrightarrow> Q x v \<Longrightarrow> settles Q' R (f x v)) \<Longrightarrow> settles Q' R (bind m f w)"
  unfolding achieves_def settles_def bind_def handle_def throw_def by (fastforce split: result.splits prod.splits)

lemma settles_ret [simp]: "settles Q R (ret x w) = Q x w"
  by (simp add: settles_def ret_def)

lemma achieves_handle:
  assumes "achieves P m Q T" "\<And>x. achieves (Q x) (f x) Q' R" "\<And>e. achieves T (h e) Q' R" "\<And>v. T v \<Longrightarrow> R v"
  shows "achieves P (handle m f h) Q' R"
  using assms unfolding achieves_def settles_def handle_def by (fastforce split: result.splits prod.splits)

lemma achieves_bind: "achieves P m Q R \<Longrightarrow> (\<And>x. achieves (Q x) (f x) Q' R) \<Longrightarrow> achieves P (bind m f) Q' R"
  unfolding bind_def by (rule achieves_handle) (simp_all add: achieves_def settles_def throw_def)

lemma achieves_seq: "achieves P m (\<lambda>_. Q) R \<Longrightarrow> achieves Q n Q' R \<Longrightarrow> achieves P (seq m n) Q' R"
  unfolding seq_def by (rule achieves_bind)

lemma achieves_weaken:
  "achieves P m Q R \<Longrightarrow> (\<And>w. P' w \<Longrightarrow> P w) \<Longrightarrow> (\<And>x v. Q x v \<Longrightarrow> Q' x v) \<Longrightarrow> (\<And>v. R v \<Longrightarrow> R' v) \<Longrightarrow> achieves P' m Q' R'"
  unfolding achieves_def settles_def by (fastforce split: result.splits prod.splits)

lemma achieves_if:
  "achieves (\<lambda>w. b \<and> P w) m Q R \<Longrightarrow> achieves (\<lambda>w. \<not> b \<and> P w) n Q R \<Longrightarrow> achieves P (if b then m else n) Q R"
  by (simp add: achieves_def)

section \<open>What a run holds\<close>

text \<open>
  The effect of a call on the set of the resources the program holds, \<open>None\<close> when it is not allowed: each
  is acquired when it is not held, used and released when it is, and the connection is the last endpoint
  to go. A message does not need the connection it was made with any more.
\<close>

definition acquire :: "resource \<Rightarrow> bool \<Rightarrow> resource set \<Rightarrow> resource set option" where
  "acquire r ok H = (if ok \<and> r \<notin> H then Some (insert r H) else None)"

fun held :: "call \<Rightarrow> resource set \<Rightarrow> resource set option" where
  "held (GetConnection _ _) H = acquire Connection True H"
| "held (GetCapabilityUUID _) H = (if Connection \<in> H then Some H else None)"
| "held GetSubsystemUUID H = (if Connection \<in> H then Some H else None)"
| "held (CreateReader k _) H = acquire (Reader k) (Connection \<in> H) H"
| "held (CreateWriter k _) H = acquire (Writer k) (Connection \<in> H) H"
| "held (CreateMessage k) H = acquire (Message k) (Connection \<in> H) H"
| "held (Write k) H = (if Writer k \<in> H \<and> Message k \<in> H then Some H else None)"
| "held (Read k _ _) H = (if Reader k \<in> H then Some H else None)"
| "held (Close r) H = (if r \<in> H then Some H else None)"
| "held (Destroy r) H =
     (if r \<in> H \<and> (r = Connection \<longrightarrow> (\<forall>k. Reader k \<notin> H \<and> Writer k \<notin> H)) then Some (H - {r}) else None)"
| "held Shutdown H = (if Connection \<in> H then Some H else None)"
| "held (SleepMs _) H = Some H"

fun run_held :: "call list \<Rightarrow> resource set \<Rightarrow> resource set option" where
  "run_held [] H = Some H"
| "run_held (c # cs) H = Option.bind (held c H) (run_held cs)"

lemma run_held_append: "run_held (cs @ ds) H = Option.bind (run_held cs H) (run_held ds)"
  by (induction cs arbitrary: H) (auto split: Option.bind_split)

text \<open>
  From a state that holds \<open>H\<close>, every call of the run is allowed; it holds \<open>H'\<close> where it returns and \<open>T\<close>
  where it throws.
\<close>

definition holding_at :: "resource set \<Rightarrow> 'a proc \<Rightarrow> resource set \<Rightarrow> resource set \<Rightarrow> world \<Rightarrow> bool" where
  "holding_at H m H' T w \<longleftrightarrow> (\<exists>cs. calls (snd (m w)) = calls w @ cs \<and>
     (case fst (m w) of Returns _ \<Rightarrow> run_held cs H = Some H' | Throws _ \<Rightarrow> run_held cs H = Some T
      | Waits _ \<Rightarrow> run_held cs H \<noteq> None))"

definition holding :: "resource set \<Rightarrow> 'a proc \<Rightarrow> resource set \<Rightarrow> resource set \<Rightarrow> bool" where
  "holding H m H' T \<longleftrightarrow> (\<forall>w. holding_at H m H' T w)"

lemma holding_at_handle:
  assumes m: "holding_at H m H1 T1 w" and f: "\<And>x v. m w = (Returns x, v) \<Longrightarrow> holding_at H1 (f x) H2 T2 v"
    and h: "\<And>e v. m w = (Throws e, v) \<Longrightarrow> holding_at T1 (h e) H2 T2 v"
  shows "holding_at H (handle m f h) H2 T2 w"
proof -
  obtain r v where v: "m w = (r, v)" by fastforce
  with m obtain cs where cs: "calls v = calls w @ cs" "case r of Returns _ \<Rightarrow> run_held cs H = Some H1
      | Throws _ \<Rightarrow> run_held cs H = Some T1 | Waits _ \<Rightarrow> run_held cs H \<noteq> None"
    by (auto simp: holding_at_def)
  show ?thesis
  proof (cases r)
    case (Returns x)
    with f v obtain ds where "calls (snd (f x v)) = calls v @ ds" "case fst (f x v) of Returns _ \<Rightarrow> run_held ds H1 = Some H2
        | Throws _ \<Rightarrow> run_held ds H1 = Some T2 | Waits _ \<Rightarrow> run_held ds H1 \<noteq> None"
      by (fastforce simp: holding_at_def)
    with Returns v cs show ?thesis
      unfolding holding_at_def by (intro exI [of _ "cs @ ds"]) (simp add: handle_def run_held_append split: result.splits)
  next
    case (Throws e)
    with h v obtain ds where "calls (snd (h e v)) = calls v @ ds" "case fst (h e v) of Returns _ \<Rightarrow> run_held ds T1 = Some H2
        | Throws _ \<Rightarrow> run_held ds T1 = Some T2 | Waits _ \<Rightarrow> run_held ds T1 \<noteq> None"
      by (fastforce simp: holding_at_def)
    with Throws v cs show ?thesis
      unfolding holding_at_def by (intro exI [of _ "cs @ ds"]) (simp add: handle_def run_held_append split: result.splits)
  next
    case (Waits q)
    with v cs show ?thesis unfolding holding_at_def by (intro exI [of _ cs]) (simp add: handle_def)
  qed
qed

lemma holding_handle:
  "holding H m H1 T1 \<Longrightarrow> (\<And>x. holding H1 (f x) H2 T2) \<Longrightarrow> (\<And>e. holding T1 (h e) H2 T2) \<Longrightarrow> holding H (handle m f h) H2 T2"
  unfolding holding_def by (blast intro: holding_at_handle)

lemma holding_stay: "holding H (ret x) H T" "holding H (throw e) H' H" "holding H (submit msg) H T"
    "holding H (draw E g) H T" "holding H (take_input r pick) H T"
  by (auto simp: holding_def holding_at_def prim_defs split: list.split option.split)

lemma holding_perform:
  "held c H = Some H' \<Longrightarrow> holding H (perform E c) H' H"
  "held c H = Some H' \<Longrightarrow> (\<And>cs. env_fault E cs c = None) \<Longrightarrow> holding H (perform E c) H' T"
  by (auto simp: holding_def holding_at_def perform_def split: option.split)

lemma holding_bind: "holding H m H1 T \<Longrightarrow> (\<And>x. holding H1 (f x) H2 T) \<Longrightarrow> holding H (bind m f) H2 T"
  unfolding bind_def by (rule holding_handle) (auto intro: holding_stay)

lemma holding_at_bind:
  "holding H m H T \<Longrightarrow> (\<And>x v. m w = (Returns x, v) \<Longrightarrow> holding_at H (f x) H T v) \<Longrightarrow> holding_at H (bind m f) H T w"
  unfolding bind_def by (rule holding_at_handle) (auto simp: holding_def holding_at_def throw_def)

lemma holding_at_ret [simp]: "holding_at H (ret x) H T w"
  by (simp add: holding_at_def ret_def)

lemma holding_seq: "holding H m H1 T \<Longrightarrow> holding H1 n H2 T \<Longrightarrow> holding H (seq m n) H2 T"
  unfolding seq_def by (rule holding_bind)

lemma holding_catch:
  assumes "holding H m H1 T1" "holding T1 h H2 H2"
  shows "holding H (catch_rethrow m h) H1 H2"
  unfolding catch_rethrow_def
  by (rule holding_handle [OF assms(1)]) (auto intro!: holding_seq [OF assms(2)] holding_stay)

lemma holding_scoped:
  assumes "holding H a H1 H" "holding H1 block H1 H1" "\<And>T. holding H1 release H T"
  shows "holding H (scoped a release block) H H"
proof -
  have "holding H1 (no_throw release) H T" for T
    unfolding no_throw_def by (rule holding_handle [OF assms(3)]) (auto intro: holding_stay)
  then have "holding H1 (leaving release block) H H"
    unfolding leaving_def by (intro holding_handle [OF assms(2)]) (auto intro!: holding_seq holding_stay)
  then show ?thesis unfolding scoped_def by (rule holding_seq [OF assms(1)])
qed

lemma holding_exit_code: "holding H m H' T \<Longrightarrow> H' = T \<Longrightarrow> holding H (exit_code m) T T"
  unfolding exit_code_def by (rule holding_handle) (auto intro: holding_stay)

lemma holding_io [simp]: "holding H now H T" "holding H (generate E) H T"
  "Reader KCommand \<in> H \<Longrightarrow> holding H (read_command E ms) H H"
  "Reader KCommandStatus \<in> H \<Longrightarrow> holding H (read_status E ms) H H"
  "Reader KActivity \<in> H \<Longrightarrow> holding H (read_activity E ms) H H"
  unfolding io_defs by (rule holding_stay holding_seq holding_perform(1) | simp)+

lemma holding_put: "Writer k \<in> H \<Longrightarrow> Message k \<in> H \<Longrightarrow> holding H (put E k m) H H"
  unfolding put_def by (rule holding_seq [of _ _ H], rule holding_perform(1)) (simp_all add: holding_stay)

lemma holding_if: "(b \<Longrightarrow> holding H m H' T) \<Longrightarrow> (\<not> b \<Longrightarrow> holding H n H' T) \<Longrightarrow> holding H (if b then m else n) H' T"
  by simp

lemma holding_case_prod: "(\<And>a b. holding H (f a b) H' T) \<Longrightarrow> holding H (case p of (a, b) \<Rightarrow> f a b) H' T"
  by (simp split: prod.split)

text \<open>What the services and the clients hold while they run.\<close>

abbreviation service_endpoints :: "resource set" where
  "service_endpoints \<equiv> {Reader KCommand, Writer KActivity, Writer KCommandStatus, Writer KCapabilityStatus, Writer KCapability, Connection}"

abbreviation client_endpoints :: "resource set" where
  "client_endpoints \<equiv> {Reader KActivity, Reader KCommandStatus, Writer KCommand, Connection}"

text \<open>A message that is made, written and destroyed, when nothing of that throws.\<close>

definition only_reads_fail :: "env \<Rightarrow> bool" where
  "only_reads_fail E \<longleftrightarrow> (\<forall>cs c. (\<nexists>k ms n. c = Read k ms n) \<longrightarrow> env_fault E cs c = None)"

lemma holding_message:
  assumes E: "only_reads_fail E" and H: "Connection \<in> H" "Writer k \<in> H" "Message k \<notin> H"
    and pre: "holding (insert (Message k) H) pre (insert (Message k) H) H"
  shows "holding H (seq (perform E (CreateMessage k)) (seq pre (seq (put E k m) (perform E (Destroy (Message k)))))) H H"
proof (intro holding_seq)
  show "holding H (perform E (CreateMessage k)) (insert (Message k) H) H"
    using H by (intro holding_perform(1)) (simp add: acquire_def)
  show "holding (insert (Message k) H) pre (insert (Message k) H) H" by (rule pre)
  show "holding (insert (Message k) H) (put E k m) (insert (Message k) H) H"
    unfolding put_def using H E
    by (intro holding_seq [of _ _ "insert (Message k) H"] holding_perform(2) holding_stay) (auto simp: only_reads_fail_def)
  show "holding (insert (Message k) H) (perform E (Destroy (Message k))) H H"
    using H E by (intro holding_perform(2)) (auto simp: only_reads_fail_def)
qed

lemma seq_ret [simp]: "seq (ret ()) m = m"
  by (rule ext) (simp add: seq_def bind_def handle_def ret_def)

lemmas holding_message' = holding_message [where pre = "ret ()", simplified seq_ret, OF _ _ _ _ holding_stay(1)]

text \<open>A program that ends has released all it acquired; one that still runs has used nothing it does not hold.\<close>

definition leaves_nothing :: "int proc \<Rightarrow> input list \<Rightarrow> bool" where
  "leaves_nothing p s \<longleftrightarrow> (case p (start_world s) of
     (Waits _, v) \<Rightarrow> run_held (calls v) {} \<noteq> None | (_, v) \<Rightarrow> run_held (calls v) {} = Some {})"

lemma leaves_nothingI: "holding {} p {} {} \<Longrightarrow> leaves_nothing p s"
  by (auto simp: holding_def holding_at_def leaves_nothing_def start_world_def dest: spec [of _ "start_world s"]
      split: prod.split result.split)

end
