(* ===== verification/Demo_Spec.thy ===== *)
theory Demo_Spec
  imports Demo_Runs
begin

text \<open>
  The choreography the demo programs follow, over the messages a program sent and the inputs it was given,
  and the rules that show it of a program.
\<close>

section \<open>The messages of the choreography\<close>

definition is_activity :: "activity_mt \<Rightarrow> uuid \<Rightarrow> enum_item \<Rightarrow> bool" where
  "is_activity m u st \<longleftrightarrow> (case activity m of [] \<Rightarrow> False | a # _ \<Rightarrow> id_uuid (act_id a) = u \<and> activityState a = st)"

definition is_start :: "command_mt \<Rightarrow> uuid \<Rightarrow> bool" where
  "is_start m u \<longleftrightarrow> (case command m of Capability c # _ \<Rightarrow> id_uuid (capcmd_id c) = u | _ \<Rightarrow> False)"

definition is_stop :: "command_mt \<Rightarrow> uuid \<Rightarrow> uuid \<Rightarrow> bool" where
  "is_stop m u a \<longleftrightarrow> (case command m of Activity c # _ \<Rightarrow> id_uuid (actcmd_id c) = u \<and> id_uuid (actcmd_activity c) = a | _ \<Rightarrow> False)"

definition accepts :: "command_status_mt \<Rightarrow> uuid \<Rightarrow> uuid option \<Rightarrow> bool" where
  "accepts m u a \<longleftrightarrow> id_uuid (status_command_id m) = u \<and> commandProcessingState m = ''ACCEPTED'' \<and>
     map (\<lambda>r. id_uuid (resulting_id r)) (resulting m) = (case a of None \<Rightarrow> [] | Some x \<Rightarrow> [x])"

lemma is_activity_inject: "is_activity m u st \<Longrightarrow> is_activity m v st' \<Longrightarrow> u = v \<and> st = st'"
  by (auto simp: is_activity_def split: list.splits)

text \<open>
  A service announces itself, accepts a start command and an activity, accepts a stop command of that
  activity and reports it completed: what it has sent is always a beginning of this, and it answers only
  commands it was given.
\<close>

definition service_behaves :: "input set \<Rightarrow> bus_message list \<Rightarrow> bool" where
  "service_behaves S ms \<longleftrightarrow> (\<exists>m1 m2 m3 a1 m5 a2 c1 c2 u.
     prefix ms [CapabilityMsg m1, CapabilityStatusMsg m2, CommandStatusMsg m3, ActivityMsg a1, CommandStatusMsg m5, ActivityMsg a2] \<and>
     is_activity a1 u ''ACTIVE_UNCONSTRAINED'' \<and> is_activity a2 u ''COMPLETED'' \<and> accepts m3 c1 (Some u) \<and> accepts m5 c2 None \<and>
     (2 < length ms \<longrightarrow> (\<exists>c. CommandRead (Some c) \<in> S \<and> is_start c c1)) \<and>
     (4 < length ms \<longrightarrow> (\<exists>c. CommandRead (Some c) \<in> S \<and> is_stop c c2 u)))"

text \<open>A client starts an activity, stops the one it was told of, and has succeeded when it was told of a completed one.\<close>

definition client_behaves :: "input set \<Rightarrow> bus_message list \<Rightarrow> bool" where
  "client_behaves S ms \<longleftrightarrow> (\<exists>m1 m2 c1 c2 u.
     prefix ms [CommandMsg m1, CommandMsg m2] \<and> is_start m1 c1 \<and> is_stop m2 c2 u \<and>
     (1 < length ms \<longrightarrow> (\<exists>a. ActivityRead (Some a) \<in> S \<and> is_activity a u ''ACTIVE_UNCONSTRAINED'')))"

definition client_succeeds :: "input set \<Rightarrow> bus_message list \<Rightarrow> bool" where
  "client_succeeds S ms \<longleftrightarrow> client_behaves S ms \<and> length ms = 2 \<and>
     (\<exists>a u. ActivityRead (Some a) \<in> S \<and> is_activity a u ''COMPLETED'')"

section \<open>Showing it\<close>

definition reached :: "input set \<Rightarrow> bus_message list \<Rightarrow> world \<Rightarrow> bool" where
  "reached S ms w \<longleftrightarrow> set (script w) \<subseteq> S \<and> sent w = ms"

definition quiet :: "env \<Rightarrow> bool" where
  "quiet E \<longleftrightarrow> (\<forall>cs c. env_fault E cs c = None)"

abbreviation (input) loud :: "env \<Rightarrow> input set \<Rightarrow> bus_message list \<Rightarrow> world \<Rightarrow> bool" where
  "loud E S ms v \<equiv> \<not> quiet E \<and> reached S ms v"

lemma at_perform: "achieves (reached S ms) (perform E c) (\<lambda>_. reached S ms) (loud E S ms)"
  by (auto simp: achieves_def settles_def reached_def perform_def quiet_def split: option.splits)

lemma at_put: "achieves (reached S ms) (put E k m) (\<lambda>_. reached S (ms @ [m])) (loud E S ms)"
  unfolding put_def by (rule achieves_seq [OF at_perform]) (auto simp: achieves_def settles_def reached_def submit_def)

lemma at_draw: "achieves (reached S ms) (draw E g) (\<lambda>_. reached S ms) R"
  by (auto simp: achieves_def settles_def reached_def draw_def)

lemma generateUUID_not_nil: "generateUUID random \<noteq> UUID zero_octets"
proof
  assume "generateUUID random = UUID zero_octets"
  then obtain a b where eq: "random[6 := (a AND 0x0F) OR 0x40, 8 := b] = replicate 16 (0 :: u8)"
    by (simp add: generateUUID_def zero_octets_def Let_def)
  from arg_cong [OF eq, of length] have "length random = 16" by simp
  with arg_cong [OF eq, of "\<lambda>l. l ! 6"] have "(a AND 0x0F) OR 0x40 = (0 :: u8)" by simp
  then have "bit ((a AND 0x0F) OR 0x40 :: u8) 6 = bit (0 :: u8) 6" by simp
  then show False by (simp add: bit_simps)
qed

lemma at_generate: "achieves (reached S ms) (generate E) (\<lambda>u w. u \<noteq> UUID zero_octets \<and> reached S ms w) R"
  by (auto simp: achieves_def settles_def reached_def generate_def draw_def generateUUID_not_nil)

lemma at_ret: "achieves (reached S ms) (ret x) (\<lambda>y. reached S ms) R"
  by (auto simp: achieves_def settles_def ret_def)

lemma achieves_ret: "(\<And>w. P w \<Longrightarrow> Q x w) \<Longrightarrow> achieves P (ret x) Q R"
  by (simp add: achieves_def)

lemma at_throw: "achieves (reached S ms) (throw e) Q (reached S ms)"
  by (auto simp: achieves_def settles_def throw_def)

lemma at_now: "achieves (reached S ms) now (\<lambda>_. reached S ms) (reached S ms)"
  by (auto simp: achieves_def settles_def reached_def now_def take_input_def split: list.splits option.splits)

lemma of_input [simp]: "command_of i = Some m \<longleftrightarrow> i = CommandRead m" "status_of i = Some n \<longleftrightarrow> i = StatusRead n"
    "activity_of i = Some a \<longleftrightarrow> i = ActivityRead a"
  by (cases i; simp)+

lemma at_take:
  assumes "\<And>i m. pick i = Some m \<Longrightarrow> i = con m"
  shows "achieves (reached S ms) (take_input r pick) (\<lambda>m w. con m \<in> S \<and> reached S ms w) (reached S ms)"
  using assms by (auto simp: achieves_def settles_def reached_def take_input_def split: list.splits option.splits)

lemma at_reads:
  "achieves (reached S ms) (read_command E t) (\<lambda>m w. CommandRead m \<in> S \<and> reached S ms w) (reached S ms)"
  "achieves (reached S ms) (read_status E t) (\<lambda>n w. StatusRead n \<in> S \<and> reached S ms w) (reached S ms)"
  "achieves (reached S ms) (read_activity E t) (\<lambda>a w. ActivityRead a \<in> S \<and> reached S ms w) (reached S ms)"
proof -
  have "achieves (reached S ms) (perform E c) (\<lambda>_. reached S ms) (reached S ms)" for c
    by (rule achieves_weaken [OF at_perform]) blast+
  note * = achieves_seq [OF this]
  show "achieves (reached S ms) (read_command E t) (\<lambda>m w. CommandRead m \<in> S \<and> reached S ms w) (reached S ms)"
    unfolding io_defs by (rule * [OF at_take [of command_of CommandRead]]) simp
  show "achieves (reached S ms) (read_status E t) (\<lambda>n w. StatusRead n \<in> S \<and> reached S ms w) (reached S ms)"
    unfolding io_defs by (rule * [OF at_take [of status_of StatusRead]]) simp
  show "achieves (reached S ms) (read_activity E t) (\<lambda>a w. ActivityRead a \<in> S \<and> reached S ms w) (reached S ms)"
    unfolding io_defs by (rule * [OF at_take [of activity_of ActivityRead]]) simp
qed

text \<open>A message that is made, put and destroyed by hand, or by a scope.\<close>

lemma at_publish:
  assumes "achieves (reached S ms) pre (\<lambda>_. reached S ms) (loud E S ms)"
  shows "achieves (reached S ms) (seq (perform E c) (seq pre (seq (put E k m) (perform E d)))) (\<lambda>_. reached S (ms @ [m]))
    (\<lambda>v. \<not> quiet E \<and> (reached S ms v \<or> reached S (ms @ [m]) v))"
  using assms
  by (intro achieves_seq achieves_weaken [OF at_perform] achieves_weaken [OF assms] achieves_weaken [OF at_put]) blast+

section \<open>Programs of this shape\<close>

lemma exists_messages: "\<exists>m. is_activity m u st" "\<exists>m. accepts m c x" "\<exists>m. is_start m c" "\<exists>m. is_stop m c u"
proof -
  show "\<exists>m. is_activity m u st"
    by (rule exI [of _ "new_activity_mt\<lparr>activity := [new_activity\<lparr>act_id := setId u new_id, activityState := st\<rparr>]\<rparr>"])
      (simp add: is_activity_def setId_def)
  show "\<exists>m. accepts m c x"
    by (rule exI [of _ "\<lparr>status_command_id = setId c new_id, commandProcessingState = ''ACCEPTED'',
          resulting = (case x of None \<Rightarrow> [] | Some u \<Rightarrow> [new_resulting\<lparr>resulting_id := setId u new_id\<rparr>])\<rparr>"])
      (simp add: accepts_def setId_def split: option.split)
  show "\<exists>m. is_start m c"
    by (rule exI [of _ "\<lparr>command = [Capability (new_capability_command\<lparr>capcmd_id := setId c new_id\<rparr>)]\<rparr>"])
      (simp add: is_start_def setId_def)
  show "\<exists>m. is_stop m c u"
    by (rule exI [of _ "\<lparr>command = [Activity (new_activity_command\<lparr>actcmd_id := setId c new_id, actcmd_activity := setId u new_id\<rparr>)]\<rparr>"])
      (simp add: is_stop_def setId_def)
qed

text \<open>The beginnings of a service's part.\<close>

lemma service_behavesI:
  assumes "prefix ms [CapabilityMsg m1, CapabilityStatusMsg m2, CommandStatusMsg m3, ActivityMsg a1, CommandStatusMsg m5, ActivityMsg a2]"
    "is_activity a1 u ''ACTIVE_UNCONSTRAINED''" "is_activity a2 u ''COMPLETED''" "accepts m3 c1 (Some u)" "accepts m5 c2 None"
    "2 < length ms \<Longrightarrow> \<exists>c. CommandRead (Some c) \<in> S \<and> is_start c c1"
    "4 < length ms \<Longrightarrow> \<exists>c. CommandRead (Some c) \<in> S \<and> is_stop c c2 u"
  shows "service_behaves S ms"
  unfolding service_behaves_def by ((rule exI)+, (rule conjI impI assms | assumption)+)

lemma service_begins:
  "service_behaves S []"
  "service_behaves S [CapabilityMsg m1]"
  "service_behaves S [CapabilityMsg m1, CapabilityStatusMsg m2]"
proof -
  obtain a1 where a1: "is_activity a1 (UUID []) ''ACTIVE_UNCONSTRAINED''" using exists_messages(1) ..
  obtain a2 where a2: "is_activity a2 (UUID []) ''COMPLETED''" using exists_messages(1) ..
  obtain m3 where m3: "accepts m3 (UUID []) (Some (UUID []))" using exists_messages(2) ..
  obtain m5 where m5: "accepts m5 (UUID []) None" using exists_messages(2) ..
  note * = service_behavesI [OF _ a1 a2 m3 m5]
  show "service_behaves S []" by (rule * [of _ undefined undefined]) simp_all
  show "service_behaves S [CapabilityMsg m1]" by (rule * [of _ m1 undefined]) simp_all
  show "service_behaves S [CapabilityMsg m1, CapabilityStatusMsg m2]" by (rule * [of _ m1 m2]) simp_all
qed

lemma service_goes_on:
  assumes c: "CommandRead (Some c) \<in> S" "is_start c c1" and m3: "accepts m3 c1 (Some u)"
  shows "service_behaves S [CapabilityMsg m1, CapabilityStatusMsg m2, CommandStatusMsg m3]"
    "is_activity a1 u ''ACTIVE_UNCONSTRAINED'' \<Longrightarrow>
      service_behaves S [CapabilityMsg m1, CapabilityStatusMsg m2, CommandStatusMsg m3, ActivityMsg a1]"
proof -
  obtain a where a: "is_activity a u ''ACTIVE_UNCONSTRAINED''" using exists_messages(1) ..
  obtain a2 where a2: "is_activity a2 u ''COMPLETED''" using exists_messages(1) ..
  obtain m5 where m5: "accepts m5 (UUID []) None" using exists_messages(2) ..
  show "service_behaves S [CapabilityMsg m1, CapabilityStatusMsg m2, CommandStatusMsg m3]"
    using c by (intro service_behavesI [OF _ a a2 m3 m5]) auto
  show "is_activity a1 u ''ACTIVE_UNCONSTRAINED'' \<Longrightarrow>
      service_behaves S [CapabilityMsg m1, CapabilityStatusMsg m2, CommandStatusMsg m3, ActivityMsg a1]"
    using c by (intro service_behavesI [OF _ _ a2 m3 m5]) auto
qed

lemma service_ends:
  assumes c: "CommandRead (Some c) \<in> S" "is_start c c1" and m3: "accepts m3 c1 (Some u)"
    and a1: "is_activity a1 u ''ACTIVE_UNCONSTRAINED''"
    and d: "CommandRead (Some d) \<in> S" "is_stop d c2 u" and m5: "accepts m5 c2 None"
  shows "service_behaves S [CapabilityMsg m1, CapabilityStatusMsg m2, CommandStatusMsg m3, ActivityMsg a1, CommandStatusMsg m5]"
    "is_activity a2 u ''COMPLETED'' \<Longrightarrow>
      service_behaves S [CapabilityMsg m1, CapabilityStatusMsg m2, CommandStatusMsg m3, ActivityMsg a1, CommandStatusMsg m5, ActivityMsg a2]"
proof -
  obtain a where a: "is_activity a u ''COMPLETED''" using exists_messages(1) ..
  show "service_behaves S [CapabilityMsg m1, CapabilityStatusMsg m2, CommandStatusMsg m3, ActivityMsg a1, CommandStatusMsg m5]"
    using c d by (intro service_behavesI [OF _ a1 a m3 m5]) auto
  show "is_activity a2 u ''COMPLETED'' \<Longrightarrow>
      service_behaves S [CapabilityMsg m1, CapabilityStatusMsg m2, CommandStatusMsg m3, ActivityMsg a1, CommandStatusMsg m5, ActivityMsg a2]"
    using c d by (intro service_behavesI [OF _ a1 _ m3 m5]) auto
qed

text \<open>What a run of a service has reached where it throws or waits: with no faults it has not sent the last message.\<close>

definition serving :: "env \<Rightarrow> input set \<Rightarrow> world \<Rightarrow> bool" where
  "serving E S v \<longleftrightarrow> (\<exists>ms. reached S ms v \<and> service_behaves S ms \<and> (quiet E \<longrightarrow> length ms < 6))"

definition served :: "input set \<Rightarrow> world \<Rightarrow> bool" where
  "served S v \<longleftrightarrow> (\<exists>ms. reached S ms v \<and> service_behaves S ms \<and> length ms = 6)"

text \<open>A publishing step sends one message of the right content, and fails only by a fault.\<close>

definition adds :: "env \<Rightarrow> unit proc \<Rightarrow> bus_message \<Rightarrow> bool" where
  "adds E p m \<longleftrightarrow> (\<forall>S ms. achieves (reached S ms) p (\<lambda>_. reached S (ms @ [m]))
     (\<lambda>v. \<not> quiet E \<and> (reached S ms v \<or> reached S (ms @ [m]) v)))"

definition publishes :: "env \<Rightarrow> unit proc \<Rightarrow> (bus_message \<Rightarrow> bool) \<Rightarrow> bool" where
  "publishes E p ok \<longleftrightarrow> (\<exists>m. ok m \<and> adds E p m)"

lemma adds_step:
  assumes "adds E p m" "\<And>v. \<not> quiet E \<Longrightarrow> reached S ms v \<or> reached S (ms @ [m]) v \<Longrightarrow> R v" "ms' = ms @ [m]"
  shows "achieves (reached S ms) p (\<lambda>_. reached S ms') R"
  unfolding assms(3) using assms(1,2) unfolding adds_def by (blast intro: achieves_weaken)

lemma adds_by_hand:
  "adds E (seq (perform E c) (seq (put E k m) (perform E d))) m"
  "adds E (seq (perform E c) (seq (perform E b) (seq (put E k m) (perform E d)))) m"
  using at_publish [where pre = "ret ()"] at_publish [where pre = "perform E b"]
  by (auto simp: adds_def at_ret at_perform)

definition service_shape where
  "service_shape p1 p2 wait1 bad1 err1 gen p3 p4 wait2 bad2 err2 p5 p6 fin =
     seq p1 (seq p2 (bind wait1 (\<lambda>x. if bad1 x then throw (err1 x) else bind gen (\<lambda>u.
     seq (p3 x u) (seq (p4 u) (bind (wait2 x) (\<lambda>y. if bad2 y u then throw (err2 y u) else
     seq (p5 y) (seq (p6 u) fin))))))))"

lemma servingI: "reached S ms v \<Longrightarrow> service_behaves S ms \<Longrightarrow> \<not> quiet E \<or> length ms < 6 \<Longrightarrow> serving E S v"
  by (auto simp: serving_def)

lemma adds_seq:
  assumes "adds E p m" "service_behaves S ms" "service_behaves S (ms @ [m])"
    "achieves (reached S (ms @ [m])) n Q (serving E S)"
  shows "achieves (reached S ms) (seq p n) Q (serving E S)"
  by (rule achieves_seq [OF adds_step [OF assms(1) _ refl] assms(4)]) (use assms(2,3) in \<open>auto intro: servingI\<close>)

text \<open>The parts a service is made of, and what each of them has to do.\<close>

locale service_program =
  fixes E :: env and S :: "input set" and p1 p2 :: "unit proc" and wait1 :: "'x proc" and bad1 :: "'x \<Rightarrow> bool" and err1 :: "'x \<Rightarrow> exn"
    and p3 :: "'x \<Rightarrow> uuid \<Rightarrow> unit proc" and p4 :: "uuid \<Rightarrow> unit proc" and wait2 :: "'x \<Rightarrow> 'y proc"
    and bad2 :: "'y \<Rightarrow> uuid \<Rightarrow> bool" and err2 :: "'y \<Rightarrow> uuid \<Rightarrow> exn" and p5 :: "'y \<Rightarrow> unit proc" and p6 :: "uuid \<Rightarrow> unit proc"
    and fin :: "'a proc" and good :: "'x \<Rightarrow> bool" and cid :: "'x \<Rightarrow> uuid" and did :: "'y \<Rightarrow> uuid"
    and result :: "'a \<Rightarrow> bool"
  assumes p1: "publishes E p1 (\<lambda>m. \<exists>x. m = CapabilityMsg x)"
    and p2: "publishes E p2 (\<lambda>m. \<exists>x. m = CapabilityStatusMsg x)"
    and wait1: "achieves (reached S ms) wait1 (\<lambda>x w. (\<not> bad1 x \<longrightarrow> good x \<and> (\<exists>c. CommandRead (Some c) \<in> S \<and> is_start c (cid x)))
      \<and> reached S ms w) (reached S ms)"
    and p3: "publishes E (p3 x u) (\<lambda>m. \<exists>y. m = CommandStatusMsg y \<and> accepts y (cid x) (Some u))"
    and p4: "publishes E (p4 u) (\<lambda>m. \<exists>a. m = ActivityMsg a \<and> is_activity a u ''ACTIVE_UNCONSTRAINED'')"
    and wait2: "good x \<Longrightarrow> achieves (reached S ms) (wait2 x) (\<lambda>y w. (\<forall>u. u \<noteq> UUID zero_octets \<longrightarrow> \<not> bad2 y u \<longrightarrow>
      (\<exists>c. CommandRead (Some c) \<in> S \<and> is_stop c (did y) u)) \<and> reached S ms w) (reached S ms)"
    and p5: "publishes E (p5 y) (\<lambda>m. \<exists>n. m = CommandStatusMsg n \<and> accepts n (did y) None)"
    and p6: "publishes E (p6 u) (\<lambda>m. \<exists>a. m = ActivityMsg a \<and> is_activity a u ''COMPLETED'')"
    and fin: "achieves (reached S ms) fin (\<lambda>r w. result r \<and> reached S ms w) (\<lambda>v. \<not> quiet E \<and> reached S ms v)"
begin

lemma ends:
  assumes c: "CommandRead (Some c) \<in> S" "is_start c c1" and m3: "accepts m3 c1 (Some u)"
    and a1: "is_activity a1 u ''ACTIVE_UNCONSTRAINED''" and d: "CommandRead (Some d) \<in> S" "is_stop d (did y) u"
  shows "achieves (reached S [CapabilityMsg m1, CapabilityStatusMsg m2, CommandStatusMsg m3, ActivityMsg a1])
    (seq (p5 y) (seq (p6 u) fin)) (\<lambda>r w. result r \<and> served S w) (serving E S)"
proof -
  obtain m5 where m5: "accepts m5 (did y) None" "adds E (p5 y) (CommandStatusMsg m5)"
    using p5 [of y] by (auto simp: publishes_def)
  obtain a2 where a2: "is_activity a2 u ''COMPLETED''" "adds E (p6 u) (ActivityMsg a2)"
    using p6 [of u] by (auto simp: publishes_def)
  note b = service_goes_on(2) [OF c m3 a1] service_ends(1) [OF c m3 a1 d m5(1)] service_ends(2) [OF c m3 a1 d m5(1) a2(1)]
  have "achieves (reached S ms) fin (\<lambda>r w. result r \<and> served S w) (serving E S)" if "service_behaves S ms" "length ms = 6" for ms
    by (rule achieves_weaken [OF fin]) (use that in \<open>auto intro: servingI simp: served_def\<close>)
  then show ?thesis
    using b by (intro adds_seq [OF m5(2)] adds_seq [OF a2(2)]) simp_all
qed

lemma goes_on:
  assumes c: "CommandRead (Some c) \<in> S" "is_start c (cid x)" and x: "good x" and u: "u \<noteq> UUID zero_octets"
  shows "achieves (reached S [CapabilityMsg m1, CapabilityStatusMsg m2])
    (seq (p3 x u) (seq (p4 u) (bind (wait2 x) (\<lambda>y. if bad2 y u then throw (err2 y u) else seq (p5 y) (seq (p6 u) fin)))))
    (\<lambda>r w. result r \<and> served S w) (serving E S)"
proof -
  obtain m3 where m3: "accepts m3 (cid x) (Some u)" "adds E (p3 x u) (CommandStatusMsg m3)"
    using p3 [of x u] by (auto simp: publishes_def)
  obtain a1 where a1: "is_activity a1 u ''ACTIVE_UNCONSTRAINED''" "adds E (p4 u) (ActivityMsg a1)"
    using p4 [of u] by (auto simp: publishes_def)
  note b = service_begins(3) service_goes_on(1) [OF c m3(1)] service_goes_on(2) [OF c m3(1) a1(1)]
  let ?ms = "[CapabilityMsg m1, CapabilityStatusMsg m2, CommandStatusMsg m3, ActivityMsg a1]"
  have *: "achieves (\<lambda>w. (\<forall>u. u \<noteq> UUID zero_octets \<longrightarrow> \<not> bad2 y u \<longrightarrow> (\<exists>c. CommandRead (Some c) \<in> S \<and> is_stop c (did y) u)) \<and> reached S ?ms w)
      (if bad2 y u then throw (err2 y u) else seq (p5 y) (seq (p6 u) fin)) (\<lambda>r w. result r \<and> served S w) (serving E S)" for y
  proof (cases "bad2 y u")
    case True
    then show ?thesis using b(3) by (auto simp: achieves_def settles_def throw_def intro!: servingI [of S ?ms])
  next
    case False
    show ?thesis
    proof (cases "\<exists>c. CommandRead (Some c) \<in> S \<and> is_stop c (did y) u")
      case True
      then obtain d where "CommandRead (Some d) \<in> S" "is_stop d (did y) u" by blast
      from ends [OF c m3(1) a1(1) this] False show ?thesis by (auto intro: achieves_weaken)
    next
      case notFound: False
      with False u show ?thesis by (auto simp: achieves_def)
    qed
  qed
  have "achieves (reached S ?ms) (wait2 x) (\<lambda>y w. (\<forall>u. u \<noteq> UUID zero_octets \<longrightarrow> \<not> bad2 y u \<longrightarrow>
      (\<exists>c. CommandRead (Some c) \<in> S \<and> is_stop c (did y) u)) \<and> reached S ?ms w) (serving E S)"
    by (rule achieves_weaken [OF wait2 [OF x]]) (use b(3) in \<open>auto intro: servingI\<close>)
  note achieves_bind [OF this *]
  then show ?thesis
    using b by (intro adds_seq [OF m3(2)] adds_seq [OF a1(2)]) simp_all
qed

lemma serves:
  "achieves (reached S []) (service_shape p1 p2 wait1 bad1 err1 (generate E) p3 p4 wait2 bad2 err2 p5 p6 fin)
    (\<lambda>r w. result r \<and> served S w) (serving E S)"
proof -
  obtain m1 where m1: "adds E p1 (CapabilityMsg m1)" using p1 by (auto simp: publishes_def)
  obtain m2 where m2: "adds E p2 (CapabilityStatusMsg m2)" using p2 by (auto simp: publishes_def)
  let ?ms = "[CapabilityMsg m1, CapabilityStatusMsg m2]"
  note b = service_begins(1) service_begins(2) [of S m1] service_begins(3) [of S m1 m2]
  have *: "achieves (\<lambda>w. (\<not> bad1 x \<longrightarrow> good x \<and> (\<exists>c. CommandRead (Some c) \<in> S \<and> is_start c (cid x))) \<and> reached S ?ms w)
      (if bad1 x then throw (err1 x) else bind (generate E) (\<lambda>u. seq (p3 x u) (seq (p4 u)
        (bind (wait2 x) (\<lambda>y. if bad2 y u then throw (err2 y u) else seq (p5 y) (seq (p6 u) fin))))))
      (\<lambda>r w. result r \<and> served S w) (serving E S)" for x
  proof (cases "\<not> bad1 x \<and> good x \<and> (\<exists>c. CommandRead (Some c) \<in> S \<and> is_start c (cid x))")
    case True
    then obtain c where c: "CommandRead (Some c) \<in> S" "is_start c (cid x)" by blast
    have "achieves (\<lambda>w. u \<noteq> UUID zero_octets \<and> reached S ?ms w) (seq (p3 x u) (seq (p4 u)
        (bind (wait2 x) (\<lambda>y. if bad2 y u then throw (err2 y u) else seq (p5 y) (seq (p6 u) fin))))) (\<lambda>r w. result r \<and> served S w) (serving E S)" for u
      using goes_on [OF c, of u] True by (cases "u = UUID zero_octets") (auto simp: achieves_def)
    from achieves_bind [OF at_generate this] True show ?thesis by (auto intro: achieves_weaken)
  next
    case False
    then show ?thesis using b(3) by (auto simp: achieves_def settles_def throw_def intro!: servingI [of S ?ms])
  qed
  have "achieves (reached S ?ms) wait1 (\<lambda>x w. (\<not> bad1 x \<longrightarrow> good x \<and>
      (\<exists>c. CommandRead (Some c) \<in> S \<and> is_start c (cid x))) \<and> reached S ?ms w) (serving E S)"
    by (rule achieves_weaken [OF wait1]) (use b(3) in \<open>auto intro: servingI\<close>)
  note achieves_bind [OF this *]
  then show ?thesis unfolding service_shape_def
    using b by (intro adds_seq [OF m1] adds_seq [OF m2]) simp_all
qed

end

text \<open>The same for a client.\<close>

definition starts_with :: "input set \<Rightarrow> command_mt \<Rightarrow> world \<Rightarrow> bool" where
  "starts_with S m v \<longleftrightarrow> (\<exists>c. is_start m c) \<and> reached S [CommandMsg m] v"

definition stops_with :: "input set \<Rightarrow> command_mt \<Rightarrow> uuid \<Rightarrow> world \<Rightarrow> bool" where
  "stops_with S m u v \<longleftrightarrow> (\<exists>c. is_start m c) \<and> (\<exists>m2 c2. is_stop m2 c2 u \<and> reached S [CommandMsg m, CommandMsg m2] v)"

definition asking :: "input set \<Rightarrow> world \<Rightarrow> bool" where
  "asking S v \<longleftrightarrow> (\<exists>ms. reached S ms v \<and> client_behaves S ms)"

definition answered :: "input set \<Rightarrow> world \<Rightarrow> bool" where
  "answered S v \<longleftrightarrow> (\<exists>ms. reached S ms v \<and> client_succeeds S ms)"

definition client_shape where
  "client_shape send1 wait1 bad1 err1 send2 wait2 bad2 err2 fin =
     bind send1 (\<lambda>_. bind wait1 (\<lambda>x. if bad1 x then throw (err1 x) else
     bind (send2 x) (\<lambda>_. bind (wait2 x) (\<lambda>y. if bad2 y then throw (err2 y) else fin))))"

lemma client_begins:
  "client_behaves S []"
  "is_start m c \<Longrightarrow> client_behaves S [CommandMsg m]"
  "is_start m c \<Longrightarrow> is_stop m2 c2 u \<Longrightarrow> ActivityRead (Some a) \<in> S \<Longrightarrow> is_activity a u ''ACTIVE_UNCONSTRAINED'' \<Longrightarrow>
    client_behaves S [CommandMsg m, CommandMsg m2]"
proof -
  obtain m1 where m1: "is_start m1 (UUID [])" using exists_messages(3) ..
  obtain m2' where m2': "is_stop m2' (UUID []) (UUID [])" using exists_messages(4) ..
  show "client_behaves S []" "is_start m c \<Longrightarrow> client_behaves S [CommandMsg m]"
    unfolding client_behaves_def using m1 m2' by force+
  show "is_start m c \<Longrightarrow> is_stop m2 c2 u \<Longrightarrow> ActivityRead (Some a) \<in> S \<Longrightarrow> is_activity a u ''ACTIVE_UNCONSTRAINED'' \<Longrightarrow>
      client_behaves S [CommandMsg m, CommandMsg m2]"
    unfolding client_behaves_def by fastforce
qed

lemma starts_with_asking: "starts_with S m v \<Longrightarrow> asking S v"
  by (auto simp: starts_with_def asking_def intro: client_begins)

lemma stops_with_asking:
  "stops_with S m u v \<Longrightarrow> ActivityRead (Some a) \<in> S \<Longrightarrow> is_activity a u ''ACTIVE_UNCONSTRAINED'' \<Longrightarrow> asking S v"
  by (auto simp: stops_with_def asking_def intro: client_begins)

locale client_program =
  fixes S :: "input set" and send1 :: "'i proc" and wait1 :: "'x proc" and bad1 :: "'x \<Rightarrow> bool" and err1 :: "'x \<Rightarrow> exn"
    and send2 :: "'x \<Rightarrow> 'j proc" and wait2 :: "'x \<Rightarrow> 'y proc" and bad2 :: "'y \<Rightarrow> bool" and err2 :: "'y \<Rightarrow> exn" and fin :: "'a proc"
    and good :: "'x \<Rightarrow> bool" and told :: "'x \<Rightarrow> uuid"
    and result :: "'a \<Rightarrow> bool"
  assumes send1: "achieves (reached S []) send1 (\<lambda>_ v. \<exists>m. starts_with S m v) (\<lambda>v. reached S [] v \<or> (\<exists>m. starts_with S m v))"
    and wait1: "achieves (reached S ms) wait1 (\<lambda>x w. (\<not> bad1 x \<longrightarrow> good x \<and>
      (\<exists>a. ActivityRead (Some a) \<in> S \<and> is_activity a (told x) ''ACTIVE_UNCONSTRAINED'')) \<and> reached S ms w) (reached S ms)"
    and send2: "achieves (starts_with S m) (send2 x) (\<lambda>_. stops_with S m (told x)) (\<lambda>v. starts_with S m v \<or> stops_with S m (told x) v)"
    and wait2: "good x \<Longrightarrow> achieves (reached S ms) (wait2 x) (\<lambda>y w. (\<not> bad2 y \<longrightarrow>
      (\<exists>a u. ActivityRead (Some a) \<in> S \<and> is_activity a u ''COMPLETED'')) \<and> reached S ms w) (reached S ms)"
    and fin: "achieves (reached S ms) fin (\<lambda>r w. result r \<and> reached S ms w) (reached S ms)"
begin

lemma answers:
  assumes a: "ActivityRead (Some a) \<in> S" "is_activity a (told x) ''ACTIVE_UNCONSTRAINED''" and x: "good x"
  shows "achieves (stops_with S m (told x)) (bind (wait2 x) (\<lambda>y. if bad2 y then throw (err2 y) else fin)) (\<lambda>r w. result r \<and> answered S w) (asking S)"
proof -
  have "achieves (reached S [CommandMsg m, CommandMsg m2]) (bind (wait2 x) (\<lambda>y. if bad2 y then throw (err2 y) else fin))
      (\<lambda>r w. result r \<and> answered S w) (asking S)" if m: "is_start m c" "is_stop m2 c2 (told x)" for m2 c c2
  proof -
    let ?ms = "[CommandMsg m, CommandMsg m2]"
    note b = client_begins(3) [OF m a]
    then have ask: "reached S ?ms v \<Longrightarrow> asking S v" for v by (auto simp: asking_def)
    have *: "achieves (\<lambda>w. (\<not> bad2 y \<longrightarrow> (\<exists>a u. ActivityRead (Some a) \<in> S \<and> is_activity a u ''COMPLETED'')) \<and> reached S ?ms w)
        (if bad2 y then throw (err2 y) else fin) (\<lambda>r w. result r \<and> answered S w) (asking S)" for y
    proof (cases "\<not> bad2 y \<and> (\<exists>a u. ActivityRead (Some a) \<in> S \<and> is_activity a u ''COMPLETED'')")
      case True
      with b have "reached S ?ms v \<Longrightarrow> answered S v" for v
        unfolding answered_def client_succeeds_def by (intro exI [of _ ?ms]) simp
      with True ask show ?thesis by (auto intro: achieves_weaken [OF fin])
    next
      case False
      with ask show ?thesis by (auto simp: achieves_def settles_def throw_def)
    qed
    have "achieves (reached S ?ms) (wait2 x) (\<lambda>y w. (\<not> bad2 y \<longrightarrow>
        (\<exists>a u. ActivityRead (Some a) \<in> S \<and> is_activity a u ''COMPLETED'')) \<and> reached S ?ms w) (asking S)"
      by (rule achieves_weaken [OF wait2 [OF x]]) (use ask in auto)
    then show ?thesis by (rule achieves_bind [OF _ *])
  qed
  then show ?thesis unfolding achieves_def stops_with_def by blast
qed

lemma asks: "achieves (reached S []) (client_shape send1 wait1 bad1 err1 send2 wait2 bad2 err2 fin) (\<lambda>r w. result r \<and> answered S w) (asking S)"
proof -
  have rest: "achieves (\<lambda>v. (\<not> bad1 x \<longrightarrow> good x \<and> (\<exists>a. ActivityRead (Some a) \<in> S \<and> is_activity a (told x) ''ACTIVE_UNCONSTRAINED''))
        \<and> starts_with S m v)
      (if bad1 x then throw (err1 x) else bind (send2 x) (\<lambda>_. bind (wait2 x) (\<lambda>y. if bad2 y then throw (err2 y) else fin)))
      (\<lambda>r w. result r \<and> answered S w) (asking S)" for x m
  proof (cases "\<not> bad1 x \<and> good x \<and> (\<exists>a. ActivityRead (Some a) \<in> S \<and> is_activity a (told x) ''ACTIVE_UNCONSTRAINED'')")
    case True
    then obtain a where a: "ActivityRead (Some a) \<in> S" "is_activity a (told x) ''ACTIVE_UNCONSTRAINED''" by blast
    have "achieves (starts_with S m) (send2 x) (\<lambda>_. stops_with S m (told x)) (asking S)"
      by (rule achieves_weaken [OF send2]) (auto intro: starts_with_asking stops_with_asking a)
    from achieves_bind [OF this answers [OF a]] True show ?thesis by (auto intro: achieves_weaken)
  next
    case False
    then show ?thesis by (auto simp: achieves_def settles_def throw_def intro: starts_with_asking)
  qed
  have "achieves (starts_with S m) wait1 (\<lambda>x v. (\<not> bad1 x \<longrightarrow> good x \<and>
      (\<exists>a. ActivityRead (Some a) \<in> S \<and> is_activity a (told x) ''ACTIVE_UNCONSTRAINED'')) \<and> starts_with S m v) (asking S)" for m
    using wait1 [of "[CommandMsg m]"] unfolding achieves_def settles_def starts_with_def
    by (fastforce split: result.splits prod.splits simp: asking_def intro: client_begins)
  note w = achieves_bind [OF this rest]
  have w': "achieves (\<lambda>v. \<exists>m. starts_with S m v) (bind wait1 (\<lambda>x. if bad1 x then throw (err1 x) else
      bind (send2 x) (\<lambda>_. bind (wait2 x) (\<lambda>y. if bad2 y then throw (err2 y) else fin)))) (\<lambda>r w. result r \<and> answered S w) (asking S)"
    using w unfolding achieves_def by blast
  have "reached S [] v \<Longrightarrow> asking S v" for v using client_begins(1) unfolding asking_def by blast
  then show ?thesis unfolding client_shape_def
    by (intro achieves_bind [OF achieves_weaken [OF send1] w']) (auto intro: starts_with_asking)
qed

end

section \<open>Calls that send nothing\<close>

text \<open>Assertions that calls of the library do not change.\<close>

definition call_stable :: "(world \<Rightarrow> bool) \<Rightarrow> bool" where
  "call_stable P \<longleftrightarrow> (\<forall>w cs. P (w\<lparr>calls := cs\<rparr>) = P w)"

lemma call_stable [simp]: "call_stable (reached S ms)" "call_stable (served S)" "call_stable (serving E S)" "call_stable (asking S)" "call_stable (answered S)"
  by (simp_all add: call_stable_def reached_def served_def serving_def asking_def answered_def)

lemma call_stable_and [simp]: "call_stable P \<Longrightarrow> call_stable (\<lambda>v. b \<and> P v)"
  by (simp add: call_stable_def)

definition silent :: "env \<Rightarrow> 'a proc \<Rightarrow> bool" where
  "silent E m \<longleftrightarrow> (\<forall>P. call_stable P \<longrightarrow> achieves P m (\<lambda>_. P) (\<lambda>v. \<not> quiet E \<and> P v))"

lemma silent_perform [lawful, simp]: "silent E (perform E c)"
  by (auto simp: silent_def call_stable_def achieves_def settles_def perform_def quiet_def split: option.split)

lemma silent_ret [lawful, simp]: "silent E (ret x)"
  by (simp add: silent_def achieves_def)

lemma silent_seq [lawful]: "silent E m \<Longrightarrow> silent E n \<Longrightarrow> silent E (seq m n)"
  unfolding silent_def by (blast intro: achieves_seq)

lemma silent_before:
  assumes "silent E m" "call_stable P" "achieves P n Q R" "\<And>v. P v \<Longrightarrow> \<not> quiet E \<Longrightarrow> R v"
  shows "achieves P (seq m n) Q R"
  using assms unfolding silent_def by (blast intro: achieves_seq achieves_weaken)

lemma silent_after:
  assumes "silent E m" "call_stable P" "\<And>v. P v \<Longrightarrow> \<not> quiet E \<Longrightarrow> R v"
  shows "achieves P (seq m (ret x)) (\<lambda>y v. y = x \<and> P v) R"
proof -
  have "achieves P m (\<lambda>_. P) R" using assms unfolding silent_def by (blast intro: achieves_weaken)
  then show ?thesis by (rule achieves_seq) (simp add: achieves_def)
qed

lemma silent_catch:
  assumes "silent E h" "call_stable R" "achieves P m Q R"
  shows "achieves P (catch_rethrow m h) Q R"
proof -
  have "achieves R h (\<lambda>_. R) R" using assms(1,2) unfolding silent_def by (blast intro: achieves_weaken)
  then have "achieves R (seq h (throw e)) Q R" for e
    by (rule achieves_seq) (simp add: achieves_def settles_def throw_def)
  then show ?thesis unfolding catch_rethrow_def
    by (intro achieves_handle [OF assms(3)]) (simp_all add: achieves_def)
qed

lemma silent_no_throw:
  assumes "silent E h" "call_stable P" "\<And>v. P v \<Longrightarrow> \<not> quiet E \<Longrightarrow> R v"
  shows "achieves P (no_throw h) (\<lambda>_. P) R"
proof -
  have "achieves P h (\<lambda>_. P) (\<lambda>v. \<not> quiet E \<and> P v)" using assms(1,2) by (simp add: silent_def)
  then show ?thesis unfolding no_throw_def
    by (rule achieves_handle) (use assms(3) in \<open>auto intro!: achieves_ret\<close>)
qed

text \<open>A scope around a block: what the block has achieved outlives the release.\<close>

lemma achieves_scoped:
  assumes s: "silent E a" "silent E h" and st: "call_stable P" "\<And>x. call_stable (Q x)" "call_stable R"
    and b: "achieves P block Q R" and R: "\<And>v. P v \<Longrightarrow> \<not> quiet E \<Longrightarrow> R v" "\<And>x v. Q x v \<Longrightarrow> \<not> quiet E \<Longrightarrow> R v"
  shows "achieves P (scoped a h block) Q R"
  unfolding scoped_def
proof (rule silent_before [OF s(1) st(1) _ R(1)])
  show "achieves P (leaving h block) Q R"
    unfolding leaving_def
  proof (rule achieves_handle [OF b])
    show "achieves (Q x) (seq (no_throw h) (ret x)) Q R" for x
      by (rule achieves_seq [OF silent_no_throw [OF s(2) st(2) R(2)]]) (auto intro: achieves_ret)
    show "achieves R (seq (no_throw h) (throw e)) Q R" for e
      by (rule achieves_seq [OF silent_no_throw [OF s(2) st(3)]]) (auto simp: achieves_def settles_def throw_def)
  qed
qed

lemma served_serving: "served S v \<Longrightarrow> \<not> quiet E \<Longrightarrow> serving E S v"
  by (auto simp: served_def serving_def)

lemma reached_Nil [simp]: "reached S [] v \<Longrightarrow> serving E S v" "reached S [] v \<Longrightarrow> asking S v"
  by (auto simp: serving_def asking_def intro: service_begins client_begins)

lemma reached_start [simp]: "reached (set s) [] (start_world s)"
  by (simp add: reached_def start_world_def)

section \<open>Sending a command\<close>

lemma bind_assoc: "bind (bind m f) g = bind m (\<lambda>x. bind (f x) g)"
  by (rule ext) (simp add: bind_def handle_def throw_def split: result.split prod.split)

lemma send_start:
  assumes "silent E s" "\<And>u. adds E (send u) (CommandMsg (m u))" "\<And>u. \<exists>c. is_start (m u) c"
  shows "achieves (reached S []) (seq s (bind (generate E) send)) (\<lambda>_ v. \<exists>m. starts_with S m v)
    (\<lambda>v. reached S [] v \<or> (\<exists>m. starts_with S m v))"
proof (rule silent_before [OF assms(1)])
  have "achieves (reached S []) (send u) (\<lambda>_ v. \<exists>m. starts_with S m v) (\<lambda>v. reached S [] v \<or> (\<exists>m. starts_with S m v))" for u
    using assms(3) [of u] by (intro achieves_weaken [OF adds_step [OF assms(2) _ refl]]) (auto simp: starts_with_def)
  then show "achieves (reached S []) (bind (generate E) send) (\<lambda>_ v. \<exists>m. starts_with S m v)
      (\<lambda>v. reached S [] v \<or> (\<exists>m. starts_with S m v))"
    unfolding generate_def by (intro achieves_bind [OF at_draw])
qed simp_all

lemma send_stop:
  assumes "\<And>u. adds E (send u) (CommandMsg (n u))" "\<And>u. \<exists>c. is_stop (n u) c a"
  shows "achieves (starts_with S m) (bind (generate E) send) (\<lambda>_. stops_with S m a) (\<lambda>v. starts_with S m v \<or> stops_with S m a v)"
proof (cases "\<exists>c. is_start m c")
  case True
  have "achieves (reached S [CommandMsg m]) (send u) (\<lambda>_. stops_with S m a) (\<lambda>v. starts_with S m v \<or> stops_with S m a v)" for u
    using assms(2) [of u] True
    by (intro achieves_weaken [OF adds_step [OF assms(1) _ refl]]) (auto simp: starts_with_def stops_with_def)
  then have "achieves (reached S [CommandMsg m]) (bind (generate E) send) (\<lambda>_. stops_with S m a) (\<lambda>v. starts_with S m v \<or> stops_with S m a v)"
    unfolding generate_def by (intro achieves_bind [OF at_draw])
  then show ?thesis by (rule achieves_weaken) (auto simp: starts_with_def)
next
  case False
  then show ?thesis by (simp add: achieves_def starts_with_def)
qed

text \<open>A message in a scope.\<close>

lemma adds_scoped:
  "adds E (scoped (perform E c) (perform E d) (put E k m)) m"
  "adds E (scoped (perform E c) (perform E d) (seq (perform E b) (put E k m))) m"
proof -
  have *: "achieves (reached S ms) (put E k m) (\<lambda>_. reached S (ms @ [m])) (\<lambda>v. \<not> quiet E \<and> (reached S ms v \<or> reached S (ms @ [m]) v))" for S ms
    by (rule achieves_weaken [OF at_put]) auto
  have st: "call_stable (\<lambda>v. \<not> quiet E \<and> (reached S ms v \<or> reached S (ms @ [m]) v))" for S ms
    by (simp add: call_stable_def reached_def)
  show "adds E (scoped (perform E c) (perform E d) (put E k m)) m"
    unfolding adds_def by (intro allI achieves_scoped [OF _ _ _ _ st *]) auto
  show "adds E (scoped (perform E c) (perform E d) (seq (perform E b) (put E k m))) m"
    unfolding adds_def by (intro allI achieves_scoped [OF _ _ _ _ st silent_before [OF silent_perform _ *]]) auto
qed

section \<open>Commands\<close>

text \<open>What a wait for a command, that has not found one before, ends with.\<close>

definition commanded :: "input set \<Rightarrow> received_command \<Rightarrow> bool" where
  "commanded S cmd \<longleftrightarrow> (\<exists>c. CommandRead (Some c) \<in> S \<and>
     (if rc_start cmd then is_start c (rc_commandUuid cmd) else is_stop c (rc_commandUuid cmd) (rc_activityUuid cmd)))"

lemma if_throw: "(if a then throw x else if b then throw y else m) = (if a \<or> b then throw (if a then x else y) else m)"
  by simp

lemma answered_asking: "answered S v \<Longrightarrow> asking S v"
  by (auto simp: answered_def asking_def client_succeeds_def)

end
