(* ===== verification/Amti_Runs.thy ===== *)
theory Amti_Runs
  imports Amti_Demo Demo_Spec
begin

text \<open>The runs of the AMTI programs.\<close>

section \<open>Runs continue\<close>

lemma amti_commandLoop_eq:
  "amti_commandLoop E deadline latest cmd = bind now (\<lambda>t.
     if t < deadline then bind (read_command E 250) (\<lambda>m.
       let (cmd, latest) = amti_take (heard amti_handleCommand m latest)
       in if rc_received cmd then ret (True, latest, cmd) else amti_commandLoop E deadline latest cmd)
     else ret (False, latest, cmd))"
  by (rule ext, subst amti_commandLoop.simps) (auto intro!: bind_cong split: prod.split)

lemma amti_updatesLoop_eq:
  "amti_updatesLoop E deadline targetCount targetState sl al = bind now (\<lambda>t.
     if t < deadline then bind (amti_pollStatus E targetCount sl) (\<lambda>sl. bind (amti_pollActivity E targetState al) (\<lambda>al.
       if targetCount \<le> sl_received sl \<and> al_lastState al = targetState then ret (True, sl, al)
       else amti_updatesLoop E deadline targetCount targetState sl al))
     else ret (False, sl, al))"
  by (rule ext, subst amti_updatesLoop.simps) (auto intro!: bind_cong)

declare amti_commandLoop.simps [simp del] amti_updatesLoop.simps [simp del]

lemma progresses_amti_commandLoop [lawful, simp]: "progresses (amti_commandLoop E deadline latest cmd)"
  unfolding progresses_def
proof
  fix w show "later w (snd (amti_commandLoop E deadline latest cmd w))"
  proof (induction E deadline latest cmd w rule: amti_commandLoop.induct)
    case (1 E deadline latest cmd w)
    then show ?case
      by (subst amti_commandLoop_eq) (auto intro!: later_bind split: prod.split)
  qed
qed

lemma progresses_amti_updatesLoop [lawful, simp]: "progresses (amti_updatesLoop E deadline n st sl al)"
  unfolding progresses_def
proof
  fix w show "later w (snd (amti_updatesLoop E deadline n st sl al w))"
  proof (induction E deadline n st sl al w rule: amti_updatesLoop.induct)
    case (1 E deadline n st sl al w)
    then show ?case
      by (subst amti_updatesLoop_eq) (auto intro!: later_bind)
  qed
qed

lemma resumes_amti_polls [lawful, simp]:
  "resumes (amti_pollStatus E n sl)" "resumes (amti_pollActivity E st al)"
  by (simp_all add: amti_pollStatus_def amti_pollActivity_def lawful)

lemma resumes_amti_commandLoop [lawful, simp]: "resumes (amti_commandLoop E deadline latest cmd)"
proof (rule resumesI)
  fix w show "resumes_at (amti_commandLoop E deadline latest cmd) w"
  proof (induction E deadline latest cmd w rule: amti_commandLoop.induct)
    case (1 E deadline latest cmd w)
    then show ?case
      by (subst amti_commandLoop_eq) (auto intro!: resumes_at_bind simp: lawful split: prod.split)
  qed
qed simp

lemma resumes_amti_updatesLoop [lawful, simp]: "resumes (amti_updatesLoop E deadline n st sl al)"
proof (rule resumesI)
  fix w show "resumes_at (amti_updatesLoop E deadline n st sl al) w"
  proof (induction E deadline n st sl al w rule: amti_updatesLoop.induct)
    case (1 E deadline n st sl al w)
    then show ?case
      by (subst amti_updatesLoop_eq) (auto intro!: resumes_at_bind simp: lawful)
  qed
qed simp

lemmas amti_publish_defs = amti_publishCapability_def amti_publishCapabilityStatus_def amti_publishCommandStatus_def
  amti_publishActivity_def

lemma resumes_amti_runService: "resumes (amti_runService E)"
  unfolding amti_runService_def amti_serve_def amti_releaseService_def amti_publish_defs amti_waitForCommand_def Let_def
  by (intro lawful)

lemma resumes_amti_runClient: "resumes (amti_runClient E)"
  unfolding amti_runClient_def amti_operate_def amti_releaseClient_def amti_sendStartCommand_def amti_sendStopCommand_def
    amti_waitForClientUpdates_def Let_def
  by (intro lawful)

section \<open>Resources\<close>

lemma holding_amti_commandLoop:
  assumes "Reader KCommand \<in> H"
  shows "holding H (amti_commandLoop E deadline latest cmd) H H"
  unfolding holding_def
proof
  fix w show "holding_at H (amti_commandLoop E deadline latest cmd) H H w"
    using assms
  proof (induction E deadline latest cmd w rule: amti_commandLoop.induct)
    case (1 E deadline latest cmd w)
    then show ?case
      by (subst amti_commandLoop_eq) (auto intro!: holding_at_bind split: prod.split)
  qed
qed

lemma holding_amti_polls:
  "Reader KCommandStatus \<in> H \<Longrightarrow> holding H (amti_pollStatus E n sl) H H"
  "Reader KActivity \<in> H \<Longrightarrow> holding H (amti_pollActivity E st al) H H"
  by (auto simp: amti_pollStatus_def amti_pollActivity_def intro!: holding_bind [of H _ H H] holding_stay)

lemma holding_amti_updatesLoop:
  assumes "Reader KCommandStatus \<in> H" "Reader KActivity \<in> H"
  shows "holding H (amti_updatesLoop E deadline n st sl al) H H"
  unfolding holding_def
proof
  fix w show "holding_at H (amti_updatesLoop E deadline n st sl al) H H w"
    using assms
  proof (induction E deadline n st sl al w rule: amti_updatesLoop.induct)
    case (1 E deadline n st sl al w)
    then show ?case
      by (subst amti_updatesLoop_eq) (auto intro!: holding_at_bind holding_amti_polls)
  qed
qed

lemma holding_amti_publish:
  assumes "only_reads_fail E" "Connection \<in> H"
  shows "Writer KCapability \<in> H \<Longrightarrow> Message KCapability \<notin> H \<Longrightarrow> holding H (amti_publishCapability E u) H H"
    "Writer KCapabilityStatus \<in> H \<Longrightarrow> Message KCapabilityStatus \<notin> H \<Longrightarrow> holding H (amti_publishCapabilityStatus E u) H H"
    "Writer KCommandStatus \<in> H \<Longrightarrow> Message KCommandStatus \<notin> H \<Longrightarrow> holding H (amti_publishCommandStatus E u a) H H"
    "Writer KActivity \<in> H \<Longrightarrow> Message KActivity \<notin> H \<Longrightarrow> holding H (amti_publishActivity E u v st obj) H H"
    "Writer KCommand \<in> H \<Longrightarrow> Message KCommand \<notin> H \<Longrightarrow> holding H (amti_sendStartCommand E u v) H H"
    "Writer KCommand \<in> H \<Longrightarrow> Message KCommand \<notin> H \<Longrightarrow> holding H (amti_sendStopCommand E u v) H H"
  unfolding amti_publish_defs amti_sendStartCommand_def amti_sendStopCommand_def Let_def
  by (rule holding_message' holding_message | use assms in \<open>auto intro!: holding_perform(2) simp: only_reads_fail_def\<close>)+

lemma holding_amti_release:
  assumes E: "only_reads_fail E"
  shows "holding service_endpoints (amti_releaseService E) {} T"
    "holding client_endpoints (amti_releaseClient E) {} T"
proof -
  have none: "env_fault E cs c = None" if "\<And>k ms n. c \<noteq> Read k ms n" for cs c
    using E that by (auto simp: only_reads_fail_def)
  show "holding service_endpoints (amti_releaseService E) {} T"
    unfolding amti_releaseService_def by (rule holding_seq holding_perform(2) | simp add: none insert_Diff_if)+
  show "holding client_endpoints (amti_releaseClient E) {} T"
    unfolding amti_releaseClient_def by (rule holding_seq holding_perform(2) | simp add: none insert_Diff_if)+
qed

lemma holding_amti_serve:
  assumes E: "only_reads_fail E"
    and H: "H = service_endpoints"
  shows "holding H (amti_serve E u) H H"
proof -
  have wait: "holding H (amti_waitForCommand E latest cmd ms) H H" for latest cmd ms
    unfolding amti_waitForCommand_def
    by (intro holding_bind [of H _ H H] holding_io(1) holding_amti_commandLoop) (simp add: H)
  have sleep: "holding H (perform E (SleepMs ms)) H H" for ms
    by (rule holding_perform(1)) simp
  have publish: "holding H (amti_publishCapability E u) H H" "holding H (amti_publishCapabilityStatus E u) H H"
      "holding H (amti_publishCommandStatus E v a) H H" "holding H (amti_publishActivity E u v st obj) H H" for v a st obj
    using E H by (simp_all add: holding_amti_publish)
  show ?thesis
    unfolding amti_serve_def
    by (intro holding_seq [of H _ H H] holding_bind [of H _ H H] holding_case_prod holding_if holding_io(2) wait sleep publish holding_stay)
qed

lemma holding_amti_operate:
  assumes E: "only_reads_fail E" and H: "H = client_endpoints"
  shows "holding H (amti_operate E u) H H"
proof -
  have wait: "holding H (amti_waitForClientUpdates E sl n al st ms) H H" for sl n al st ms
    unfolding amti_waitForClientUpdates_def
    by (intro holding_bind [of H _ H H] holding_io(1) holding_amti_updatesLoop) (simp_all add: H)
  have sleep: "holding H (perform E (SleepMs ms)) H H" for ms
    by (rule holding_perform(1)) simp
  have send: "holding H (amti_sendStartCommand E v w) H H" "holding H (amti_sendStopCommand E v w) H H" for v w
    using E H by (simp_all add: holding_amti_publish)
  show ?thesis
    unfolding amti_operate_def Let_def
    by (intro holding_seq [of H _ H H] holding_bind [of H _ H H] holding_case_prod holding_if holding_io(2) wait sleep send holding_stay)
qed

lemma holding_amti_runService: "only_reads_fail E \<Longrightarrow> holding {} (amti_runService E) {} {}"
  unfolding amti_runService_def Let_def
  by (rule holding_catch [OF holding_amti_serve holding_amti_release(1)] holding_amti_release holding_seq
        holding_perform(2) holding_stay | simp add: acquire_def | simp add: only_reads_fail_def)+

lemma holding_amti_runClient: "only_reads_fail E \<Longrightarrow> holding {} (amti_runClient E) {} {}"
  unfolding amti_runClient_def Let_def
  by (rule holding_catch [OF holding_amti_operate holding_amti_release(2)] holding_amti_release holding_seq
        holding_perform(2) holding_stay | simp add: acquire_def | simp add: only_reads_fail_def)+

lemma holding_amti_main: "only_reads_fail E \<Longrightarrow> holding {} (amti_main E argv) {} {}"
  unfolding amti_main_def
  by (intro holding_if holding_stay holding_exit_code [of _ _ "{}" "{}"] holding_amti_runService holding_amti_runClient) simp_all

text \<open>
  C31: The AMTI programs release what they acquire, by hand: when only reads throw, \<open>main\<close> ends, in every mode
  and on every path, with each reader, writer, message and the connection destroyed once, nothing is used
  after it was destroyed or before it was made, and the connection is destroyed last.
\<close>

theorem amti_releases_everything:
  assumes "only_reads_fail E"
  shows "leaves_nothing (amti_main E argv) s"
  using assms by (intro leaves_nothingI holding_amti_main)

text \<open>A service whose second read throws.\<close>

definition failing_reads :: env where
  "failing_reads = \<lparr>env_capability = (\<lambda>_. UUID []), env_subsystem = UUID [], env_random = (\<lambda>_. []),
     env_fault = (\<lambda>cs c. case c of Read _ _ _ \<Rightarrow> (if c \<in> set cs then Some (RuntimeError ''read'') else None) | _ \<Rightarrow> None)\<rparr>"

theorem amti_releases_everything_witness:
  "leaves_nothing (amti_main failing_reads [''demo'', ''service'']) [Tick 0, Tick 0, CommandRead None, Tick 1]"
  by (rule amti_releases_everything) (auto simp: only_reads_fail_def failing_reads_def split: call.split)

text \<open>
  A write that throws leaks the message it was to write, and a connection that cannot name its capability
  is leaked itself: neither is inside the \<open>try\<close> block's protection.
\<close>

definition failing_call :: "call \<Rightarrow> env" where
  "failing_call c = \<lparr>env_capability = (\<lambda>_. UUID []), env_subsystem = UUID [], env_random = (\<lambda>_. []),
     env_fault = (\<lambda>_ d. if d = c then Some (UCIException ''fault'') else None)\<rparr>"

lemma amti_failed_write_leaks_message:
  "run_held (calls (snd (amti_runService (failing_call (Write KCapability)) (start_world [])))) {} = Some {Message KCapability}"
  by (simp add: amti_runService_def amti_serve_def amti_releaseService_def amti_publishCapability_def put_def seq_def bind_def
      catch_rethrow_def handle_def throw_def ret_def perform_def failing_call_def start_world_def acquire_def Let_def insert_Diff_if insert_commute)

lemma amti_failed_lookup_leaks_connection:
  "run_held (calls (snd (amti_runService (failing_call (GetCapabilityUUID kAmtiCapabilityName)) (start_world [])))) {} = Some {Connection}"
  by (simp add: amti_runService_def seq_def bind_def handle_def throw_def perform_def failing_call_def start_world_def acquire_def)

section \<open>The wait for a command\<close>

text \<open>The inputs of a wait: the clock at its start, then what each poll was at and found, then the clock past the deadline.\<close>

definition polls :: "(nat \<times> command_mt option) list \<Rightarrow> input list" where
  "polls ps = concat (map (\<lambda>(t, m). [Tick t, CommandRead m]) ps)"

lemma polls_simps [simp]: "polls [] = []" "polls ((t, m) # ps) = Tick t # CommandRead m # polls ps"
  by (simp_all add: polls_def)

definition polled :: "nat \<Rightarrow> (nat \<times> command_mt option) list \<Rightarrow> received_command option" where
  "polled deadline ps = find rc_received
     (map (\<lambda>(_, m). heard amti_handleCommand m ReceivedCommand) (takeWhile (\<lambda>(t, _). t < deadline) ps))"

fun answer :: "bool \<times> received_command \<times> received_command \<Rightarrow> received_command option" where
  "answer (ok, latest, cmd) = (if ok then Some cmd else None)"

lemma now_Tick: "now (w\<lparr>script := Tick t # s\<rparr>) = (Returns t, w\<lparr>script := s\<rparr>)"
  by (simp add: now_def take_input_def)

lemma quiet_read_command:
  "quiet E \<Longrightarrow> read_command E ms (w\<lparr>script := CommandRead m # s\<rparr>) = (Returns m, w\<lparr>script := s, calls := calls w @ [Read KCommand ms 1]\<rparr>)"
  by (simp add: read_command_def seq_def bind_def handle_def perform_def quiet_def take_input_def)

lemma amti_commandLoop_polls:
  assumes "quiet E" "deadline \<le> t'"
  shows "\<exists>x v. amti_commandLoop E deadline ReceivedCommand cmd (w\<lparr>script := polls ps @ Tick t' # s\<rparr>) = (Returns x, v) \<and>
    answer x = polled deadline ps"
proof (induction ps arbitrary: cmd w)
  case Nil
  show ?case using assms(2)
    by (subst amti_commandLoop_eq) (simp add: bind_def handle_def now_Tick ret_def polled_def)
next
  case (Cons p ps)
  obtain t m where p: "p = (t, m)" by (cases p)
  show ?case
  proof (cases "t < deadline \<and> \<not> rc_received (heard amti_handleCommand m ReceivedCommand)")
    case True
    have "(w\<lparr>calls := cs\<rparr>)\<lparr>script := s'\<rparr> = w\<lparr>script := s', calls := cs\<rparr>" for s' cs by simp
    with Cons.IH [of "heard amti_handleCommand m ReceivedCommand" "w\<lparr>calls := calls w @ [Read KCommand 250 1]\<rparr>"]
    obtain x v where "amti_commandLoop E deadline ReceivedCommand (heard amti_handleCommand m ReceivedCommand)
        (w\<lparr>script := polls ps @ Tick t' # s, calls := calls w @ [Read KCommand 250 1]\<rparr>) = (Returns x, v)" "answer x = polled deadline ps"
      by metis
    with True assms(1) p show ?thesis
      by (subst amti_commandLoop_eq)
        (simp add: bind_def handle_def now_Tick quiet_read_command amti_take_def polled_def del: split_paired_Ex)
  next
    case False
    with assms(1) p show ?thesis
      by (subst amti_commandLoop_eq) (auto simp: bind_def handle_def now_Tick quiet_read_command amti_take_def ret_def polled_def)
  qed
qed

text \<open>
  The wait for a command ends, once the clock is past its deadline, and answers as it is to: it returns
  the first command that a poll before the deadline brought, and false when there was none; a message
  without a command, or without a choice, is not one.
\<close>

theorem amti_wait_answers_first_command:
  assumes "quiet E" and "began + timeoutMs \<le> ended"
  shows "\<exists>x v. amti_waitForCommand E ReceivedCommand cmd timeoutMs (w\<lparr>script := Tick began # polls ps @ Tick ended # s\<rparr>) = (Returns x, v) \<and>
    answer x = polled (began + timeoutMs) ps"
  using amti_commandLoop_polls [OF assms] by (simp add: amti_waitForCommand_def bind_def handle_def now_Tick)

theorem amti_wait_answers_first_command_witness:
  "\<exists>x v. amti_waitForCommand (failing_call Shutdown\<lparr>env_fault := \<lambda>_ _. None\<rparr>) ReceivedCommand ReceivedCommand 1000
     (start_world (Tick 5 # polls [(5, None), (255, Some \<lparr>command = []\<rparr>), (300, Some (amti_stop_message (UUID [1]) (UUID [2])))] @ [Tick 2000])) =
     (Returns x, v) \<and> answer x = Some \<lparr>rc_received = True, rc_start = False, rc_commandUuid = UUID [2], rc_activityUuid = UUID [1]\<rparr>"
proof -
  have "quiet (failing_call Shutdown\<lparr>env_fault := \<lambda>_ _. None\<rparr>)" by (simp add: quiet_def)
  from amti_wait_answers_first_command [OF this, where began = 5 and timeoutMs = 1000 and ended = 2000 and cmd = ReceivedCommand
      and w = "start_world []" and s = "[]"
      and ps = "[(5, None), (255, Some \<lparr>command = []\<rparr>), (300, Some (amti_stop_message (UUID [1]) (UUID [2])))]"]
  show ?thesis
    by (simp add: start_world_def polled_def heard_def amti_handleCommand_def amti_stop_message_def amti_setId_def ReceivedCommand_def Let_def)
qed

section \<open>The choreography\<close>

lemma heard_command:
  assumes "rc_received (heard amti_handleCommand m ReceivedCommand)" "CommandRead m \<in> S"
  shows "commanded S (heard amti_handleCommand m ReceivedCommand)"
  using assms
  by (auto simp: heard_def amti_handleCommand_def ReceivedCommand_def commanded_def is_start_def is_stop_def
      split: option.splits list.splits command_choice.splits intro!: exI [of _ "the m"])

lemma reached_amti_commandLoop:
  "achieves (reached S ms) (amti_commandLoop E deadline ReceivedCommand cmd)
     (\<lambda>(ok, latest, cmd) w. (ok \<longrightarrow> latest = ReceivedCommand \<and> commanded S cmd) \<and> reached S ms w) (reached S ms)"
proof -
  have "reached S ms w \<Longrightarrow> latest = ReceivedCommand \<Longrightarrow>
      settles (\<lambda>(ok, latest, cmd) w. (ok \<longrightarrow> latest = ReceivedCommand \<and> commanded S cmd) \<and> reached S ms w) (reached S ms)
        (amti_commandLoop E deadline latest cmd w)" for w latest
  proof (induction E deadline latest cmd w rule: amti_commandLoop.induct)
    case (1 E deadline latest cmd w)
    then show ?case
      by (subst amti_commandLoop_eq)
        (auto intro!: settles_bind [OF at_now] settles_bind [OF at_reads(1)] heard_command simp: amti_take_def split: prod.split)
  qed
  then show ?thesis by (simp add: achieves_def)
qed

lemma amti_serve_shape:
  "amti_serve E u = service_shape (amti_publishCapability E u) (amti_publishCapabilityStatus E u)
     (amti_waitForCommand E ReceivedCommand ReceivedCommand 30000)
     (\<lambda>(ok, latest, cmd). \<not> ok \<or> \<not> rc_start cmd)
     (\<lambda>(ok, latest, cmd). if \<not> ok then RuntimeError ''start command timeout'' else RuntimeError ''first command was not a capability start command'')
     (generate E)
     (\<lambda>(ok, latest, cmd) a. amti_publishCommandStatus E (rc_commandUuid cmd) (Some a))
     (\<lambda>a. amti_publishActivity E u a ''ACTIVE_UNCONSTRAINED'' ''NEW'')
     (\<lambda>(ok, latest, cmd). amti_waitForCommand E latest cmd 30000)
     (\<lambda>(ok, latest, cmd) a. \<not> ok \<or> rc_start cmd \<or> rc_activityUuid cmd \<noteq> a)
     (\<lambda>(ok, latest, cmd) a. if \<not> ok then RuntimeError ''stop command timeout'' else RuntimeError ''stop command did not reference the active activity'')
     (\<lambda>(ok, latest, cmd). amti_publishCommandStatus E (rc_commandUuid cmd) None)
     (\<lambda>a. amti_publishActivity E u a ''COMPLETED'' ''UPDATED'')
     (perform E (SleepMs 200))"
  by (simp only: amti_serve_def service_shape_def split_def if_throw)

lemma amti_message_facts:
  "accepts (amti_command_status_message v a) v a"
  "is_activity (amti_activity_message s u v st obj) v st"
  "is_start (amti_start_message u c) c"
  "is_stop (amti_stop_message v c) c v"
  by (auto simp: accepts_def is_activity_def is_start_def is_stop_def amti_command_status_message_def amti_activity_message_def
      amti_start_message_def amti_stop_message_def amti_setId_def new_command_status_def new_activity_mt_def Let_def split: option.split)

lemma amti_publishes:
  "publishes E (amti_publishCapability E u) (\<lambda>m. \<exists>x. m = CapabilityMsg x)"
  "publishes E (amti_publishCapabilityStatus E u) (\<lambda>m. \<exists>x. m = CapabilityStatusMsg x)"
  "publishes E (amti_publishCommandStatus E v a) (\<lambda>m. \<exists>y. m = CommandStatusMsg y \<and> accepts y v a)"
  "publishes E (amti_publishActivity E u v st obj) (\<lambda>m. \<exists>a. m = ActivityMsg a \<and> is_activity a v st)"
  unfolding publishes_def amti_publish_defs
  by (rule exI, rule conjI [OF _ adds_by_hand(1)] conjI [OF _ adds_by_hand(2)],
      simp add: amti_message_facts)+

lemma reached_amti_waitForCommand:
  "achieves (reached S ms) (amti_waitForCommand E ReceivedCommand cmd t)
     (\<lambda>(ok, latest, cmd) w. (ok \<longrightarrow> latest = ReceivedCommand \<and> commanded S cmd) \<and> reached S ms w) (reached S ms)"
  unfolding amti_waitForCommand_def by (rule achieves_bind [OF at_now reached_amti_commandLoop])

interpretation amti_service: service_program E S "amti_publishCapability E u" "amti_publishCapabilityStatus E u"
     "amti_waitForCommand E ReceivedCommand ReceivedCommand 30000"
     "\<lambda>(ok, latest, cmd). \<not> ok \<or> \<not> rc_start cmd"
     "\<lambda>(ok, latest, cmd). if \<not> ok then RuntimeError ''start command timeout'' else RuntimeError ''first command was not a capability start command''"
     "\<lambda>(ok, latest, cmd) a. amti_publishCommandStatus E (rc_commandUuid cmd) (Some a)"
     "\<lambda>a. amti_publishActivity E u a ''ACTIVE_UNCONSTRAINED'' ''NEW''"
     "\<lambda>(ok, latest, cmd). amti_waitForCommand E latest cmd 30000"
     "\<lambda>(ok, latest, cmd) a. \<not> ok \<or> rc_start cmd \<or> rc_activityUuid cmd \<noteq> a"
     "\<lambda>(ok, latest, cmd) a. if \<not> ok then RuntimeError ''stop command timeout'' else RuntimeError ''stop command did not reference the active activity''"
     "\<lambda>(ok, latest, cmd). amti_publishCommandStatus E (rc_commandUuid cmd) None"
     "\<lambda>a. amti_publishActivity E u a ''COMPLETED'' ''UPDATED''"
     "perform E (SleepMs 200)"
     "\<lambda>(ok, latest, cmd). latest = ReceivedCommand" "\<lambda>(ok, latest, cmd). rc_commandUuid cmd" "\<lambda>(ok, latest, cmd). rc_commandUuid cmd"
     "\<lambda>_. True"
  for E S u
proof (unfold_locales, goal_cases)
  case (3 ms)
  show ?case
    by (rule achieves_weaken [OF reached_amti_waitForCommand]) (auto simp: commanded_def)
next
  case (6 x ms)
  then show ?case
    by (cases x) (auto intro!: achieves_weaken [OF reached_amti_waitForCommand] simp: commanded_def)
qed (auto simp: amti_publishes at_perform split: prod.split)

lemma amti_serve_achieves: "achieves (reached S []) (amti_serve E u) (\<lambda>_. served S) (serving E S)"
  unfolding amti_serve_shape by (rule achieves_weaken [OF amti_service.serves]) simp_all

lemma silent_amti_release: "silent E (amti_releaseService E)" "silent E (amti_releaseClient E)"
  unfolding amti_releaseService_def amti_releaseClient_def by (intro lawful)+

lemma amti_runService_achieves: "achieves (reached S []) (amti_runService E) (\<lambda>r v. r = 0 \<and> served S v) (serving E S)"
  unfolding amti_runService_def Let_def
  by (intro silent_before [OF silent_perform] achieves_seq [OF silent_catch [OF silent_amti_release(1) _ amti_serve_achieves]]
      silent_after [OF silent_amti_release(1)]) (simp_all add: served_serving)

text \<open>What an activity listener has been told, and the client's part.\<close>

definition amti_told :: "input set \<Rightarrow> amti_activity_listener \<Rightarrow> bool" where
  "amti_told S al \<longleftrightarrow> al_lastState al \<noteq> [] \<longrightarrow>
     (\<exists>a. ActivityRead (Some a) \<in> S \<and> is_activity a (al_lastActivityUuid al) (al_lastState al))"

lemma amti_told_heard:
  assumes "amti_told S al" "ActivityRead m \<in> S"
  shows "amti_told S (heard amti_handleActivity m al)"
proof (cases "m = None \<or> activity (the m) = []")
  case True
  with assms show ?thesis by (cases m) (auto simp: heard_def amti_handleActivity_def)
next
  case False
  then obtain x a as where "m = Some x" "activity x = a # as" by (cases m; cases "activity (the m)") auto
  with assms(2) show ?thesis
    by (auto simp: amti_told_def heard_def amti_handleActivity_def is_activity_def intro!: exI [of _ x])
qed

lemma reached_amti_polls:
  "achieves (reached S ms) (amti_pollStatus E n sl) (\<lambda>_. reached S ms) (reached S ms)"
  "amti_told S al \<Longrightarrow>
     achieves (reached S ms) (amti_pollActivity E st al) (\<lambda>al w. amti_told S al \<and> reached S ms w) (reached S ms)"
proof -
  show "achieves (reached S ms) (amti_pollStatus E n sl) (\<lambda>_. reached S ms) (reached S ms)"
    unfolding amti_pollStatus_def by (auto intro!: achieves_bind [OF at_reads(2)] achieves_ret)
  assume "amti_told S al"
  then show "achieves (reached S ms) (amti_pollActivity E st al) (\<lambda>al w. amti_told S al \<and> reached S ms w) (reached S ms)"
    unfolding amti_pollActivity_def by (auto intro!: achieves_bind [OF at_reads(3)] achieves_ret amti_told_heard)
qed

lemma reached_amti_updatesLoop:
  assumes "amti_told S al"
  shows "achieves (reached S ms) (amti_updatesLoop E deadline n st sl al)
     (\<lambda>(ok, sl, al) w. (amti_told S al \<and> (ok \<longrightarrow> al_lastState al = st)) \<and> reached S ms w) (reached S ms)"
proof -
  have "reached S ms w \<Longrightarrow> amti_told S al \<Longrightarrow>
      settles (\<lambda>(ok, sl, al) w. (amti_told S al \<and> (ok \<longrightarrow> al_lastState al = st)) \<and> reached S ms w) (reached S ms)
        (amti_updatesLoop E deadline n st sl al w)" for w
  proof (induction E deadline n st sl al w rule: amti_updatesLoop.induct)
    case (1 E deadline n st sl al w)
    then show ?case
      by (subst amti_updatesLoop_eq)
        (auto intro!: settles_bind [OF at_now] settles_bind [OF reached_amti_polls(1)] settles_bind [OF reached_amti_polls(2)])
  qed
  then show ?thesis using assms by (simp add: achieves_def)
qed

lemma amti_operate_shape:
  "amti_operate E u = client_shape
     (seq (perform E (SleepMs 300)) (bind (generate E) (amti_sendStartCommand E u)))
     (amti_waitForClientUpdates E amti_new_status_listener 1 amti_new_activity_listener ''ACTIVE_UNCONSTRAINED'' 10000)
     (\<lambda>(ok, sl, al). \<not> ok) (\<lambda>_. RuntimeError ''client timed out waiting for active activity'')
     (\<lambda>(ok, sl, al). bind (generate E) (amti_sendStopCommand E (al_lastActivityUuid al)))
     (\<lambda>(ok, sl, al). amti_waitForClientUpdates E sl 2 al ''COMPLETED'' 10000)
     (\<lambda>(ok, sl, al). \<not> ok) (\<lambda>_. RuntimeError ''client timed out waiting for completed activity'')
     (ret ())"
  by (simp only: amti_operate_def client_shape_def split_def seq_def bind_assoc Let_def)

lemma amti_sends:
  "\<exists>m. adds E (amti_sendStartCommand E u v) (CommandMsg m) \<and> (\<exists>c. is_start m c)"
  "\<exists>m. adds E (amti_sendStopCommand E u v) (CommandMsg m) \<and> (\<exists>c. is_stop m c u)"
  unfolding amti_sendStartCommand_def amti_sendStopCommand_def using adds_by_hand(1) amti_message_facts by blast+

interpretation amti_client: client_program S
     "seq (perform E (SleepMs 300)) (bind (generate E) (amti_sendStartCommand E u))"
     "amti_waitForClientUpdates E amti_new_status_listener 1 amti_new_activity_listener ''ACTIVE_UNCONSTRAINED'' 10000"
     "\<lambda>(ok, sl, al). \<not> ok" "\<lambda>_. RuntimeError ''client timed out waiting for active activity''"
     "\<lambda>(ok, sl, al). bind (generate E) (amti_sendStopCommand E (al_lastActivityUuid al))"
     "\<lambda>(ok, sl, al). amti_waitForClientUpdates E sl 2 al ''COMPLETED'' 10000"
     "\<lambda>(ok, sl, al). \<not> ok" "\<lambda>_. RuntimeError ''client timed out waiting for completed activity''"
     "ret ()" "\<lambda>(ok, sl, al). amti_told S al" "\<lambda>(ok, sl, al). al_lastActivityUuid al" "\<lambda>_. True"
  for S E u
proof (unfold_locales, goal_cases)
  case 1
  from choice [of "\<lambda>v m. adds E (amti_sendStartCommand E u v) (CommandMsg m) \<and> (\<exists>c. is_start m c)"] amti_sends(1)
  obtain m where "adds E (amti_sendStartCommand E u v) (CommandMsg (m v)) \<and> (\<exists>c. is_start (m v) c)" for v by metis
  then show ?case by (intro send_start) auto
next
  case (2 ms)
  have "amti_told S amti_new_activity_listener" by (simp add: amti_told_def amti_new_activity_listener_def)
  then show ?case unfolding amti_waitForClientUpdates_def
    by (intro achieves_bind [OF at_now] achieves_weaken [OF reached_amti_updatesLoop]) (auto simp: amti_told_def)
next
  case (3 m x)
  obtain ok sl al where x: "x = (ok, sl, al)" by (cases x)
  from amti_sends(2) [of E "al_lastActivityUuid al"]
  obtain n where "adds E (amti_sendStopCommand E (al_lastActivityUuid al) v) (CommandMsg (n v)) \<and> (\<exists>c. is_stop (n v) c (al_lastActivityUuid al))" for v
    by metis
  then show ?case unfolding x prod.case by (intro send_stop) auto
next
  case (4 x ms)
  then show ?case unfolding amti_waitForClientUpdates_def
    by (cases x) (auto intro!: achieves_bind [OF at_now] achieves_weaken [OF reached_amti_updatesLoop] simp: amti_told_def)
qed (simp add: achieves_def)

lemma amti_operate_achieves: "achieves (reached S []) (amti_operate E u) (\<lambda>_. answered S) (asking S)"
  unfolding amti_operate_shape by (rule achieves_weaken [OF amti_client.asks]) simp_all

lemma amti_runClient_achieves: "achieves (reached S []) (amti_runClient E) (\<lambda>r v. r = 0 \<and> answered S v) (asking S)"
  unfolding amti_runClient_def Let_def
  by (intro silent_before [OF silent_perform] achieves_seq [OF silent_catch [OF silent_amti_release(2) _ amti_operate_achieves]]
      silent_after [OF silent_amti_release(2)]) (simp_all add: answered_asking)

end
