(* ===== verification/Smti_Demo.thy ===== *)
theory Smti_Demo
  imports Demo_World
begin

text \<open>
  \<open>examples/smti_service_demo/main.cpp\<close>: the choreography of the AMTI demo written with the client
  utilities. Messages, readers, writers and the connection are owned by scoped pointers, listeners are
  callbacks that change local variables, and commands get their identifiers from \<open>assignNewId\<close>.
\<close>

section \<open>Scopes\<close>

text \<open>What \<open>makeMessage\<close>, \<open>makeWriter\<close>, \<open>makeReader\<close> and \<open>makeConnection\<close> construct and the destructors dispose of.\<close>

definition with_message :: "env \<Rightarrow> kind \<Rightarrow> 'a proc \<Rightarrow> 'a proc" where
  "with_message E k = scoped (perform E (CreateMessage k)) (perform E (Destroy (Message k)))"

definition with_writer :: "env \<Rightarrow> kind \<Rightarrow> string \<Rightarrow> 'a proc \<Rightarrow> 'a proc" where
  "with_writer E k topic = scoped (perform E (CreateWriter k topic))
     (seq (perform E (Close (Writer k))) (perform E (Destroy (Writer k))))"

definition with_reader :: "env \<Rightarrow> kind \<Rightarrow> string \<Rightarrow> 'a proc \<Rightarrow> 'a proc" where
  "with_reader E k topic = scoped (perform E (CreateReader k topic))
     (seq (perform E (Close (Reader k))) (perform E (Destroy (Reader k))))"

definition with_connection :: "env \<Rightarrow> string \<Rightarrow> 'a proc \<Rightarrow> 'a proc" where
  "with_connection E service = scoped (perform E (GetConnection service ''DDS''))
     (seq (perform E Shutdown) (perform E (Destroy Connection)))"

section \<open>Publishing\<close>

definition kSmtiCapabilityName :: string where
  "kSmtiCapabilityName = ''SmtiSurveillanceCapability''"

definition smti_capability_message :: "uuid \<Rightarrow> capability_mt" where
  "smti_capability_message capabilityUuid =
     (let cap = hd (resize1 new_capability []);
          cap = cap\<lparr>cap_id := setId_labelled capabilityUuid kSmtiCapabilityName (cap_id cap)\<rparr>;
          cap = cap\<lparr>cap_type := ''AREA'', cap_subtype := Some ''GMTI''\<rparr>;
          cap = cap\<lparr>interruptOtherActivities := False, collectionPolicy := True, trackingSupported := Some True,
                    concurrentOperationSupported := False\<rparr>;
          cap = cap\<lparr>messageOutput := map (\<lambda>_. ''SMTI_ACTIVITY'') (resize1 [] (messageOutput cap))\<rparr>
      in \<lparr>cap_objectState = Some ''NEW'', capability = [cap]\<rparr>)"

definition smti_publishCapability :: "env \<Rightarrow> uuid \<Rightarrow> unit proc" where
  "smti_publishCapability E capabilityUuid = with_message E KCapability
     (put E KCapability (CapabilityMsg (smti_capability_message capabilityUuid)))"

definition smti_capability_status_message :: "uuid \<Rightarrow> capability_status_mt" where
  "smti_capability_status_message capabilityUuid =
     (let status = hd (resize1 new_capability_status []);
          status = status\<lparr>status_cap_id := setId_labelled capabilityUuid kSmtiCapabilityName (status_cap_id status)\<rparr>;
          status = status\<lparr>availability := ''AVAILABLE''\<rparr>
      in \<lparr>capabilityStatus = [status]\<rparr>)"

definition smti_publishCapabilityStatus :: "env \<Rightarrow> uuid \<Rightarrow> unit proc" where
  "smti_publishCapabilityStatus E capabilityUuid = with_message E KCapabilityStatus
     (put E KCapabilityStatus (CapabilityStatusMsg (smti_capability_status_message capabilityUuid)))"

definition smti_command_status_message :: "uuid \<Rightarrow> uuid option \<Rightarrow> command_status_mt" where
  "smti_command_status_message commandUuid activityUuid =
     (let data = new_command_status;
          data = data\<lparr>status_command_id := setId_labelled commandUuid ''SMTI command'' (status_command_id data)\<rparr>;
          data = data\<lparr>commandProcessingState := ''ACCEPTED''\<rparr>
      in case activityUuid of None \<Rightarrow> data
         | Some u \<Rightarrow> data\<lparr>resulting := map (\<lambda>a. a\<lparr>resulting_id := setId_labelled u ''SMTI activity'' (resulting_id a), newActivity := True\<rparr>)
                                       (resize1 new_resulting (resulting data))\<rparr>)"

definition smti_publishCommandStatus :: "env \<Rightarrow> uuid \<Rightarrow> uuid option \<Rightarrow> unit proc" where
  "smti_publishCommandStatus E commandUuid activityUuid = with_message E KCommandStatus
     (put E KCommandStatus (CommandStatusMsg (smti_command_status_message commandUuid activityUuid)))"

definition smti_activity_message :: "uuid \<Rightarrow> uuid \<Rightarrow> uuid \<Rightarrow> enum_item \<Rightarrow> enum_item \<Rightarrow> activity_mt" where
  "smti_activity_message subsystemUuid capabilityUuid activityUuid state objectState =
     (let message = new_activity_mt\<lparr>act_objectState := Some objectState\<rparr>;
          message = message\<lparr>subsystemID := setId_labelled subsystemUuid ''SmtiPayload'' (subsystemID message)\<rparr>;
          act = hd (resize1 new_activity (activity message));
          act = act\<lparr>act_id := setId_labelled activityUuid ''SMTI activity'' (act_id act)\<rparr>;
          act = act\<lparr>interactive := False, activityState := state, allProductsAndMessagesProduced := state = ''COMPLETED''\<rparr>;
          act = act\<lparr>act_capabilities := map (setId_labelled capabilityUuid kSmtiCapabilityName) (resize1 new_id (act_capabilities act))\<rparr>
      in message\<lparr>activity := [act]\<rparr>)"

definition smti_publishActivity :: "env \<Rightarrow> uuid \<Rightarrow> uuid \<Rightarrow> enum_item \<Rightarrow> enum_item \<Rightarrow> unit proc" where
  "smti_publishActivity E capabilityUuid activityUuid state objectState = with_message E KActivity
     (seq (perform E GetSubsystemUUID)
     (put E KActivity (ActivityMsg (smti_activity_message (env_subsystem E) capabilityUuid activityUuid state objectState))))"

section \<open>Listening\<close>

text \<open>The callbacks, with the variables they capture as the state; none of them throws.\<close>

definition smti_commandListener :: "(command_mt, received_command) message_listener" where
  "smti_commandListener = MessageListener (\<lambda>message cmd. Inr (case command message of
     [] \<Rightarrow> cmd
   | choice # _ \<Rightarrow> (let cmd = ReceivedCommand\<lparr>rc_received := True\<rparr> in case choice of
       Capability cap \<Rightarrow> cmd\<lparr>rc_start := True, rc_commandUuid := id_uuid (capcmd_id cap)\<rparr>
     | Activity act \<Rightarrow> cmd\<lparr>rc_start := False, rc_commandUuid := id_uuid (actcmd_id act),
                           rc_activityUuid := id_uuid (actcmd_activity act)\<rparr>
     | NoChoice \<Rightarrow> cmd)))"

record smti_activity_vars =
  lastActivityUuid :: uuid
  lastActivityState :: string

definition smti_statusListener :: "(command_status_mt, int) message_listener" where
  "smti_statusListener = MessageListener (\<lambda>message statusCount. Inr (statusCount + 1))"

definition smti_activityListener :: "(activity_mt, smti_activity_vars) message_listener" where
  "smti_activityListener = MessageListener (\<lambda>message vars. Inr (case activity message of
     [] \<Rightarrow> vars
   | act # _ \<Rightarrow> vars\<lparr>lastActivityUuid := id_uuid (act_id act), lastActivityState := activityState act\<rparr>))"

section \<open>Waiting\<close>

function smti_commandLoop :: "env \<Rightarrow> nat \<Rightarrow> (command_mt, received_command) message_listener \<Rightarrow> received_command \<Rightarrow>
    (bool \<times> received_command) proc" where
  "smti_commandLoop E deadline listener cmd w = bind now (\<lambda>t w.
     if t < deadline then
       bind (bind (read_command E 250) (\<lambda>m. delivered listener m cmd)) (\<lambda>cmd w.
         if rc_received cmd then ret (True, cmd) w else smti_commandLoop E deadline listener cmd w) w
     else ret (False, cmd) w) w"
  by pat_completeness auto

termination smti_commandLoop
  by (relation "measure (\<lambda>(E, deadline, listener, cmd, w). length (script w))")
    (auto intro: loop_reads [OF _ progresses_combinators(1) [OF progresses_io(4) progresses_delivered]])

definition smti_waitForCommand :: "env \<Rightarrow> (command_mt, received_command) message_listener \<Rightarrow> received_command \<Rightarrow> nat \<Rightarrow>
    (bool \<times> received_command) proc" where
  "smti_waitForCommand E listener cmd timeoutMs = bind now (\<lambda>t. smti_commandLoop E (t + timeoutMs) listener cmd)"

definition smti_pollStatus :: "env \<Rightarrow> (command_status_mt, int) message_listener \<Rightarrow> int \<Rightarrow> int \<Rightarrow> int proc" where
  "smti_pollStatus E listener targetCount statusCount =
     (if statusCount < targetCount then bind (read_status E 100) (\<lambda>m. delivered listener m statusCount) else ret statusCount)"

definition smti_pollActivity :: "env \<Rightarrow> (activity_mt, smti_activity_vars) message_listener \<Rightarrow> string \<Rightarrow>
    smti_activity_vars \<Rightarrow> smti_activity_vars proc" where
  "smti_pollActivity E listener targetState vars =
     (if lastActivityState vars \<noteq> targetState then bind (read_activity E 100) (\<lambda>m. delivered listener m vars) else ret vars)"

lemma progresses_smti_polls [lawful, simp]:
  "progresses (smti_pollStatus E l n c)" "progresses (smti_pollActivity E k st vars)"
  by (simp_all add: smti_pollStatus_def smti_pollActivity_def lawful)

function smti_updatesLoop :: "env \<Rightarrow> nat \<Rightarrow> (command_status_mt, int) message_listener \<Rightarrow> int \<Rightarrow>
    (activity_mt, smti_activity_vars) message_listener \<Rightarrow> string \<Rightarrow> int \<Rightarrow> smti_activity_vars \<Rightarrow>
    (bool \<times> int \<times> smti_activity_vars) proc" where
  "smti_updatesLoop E deadline sl targetCount al targetState statusCount vars w = bind now (\<lambda>t w.
     if t < deadline then
       bind (smti_pollStatus E sl targetCount statusCount) (\<lambda>statusCount w.
       bind (smti_pollActivity E al targetState vars) (\<lambda>vars w.
         if targetCount \<le> statusCount \<and> lastActivityState vars = targetState then ret (True, statusCount, vars) w
         else smti_updatesLoop E deadline sl targetCount al targetState statusCount vars w) w) w
     else ret (False, statusCount, vars) w) w"
  by pat_completeness auto

termination smti_updatesLoop
  by (relation "measure (\<lambda>(E, deadline, sl, target, al, state, n, vars, w). length (script w))")
    (auto intro: updates_read [OF _ progresses_smti_polls(1) _ progresses_smti_polls(2)])

definition smti_waitForClientUpdates :: "env \<Rightarrow> (command_status_mt, int) message_listener \<Rightarrow> int \<Rightarrow> int \<Rightarrow>
    (activity_mt, smti_activity_vars) message_listener \<Rightarrow> smti_activity_vars \<Rightarrow> string \<Rightarrow> nat \<Rightarrow>
    (bool \<times> int \<times> smti_activity_vars) proc" where
  "smti_waitForClientUpdates E sl statusCount targetCount al vars targetState timeoutMs =
     bind now (\<lambda>t. smti_updatesLoop E (t + timeoutMs) sl targetCount al targetState statusCount vars)"

section \<open>Commanding\<close>

definition smti_start_message :: "uuid \<Rightarrow> id_type \<Rightarrow> command_mt" where
  "smti_start_message capabilityUuid i =
     (let cc = new_capability_command\<lparr>capcmd_id := i\<rparr>;
          cc = cc\<lparr>capcmd_state := ''NEW''\<rparr>;
          cc = cc\<lparr>capcmd_capability := setId_labelled capabilityUuid kSmtiCapabilityName (capcmd_capability cc)\<rparr>;
          cc = cc\<lparr>priority := 1\<rparr>
      in \<lparr>command = map (\<lambda>_. Capability cc) (resize1 NoChoice [])\<rparr>)"

definition smti_sendStartCommand :: "env \<Rightarrow> uuid \<Rightarrow> uuid proc" where
  "smti_sendStartCommand E capabilityUuid = with_message E KCommand
     (bind (draw E (\<lambda>random. assignNewId_labelled random ''Start SMTI command'' (capcmd_id new_capability_command)))
      (\<lambda>(commandUuid, i). seq (put E KCommand (CommandMsg (smti_start_message capabilityUuid i))) (ret commandUuid)))"

definition smti_stop_message :: "uuid \<Rightarrow> id_type \<Rightarrow> command_mt" where
  "smti_stop_message activityUuid i =
     (let ac = new_activity_command\<lparr>actcmd_id := i\<rparr>;
          ac = ac\<lparr>actcmd_state := ''NEW''\<rparr>;
          ac = ac\<lparr>actcmd_activity := setId_labelled activityUuid ''SMTI activity'' (actcmd_activity ac)\<rparr>;
          ac = ac\<lparr>changeActivityState := Some ''DISABLE''\<rparr>
      in \<lparr>command = map (\<lambda>_. Activity ac) (resize1 NoChoice [])\<rparr>)"

definition smti_sendStopCommand :: "env \<Rightarrow> uuid \<Rightarrow> uuid proc" where
  "smti_sendStopCommand E activityUuid = with_message E KCommand
     (bind (draw E (\<lambda>random. assignNewId_labelled random ''Stop SMTI command'' (actcmd_id new_activity_command)))
      (\<lambda>(commandUuid, i). seq (put E KCommand (CommandMsg (smti_stop_message activityUuid i))) (ret commandUuid)))"

section \<open>The two programs\<close>

definition smti_serve :: "env \<Rightarrow> uuid \<Rightarrow> int proc" where
  "smti_serve E capabilityUuid =
     seq (smti_publishCapability E capabilityUuid)
     (seq (smti_publishCapabilityStatus E capabilityUuid)
     (bind (smti_waitForCommand E smti_commandListener ReceivedCommand 30000) (\<lambda>(ok, cmd).
      if \<not> ok \<or> \<not> rc_start cmd then throw (RuntimeError ''service timed out waiting for start command'')
      else bind (generate E) (\<lambda>activityUuid.
        seq (smti_publishCommandStatus E (rc_commandUuid cmd) (Some activityUuid))
        (seq (smti_publishActivity E capabilityUuid activityUuid ''ACTIVE_UNCONSTRAINED'' ''NEW'')
        (bind (smti_waitForCommand E smti_commandListener ReceivedCommand 30000) (\<lambda>(ok, cmd).
          if \<not> ok \<or> rc_start cmd \<or> rc_activityUuid cmd \<noteq> activityUuid
          then throw (RuntimeError ''service timed out waiting for stop command'')
          else seq (smti_publishCommandStatus E (rc_commandUuid cmd) None)
            (seq (smti_publishActivity E capabilityUuid activityUuid ''COMPLETED'' ''UPDATED'')
            (seq (perform E (SleepMs 200)) (ret 0))))))))))"

definition smti_runService :: "env \<Rightarrow> int proc" where
  "smti_runService E = with_connection E ''SmtiSensorService''
     (seq (perform E (GetCapabilityUUID kSmtiCapabilityName))
     (with_writer E KCapability ''SMTI_Capability''
     (with_writer E KCapabilityStatus ''SMTI_CapabilityStatus''
     (with_writer E KCommandStatus ''SMTI_CommandStatus''
     (with_writer E KActivity ''SMTI_Activity''
     (with_reader E KCommand ''SMTI_Command''
     (smti_serve E (env_capability E kSmtiCapabilityName))))))))"

definition smti_operate :: "env \<Rightarrow> uuid \<Rightarrow> int proc" where
  "smti_operate E capabilityUuid =
     seq (perform E (SleepMs 300))
     (bind (smti_sendStartCommand E capabilityUuid) (\<lambda>_.
      bind (smti_waitForClientUpdates E smti_statusListener 0 1 smti_activityListener
              \<lparr>lastActivityUuid = UUID zero_octets, lastActivityState = []\<rparr> ''ACTIVE_UNCONSTRAINED'' 10000)
      (\<lambda>(ok, statusCount, vars).
        if \<not> ok then throw (RuntimeError ''client timed out waiting for active activity'')
        else bind (smti_sendStopCommand E (lastActivityUuid vars)) (\<lambda>_.
          bind (smti_waitForClientUpdates E smti_statusListener statusCount 2 smti_activityListener vars ''COMPLETED'' 10000)
          (\<lambda>(ok, statusCount, vars).
            if \<not> ok then throw (RuntimeError ''client timed out waiting for completed activity'')
            else ret 0)))))"

definition smti_runClient :: "env \<Rightarrow> int proc" where
  "smti_runClient E = with_connection E ''SmtiOperatorService''
     (seq (perform E (GetCapabilityUUID kSmtiCapabilityName))
     (with_writer E KCommand ''SMTI_Command''
     (with_reader E KCommandStatus ''SMTI_CommandStatus''
     (with_reader E KActivity ''SMTI_Activity''
     (smti_operate E (env_capability E kSmtiCapabilityName))))))"

definition smti_main :: "env \<Rightarrow> string list \<Rightarrow> int proc" where
  "smti_main E argv =
     (if length argv < 2 then ret 2
      else exit_code (if argv ! 1 = ''service'' then smti_runService E
                      else if argv ! 1 = ''client'' then smti_runClient E
                      else ret 2))"

end
