(* ===== verification/Smti_Runs.thy ===== *)
theory Smti_Runs
  imports Smti_Demo Demo_Spec
begin

text \<open>The runs of the SMTI programs.\<close>

section \<open>Runs continue\<close>

lemma smti_commandLoop_eq:
  "smti_commandLoop E deadline listener cmd = bind now (\<lambda>t.
     if t < deadline then bind (bind (read_command E 250) (\<lambda>m. delivered listener m cmd)) (\<lambda>cmd.
       if rc_received cmd then ret (True, cmd) else smti_commandLoop E deadline listener cmd)
     else ret (False, cmd))"
  by (rule ext, subst smti_commandLoop.simps) (auto intro!: bind_cong)

lemma smti_updatesLoop_eq:
  "smti_updatesLoop E deadline sl targetCount al targetState statusCount vars = bind now (\<lambda>t.
     if t < deadline then
       bind (smti_pollStatus E sl targetCount statusCount) (\<lambda>statusCount.
       bind (smti_pollActivity E al targetState vars) (\<lambda>vars.
         if targetCount \<le> statusCount \<and> lastActivityState vars = targetState then ret (True, statusCount, vars)
         else smti_updatesLoop E deadline sl targetCount al targetState statusCount vars))
     else ret (False, statusCount, vars))"
  by (rule ext, subst smti_updatesLoop.simps) (auto intro!: bind_cong)

declare smti_commandLoop.simps [simp del] smti_updatesLoop.simps [simp del]

lemma progresses_smti_commandLoop [lawful, simp]: "progresses (smti_commandLoop E deadline l cmd)"
  unfolding progresses_def
proof
  fix w show "later w (snd (smti_commandLoop E deadline l cmd w))"
  proof (induction E deadline l cmd w rule: smti_commandLoop.induct)
    case (1 E deadline l cmd w)
    then show ?case
      by (subst smti_commandLoop_eq) (auto intro!: later_bind lawful)
  qed
qed

lemma progresses_smti_updatesLoop [lawful, simp]: "progresses (smti_updatesLoop E deadline sl n al st c vars)"
  unfolding progresses_def
proof
  fix w show "later w (snd (smti_updatesLoop E deadline sl n al st c vars w))"
  proof (induction E deadline sl n al st c vars w rule: smti_updatesLoop.induct)
    case (1 E deadline sl n al st c vars w)
    then show ?case
      by (subst smti_updatesLoop_eq) (auto intro!: later_bind)
  qed
qed

lemma resumes_smti_polls [lawful, simp]:
  "resumes (smti_pollStatus E l n c)" "resumes (smti_pollActivity E k st vars)"
  by (simp_all add: smti_pollStatus_def smti_pollActivity_def lawful)

lemma resumes_smti_commandLoop [lawful, simp]: "resumes (smti_commandLoop E deadline l cmd)"
proof (rule resumesI)
  fix w show "resumes_at (smti_commandLoop E deadline l cmd) w"
  proof (induction E deadline l cmd w rule: smti_commandLoop.induct)
    case (1 E deadline l cmd w)
    then show ?case
      by (subst smti_commandLoop_eq) (auto intro!: resumes_at_bind simp: lawful)
  qed
qed simp

lemma resumes_smti_updatesLoop [lawful, simp]: "resumes (smti_updatesLoop E deadline sl n al st c vars)"
proof (rule resumesI)
  fix w show "resumes_at (smti_updatesLoop E deadline sl n al st c vars) w"
  proof (induction E deadline sl n al st c vars w rule: smti_updatesLoop.induct)
    case (1 E deadline sl n al st c vars w)
    then show ?case
      by (subst smti_updatesLoop_eq) (auto intro!: resumes_at_bind simp: lawful)
  qed
qed simp

lemmas smti_with_defs = with_message_def with_writer_def with_reader_def with_connection_def

lemmas smti_publish_defs = smti_publishCapability_def smti_publishCapabilityStatus_def smti_publishCommandStatus_def
  smti_publishActivity_def

lemma resumes_smti_runService: "resumes (smti_runService E)"
  unfolding smti_runService_def smti_serve_def smti_publish_defs smti_waitForCommand_def smti_with_defs Let_def
  by (intro lawful)

lemma resumes_smti_send: "resumes (smti_sendStartCommand E u)" "resumes (smti_sendStopCommand E u)"
  unfolding smti_sendStartCommand_def smti_sendStopCommand_def with_message_def Let_def
  by (intro lawful)+

lemma resumes_smti_runClient: "resumes (smti_runClient E)"
  unfolding smti_runClient_def smti_operate_def smti_waitForClientUpdates_def smti_with_defs
  by (intro lawful resumes_smti_send)

section \<open>Resources\<close>

text \<open>When releasing does not throw; any other call may.\<close>

definition releases_succeed :: "env \<Rightarrow> bool" where
  "releases_succeed E \<longleftrightarrow> (\<forall>cs r. env_fault E cs (Close r) = None \<and> env_fault E cs (Destroy r) = None) \<and>
     (\<forall>cs. env_fault E cs Shutdown = None)"

lemma holding_with:
  assumes E: "releases_succeed E"
  shows
  "Connection \<in> H \<Longrightarrow> Message k \<notin> H \<Longrightarrow> holding (insert (Message k) H) m (insert (Message k) H) (insert (Message k) H) \<Longrightarrow>
     holding H (with_message E k m) H H"
  "Connection \<in> H \<Longrightarrow> Writer k \<notin> H \<Longrightarrow> holding (insert (Writer k) H) m (insert (Writer k) H) (insert (Writer k) H) \<Longrightarrow>
     holding H (with_writer E k topic m) H H"
  "Connection \<in> H \<Longrightarrow> Reader k \<notin> H \<Longrightarrow> holding (insert (Reader k) H) m (insert (Reader k) H) (insert (Reader k) H) \<Longrightarrow>
     holding H (with_reader E k topic m) H H"
  "holding {Connection} n {Connection} {Connection} \<Longrightarrow> holding {} (with_connection E name n) {} {}"
  unfolding smti_with_defs using E
  by (auto intro!: holding_scoped holding_perform holding_seq simp: acquire_def releases_succeed_def)

lemma holding_delivered: "holding H (delivered l m s) H H"
  by (auto simp: delivered_def intro: holding_stay split: option.split sum.split)

lemma holding_smti_commandLoop:
  assumes "Reader KCommand \<in> H"
  shows "holding H (smti_commandLoop E deadline l cmd) H H"
  unfolding holding_def
proof
  fix w show "holding_at H (smti_commandLoop E deadline l cmd) H H w"
    using assms
  proof (induction E deadline l cmd w rule: smti_commandLoop.induct)
    case (1 E deadline l cmd w)
    then show ?case
      by (subst smti_commandLoop_eq) (auto intro!: holding_at_bind holding_bind [of H _ H H] holding_delivered)
  qed
qed

lemma holding_smti_polls:
  "Reader KCommandStatus \<in> H \<Longrightarrow> holding H (smti_pollStatus E l n c) H H"
  "Reader KActivity \<in> H \<Longrightarrow> holding H (smti_pollActivity E k st vars) H H"
  by (auto simp: smti_pollStatus_def smti_pollActivity_def intro!: holding_bind [of H _ H H] holding_stay holding_delivered)

lemma holding_smti_updatesLoop:
  assumes "Reader KCommandStatus \<in> H" "Reader KActivity \<in> H"
  shows "holding H (smti_updatesLoop E deadline sl n al st c vars) H H"
  unfolding holding_def
proof
  fix w show "holding_at H (smti_updatesLoop E deadline sl n al st c vars) H H w"
    using assms
  proof (induction E deadline sl n al st c vars w rule: smti_updatesLoop.induct)
    case (1 E deadline sl n al st c vars w)
    then show ?case
      by (subst smti_updatesLoop_eq) (auto intro!: holding_at_bind holding_smti_polls)
  qed
qed

lemma holding_smti_publish:
  assumes "releases_succeed E" "Connection \<in> H"
  shows "Writer KCapability \<in> H \<Longrightarrow> Message KCapability \<notin> H \<Longrightarrow> holding H (smti_publishCapability E u) H H"
    "Writer KCapabilityStatus \<in> H \<Longrightarrow> Message KCapabilityStatus \<notin> H \<Longrightarrow> holding H (smti_publishCapabilityStatus E u) H H"
    "Writer KCommandStatus \<in> H \<Longrightarrow> Message KCommandStatus \<notin> H \<Longrightarrow> holding H (smti_publishCommandStatus E u a) H H"
    "Writer KActivity \<in> H \<Longrightarrow> Message KActivity \<notin> H \<Longrightarrow> holding H (smti_publishActivity E u v st obj) H H"
    "Writer KCommand \<in> H \<Longrightarrow> Message KCommand \<notin> H \<Longrightarrow> holding H (smti_sendStartCommand E u) H H"
    "Writer KCommand \<in> H \<Longrightarrow> Message KCommand \<notin> H \<Longrightarrow> holding H (smti_sendStopCommand E u) H H"
  unfolding smti_publish_defs smti_sendStartCommand_def smti_sendStopCommand_def Let_def
  by (rule holding_with(1) [OF assms(1)] holding_put holding_seq [OF holding_perform(1)] holding_seq [OF holding_put]
        holding_bind [OF holding_stay(4)] holding_case_prod holding_stay(1) | use assms in simp)+

lemma holding_smti_serve:
  assumes E: "releases_succeed E" and H: "H = service_endpoints"
  shows "holding H (smti_serve E u) H H"
proof -
  have wait: "holding H (smti_waitForCommand E l cmd ms) H H" for l cmd ms
    unfolding smti_waitForCommand_def
    by (intro holding_bind [of H _ H H] holding_io(1) holding_smti_commandLoop) (simp add: H)
  have sleep: "holding H (perform E (SleepMs ms)) H H" for ms
    by (rule holding_perform(1)) simp
  have publish: "holding H (smti_publishCapability E u) H H" "holding H (smti_publishCapabilityStatus E u) H H"
      "holding H (smti_publishCommandStatus E v a) H H" "holding H (smti_publishActivity E u v st obj) H H" for v a st obj
    using E H by (simp_all add: holding_smti_publish)
  show ?thesis
    unfolding smti_serve_def
    by (intro holding_seq [of H _ H H] holding_bind [of H _ H H] holding_case_prod holding_if holding_io(2) wait sleep publish holding_stay)
qed

lemma holding_smti_operate:
  assumes E: "releases_succeed E" and H: "H = client_endpoints"
  shows "holding H (smti_operate E u) H H"
proof -
  have wait: "holding H (smti_waitForClientUpdates E sl c n al vars st ms) H H" for sl c n al vars st ms
    unfolding smti_waitForClientUpdates_def
    by (intro holding_bind [of H _ H H] holding_io(1) holding_smti_updatesLoop) (simp_all add: H)
  have sleep: "holding H (perform E (SleepMs ms)) H H" for ms
    by (rule holding_perform(1)) simp
  have send: "holding H (smti_sendStartCommand E v) H H" "holding H (smti_sendStopCommand E v) H H" for v
    using E H by (simp_all add: holding_smti_publish)
  show ?thesis
    unfolding smti_operate_def
    by (intro holding_seq [of H _ H H] holding_bind [of H _ H H] holding_case_prod holding_if wait sleep send holding_stay)
qed

lemma holding_smti_run:
  assumes "releases_succeed E"
  shows "holding {} (smti_runService E) {} {}" "holding {} (smti_runClient E) {} {}"
  unfolding smti_runService_def smti_runClient_def
  by (rule holding_with [OF assms] holding_smti_serve [OF assms] holding_smti_operate [OF assms] holding_seq [OF holding_perform(1)]
      | simp)+

lemma holding_smti_main: "releases_succeed E \<Longrightarrow> holding {} (smti_main E argv) {} {}"
  unfolding smti_main_def
  by (intro holding_if holding_stay holding_exit_code [of _ _ "{}" "{}"] holding_smti_run) simp_all

text \<open>
  C32: The SMTI programs release what they acquire, by their scopes: as long as releasing itself does not
  throw, \<open>main\<close> ends with everything it made destroyed once, whichever of the other calls throws, messages
  whose write failed and a connection that could not be used included.
\<close>

theorem smti_releases_everything:
  assumes "releases_succeed E"
  shows "leaves_nothing (smti_main E argv) s"
  using assms by (intro leaves_nothingI holding_smti_main)

definition failing_write :: env where
  "failing_write = \<lparr>env_capability = (\<lambda>_. UUID []), env_subsystem = UUID [], env_random = (\<lambda>_. []),
     env_fault = (\<lambda>_ c. if c = Write KCapability then Some (UCIException ''write'') else None)\<rparr>"

theorem smti_releases_everything_witness:
  "leaves_nothing (smti_main failing_write [''demo'', ''service'']) []"
  by (rule smti_releases_everything) (simp add: releases_succeed_def failing_write_def)

section \<open>The choreography\<close>

lemma reached_delivered:
  assumes "\<And>msg c. m = Some msg \<Longrightarrow> listener_handleMessage l msg c = Inr (f msg c)"
  shows "achieves P (delivered l m c) (\<lambda>c' w. c' = heard f m c \<and> P w) R"
  using assms by (auto simp: delivered_def heard_def intro!: achieves_ret split: option.split)

definition smti_hear :: "command_mt \<Rightarrow> received_command \<Rightarrow> received_command" where
  "smti_hear m cmd = (case listener_handleMessage smti_commandListener m cmd of Inr c \<Rightarrow> c | Inl _ \<Rightarrow> cmd)"

definition smti_hear_activity :: "activity_mt \<Rightarrow> smti_activity_vars \<Rightarrow> smti_activity_vars" where
  "smti_hear_activity m vars = (case listener_handleMessage smti_activityListener m vars of Inr v \<Rightarrow> v | Inl _ \<Rightarrow> vars)"

lemma smti_listeners_return:
  "listener_handleMessage smti_commandListener m cmd = Inr (smti_hear m cmd)"
  "listener_handleMessage smti_activityListener a vars = Inr (smti_hear_activity a vars)"
  "listener_handleMessage smti_statusListener n k = Inr (k + 1)"
  by (simp_all add: smti_hear_def smti_hear_activity_def listener_handleMessage_def smti_commandListener_def
      smti_activityListener_def smti_statusListener_def)

text \<open>
  A command without a choice is recorded as received: what was received is not always a command that was
  given, but a start is.
\<close>

definition smti_commanded :: "input set \<Rightarrow> received_command \<Rightarrow> bool" where
  "smti_commanded S cmd \<longleftrightarrow> (rc_start cmd \<longrightarrow> (\<exists>c. CommandRead (Some c) \<in> S \<and> is_start c (rc_commandUuid cmd))) \<and>
     (\<not> rc_start cmd \<longrightarrow> cmd = ReceivedCommand\<lparr>rc_received := True\<rparr> \<or>
        (\<exists>c. CommandRead (Some c) \<in> S \<and> is_stop c (rc_commandUuid cmd) (rc_activityUuid cmd)))"

lemma smti_heard_command:
  assumes "rc_received (heard smti_hear m ReceivedCommand)" "CommandRead m \<in> S"
  shows "smti_commanded S (heard smti_hear m ReceivedCommand)"
proof (cases m)
  case None
  with assms show ?thesis by (simp add: heard_def ReceivedCommand_def)
next
  case (Some c)
  with assms show ?thesis
    by (cases "command c"; cases "hd (command c)")
      (auto simp: heard_def smti_hear_def listener_handleMessage_def smti_commandListener_def ReceivedCommand_def
        smti_commanded_def is_start_def is_stop_def intro!: exI [of _ c])
qed

lemma smti_unheard: "\<not> rc_received (heard smti_hear m ReceivedCommand) \<Longrightarrow> heard smti_hear m ReceivedCommand = ReceivedCommand"
  by (auto simp: heard_def smti_hear_def listener_handleMessage_def smti_commandListener_def Let_def
      split: option.splits list.splits command_choice.splits)

lemma reached_smti_commandLoop:
  "achieves (reached S ms) (smti_commandLoop E deadline smti_commandListener ReceivedCommand)
     (\<lambda>(ok, cmd) w. (ok \<longrightarrow> smti_commanded S cmd) \<and> reached S ms w) (reached S ms)"
proof -
  have poll: "achieves (reached S ms) (bind (read_command E 250) (\<lambda>m. delivered smti_commandListener m ReceivedCommand))
      (\<lambda>cmd w. (if rc_received cmd then smti_commanded S cmd else cmd = ReceivedCommand) \<and> reached S ms w) (reached S ms)" for E
    by (rule achieves_bind [OF at_reads(1)], rule achieves_weaken [OF reached_delivered [where f = smti_hear]])
      (auto simp: smti_listeners_return smti_heard_command smti_unheard)
  have "reached S ms w \<Longrightarrow> l = smti_commandListener \<Longrightarrow> cmd = ReceivedCommand \<Longrightarrow>
      settles (\<lambda>(ok, cmd) w. (ok \<longrightarrow> smti_commanded S cmd) \<and> reached S ms w) (reached S ms) (smti_commandLoop E deadline l cmd w)"
    for l cmd w
  proof (induction E deadline l cmd w rule: smti_commandLoop.induct)
    case (1 E deadline l cmd w)
    then show ?case
      by (subst smti_commandLoop_eq)
        (auto intro!: settles_bind [OF at_now] settles_bind [OF poll])
  qed
  then show ?thesis by (simp add: achieves_def)
qed

lemma reached_smti_waitForCommand:
  "achieves (reached S ms) (smti_waitForCommand E smti_commandListener ReceivedCommand t)
     (\<lambda>(ok, cmd) w. (ok \<longrightarrow> smti_commanded S cmd) \<and> reached S ms w) (reached S ms)"
  unfolding smti_waitForCommand_def by (rule achieves_bind [OF at_now reached_smti_commandLoop])

lemma smti_serve_shape:
  "smti_serve E u = service_shape (smti_publishCapability E u) (smti_publishCapabilityStatus E u)
     (smti_waitForCommand E smti_commandListener ReceivedCommand 30000)
     (\<lambda>(ok, cmd). \<not> ok \<or> \<not> rc_start cmd) (\<lambda>_. RuntimeError ''service timed out waiting for start command'')
     (generate E)
     (\<lambda>(ok, cmd) a. smti_publishCommandStatus E (rc_commandUuid cmd) (Some a))
     (\<lambda>a. smti_publishActivity E u a ''ACTIVE_UNCONSTRAINED'' ''NEW'')
     (\<lambda>_. smti_waitForCommand E smti_commandListener ReceivedCommand 30000)
     (\<lambda>(ok, cmd) a. \<not> ok \<or> rc_start cmd \<or> rc_activityUuid cmd \<noteq> a)
     (\<lambda>_ _. RuntimeError ''service timed out waiting for stop command'')
     (\<lambda>(ok, cmd). smti_publishCommandStatus E (rc_commandUuid cmd) None)
     (\<lambda>a. smti_publishActivity E u a ''COMPLETED'' ''UPDATED'')
     (seq (perform E (SleepMs 200)) (ret 0))"
  by (simp only: smti_serve_def service_shape_def split_def)

lemma smti_message_facts:
  "accepts (smti_command_status_message v a) v a"
  "is_activity (smti_activity_message s u v st obj) v st"
  "is_start (smti_start_message u i) (id_uuid i)"
  "is_stop (smti_stop_message v i) (id_uuid i) v"
  by (auto simp: accepts_def is_activity_def is_start_def is_stop_def smti_command_status_message_def smti_activity_message_def
      smti_start_message_def smti_stop_message_def setId_labelled_def setId_def new_command_status_def new_activity_mt_def Let_def
      split: option.split)

lemma smti_publishes:
  "publishes E (smti_publishCapability E u) (\<lambda>m. \<exists>x. m = CapabilityMsg x)"
  "publishes E (smti_publishCapabilityStatus E u) (\<lambda>m. \<exists>x. m = CapabilityStatusMsg x)"
  "publishes E (smti_publishCommandStatus E v a) (\<lambda>m. \<exists>y. m = CommandStatusMsg y \<and> accepts y v a)"
  "publishes E (smti_publishActivity E u v st obj) (\<lambda>m. \<exists>a. m = ActivityMsg a \<and> is_activity a v st)"
  unfolding publishes_def smti_publish_defs with_message_def
  by (rule exI, rule conjI [OF _ adds_scoped(1)] conjI [OF _ adds_scoped(2)],
      simp add: smti_message_facts)+

interpretation smti_service: service_program E S "smti_publishCapability E u" "smti_publishCapabilityStatus E u"
     "smti_waitForCommand E smti_commandListener ReceivedCommand 30000"
     "\<lambda>(ok, cmd). \<not> ok \<or> \<not> rc_start cmd" "\<lambda>_. RuntimeError ''service timed out waiting for start command''"
     "\<lambda>(ok, cmd) a. smti_publishCommandStatus E (rc_commandUuid cmd) (Some a)"
     "\<lambda>a. smti_publishActivity E u a ''ACTIVE_UNCONSTRAINED'' ''NEW''"
     "\<lambda>_. smti_waitForCommand E smti_commandListener ReceivedCommand 30000"
     "\<lambda>(ok, cmd) a. \<not> ok \<or> rc_start cmd \<or> rc_activityUuid cmd \<noteq> a"
     "\<lambda>_ _. RuntimeError ''service timed out waiting for stop command''"
     "\<lambda>(ok, cmd). smti_publishCommandStatus E (rc_commandUuid cmd) None"
     "\<lambda>a. smti_publishActivity E u a ''COMPLETED'' ''UPDATED''"
     "seq (perform E (SleepMs 200)) (ret (0 :: int))"
     "\<lambda>_. True" "\<lambda>(ok, cmd). rc_commandUuid cmd" "\<lambda>(ok, cmd). rc_commandUuid cmd" "\<lambda>r. r = 0"
  for E S u
proof (unfold_locales, goal_cases)
  case (3 ms)
  show ?case
    by (rule achieves_weaken [OF reached_smti_waitForCommand]) (auto simp: smti_commanded_def)
next
  case (6 x ms)
  show ?case
    by (rule achieves_weaken [OF reached_smti_waitForCommand]) (auto simp: smti_commanded_def ReceivedCommand_def)
next
  case (9 ms)
  show ?case by (rule silent_before [OF silent_perform]) (auto intro: achieves_ret)
qed (auto simp: smti_publishes split: prod.split)

lemma smti_runService_achieves: "achieves (reached S []) (smti_runService E) (\<lambda>r v. r = 0 \<and> served S v) (serving E S)"
  unfolding smti_runService_def smti_with_defs smti_serve_shape
  by (intro achieves_scoped [where E = E] silent_before [OF silent_perform] smti_service.serves lawful)
    (simp_all add: served_serving)

text \<open>The client.\<close>

definition smti_told :: "input set \<Rightarrow> smti_activity_vars \<Rightarrow> bool" where
  "smti_told S vars \<longleftrightarrow> lastActivityState vars \<noteq> [] \<longrightarrow>
     (\<exists>a. ActivityRead (Some a) \<in> S \<and> is_activity a (lastActivityUuid vars) (lastActivityState vars))"

lemma smti_told_heard:
  assumes "smti_told S vars" "ActivityRead m \<in> S"
  shows "smti_told S (heard smti_hear_activity m vars)"
proof (cases "m = None \<or> activity (the m) = []")
  case True
  with assms show ?thesis
    by (cases m) (auto simp: heard_def smti_hear_activity_def listener_handleMessage_def smti_activityListener_def)
next
  case False
  then obtain x a as where "m = Some x" "activity x = a # as" by (cases m; cases "activity (the m)") auto
  with assms(2) show ?thesis
    by (auto simp: smti_told_def heard_def smti_hear_activity_def listener_handleMessage_def smti_activityListener_def
        is_activity_def intro!: exI [of _ x])
qed

lemma reached_smti_polls:
  "achieves (reached S ms) (smti_pollStatus E smti_statusListener n k) (\<lambda>_. reached S ms) (reached S ms)"
  "smti_told S vars \<Longrightarrow> achieves (reached S ms) (smti_pollActivity E smti_activityListener st vars)
     (\<lambda>vars w. smti_told S vars \<and> reached S ms w) (reached S ms)"
proof -
  show "achieves (reached S ms) (smti_pollStatus E smti_statusListener n k) (\<lambda>_. reached S ms) (reached S ms)"
    unfolding smti_pollStatus_def
    by (auto intro!: achieves_bind [OF at_reads(2)] achieves_ret
        achieves_weaken [OF reached_delivered [where f = "\<lambda>_ k. k + 1" and P = "reached S ms" and R = "reached S ms"]] simp: smti_listeners_return)
  assume told: "smti_told S vars"
  have deliver: "achieves (\<lambda>w. ActivityRead m \<in> S \<and> reached S ms w) (delivered smti_activityListener m vars)
      (\<lambda>vars w. smti_told S vars \<and> reached S ms w) (reached S ms)" for m
    by (rule achieves_weaken [OF reached_delivered [where f = smti_hear_activity]]) (auto simp: smti_listeners_return smti_told_heard told)
  from told show "achieves (reached S ms) (smti_pollActivity E smti_activityListener st vars)
     (\<lambda>vars w. smti_told S vars \<and> reached S ms w) (reached S ms)"
    unfolding smti_pollActivity_def
    by (auto intro!: achieves_bind [OF at_reads(3)] achieves_ret deliver)
qed

lemma reached_smti_updatesLoop:
  assumes "smti_told S vars"
  shows "achieves (reached S ms) (smti_updatesLoop E deadline smti_statusListener n smti_activityListener st k vars)
     (\<lambda>(ok, k, vars) w. (smti_told S vars \<and> (ok \<longrightarrow> lastActivityState vars = st)) \<and> reached S ms w) (reached S ms)"
proof -
  have "reached S ms w \<Longrightarrow> sl = smti_statusListener \<Longrightarrow> al = smti_activityListener \<Longrightarrow> smti_told S vars \<Longrightarrow>
      settles (\<lambda>(ok, k, vars) w. (smti_told S vars \<and> (ok \<longrightarrow> lastActivityState vars = st)) \<and> reached S ms w) (reached S ms)
        (smti_updatesLoop E deadline sl n al st k vars w)" for sl al w
  proof (induction E deadline sl n al st k vars w rule: smti_updatesLoop.induct)
    case (1 E deadline sl n al st k vars w)
    then show ?case
      by (subst smti_updatesLoop_eq)
        (auto intro!: settles_bind [OF at_now] settles_bind [OF reached_smti_polls(1)] settles_bind [OF reached_smti_polls(2)])
  qed
  then show ?thesis using assms by (simp add: achieves_def)
qed

lemma smti_operate_shape:
  "smti_operate E u = client_shape (seq (perform E (SleepMs 300)) (smti_sendStartCommand E u))
     (smti_waitForClientUpdates E smti_statusListener 0 1 smti_activityListener
        \<lparr>lastActivityUuid = UUID zero_octets, lastActivityState = []\<rparr> ''ACTIVE_UNCONSTRAINED'' 10000)
     (\<lambda>(ok, k, vars). \<not> ok) (\<lambda>_. RuntimeError ''client timed out waiting for active activity'')
     (\<lambda>(ok, k, vars). smti_sendStopCommand E (lastActivityUuid vars))
     (\<lambda>(ok, k, vars). smti_waitForClientUpdates E smti_statusListener k 2 smti_activityListener vars ''COMPLETED'' 10000)
     (\<lambda>(ok, k, vars). \<not> ok) (\<lambda>_. RuntimeError ''client timed out waiting for completed activity'')
     (ret 0)"
  by (simp only: smti_operate_def client_shape_def split_def seq_def bind_assoc)

lemma smti_sends:
  "achieves (reached S []) (smti_sendStartCommand E u) (\<lambda>_ v. \<exists>m. starts_with S m v) (\<lambda>v. reached S [] v \<or> (\<exists>m. starts_with S m v))"
  "achieves (starts_with S m) (smti_sendStopCommand E u) (\<lambda>_. stops_with S m u) (\<lambda>v. starts_with S m v \<or> stops_with S m u v)"
proof -
  have stable: "call_stable (\<lambda>v. \<exists>m. starts_with S m v)" "call_stable (\<lambda>v. reached S [] v \<or> (\<exists>m. starts_with S m v))"
      "call_stable (starts_with S m)" "call_stable (stops_with S m u)" "call_stable (\<lambda>v. starts_with S m v \<or> stops_with S m u v)"
    by (simp_all add: call_stable_def starts_with_def stops_with_def reached_def)
  show "achieves (reached S []) (smti_sendStartCommand E u) (\<lambda>_ v. \<exists>m. starts_with S m v)
      (\<lambda>v. reached S [] v \<or> (\<exists>m. starts_with S m v))"
    unfolding smti_sendStartCommand_def with_message_def Let_def
  proof (intro achieves_scoped [where E = E] achieves_bind [OF at_draw], goal_cases)
    case (6 x)
    have put: "achieves (reached S []) (put E KCommand (CommandMsg n)) (\<lambda>_ v. \<exists>m. starts_with S m v)
        (\<lambda>v. reached S [] v \<or> (\<exists>m. starts_with S m v))" if "is_start n c" for n c
      by (rule achieves_weaken [OF at_put]) (use that in \<open>auto simp: starts_with_def\<close>)
    show ?case unfolding split_def
      by (rule achieves_seq [OF put [OF smti_message_facts(3)]]) (auto intro!: achieves_ret)
  qed (auto simp: stable)
  show "achieves (starts_with S m) (smti_sendStopCommand E u) (\<lambda>_. stops_with S m u) (\<lambda>v. starts_with S m v \<or> stops_with S m u v)"
    unfolding smti_sendStopCommand_def with_message_def Let_def
  proof (intro achieves_scoped [where E = E], goal_cases)
    case 6
    have put: "achieves (starts_with S m) (put E KCommand (CommandMsg n)) (\<lambda>_. stops_with S m u) (\<lambda>v. starts_with S m v \<or> stops_with S m u v)"
      if "is_stop n c u" for n c
      using at_put [of S "[CommandMsg m]" E KCommand "CommandMsg n"] that
      unfolding achieves_def settles_def starts_with_def stops_with_def by (fastforce split: result.splits prod.splits)
    have draw: "achieves (starts_with S m) (draw E g) (\<lambda>_. starts_with S m) R" for g :: "bytes \<Rightarrow> uuid \<times> id_type" and R
      using at_draw [of S "[CommandMsg m]" E g R] by (auto simp: achieves_def starts_with_def settles_def split: result.splits prod.splits)
    show ?case unfolding split_def
      by (rule achieves_bind [OF draw], rule achieves_seq [OF put [OF smti_message_facts(4)]]) (auto intro!: achieves_ret)
  qed (auto simp: stable)
qed

interpretation smti_client: client_program S "seq (perform E (SleepMs 300)) (smti_sendStartCommand E u)"
     "smti_waitForClientUpdates E smti_statusListener 0 1 smti_activityListener
        \<lparr>lastActivityUuid = UUID zero_octets, lastActivityState = []\<rparr> ''ACTIVE_UNCONSTRAINED'' 10000"
     "\<lambda>(ok, k, vars). \<not> ok" "\<lambda>_. RuntimeError ''client timed out waiting for active activity''"
     "\<lambda>(ok, k, vars). smti_sendStopCommand E (lastActivityUuid vars)"
     "\<lambda>(ok, k, vars). smti_waitForClientUpdates E smti_statusListener k 2 smti_activityListener vars ''COMPLETED'' 10000"
     "\<lambda>(ok, k, vars). \<not> ok" "\<lambda>_. RuntimeError ''client timed out waiting for completed activity''"
     "ret (0 :: int)" "\<lambda>(ok, k, vars). smti_told S vars" "\<lambda>(ok, k, vars). lastActivityUuid vars" "\<lambda>r. r = 0"
  for S E u
proof (unfold_locales, goal_cases)
  case 1
  show ?case by (rule silent_before [OF silent_perform _ smti_sends(1)]) auto
next
  case (2 ms)
  have "smti_told S \<lparr>lastActivityUuid = UUID zero_octets, lastActivityState = []\<rparr>" by (simp add: smti_told_def)
  then show ?case unfolding smti_waitForClientUpdates_def
    by (intro achieves_bind [OF at_now] achieves_weaken [OF reached_smti_updatesLoop]) (auto simp: smti_told_def)
next
  case (3 m x)
  then show ?case by (cases x) (simp add: smti_sends)
next
  case (4 x ms)
  then show ?case unfolding smti_waitForClientUpdates_def
    by (cases x) (auto intro!: achieves_bind [OF at_now] achieves_weaken [OF reached_smti_updatesLoop] simp: smti_told_def)
qed (simp add: achieves_def)

lemma smti_runClient_achieves: "achieves (reached S []) (smti_runClient E) (\<lambda>r v. r = 0 \<and> answered S v) (asking S)"
  unfolding smti_runClient_def smti_with_defs smti_operate_shape
  by (intro achieves_scoped [where E = E] silent_before [OF silent_perform] smti_client.asks lawful)
    (simp_all add: answered_asking)

end
