(* ===== verification/Demo_Pair.thy ===== *)
theory Demo_Pair
  imports Amti_Runs Smti_Runs
begin

text \<open>
  A service and a client of a demo on one bus. The state of the pair is the script each has consumed and
  the messages under way on the three topics they share; what a process does next is what its program does
  on a script that is one input longer. Messages may be lost, reads take the first message of a topic and
  drop the rest, as \<open>takeNow\<close> does, and the clock samples are arbitrary.
\<close>

section \<open>Programs as functions of their inputs\<close>

type_synonym program = "input list \<Rightarrow> int result \<times> bus_message list"

definition program_of :: "int proc \<Rightarrow> program" where
  "program_of p s = (let (r, v) = p (start_world s) in (r, sent v))"

lemma program_grows:
  assumes "resumes p"
  shows "prefix (snd (program_of p s)) (snd (program_of p (s @ t)))"
proof -
  obtain r v where v: "p (start_world s) = (r, v)" by fastforce
  have "resumes_at p (start_world s)" using assms by (simp add: resumes_def)
  with v show ?thesis by (cases r) (auto simp: resumes_at_def program_of_def Let_def split_def dest: spec [of _ t])
qed

lemma program_service:
  assumes "achieves (reached (set s) []) p (\<lambda>r v. r = 0 \<and> served (set s) v) (serving E (set s))"
  shows "service_behaves (set s) (snd (program_of (exit_code p) s))"
    "quiet E \<Longrightarrow> length (snd (program_of (exit_code p) s)) = 6 \<Longrightarrow> fst (program_of (exit_code p) s) = Returns 0"
proof -
  obtain r v where v: "p (start_world s) = (r, v)" by fastforce
  have *: "settles (\<lambda>r v. r = 0 \<and> served (set s) v) (serving E (set s)) (p (start_world s))"
    using assms by (simp add: achieves_def)
  from * v show "service_behaves (set s) (snd (program_of (exit_code p) s))"
    by (cases r) (auto simp: settles_def program_of_def exit_code_def handle_def ret_def served_def serving_def reached_def)
  from * v show "quiet E \<Longrightarrow> length (snd (program_of (exit_code p) s)) = 6 \<Longrightarrow> fst (program_of (exit_code p) s) = Returns 0"
    by (cases r) (auto simp: settles_def program_of_def exit_code_def handle_def ret_def served_def serving_def reached_def)
qed

lemma program_client:
  assumes "achieves (reached (set s) []) p (\<lambda>r v. r = 0 \<and> answered (set s) v) (asking (set s))"
  shows "client_behaves (set s) (snd (program_of (exit_code p) s))"
    "fst (program_of (exit_code p) s) = Returns 0 \<Longrightarrow> client_succeeds (set s) (snd (program_of (exit_code p) s))"
proof -
  obtain r v where v: "p (start_world s) = (r, v)" by fastforce
  have *: "settles (\<lambda>r v. r = 0 \<and> answered (set s) v) (asking (set s)) (p (start_world s))"
    using assms by (simp add: achieves_def)
  from * v show "client_behaves (set s) (snd (program_of (exit_code p) s))"
    by (cases r) (auto simp: settles_def program_of_def exit_code_def handle_def ret_def answered_def asking_def reached_def client_succeeds_def)
  from * v show "fst (program_of (exit_code p) s) = Returns 0 \<Longrightarrow> client_succeeds (set s) (snd (program_of (exit_code p) s))"
    by (cases r) (auto simp: settles_def program_of_def exit_code_def handle_def ret_def answered_def reached_def)
qed

section \<open>The bus between them\<close>

record net =
  svc_in :: "input list"
  cli_in :: "input list"
  cmd_q :: "command_mt list"
  status_q :: "command_status_mt list"
  act_q :: "activity_mt list"

definition empty_net :: net where
  "empty_net = \<lparr>svc_in = [], cli_in = [], cmd_q = [], status_q = [], act_q = []\<rparr>"

fun deliver :: "bus_message \<Rightarrow> net \<Rightarrow> net" where
  "deliver (CommandMsg m) n = n\<lparr>cmd_q := cmd_q n @ [m]\<rparr>"
| "deliver (CommandStatusMsg m) n = n\<lparr>status_q := status_q n @ [m]\<rparr>"
| "deliver (ActivityMsg m) n = n\<lparr>act_q := act_q n @ [m]\<rparr>"
| "deliver _ n = n"

text \<open>What a read of at most one message finds; the queue is empty after it.\<close>

definition first_of :: "'m list \<Rightarrow> 'm option" where
  "first_of q = (case q of [] \<Rightarrow> None | m # _ \<Rightarrow> Some m)"

lemma first_of_core_take:
  "\<forall>s \<in> set q. valid s \<Longrightarrow> core_take 1 q = ((case first_of q of None \<Rightarrow> [] | Some s \<Rightarrow> [s]), [])"
  using take_loop_eq [of "[]" 1 q] by (cases q) (auto simp: core_take_def first_of_def)

inductive svc_input :: "net \<Rightarrow> request \<Rightarrow> input \<Rightarrow> net \<Rightarrow> bool" where
  "svc_input n ForClock (Tick t) n"
| "svc_input n ForCommand (CommandRead (first_of (cmd_q n))) (n\<lparr>cmd_q := []\<rparr>)"

inductive cli_input :: "net \<Rightarrow> request \<Rightarrow> input \<Rightarrow> net \<Rightarrow> bool" where
  "cli_input n ForClock (Tick t) n"
| "cli_input n ForStatus (StatusRead (first_of (status_q n))) (n\<lparr>status_q := []\<rparr>)"
| "cli_input n ForActivity (ActivityRead (first_of (act_q n))) (n\<lparr>act_q := []\<rparr>)"

text \<open>The messages a program sends on one more input; any of them may get lost.\<close>

definition sends :: "program \<Rightarrow> input list \<Rightarrow> input \<Rightarrow> bus_message list" where
  "sends p s x = drop (length (snd (p s))) (snd (p (s @ [x])))"

inductive net_reach :: "program \<Rightarrow> program \<Rightarrow> net \<Rightarrow> bool" for service client where
  started: "subseq ms (snd (service []) @ snd (client [])) \<Longrightarrow> net_reach service client (fold deliver ms empty_net)"
| service_step: "net_reach service client n \<Longrightarrow> fst (service (svc_in n)) = Waits r \<Longrightarrow> svc_input n r x n' \<Longrightarrow>
    subseq ms (sends service (svc_in n) x) \<Longrightarrow>
    net_reach service client (fold deliver ms (n'\<lparr>svc_in := svc_in n @ [x]\<rparr>))"
| client_step: "net_reach service client n \<Longrightarrow> fst (client (cli_in n)) = Waits r \<Longrightarrow> cli_input n r x n' \<Longrightarrow>
    subseq ms (sends client (cli_in n) x) \<Longrightarrow>
    net_reach service client (fold deliver ms (n'\<lparr>cli_in := cli_in n @ [x]\<rparr>))"

lemma deliver_simps [simp]:
  "svc_in (fold deliver ms n) = svc_in n" "cli_in (fold deliver ms n) = cli_in n"
proof (induction ms arbitrary: n)
  case (Cons m ms)
  { case 1 show ?case using Cons by (cases m) simp_all }
  { case 2 show ?case using Cons by (cases m) simp_all }
qed simp_all

lemma deliver_queues:
  "c \<in> set (cmd_q (fold deliver ms n)) \<longleftrightarrow> c \<in> set (cmd_q n) \<or> CommandMsg c \<in> set ms"
  "a \<in> set (act_q (fold deliver ms n)) \<longleftrightarrow> a \<in> set (act_q n) \<or> ActivityMsg a \<in> set ms"
proof (induction ms arbitrary: n)
  case (Cons m ms)
  { case 1 show ?case using Cons(1) by (cases m) auto }
  { case 2 show ?case using Cons(2) by (cases m) auto }
qed simp_all

section \<open>The contract of a pair\<close>

text \<open>The messages of a service and a client that have agreed on an activity.\<close>

definition agreed :: "bus_message list \<Rightarrow> bus_message list \<Rightarrow> bool" where
  "agreed svc cli \<longleftrightarrow> (\<exists>m1 m2 m3 a1 m5 a2 d1 d2 c1 c2 u.
     svc = [CapabilityMsg m1, CapabilityStatusMsg m2, CommandStatusMsg m3, ActivityMsg a1, CommandStatusMsg m5, ActivityMsg a2] \<and>
     cli = [CommandMsg d1, CommandMsg d2] \<and> is_start d1 c1 \<and> accepts m3 c1 (Some u) \<and> is_activity a1 u ''ACTIVE_UNCONSTRAINED'' \<and>
     is_stop d2 c2 u \<and> accepts m5 c2 None \<and> is_activity a2 u ''COMPLETED'')"

text \<open>What was read, or is under way, was sent.\<close>

definition sent_before :: "program \<Rightarrow> program \<Rightarrow> net \<Rightarrow> bool" where
  "sent_before service client n \<longleftrightarrow>
     (\<forall>c. CommandRead (Some c) \<in> set (svc_in n) \<or> c \<in> set (cmd_q n) \<longrightarrow> CommandMsg c \<in> set (snd (client (cli_in n)))) \<and>
     (\<forall>a. ActivityRead (Some a) \<in> set (cli_in n) \<or> a \<in> set (act_q n) \<longrightarrow> ActivityMsg a \<in> set (snd (service (svc_in n))))"

lemma first_of_eq [simp]: "Some m = first_of q \<Longrightarrow> m \<in> set q" "first_of q = Some m \<Longrightarrow> m \<in> set q"
  by (auto simp: first_of_def split: list.splits)

lemma subseq_in: "subseq ms ns \<Longrightarrow> m \<in> set ms \<Longrightarrow> m \<in> set ns"
  by (induction rule: list_emb.induct) auto

lemma prefix_full: "prefix xs ys \<Longrightarrow> length xs = length ys \<Longrightarrow> xs = ys"
  by (metis append_eq_append_conv append_Nil2 prefix_def)

lemma sends_in:
  assumes "prefix (snd (p s)) (snd (p (s @ [x])))" "subseq ms (sends p s x)"
  shows "m \<in> set ms \<Longrightarrow> m \<in> set (snd (p (s @ [x])))" "m \<in> set (snd (p s)) \<Longrightarrow> m \<in> set (snd (p (s @ [x])))"
  using assms subseq_in [OF assms(2), of m] in_set_dropD [of m] set_mono_prefix [OF assms(1)] by (auto simp: sends_def)

lemma no_such_message:
  "service_behaves S ms \<Longrightarrow> CommandMsg c \<notin> set ms" "client_behaves S ms \<Longrightarrow> ActivityMsg a \<notin> set ms"
proof -
  show "service_behaves S ms \<Longrightarrow> CommandMsg c \<notin> set ms"
    unfolding service_behaves_def by (elim exE conjE) (drule set_mono_prefix, auto)
  show "client_behaves S ms \<Longrightarrow> ActivityMsg a \<notin> set ms"
    unfolding client_behaves_def by (elim exE conjE) (drule set_mono_prefix, auto)
qed

text \<open>What a service and a client of a demo promise, and what follows for the two on one bus.\<close>

locale demo_pair =
  fixes service client :: program and safe :: bool
  assumes service_grows: "prefix (snd (service s)) (snd (service (s @ t)))"
    and client_grows: "prefix (snd (client s)) (snd (client (s @ t)))"
    and service_part: "service_behaves (set s) (snd (service s))"
    and service_done: "safe \<Longrightarrow> length (snd (service s)) = 6 \<Longrightarrow> fst (service s) = Returns 0"
    and client_part: "client_behaves (set s) (snd (client s))"
    and client_done: "fst (client s) = Returns 0 \<Longrightarrow> client_succeeds (set s) (snd (client s))"
begin

lemma reach_sent_before: "net_reach service client n \<Longrightarrow> sent_before service client n"
proof (induction rule: net_reach.induct)
  case (started ms)
  then have "m \<in> set ms \<Longrightarrow> m \<in> set (snd (service [])) \<union> set (snd (client []))" for m
    using subseq_in by fastforce
  with no_such_message(1) [OF service_part] no_such_message(2) [OF client_part]
  have "CommandMsg c \<in> set ms \<Longrightarrow> CommandMsg c \<in> set (snd (client []))"
    "ActivityMsg a \<in> set ms \<Longrightarrow> ActivityMsg a \<in> set (snd (service []))" for c a by blast+
  then show ?case by (auto simp: sent_before_def deliver_queues empty_net_def)
next
  case (service_step n r x n' ms)
  note sends = sends_in [OF service_grows service_step(4)]
  from sends(1) no_such_message(1) [OF service_part] have "CommandMsg c \<notin> set ms" for c by blast
  with service_step(3,5) sends show ?case
    by (cases rule: svc_input.cases) (auto simp: sent_before_def deliver_queues)
next
  case (client_step n r x n' ms)
  note sends = sends_in [OF client_grows client_step(4)]
  from sends(1) no_such_message(2) [OF client_part] have "ActivityMsg c \<notin> set ms" for c by blast
  with client_step(3,5) sends show ?case
    by (cases rule: cli_input.cases) (auto simp: sent_before_def deliver_queues)
qed

text \<open>Two commands of a client: the first is the start, the second the stop.\<close>

lemma agreement:
  assumes "net_reach service client n" and c: "fst (client (cli_in n)) = Returns 0"
  shows "agreed (snd (service (svc_in n))) (snd (client (cli_in n)))"
proof -
  have sb: "sent_before service client n" by (rule reach_sent_before) fact
  from client_done [OF c] obtain d1 d2 c1' c2' v a u' where d: "snd (client (cli_in n)) = [CommandMsg d1, CommandMsg d2]"
      "is_start d1 c1'" "is_stop d2 c2' v" and a: "ActivityRead (Some a) \<in> set (cli_in n)" "is_activity a u' ''COMPLETED''"
    unfolding client_succeeds_def client_behaves_def by (auto dest: prefix_full)
  from service_part [of "svc_in n"] obtain m1 m2 m3 a1 m5 a2 c1 c2 u where
    p: "prefix (snd (service (svc_in n))) [CapabilityMsg m1, CapabilityStatusMsg m2, CommandStatusMsg m3, ActivityMsg a1, CommandStatusMsg m5, ActivityMsg a2]"
    and m: "is_activity a1 u ''ACTIVE_UNCONSTRAINED''" "is_activity a2 u ''COMPLETED''" "accepts m3 c1 (Some u)" "accepts m5 c2 None"
    and g: "2 < length (snd (service (svc_in n))) \<longrightarrow> (\<exists>c. CommandRead (Some c) \<in> set (svc_in n) \<and> is_start c c1)"
      "4 < length (snd (service (svc_in n))) \<longrightarrow> (\<exists>c. CommandRead (Some c) \<in> set (svc_in n) \<and> is_stop c c2 u)"
    unfolding service_behaves_def by blast
  from a(1) sb have "ActivityMsg a \<in> set (snd (service (svc_in n)))" by (auto simp: sent_before_def)
  moreover from is_activity_inject [OF m(1), of u' "''COMPLETED''"] a(2) have "a \<noteq> a1" by auto
  ultimately have svc: "snd (service (svc_in n)) = [CapabilityMsg m1, CapabilityStatusMsg m2, CommandStatusMsg m3, ActivityMsg a1, CommandStatusMsg m5, ActivityMsg a2]"
    using p by (auto simp: prefix_Cons)
  with g obtain e1 e2 where e: "CommandRead (Some e1) \<in> set (svc_in n)" "is_start e1 c1" "CommandRead (Some e2) \<in> set (svc_in n)" "is_stop e2 c2 u"
    by auto
  with sb d(1) have "e1 \<in> {d1, d2}" "e2 \<in> {d1, d2}" by (auto simp: sent_before_def)
  with d e have "e1 = d1" "e2 = d2" by (auto simp: is_start_def is_stop_def split: list.splits command_choice.splits)
  with svc d(1) e m show ?thesis unfolding agreed_def by blast
qed

lemma both_succeed:
  assumes "net_reach service client n" and "fst (client (cli_in n)) = Returns 0" and safe
  shows "fst (service (svc_in n)) = Returns 0"
  using agreement [OF assms(1,2)] service_done [OF \<open>safe\<close>] by (auto simp: agreed_def)

end

section \<open>The two demos\<close>

lemma main_modes [simp]:
  "amti_main E (prog # ''service'' # options) = exit_code (amti_runService E)"
  "amti_main E (prog # ''client'' # options) = exit_code (amti_runClient E)"
  "smti_main E (prog # ''service'' # options) = exit_code (smti_runService E)"
  "smti_main E (prog # ''client'' # options) = exit_code (smti_runClient E)"
  by (simp_all add: amti_main_def smti_main_def)

interpretation amti: demo_pair "program_of (exit_code (amti_runService E))" "program_of (exit_code (amti_runClient F))" "quiet E"
  for E F
  by unfold_locales
    (simp_all add: program_grows lawful resumes_amti_runService resumes_amti_runClient
      program_service [OF amti_runService_achieves] program_client [OF amti_runClient_achieves])

interpretation smti: demo_pair "program_of (exit_code (smti_runService E))" "program_of (exit_code (smti_runClient F))" "quiet E"
  for E F
  by unfold_locales
    (simp_all add: program_grows lawful resumes_smti_runService resumes_smti_runClient
      program_service [OF smti_runService_achieves] program_client [OF smti_runClient_achieves])

end
