(* ===== verification/Demo_Live.thy ===== *)
theory Demo_Live
  imports Demo_Pair
begin

text \<open>
  The demos complete: when nothing throws, no message is lost and the reads find what was sent in time, a
  service and a client come to the end of the choreography.
\<close>

section \<open>A pair that answers each other\<close>

locale answering_pair =
  fixes service client :: program and t :: nat
    and m1 :: capability_mt and m2 :: capability_status_mt and m3 m5 :: command_status_mt and a1 a2 :: activity_mt
    and d1 d2 :: command_mt
  assumes service_runs:
      "service [] = (Waits ForClock, [CapabilityMsg m1, CapabilityStatusMsg m2])"
      "service [Tick t] = (Waits ForClock, [CapabilityMsg m1, CapabilityStatusMsg m2])"
      "service [Tick t, Tick t] = (Waits ForCommand, [CapabilityMsg m1, CapabilityStatusMsg m2])"
      "service [Tick t, Tick t, CommandRead (Some d1)] =
         (Waits ForClock, [CapabilityMsg m1, CapabilityStatusMsg m2, CommandStatusMsg m3, ActivityMsg a1])"
      "service [Tick t, Tick t, CommandRead (Some d1), Tick t] =
         (Waits ForClock, [CapabilityMsg m1, CapabilityStatusMsg m2, CommandStatusMsg m3, ActivityMsg a1])"
      "service [Tick t, Tick t, CommandRead (Some d1), Tick t, Tick t] =
         (Waits ForCommand, [CapabilityMsg m1, CapabilityStatusMsg m2, CommandStatusMsg m3, ActivityMsg a1])"
      "service [Tick t, Tick t, CommandRead (Some d1), Tick t, Tick t, CommandRead (Some d2)] =
         (Returns 0, [CapabilityMsg m1, CapabilityStatusMsg m2, CommandStatusMsg m3, ActivityMsg a1, CommandStatusMsg m5, ActivityMsg a2])"
    and client_runs:
      "client [] = (Waits ForClock, [CommandMsg d1])"
      "client [Tick t] = (Waits ForClock, [CommandMsg d1])"
      "client [Tick t, Tick t] = (Waits ForStatus, [CommandMsg d1])"
      "client [Tick t, Tick t, StatusRead (Some m3)] = (Waits ForActivity, [CommandMsg d1])"
      "client [Tick t, Tick t, StatusRead (Some m3), ActivityRead (Some a1)] = (Waits ForClock, [CommandMsg d1, CommandMsg d2])"
      "client [Tick t, Tick t, StatusRead (Some m3), ActivityRead (Some a1), Tick t] = (Waits ForClock, [CommandMsg d1, CommandMsg d2])"
      "client [Tick t, Tick t, StatusRead (Some m3), ActivityRead (Some a1), Tick t, Tick t] = (Waits ForStatus, [CommandMsg d1, CommandMsg d2])"
      "client [Tick t, Tick t, StatusRead (Some m3), ActivityRead (Some a1), Tick t, Tick t, StatusRead (Some m5)] =
         (Waits ForActivity, [CommandMsg d1, CommandMsg d2])"
      "client [Tick t, Tick t, StatusRead (Some m3), ActivityRead (Some a1), Tick t, Tick t, StatusRead (Some m5), ActivityRead (Some a2)] =
         (Returns 0, [CommandMsg d1, CommandMsg d2])"
begin

text \<open>A state of the pair with its parts, and a step of each process that loses nothing.\<close>

abbreviation (input) reach :: "input list \<Rightarrow> input list \<Rightarrow> command_mt list \<Rightarrow> command_status_mt list \<Rightarrow> activity_mt list \<Rightarrow> bool" where
  "reach s c q1 q2 q3 \<equiv> net_reach service client \<lparr>svc_in = s, cli_in = c, cmd_q = q1, status_q = q2, act_q = q3\<rparr>"

lemma service_tick:
  "reach s c q1 q2 q3 \<Longrightarrow> fst (service s) = Waits ForClock \<Longrightarrow> reach (s @ [Tick t]) c q1 q2 q3"
  by (drule net_reach.service_step [OF _ _ svc_input.intros(1), of _ _ _ "[]"]) simp_all

lemma service_reads:
  assumes "reach s c [d] q2 q3" "fst (service s) = Waits ForCommand"
    "snd (service (s @ [CommandRead (Some d)])) = snd (service s) @ [CommandStatusMsg m, ActivityMsg a]"
  shows "reach (s @ [CommandRead (Some d)]) c [] (q2 @ [m]) (q3 @ [a])"
  using net_reach.service_step [OF assms(1) _ svc_input.intros(2), of "[CommandStatusMsg m, ActivityMsg a]"] assms(2,3)
  by (simp add: sends_def first_of_def)

lemma client_tick:
  "reach s c q1 q2 q3 \<Longrightarrow> fst (client c) = Waits ForClock \<Longrightarrow> reach s (c @ [Tick t]) q1 q2 q3"
  by (drule net_reach.client_step [OF _ _ cli_input.intros(1), of _ _ _ "[]"]) simp_all

lemma client_reads:
  assumes "reach s c q1 [m] [a]" "fst (client c) = Waits ForStatus" "fst (client (c @ [StatusRead (Some m)])) = Waits ForActivity"
    "snd (client (c @ [StatusRead (Some m)])) = snd (client c)"
    "snd (client (c @ [StatusRead (Some m), ActivityRead (Some a)])) = snd (client c) @ map CommandMsg ds"
  shows "reach s (c @ [StatusRead (Some m), ActivityRead (Some a)]) (q1 @ ds) [] []"
proof -
  have 1: "reach s (c @ [StatusRead (Some m)]) q1 [] [a]"
    using net_reach.client_step [OF assms(1) _ cli_input.intros(2), of "[]"] assms(2) by (simp add: first_of_def)
  have "cmd_q (fold deliver (map CommandMsg ds) n) = cmd_q n @ ds \<and> status_q (fold deliver (map CommandMsg ds) n) = status_q n \<and>
      act_q (fold deliver (map CommandMsg ds) n) = act_q n" for n
    by (induction ds arbitrary: n) simp_all
  then have "fold deliver (map CommandMsg ds) n = n\<lparr>cmd_q := cmd_q n @ ds\<rparr>" for n
    by (intro net.equality) simp_all
  with net_reach.client_step [OF 1 _ cli_input.intros(3), of "map CommandMsg ds"] assms(3,4,5) show ?thesis
    by (simp add: sends_def first_of_def)
qed

lemma both_end:
  "\<exists>n. net_reach service client n \<and> fst (service (svc_in n)) = Returns 0 \<and> fst (client (cli_in n)) = Returns 0"
proof -
  let ?s0 = "[Tick t, Tick t]"
  let ?s1 = "[Tick t, Tick t, CommandRead (Some d1)]"
  let ?s2 = "[Tick t, Tick t, CommandRead (Some d1), Tick t, Tick t]"
  let ?s3 = "[Tick t, Tick t, CommandRead (Some d1), Tick t, Tick t, CommandRead (Some d2)]"
  let ?c1 = "[Tick t, Tick t, StatusRead (Some m3), ActivityRead (Some a1)]"
  let ?c2 = "[Tick t, Tick t, StatusRead (Some m3), ActivityRead (Some a1), Tick t, Tick t]"
  let ?c3 = "[Tick t, Tick t, StatusRead (Some m3), ActivityRead (Some a1), Tick t, Tick t, StatusRead (Some m5), ActivityRead (Some a2)]"
  have "reach [] [] [d1] [] []"
    using net_reach.started [of "snd (service []) @ snd (client [])" service client]
    by (simp add: service_runs client_runs empty_net_def)
  from service_tick [OF service_tick [OF this]] have "reach ?s0 [] [d1] [] []" by (simp add: service_runs)
  from client_tick [OF client_tick [OF this]] have "reach ?s0 ?s0 [d1] [] []" by (simp add: client_runs)
  from service_reads [OF this, of m3 a1] have "reach ?s1 ?s0 [] [m3] [a1]" by (simp add: service_runs)
  from client_reads [OF this, of "[d2]"] have "reach ?s1 ?c1 [d2] [] []" by (simp add: client_runs)
  from service_tick [OF service_tick [OF this]] have "reach ?s2 ?c1 [d2] [] []" by (simp add: service_runs)
  from client_tick [OF client_tick [OF this]] have "reach ?s2 ?c2 [d2] [] []" by (simp add: client_runs)
  from service_reads [OF this, of m5 a2] have "reach ?s3 ?c2 [] [m5] [a2]" by (simp add: service_runs)
  from client_reads [OF this, of "[]"] have "reach ?s3 ?c3 [] [] []" by (simp add: client_runs)
  then show ?thesis by (intro exI conjI, assumption) (simp_all add: service_runs client_runs)
qed

end

section \<open>Runs without faults\<close>

lemma quiet_perform: "quiet E \<Longrightarrow> perform E c w = (Returns (), w\<lparr>calls := calls w @ [c]\<rparr>)"
  by (simp add: quiet_def perform_def)

lemma quiet_put: "quiet E \<Longrightarrow> put E k m w = (Returns (), w\<lparr>calls := calls w @ [Write k], sent := sent w @ [m]\<rparr>)"
  by (simp add: put_def seq_def bind_def handle_def quiet_perform submit_def)

text \<open>How a process runs on, at a world.\<close>

lemma run_rules:
  "bind m f w = (case m w of (Returns x, v) \<Rightarrow> f x v | (Throws e, v) \<Rightarrow> (Throws e, v) | (Waits r, v) \<Rightarrow> (Waits r, v))"
  "seq n m w = (case n w of (Returns x, v) \<Rightarrow> m v | (Throws e, v) \<Rightarrow> (Throws e, v) | (Waits r, v) \<Rightarrow> (Waits r, v))"
  "catch_rethrow m h w = (case m w of (Returns x, v) \<Rightarrow> (Returns x, v) | (Throws e, v) \<Rightarrow> seq h (throw e) v | (Waits r, v) \<Rightarrow> (Waits r, v))"
  "no_throw n w = (case n w of (Returns x, v) \<Rightarrow> (Returns x, v) | (Throws e, v) \<Rightarrow> (Returns (), v) | (Waits r, v) \<Rightarrow> (Waits r, v))"
  "leaving h m w = (case m w of (Returns x, v) \<Rightarrow> seq (no_throw h) (ret x) v | (Throws e, v) \<Rightarrow> seq (no_throw h) (throw e) v
     | (Waits r, v) \<Rightarrow> (Waits r, v))"
  "exit_code k w = (case k w of (Returns x, v) \<Rightarrow> (Returns x, v) | (Throws e, v) \<Rightarrow> (Returns 1, v) | (Waits r, v) \<Rightarrow> (Waits r, v))"
  "ret x w = (Returns x, w)" "throw e w = (Throws e, w)" "generate E w = (Returns (generateUUID (env_random E (generated w))), w\<lparr>generated := generated w + 1\<rparr>)"
  "draw E g w = (Returns (g (env_random E (generated w))), w\<lparr>generated := generated w + 1\<rparr>)"
  by (simp_all add: handle_defs handle_def throw_def ret_def generate_def draw_def split: result.split prod.split)

lemma quiet_reads:
  assumes "quiet E"
  shows "read_command E ms w = (case script w of CommandRead m # s \<Rightarrow> (Returns m, w\<lparr>calls := calls w @ [Read KCommand ms 1], script := s\<rparr>)
      | _ \<Rightarrow> (Waits ForCommand, w\<lparr>calls := calls w @ [Read KCommand ms 1]\<rparr>))"
    "read_status E ms w = (case script w of StatusRead m # s \<Rightarrow> (Returns m, w\<lparr>calls := calls w @ [Read KCommandStatus ms 1], script := s\<rparr>)
      | _ \<Rightarrow> (Waits ForStatus, w\<lparr>calls := calls w @ [Read KCommandStatus ms 1]\<rparr>))"
    "read_activity E ms w = (case script w of ActivityRead m # s \<Rightarrow> (Returns m, w\<lparr>calls := calls w @ [Read KActivity ms 1], script := s\<rparr>)
      | _ \<Rightarrow> (Waits ForActivity, w\<lparr>calls := calls w @ [Read KActivity ms 1]\<rparr>))"
  using assms
  by (simp_all add: io_defs run_rules quiet_perform take_input_def split: list.split input.split)

lemma run_now: "now w = (case script w of Tick t # s \<Rightarrow> (Returns t, w\<lparr>script := s\<rparr>) | _ \<Rightarrow> (Waits ForClock, w))"
  by (simp add: now_def take_input_def split: list.split input.split)

section \<open>AMTI\<close>

lemma quiet_amti:
  assumes "quiet E"
  shows "amti_publishCapability E u w = (Returns (), w\<lparr>calls := calls w @ [CreateMessage KCapability, Write KCapability, Destroy (Message KCapability)],
      sent := sent w @ [CapabilityMsg (amti_capability_message u)]\<rparr>)"
    "amti_publishCapabilityStatus E u w = (Returns (), w\<lparr>calls := calls w @ [CreateMessage KCapabilityStatus, Write KCapabilityStatus, Destroy (Message KCapabilityStatus)],
      sent := sent w @ [CapabilityStatusMsg (amti_capability_status_message u)]\<rparr>)"
    "amti_publishCommandStatus E u x w = (Returns (), w\<lparr>calls := calls w @ [CreateMessage KCommandStatus, Write KCommandStatus, Destroy (Message KCommandStatus)],
      sent := sent w @ [CommandStatusMsg (amti_command_status_message u x)]\<rparr>)"
    "amti_publishActivity E u v st obj w = (Returns (), w\<lparr>calls := calls w @ [CreateMessage KActivity, GetSubsystemUUID, Write KActivity, Destroy (Message KActivity)],
      sent := sent w @ [ActivityMsg (amti_activity_message (env_subsystem E) u v st obj)]\<rparr>)"
    "amti_sendStartCommand E u v w = (Returns (), w\<lparr>calls := calls w @ [CreateMessage KCommand, Write KCommand, Destroy (Message KCommand)],
      sent := sent w @ [CommandMsg (amti_start_message u v)]\<rparr>)"
    "amti_sendStopCommand E u v w = (Returns (), w\<lparr>calls := calls w @ [CreateMessage KCommand, Write KCommand, Destroy (Message KCommand)],
      sent := sent w @ [CommandMsg (amti_stop_message u v)]\<rparr>)"
  using assms by (simp_all add: amti_publish_defs amti_sendStartCommand_def amti_sendStopCommand_def run_rules quiet_perform quiet_put)

lemma amti_hears:
  "amti_handleCommand (amti_start_message u c) latest = latest\<lparr>rc_received := True, rc_start := True, rc_commandUuid := c, rc_activityUuid := UUID zero_octets\<rparr>"
  "amti_handleCommand (amti_stop_message v c) latest = latest\<lparr>rc_received := True, rc_start := False, rc_commandUuid := c, rc_activityUuid := v\<rparr>"
  "amti_handleActivity (amti_activity_message s u v st obj) al = al\<lparr>al_received := al_received al + 1, al_lastActivityUuid := v, al_lastState := st\<rparr>"
  by (simp_all add: amti_handleCommand_def amti_handleActivity_def amti_start_message_def amti_stop_message_def amti_activity_message_def
      amti_setId_def new_activity_mt_def Let_def)

text \<open>The two waits on the scripts of such a run.\<close>

lemma quiet_amti_waitForCommand:
  assumes "quiet E"
  shows "script w = [] \<Longrightarrow> amti_waitForCommand E latest cmd ms w = (Waits ForClock, w)"
    "script w = [Tick t] \<Longrightarrow> amti_waitForCommand E latest cmd ms w = (Waits ForClock, w\<lparr>script := []\<rparr>)"
    "script w = [Tick t, Tick t] \<Longrightarrow> 0 < ms \<Longrightarrow> amti_waitForCommand E latest cmd ms w =
       (Waits ForCommand, w\<lparr>script := [], calls := calls w @ [Read KCommand 250 1]\<rparr>)"
    "script w = Tick t # Tick t # CommandRead (Some m) # s \<Longrightarrow> 0 < ms \<Longrightarrow> rc_received (amti_handleCommand m latest) \<Longrightarrow>
       amti_waitForCommand E latest cmd ms w =
       (Returns (True, ReceivedCommand, amti_handleCommand m latest), w\<lparr>script := s, calls := calls w @ [Read KCommand 250 1]\<rparr>)"
  using assms
  by (simp_all add: amti_waitForCommand_def amti_commandLoop_eq amti_take_def run_rules run_now quiet_reads heard_def)

lemma quiet_amti_waitForClientUpdates:
  assumes "quiet E"
  shows "script w = [] \<Longrightarrow> amti_waitForClientUpdates E sl n al st ms w = (Waits ForClock, w)"
    "script w = [Tick t] \<Longrightarrow> amti_waitForClientUpdates E sl n al st ms w = (Waits ForClock, w\<lparr>script := []\<rparr>)"
    "script w = [Tick t, Tick t] \<Longrightarrow> 0 < ms \<Longrightarrow> sl_received sl < n \<Longrightarrow> amti_waitForClientUpdates E sl n al st ms w =
       (Waits ForStatus, w\<lparr>script := [], calls := calls w @ [Read KCommandStatus 100 1]\<rparr>)"
    "script w = [Tick t, Tick t, StatusRead (Some m)] \<Longrightarrow> 0 < ms \<Longrightarrow> sl_received sl < n \<Longrightarrow> al_lastState al \<noteq> st \<Longrightarrow>
       amti_waitForClientUpdates E sl n al st ms w =
       (Waits ForActivity, w\<lparr>script := [], calls := calls w @ [Read KCommandStatus 100 1, Read KActivity 100 1]\<rparr>)"
    "script w = Tick t # Tick t # StatusRead (Some m) # ActivityRead (Some a) # s \<Longrightarrow> 0 < ms \<Longrightarrow> sl_received sl < n \<Longrightarrow>
       al_lastState al \<noteq> st \<Longrightarrow> n \<le> sl_received (amti_handleStatus m sl) \<Longrightarrow> al_lastState (amti_handleActivity a al) = st \<Longrightarrow>
       amti_waitForClientUpdates E sl n al st ms w =
       (Returns (True, amti_handleStatus m sl, amti_handleActivity a al),
        w\<lparr>script := s, calls := calls w @ [Read KCommandStatus 100 1, Read KActivity 100 1]\<rparr>)"
  using assms
  by (simp_all add: amti_waitForClientUpdates_def amti_updatesLoop_eq amti_pollStatus_def amti_pollActivity_def run_rules run_now
      quiet_reads heard_def)

text \<open>The messages of the two programs; the identifiers are the first the service draws and the first two of the client.\<close>

definition drawn :: "env \<Rightarrow> nat \<Rightarrow> uuid" where
  "drawn E n = generateUUID (env_random E n)"

lemmas amti_run = quiet_amti amti_hears quiet_perform run_rules program_of_def start_world_def ReceivedCommand_def
  quiet_amti_waitForCommand quiet_amti_waitForClientUpdates amti_handleStatus_def amti_new_status_listener_def
  amti_new_activity_listener_def amti_runService_def amti_serve_def amti_releaseService_def amti_runClient_def amti_operate_def
  amti_releaseClient_def Let_def drawn_def

definition no_faults :: "env \<Rightarrow> env" where
  "no_faults E = E\<lparr>env_fault := \<lambda>_ _. None\<rparr>"

lemma quiet_no_faults [simp]: "quiet (no_faults E)" "env_capability (no_faults E) = env_capability E"
    "env_subsystem (no_faults E) = env_subsystem E" "env_random (no_faults E) = env_random E"
  by (simp_all add: quiet_def no_faults_def)

lemma no_faults_quiet: "quiet E \<Longrightarrow> no_faults E = E"
  unfolding quiet_def no_faults_def by (intro env.equality) (simp_all add: fun_eq_iff)

interpretation amti_run: answering_pair "program_of (exit_code (amti_runService (no_faults E)))"
     "program_of (exit_code (amti_runClient (no_faults F)))" t
     "amti_capability_message (env_capability E kAmtiCapabilityName)"
     "amti_capability_status_message (env_capability E kAmtiCapabilityName)"
     "amti_command_status_message (drawn F 0) (Some (drawn E 0))"
     "amti_command_status_message (drawn F 1) None"
     "amti_activity_message (env_subsystem E) (env_capability E kAmtiCapabilityName) (drawn E 0) ''ACTIVE_UNCONSTRAINED'' ''NEW''"
     "amti_activity_message (env_subsystem E) (env_capability E kAmtiCapabilityName) (drawn E 0) ''COMPLETED'' ''UPDATED''"
     "amti_start_message (env_capability F kAmtiCapabilityName) (drawn F 0)"
     "amti_stop_message (drawn E 0) (drawn F 1)"
  for E F t
  by unfold_locales (simp_all add: amti_run)

section \<open>SMTI\<close>

lemma quiet_smti:
  assumes "quiet E"
  shows "smti_publishCapability E u w = (Returns (), w\<lparr>calls := calls w @ [CreateMessage KCapability, Write KCapability, Destroy (Message KCapability)],
      sent := sent w @ [CapabilityMsg (smti_capability_message u)]\<rparr>)"
    "smti_publishCapabilityStatus E u w = (Returns (), w\<lparr>calls := calls w @ [CreateMessage KCapabilityStatus, Write KCapabilityStatus, Destroy (Message KCapabilityStatus)],
      sent := sent w @ [CapabilityStatusMsg (smti_capability_status_message u)]\<rparr>)"
    "smti_publishCommandStatus E u x w = (Returns (), w\<lparr>calls := calls w @ [CreateMessage KCommandStatus, Write KCommandStatus, Destroy (Message KCommandStatus)],
      sent := sent w @ [CommandStatusMsg (smti_command_status_message u x)]\<rparr>)"
    "smti_publishActivity E u v st obj w = (Returns (), w\<lparr>calls := calls w @ [CreateMessage KActivity, GetSubsystemUUID, Write KActivity, Destroy (Message KActivity)],
      sent := sent w @ [ActivityMsg (smti_activity_message (env_subsystem E) u v st obj)]\<rparr>)"
    "smti_sendStartCommand E u w = (Returns (drawn E (generated w)), w\<lparr>calls := calls w @ [CreateMessage KCommand, Write KCommand, Destroy (Message KCommand)],
      sent := sent w @ [CommandMsg (smti_start_message u (setId_labelled (drawn E (generated w)) ''Start SMTI command'' new_id))],
      generated := generated w + 1\<rparr>)"
    "smti_sendStopCommand E u w = (Returns (drawn E (generated w)), w\<lparr>calls := calls w @ [CreateMessage KCommand, Write KCommand, Destroy (Message KCommand)],
      sent := sent w @ [CommandMsg (smti_stop_message u (setId_labelled (drawn E (generated w)) ''Stop SMTI command'' new_id))],
      generated := generated w + 1\<rparr>)"
  using assms
  by (simp_all add: smti_publish_defs smti_sendStartCommand_def smti_sendStopCommand_def with_message_def scoped_def run_rules
      quiet_perform quiet_put assignNewId_labelled_def new_capability_command_def new_activity_command_def drawn_def Let_def)

lemma smti_hears:
  "smti_hear (smti_start_message u i) cmd = ReceivedCommand\<lparr>rc_received := True, rc_start := True, rc_commandUuid := id_uuid i\<rparr>"
  "smti_hear (smti_stop_message v i) cmd = ReceivedCommand\<lparr>rc_received := True, rc_start := False, rc_commandUuid := id_uuid i, rc_activityUuid := v\<rparr>"
  "smti_hear_activity (smti_activity_message s u v st obj) vars = vars\<lparr>lastActivityUuid := v, lastActivityState := st\<rparr>"
  by (simp_all add: smti_hear_def smti_hear_activity_def listener_handleMessage_def smti_commandListener_def smti_activityListener_def
      smti_start_message_def smti_stop_message_def smti_activity_message_def setId_labelled_def setId_def new_activity_mt_def
      new_activity_command_def Let_def)

lemma quiet_smti_waitForCommand:
  assumes "quiet E"
  shows "script w = [] \<Longrightarrow> smti_waitForCommand E smti_commandListener cmd ms w = (Waits ForClock, w)"
    "script w = [Tick t] \<Longrightarrow> smti_waitForCommand E smti_commandListener cmd ms w = (Waits ForClock, w\<lparr>script := []\<rparr>)"
    "script w = [Tick t, Tick t] \<Longrightarrow> 0 < ms \<Longrightarrow> smti_waitForCommand E smti_commandListener cmd ms w =
       (Waits ForCommand, w\<lparr>script := [], calls := calls w @ [Read KCommand 250 1]\<rparr>)"
    "script w = Tick t # Tick t # CommandRead (Some m) # s \<Longrightarrow> 0 < ms \<Longrightarrow> rc_received (smti_hear m cmd) \<Longrightarrow>
       smti_waitForCommand E smti_commandListener cmd ms w =
       (Returns (True, smti_hear m cmd), w\<lparr>script := s, calls := calls w @ [Read KCommand 250 1]\<rparr>)"
  using assms
  by (simp_all add: smti_waitForCommand_def smti_commandLoop_eq run_rules run_now quiet_reads delivered_def smti_listeners_return)

lemma quiet_smti_waitForClientUpdates:
  fixes vars :: smti_activity_vars
  assumes "quiet E"
  shows "script w = [] \<Longrightarrow> smti_waitForClientUpdates E smti_statusListener c n smti_activityListener vars st ms w = (Waits ForClock, w)"
    "script w = [Tick t] \<Longrightarrow> smti_waitForClientUpdates E smti_statusListener c n smti_activityListener vars st ms w =
       (Waits ForClock, w\<lparr>script := []\<rparr>)"
    "script w = [Tick t, Tick t] \<Longrightarrow> 0 < ms \<Longrightarrow> c < n \<Longrightarrow>
       smti_waitForClientUpdates E smti_statusListener c n smti_activityListener vars st ms w =
       (Waits ForStatus, w\<lparr>script := [], calls := calls w @ [Read KCommandStatus 100 1]\<rparr>)"
    "script w = [Tick t, Tick t, StatusRead (Some m)] \<Longrightarrow> 0 < ms \<Longrightarrow> c < n \<Longrightarrow> lastActivityState vars \<noteq> st \<Longrightarrow>
       smti_waitForClientUpdates E smti_statusListener c n smti_activityListener vars st ms w =
       (Waits ForActivity, w\<lparr>script := [], calls := calls w @ [Read KCommandStatus 100 1, Read KActivity 100 1]\<rparr>)"
    "script w = Tick t # Tick t # StatusRead (Some m) # ActivityRead (Some a) # s \<Longrightarrow> 0 < ms \<Longrightarrow> c < n \<Longrightarrow>
       lastActivityState vars \<noteq> st \<Longrightarrow> n \<le> c + 1 \<Longrightarrow> lastActivityState (smti_hear_activity a vars) = st \<Longrightarrow>
       smti_waitForClientUpdates E smti_statusListener c n smti_activityListener vars st ms w =
       (Returns (True, c + 1, smti_hear_activity a vars),
        w\<lparr>script := s, calls := calls w @ [Read KCommandStatus 100 1, Read KActivity 100 1]\<rparr>)"
  using assms
  by (simp_all add: smti_waitForClientUpdates_def smti_updatesLoop_eq smti_pollStatus_def smti_pollActivity_def run_rules run_now
      quiet_reads delivered_def smti_listeners_return)

lemmas smti_run = quiet_smti smti_hears quiet_perform run_rules program_of_def start_world_def ReceivedCommand_def
  quiet_smti_waitForCommand quiet_smti_waitForClientUpdates smti_runService_def smti_serve_def smti_runClient_def smti_operate_def
  with_connection_def with_writer_def with_reader_def scoped_def Let_def drawn_def setId_labelled_def setId_def

interpretation smti_run: answering_pair "program_of (exit_code (smti_runService (no_faults E)))"
     "program_of (exit_code (smti_runClient (no_faults F)))" t
     "smti_capability_message (env_capability E kSmtiCapabilityName)"
     "smti_capability_status_message (env_capability E kSmtiCapabilityName)"
     "smti_command_status_message (drawn F 0) (Some (drawn E 0))"
     "smti_command_status_message (drawn F 1) None"
     "smti_activity_message (env_subsystem E) (env_capability E kSmtiCapabilityName) (drawn E 0) ''ACTIVE_UNCONSTRAINED'' ''NEW''"
     "smti_activity_message (env_subsystem E) (env_capability E kSmtiCapabilityName) (drawn E 0) ''COMPLETED'' ''UPDATED''"
     "smti_start_message (env_capability F kSmtiCapabilityName) (setId_labelled (drawn F 0) ''Start SMTI command'' new_id)"
     "smti_stop_message (drawn E 0) (setId_labelled (drawn F 1) ''Stop SMTI command'' new_id)"
  for E F t
  by unfold_locales (simp_all add: smti_run)

section \<open>Properties\<close>

text \<open>
  C16: Agreement of the AMTI demo. Whatever is lost on the bus, whatever the clocks show and whichever calls
  throw: when the client's \<open>main\<close> returns 0, the service has sent its six messages in order, it accepted
  exactly the two commands the client sent, the start and the stop, and the activity it announced, reported
  active and reported completed is the one the client stopped.
\<close>

theorem amti_agreement:
  assumes "net_reach (program_of (amti_main E (p # ''service'' # args))) (program_of (amti_main F (q # ''client'' # args'))) n"
    and "fst (program_of (amti_main F (q # ''client'' # args')) (cli_in n)) = Returns 0"
  shows "agreed (snd (program_of (amti_main E (p # ''service'' # args)) (svc_in n)))
    (snd (program_of (amti_main F (q # ''client'' # args')) (cli_in n)))"
  using assms amti.agreement by simp

text \<open>When nothing throws on the service's side, its \<open>main\<close> has returned 0 as well.\<close>

lemma amti_service_succeeds_too:
  assumes "net_reach (program_of (amti_main E (p # ''service'' # args))) (program_of (amti_main F (q # ''client'' # args'))) n"
    and "fst (program_of (amti_main F (q # ''client'' # args')) (cli_in n)) = Returns 0" and "quiet E"
  shows "fst (program_of (amti_main E (p # ''service'' # args)) (svc_in n)) = Returns 0"
  using assms amti.both_succeed by simp

definition demo_env :: env where
  "demo_env = \<lparr>env_capability = (\<lambda>_. uuid_of_words 1 2), env_subsystem = uuid_of_words 3 4,
     env_random = (\<lambda>n. replicate 16 (of_nat n)), env_fault = (\<lambda>_ _. None)\<rparr>"

lemma no_faults_demo_env [simp]: "no_faults demo_env = demo_env"
  by (simp add: no_faults_def demo_env_def)

theorem amti_agreement_witness:
  "\<exists>n :: net. agreed (snd (program_of (amti_main demo_env [''demo'', ''service'']) (svc_in n)))
     (snd (program_of (amti_main demo_env [''demo'', ''client'', ''--demo'']) (cli_in n)))"
proof -
  from amti_run.both_end [of demo_env demo_env] obtain n where
    "net_reach (program_of (amti_main demo_env [''demo'', ''service''])) (program_of (amti_main demo_env [''demo'', ''client'', ''--demo''])) n"
    "fst (program_of (amti_main demo_env [''demo'', ''client'', ''--demo'']) (cli_in n)) = Returns 0"
    by auto
  from amti_agreement [OF this] show ?thesis by blast
qed

text \<open>
  C17: Agreement of the SMTI demo, the same for the programs written with the client utilities.
\<close>

theorem smti_agreement:
  assumes "net_reach (program_of (smti_main E (p # ''service'' # args))) (program_of (smti_main F (q # ''client'' # args'))) n"
    and "fst (program_of (smti_main F (q # ''client'' # args')) (cli_in n)) = Returns 0"
  shows "agreed (snd (program_of (smti_main E (p # ''service'' # args)) (svc_in n)))
    (snd (program_of (smti_main F (q # ''client'' # args')) (cli_in n)))"
  using assms smti.agreement by simp

theorem smti_agreement_witness:
  "\<exists>n :: net. agreed (snd (program_of (smti_main demo_env [''demo'', ''service'']) (svc_in n)))
     (snd (program_of (smti_main demo_env [''demo'', ''client'']) (cli_in n)))"
proof -
  from smti_run.both_end [of demo_env demo_env] obtain n where
    "net_reach (program_of (smti_main demo_env [''demo'', ''service''])) (program_of (smti_main demo_env [''demo'', ''client''])) n"
    "fst (program_of (smti_main demo_env [''demo'', ''client'']) (cli_in n)) = Returns 0"
    by auto
  from smti_agreement [OF this] show ?thesis by blast
qed

text \<open>
  C18: The demo can complete: for any configuration and any random identifiers, when no call throws there is
  an execution of the AMTI service and client, with no message lost and the reads in time, in which the
  \<open>main\<close> of both returns 0.
\<close>

theorem amti_demo_completes:
  assumes "quiet E" and "quiet F"
  shows "\<exists>n. net_reach (program_of (amti_main E (p # ''service'' # args))) (program_of (amti_main F (q # ''client'' # args'))) n \<and>
    fst (program_of (amti_main E (p # ''service'' # args)) (svc_in n)) = Returns 0 \<and>
    fst (program_of (amti_main F (q # ''client'' # args')) (cli_in n)) = Returns 0"
  using amti_run.both_end [of E F] assms by (simp add: no_faults_quiet)

theorem amti_demo_completes_witness:
  "\<exists>n. net_reach (program_of (amti_main demo_env [''demo'', ''service''])) (program_of (amti_main demo_env [''demo'', ''client''])) n \<and>
    fst (program_of (amti_main demo_env [''demo'', ''service'']) (svc_in n)) = Returns 0 \<and>
    fst (program_of (amti_main demo_env [''demo'', ''client'']) (cli_in n)) = Returns 0"
  by (rule amti_demo_completes) (simp_all add: quiet_def demo_env_def)

lemma smti_demo_completes:
  assumes "quiet E" and "quiet F"
  shows "\<exists>n. net_reach (program_of (smti_main E (p # ''service'' # args))) (program_of (smti_main F (q # ''client'' # args'))) n \<and>
    fst (program_of (smti_main E (p # ''service'' # args)) (svc_in n)) = Returns 0 \<and>
    fst (program_of (smti_main F (q # ''client'' # args')) (cli_in n)) = Returns 0"
  using smti_run.both_end [of E F] assms by (simp add: no_faults_quiet)

end
