(* ===== verification/Dds_Payload.thy ===== *)
theory Dds_Payload
  imports Topic_Monitor "HOL-Library.Monad_Syntax"
begin

text \<open>
  The payload type on the wire (\<open>src/dds/arcal_payload.hpp\<close>, \<open>arcal_payload.cpp\<close>): the class
  \<open>OpaquePayload\<close>, the table of its members, and the four functions that stream it: \<open>write\<close>, \<open>read\<close>,
  \<open>move\<close> (the size of what \<open>write\<close> would put) and \<open>max\<close>. The streams they work on belong to the DDS
  library and are a parameter, a record of the functions that the code calls over the library's own state
  \<open>'s\<close>. A function that returns false is \<open>None\<close>; what it leaves in the instance then is not looked at.
\<close>

section \<open>The payload\<close>

record opaque_payload =
  op_tag :: u32
  op_data :: bytes

definition OpaquePayload :: opaque_payload where
  "OpaquePayload = \<lparr>op_tag = 0, op_data = []\<rparr>"

definition OpaquePayload_of :: "u32 \<Rightarrow> bytes \<Rightarrow> opaque_payload" where
  "OpaquePayload_of t d = \<lparr>op_tag = t, op_data = d\<rparr>"

definition set_type_tag :: "u32 \<Rightarrow> opaque_payload \<Rightarrow> opaque_payload" where
  "set_type_tag t p = p\<lparr>op_tag := t\<rparr>"

definition set_data :: "bytes \<Rightarrow> opaque_payload \<Rightarrow> opaque_payload" where
  "set_data d p = p\<lparr>op_data := d\<rparr>"

definition payload_equal :: "opaque_payload \<Rightarrow> opaque_payload \<Rightarrow> bool" where
  "payload_equal p q \<longleftrightarrow> op_tag p = op_tag q \<and> op_data p = op_data q"

definition payload_differs :: "opaque_payload \<Rightarrow> opaque_payload \<Rightarrow> bool" where
  "payload_differs p q \<longleftrightarrow> \<not> payload_equal p q"

definition getTypeName :: string where
  "getTypeName = ''arcal_dds::OpaquePayload''"

text \<open>The payload of a sample, and what the writer's core hands to the library.\<close>

definition payload_of_sample :: "sample \<Rightarrow> opaque_payload" where
  "payload_of_sample x = set_data (sample_data x) (set_type_tag (sample_tag x) OpaquePayload)"

section \<open>The table of the members\<close>

datatype bit_bound = bb_unset | get_bit_bound nat

datatype extensibility = ext_final | ext_appendable | ext_mutable

text \<open>
  An entry has the arguments it is constructed with, the last one where it is given, and the mark the
  library sets while it streams.
\<close>

record entity =
  e_depth :: nat
  m_id :: nat
  e_optional :: bool
  e_bit_bound :: bit_bound
  e_extensibility :: extensibility
  e_last :: "bool option"
  is_present :: bool

definition entity_properties_t :: "nat \<Rightarrow> nat \<Rightarrow> bool \<Rightarrow> bit_bound \<Rightarrow> extensibility \<Rightarrow> bool option \<Rightarrow> entity" where
  "entity_properties_t d i opt bb ext l =
     \<lparr>e_depth = d, m_id = i, e_optional = opt, e_bit_bound = bb, e_extensibility = ext, e_last = l, is_present = False\<rparr>"

text \<open>The static variables of \<open>get_type_props\<close>, one set for each thread; \<open>props_end\<close> is an offset.\<close>

record props_cache =
  props :: "entity list"
  props_end :: nat
  initialized :: bool

definition no_props :: props_cache where
  "no_props = \<lparr>props = [], props_end = 0, initialized = False\<rparr>"

definition clear_marks :: "nat \<Rightarrow> entity list \<Rightarrow> entity list" where
  "clear_marks n es = map (\<lambda>e. e\<lparr>is_present := False\<rparr>) (take n es) @ drop n es"

definition member_table :: "entity list" where
  "member_table = [entity_properties_t 0 0 False bb_unset ext_final None,
     entity_properties_t 1 0 False (get_bit_bound 32) ext_final (Some False),
     entity_properties_t 1 1 False bb_unset ext_final (Some False)]"

text \<open>\<open>finish\<close> links the entries and belongs to the library.\<close>

definition get_type_props :: "(entity list \<Rightarrow> entity list) \<Rightarrow> props_cache \<Rightarrow> props_cache" where
  "get_type_props finish c =
     (if initialized c then c\<lparr>props := clear_marks (props_end c) (props c)\<rparr>
      else let es = finish member_table in c\<lparr>props := es, props_end := length es, initialized := True\<rparr>)"

section \<open>Streaming\<close>

datatype stream_mode = ModeRead | ModeWrite | ModeMove | ModeMax

text \<open>
  The library's streams. An entry of the table is named by its index; the two functions that walk along the
  members depend on whether only the key is streamed, the second argument of \<open>set_mode\<close>, which they get here.
\<close>

record 's cdr_stream =
  set_mode :: "stream_mode \<Rightarrow> bool \<Rightarrow> 's \<Rightarrow> 's"
  start_struct :: "entity \<Rightarrow> 's \<Rightarrow> 's option"
  finish_struct :: "entity \<Rightarrow> 's \<Rightarrow> 's option"
  first_entity :: "bool \<Rightarrow> entity list \<Rightarrow> nat \<Rightarrow> nat option"
  next_entity :: "bool \<Rightarrow> entity list \<Rightarrow> nat \<Rightarrow> nat option"
  start_member :: "entity \<Rightarrow> 's \<Rightarrow> 's option"
  finish_member :: "entity \<Rightarrow> 's \<Rightarrow> 's option"
  start_consecutive :: "bool \<Rightarrow> bool \<Rightarrow> 's \<Rightarrow> 's option"
  finish_consecutive :: "'s \<Rightarrow> 's option"
  write_u32 :: "u32 \<Rightarrow> 's \<Rightarrow> 's option"
  write_octets :: "bytes \<Rightarrow> 's \<Rightarrow> 's option"
  read_u32 :: "'s \<Rightarrow> (u32 \<times> 's) option"
  read_octets :: "nat \<Rightarrow> 's \<Rightarrow> (bytes \<times> 's) option"
  move_u32 :: "u32 \<Rightarrow> 's \<Rightarrow> 's option"
  move_octets :: "nat \<Rightarrow> 's \<Rightarrow> 's option"
  max_u32 :: "u32 \<Rightarrow> 's \<Rightarrow> 's option"
  max_octets :: "nat \<Rightarrow> 's \<Rightarrow> 's option"
  position_max :: "'s \<Rightarrow> 's"

text \<open>
  The loop over the members, the same in the four functions: the instance and the stream go through the
  branch of each member. Nothing bounds the loop but the library's table, so that a loop that does not end
  is the outer \<open>None\<close>; the inner one is the result false.
\<close>

partial_function (option) members_loop ::
    "'s cdr_stream \<Rightarrow> bool \<Rightarrow> entity list \<Rightarrow> (entity \<Rightarrow> opaque_payload \<times> 's \<Rightarrow> (opaque_payload \<times> 's) option) \<Rightarrow>
      nat option \<Rightarrow> opaque_payload \<times> 's \<Rightarrow> (opaque_payload \<times> 's) option option" where
  "members_loop L key ps member prop x = (case prop of
     None \<Rightarrow> Some (Some x)
   | Some i \<Rightarrow> (case member (ps ! i) x of
       None \<Rightarrow> Some None
     | Some y \<Rightarrow> members_loop L key ps member (next_entity L key ps i) y))"

definition stream_struct ::
    "'s cdr_stream \<Rightarrow> bool \<Rightarrow> entity list \<Rightarrow> (entity \<Rightarrow> opaque_payload \<times> 's \<Rightarrow> (opaque_payload \<times> 's) option) \<Rightarrow>
      opaque_payload \<times> 's \<Rightarrow> (opaque_payload \<times> 's) option option" where
  "stream_struct L key ps member x = (case start_struct L (ps ! 0) (snd x) of
     None \<Rightarrow> Some None
   | Some s \<Rightarrow> (case members_loop L key ps member (first_entity L key ps 0) (fst x, s) of
       None \<Rightarrow> None
     | Some None \<Rightarrow> Some None
     | Some (Some (p, s)) \<Rightarrow> Some (map_option (Pair p) (finish_struct L (ps ! 0) s))))"

definition in_member :: "'s cdr_stream \<Rightarrow> entity \<Rightarrow> (opaque_payload \<times> 's \<Rightarrow> (opaque_payload \<times> 's) option) \<Rightarrow>
    opaque_payload \<times> 's \<Rightarrow> (opaque_payload \<times> 's) option" where
  "in_member L e f x = do {
     s \<leftarrow> start_member L e (snd x);
     (p, s) \<leftarrow> f (fst x, s);
     s \<leftarrow> finish_member L e s;
     Some (p, s) }"

definition in_sequence :: "'s cdr_stream \<Rightarrow> (opaque_payload \<times> 's \<Rightarrow> (opaque_payload \<times> 's) option) \<Rightarrow>
    opaque_payload \<times> 's \<Rightarrow> (opaque_payload \<times> 's) option" where
  "in_sequence L f x = do {
     s \<leftarrow> start_consecutive L False True (snd x);
     (p, s) \<leftarrow> f (fst x, s);
     s \<leftarrow> finish_consecutive L s;
     Some (p, s) }"

definition write_member :: "'s cdr_stream \<Rightarrow> entity \<Rightarrow> opaque_payload \<times> 's \<Rightarrow> (opaque_payload \<times> 's) option" where
  "write_member L e =
     (if m_id e = 0 then in_member L e (\<lambda>(p, s). do { s \<leftarrow> write_u32 L (op_tag p) s; Some (p, s) })
      else if m_id e = 1 then in_member L e (in_sequence L (\<lambda>(p, s).
        let se_1 = of_nat (length (op_data p)) :: u32 in do {
          s \<leftarrow> write_u32 L se_1 s;
          s \<leftarrow> (if 0 < se_1 then write_octets L (take (unat se_1) (op_data p)) s else Some s);
          Some (p, s) }))
      else Some)"

definition read_member :: "'s cdr_stream \<Rightarrow> entity \<Rightarrow> opaque_payload \<times> 's \<Rightarrow> (opaque_payload \<times> 's) option" where
  "read_member L e =
     (if m_id e = 0 then in_member L e (\<lambda>(p, s). do { (t, s) \<leftarrow> read_u32 L s; Some (p\<lparr>op_tag := t\<rparr>, s) })
      else if m_id e = 1 then in_member L e (in_sequence L (\<lambda>(p, s). do {
          (se_1, s) \<leftarrow> read_u32 L s;
          (if 0 < se_1 then do { (d, s) \<leftarrow> read_octets L (unat se_1) s; Some (p\<lparr>op_data := d\<rparr>, s) }
           else Some (p\<lparr>op_data := []\<rparr>, s)) }))
      else Some)"

definition move_member :: "'s cdr_stream \<Rightarrow> entity \<Rightarrow> opaque_payload \<times> 's \<Rightarrow> (opaque_payload \<times> 's) option" where
  "move_member L e =
     (if m_id e = 0 then in_member L e (\<lambda>(p, s). do { s \<leftarrow> move_u32 L (op_tag p) s; Some (p, s) })
      else if m_id e = 1 then in_member L e (in_sequence L (\<lambda>(p, s).
        let se_1 = of_nat (length (op_data p)) :: u32 in do {
          s \<leftarrow> move_u32 L se_1 s;
          s \<leftarrow> (if 0 < se_1 then move_octets L (unat se_1) s else Some s);
          Some (p, s) }))
      else Some)"

text \<open>The sequence has no bound: after it the position is the largest one.\<close>

definition max_member :: "'s cdr_stream \<Rightarrow> entity \<Rightarrow> opaque_payload \<times> 's \<Rightarrow> (opaque_payload \<times> 's) option" where
  "max_member L e =
     (if m_id e = 0 then in_member L e (\<lambda>(p, s). do { s \<leftarrow> max_u32 L (op_tag p) s; Some (p, s) })
      else if m_id e = 1 then in_member L e (\<lambda>x. do {
          (p, s) \<leftarrow> in_sequence L (\<lambda>(p, s).
            let se_1 = 0 :: u32 in do {
              s \<leftarrow> max_u32 L se_1 s;
              s \<leftarrow> (if 0 < se_1 then max_octets L (unat se_1) s else Some s);
              Some (p, s) }) x;
          Some (p, position_max L s) })
      else Some)"

text \<open>The entry points take the table from the thread's cache.\<close>

definition payload_write :: "'s cdr_stream \<Rightarrow> (entity list \<Rightarrow> entity list) \<Rightarrow> props_cache \<Rightarrow> bool \<Rightarrow> opaque_payload \<Rightarrow> 's \<Rightarrow>
    (opaque_payload \<times> 's) option option" where
  "payload_write L finish c as_key p s = 
     stream_struct L as_key (props (get_type_props finish c)) (write_member L) (p, set_mode L ModeWrite as_key s)"

definition payload_read :: "'s cdr_stream \<Rightarrow> (entity list \<Rightarrow> entity list) \<Rightarrow> props_cache \<Rightarrow> bool \<Rightarrow> opaque_payload \<Rightarrow> 's \<Rightarrow>
    (opaque_payload \<times> 's) option option" where
  "payload_read L finish c as_key p s = 
     stream_struct L as_key (props (get_type_props finish c)) (read_member L) (p, set_mode L ModeRead as_key s)"

definition payload_move :: "'s cdr_stream \<Rightarrow> (entity list \<Rightarrow> entity list) \<Rightarrow> props_cache \<Rightarrow> bool \<Rightarrow> opaque_payload \<Rightarrow> 's \<Rightarrow>
    (opaque_payload \<times> 's) option option" where
  "payload_move L finish c as_key p s = 
     stream_struct L as_key (props (get_type_props finish c)) (move_member L) (p, set_mode L ModeMove as_key s)"

definition payload_max :: "'s cdr_stream \<Rightarrow> (entity list \<Rightarrow> entity list) \<Rightarrow> props_cache \<Rightarrow> bool \<Rightarrow> opaque_payload \<Rightarrow> 's \<Rightarrow>
    (opaque_payload \<times> 's) option option" where
  "payload_max L finish c as_key p s = 
     stream_struct L as_key (props (get_type_props finish c)) (max_member L) (p, set_mode L ModeMax as_key s)"

section \<open>The type information\<close>

text \<open>
  The octets by which the library announces the type, once for the C++ side (\<open>arcal_payload.hpp\<close>) and once
  for the C side (\<open>arcal_payload.c\<close>), which the monitor of the local server uses.
\<close>

definition type_map_blob :: bytes where
  "type_map_blob = [
     0x50, 0x00, 0x00, 0x00, 0x01, 0x00, 0x00, 0x00, 0xf1, 0x02, 0x3a, 0x7e, 0x26, 0xc5, 0x48, 0x65,
     0xde, 0x81, 0x1b, 0x56, 0xdd, 0x88, 0xef, 0x00, 0x38, 0x00, 0x00, 0x00, 0xf1, 0x51, 0x01, 0x00,
     0x01, 0x00, 0x00, 0x00, 0x00, 0x00, 0x00, 0x00, 0x28, 0x00, 0x00, 0x00, 0x02, 0x00, 0x00, 0x00,
     0x0b, 0x00, 0x00, 0x00, 0x00, 0x00, 0x00, 0x00, 0x01, 0x00, 0x07, 0xf0, 0xdd, 0xbe, 0xdc, 0x00,
     0x10, 0x00, 0x00, 0x00, 0x01, 0x00, 0x00, 0x00, 0x01, 0x00, 0x80, 0xf3, 0x01, 0x00, 0x00, 0x02,
     0x8d, 0x77, 0x7f, 0x38, 0x83, 0x00, 0x00, 0x00, 0x01, 0x00, 0x00, 0x00, 0xf2, 0x5a, 0x80, 0x82,
     0xe8, 0x5f, 0xa1, 0xd7, 0xdd, 0xda, 0x4e, 0x16, 0xd1, 0xbf, 0x1f, 0x00, 0x6b, 0x00, 0x00, 0x00,
     0xf2, 0x51, 0x01, 0x00, 0x21, 0x00, 0x00, 0x00, 0x00, 0x00, 0x00, 0x00, 0x19, 0x00, 0x00, 0x00,
     0x61, 0x72, 0x63, 0x61, 0x6c, 0x5f, 0x64, 0x64, 0x73, 0x3a, 0x3a, 0x4f, 0x70, 0x61, 0x71, 0x75,
     0x65, 0x50, 0x61, 0x79, 0x6c, 0x6f, 0x61, 0x64, 0x00, 0x00, 0x00, 0x00, 0x3b, 0x00, 0x00, 0x00,
     0x02, 0x00, 0x00, 0x00, 0x17, 0x00, 0x00, 0x00, 0x00, 0x00, 0x00, 0x00, 0x01, 0x00, 0x07, 0x00,
     0x09, 0x00, 0x00, 0x00, 0x74, 0x79, 0x70, 0x65, 0x5f, 0x74, 0x61, 0x67, 0x00, 0x00, 0x00, 0x00,
     0x17, 0x00, 0x00, 0x00, 0x01, 0x00, 0x00, 0x00, 0x01, 0x00, 0x80, 0xf3, 0x01, 0x00, 0x00, 0x02,
     0x05, 0x00, 0x00, 0x00, 0x64, 0x61, 0x74, 0x61, 0x00, 0x00, 0x00, 0x00, 0x22, 0x00, 0x00, 0x00,
     0x01, 0x00, 0x00, 0x00, 0xf2, 0x5a, 0x80, 0x82, 0xe8, 0x5f, 0xa1, 0xd7, 0xdd, 0xda, 0x4e, 0x16,
     0xd1, 0xbf, 0x1f, 0xf1, 0x02, 0x3a, 0x7e, 0x26, 0xc5, 0x48, 0x65, 0xde, 0x81, 0x1b, 0x56, 0xdd,
     0x88, 0xef]"

definition type_info_blob :: bytes where
  "type_info_blob = [
     0x60, 0x00, 0x00, 0x00, 0x01, 0x10, 0x00, 0x40, 0x28, 0x00, 0x00, 0x00, 0x24, 0x00, 0x00, 0x00,
     0x14, 0x00, 0x00, 0x00, 0xf1, 0x02, 0x3a, 0x7e, 0x26, 0xc5, 0x48, 0x65, 0xde, 0x81, 0x1b, 0x56,
     0xdd, 0x88, 0xef, 0x00, 0x3c, 0x00, 0x00, 0x00, 0x00, 0x00, 0x00, 0x00, 0x04, 0x00, 0x00, 0x00,
     0x00, 0x00, 0x00, 0x00, 0x02, 0x10, 0x00, 0x40, 0x28, 0x00, 0x00, 0x00, 0x24, 0x00, 0x00, 0x00,
     0x14, 0x00, 0x00, 0x00, 0xf2, 0x5a, 0x80, 0x82, 0xe8, 0x5f, 0xa1, 0xd7, 0xdd, 0xda, 0x4e, 0x16,
     0xd1, 0xbf, 0x1f, 0x00, 0x6f, 0x00, 0x00, 0x00, 0x00, 0x00, 0x00, 0x00, 0x04, 0x00, 0x00, 0x00,
     0x00, 0x00, 0x00, 0x00]"

definition TYPE_INFO_CDR :: bytes where
  "TYPE_INFO_CDR = [
     0x60, 0x00, 0x00, 0x00, 0x01, 0x10, 0x00, 0x40, 0x28, 0x00, 0x00, 0x00, 0x24, 0x00, 0x00, 0x00,
     0x14, 0x00, 0x00, 0x00, 0xf1, 0x02, 0x3a, 0x7e, 0x26, 0xc5, 0x48, 0x65, 0xde, 0x81, 0x1b, 0x56,
     0xdd, 0x88, 0xef, 0x00, 0x3c, 0x00, 0x00, 0x00, 0x00, 0x00, 0x00, 0x00, 0x04, 0x00, 0x00, 0x00,
     0x00, 0x00, 0x00, 0x00, 0x02, 0x10, 0x00, 0x40, 0x28, 0x00, 0x00, 0x00, 0x24, 0x00, 0x00, 0x00,
     0x14, 0x00, 0x00, 0x00, 0xf2, 0x5a, 0x80, 0x82, 0xe8, 0x5f, 0xa1, 0xd7, 0xdd, 0xda, 0x4e, 0x16,
     0xd1, 0xbf, 0x1f, 0x00, 0x6f, 0x00, 0x00, 0x00, 0x00, 0x00, 0x00, 0x00, 0x04, 0x00, 0x00, 0x00,
     0x00, 0x00, 0x00, 0x00]"

definition TYPE_MAP_CDR :: bytes where
  "TYPE_MAP_CDR = [
     0x50, 0x00, 0x00, 0x00, 0x01, 0x00, 0x00, 0x00, 0xf1, 0x02, 0x3a, 0x7e, 0x26, 0xc5, 0x48, 0x65,
     0xde, 0x81, 0x1b, 0x56, 0xdd, 0x88, 0xef, 0x00, 0x38, 0x00, 0x00, 0x00, 0xf1, 0x51, 0x01, 0x00,
     0x01, 0x00, 0x00, 0x00, 0x00, 0x00, 0x00, 0x00, 0x28, 0x00, 0x00, 0x00, 0x02, 0x00, 0x00, 0x00,
     0x0b, 0x00, 0x00, 0x00, 0x00, 0x00, 0x00, 0x00, 0x01, 0x00, 0x07, 0xf0, 0xdd, 0xbe, 0xdc, 0x00,
     0x10, 0x00, 0x00, 0x00, 0x01, 0x00, 0x00, 0x00, 0x01, 0x00, 0x80, 0xf3, 0x01, 0x00, 0x00, 0x02,
     0x8d, 0x77, 0x7f, 0x38, 0x83, 0x00, 0x00, 0x00, 0x01, 0x00, 0x00, 0x00, 0xf2, 0x5a, 0x80, 0x82,
     0xe8, 0x5f, 0xa1, 0xd7, 0xdd, 0xda, 0x4e, 0x16, 0xd1, 0xbf, 0x1f, 0x00, 0x6b, 0x00, 0x00, 0x00,
     0xf2, 0x51, 0x01, 0x00, 0x21, 0x00, 0x00, 0x00, 0x00, 0x00, 0x00, 0x00, 0x19, 0x00, 0x00, 0x00,
     0x61, 0x72, 0x63, 0x61, 0x6c, 0x5f, 0x64, 0x64, 0x73, 0x3a, 0x3a, 0x4f, 0x70, 0x61, 0x71, 0x75,
     0x65, 0x50, 0x61, 0x79, 0x6c, 0x6f, 0x61, 0x64, 0x00, 0x00, 0x00, 0x00, 0x3b, 0x00, 0x00, 0x00,
     0x02, 0x00, 0x00, 0x00, 0x17, 0x00, 0x00, 0x00, 0x00, 0x00, 0x00, 0x00, 0x01, 0x00, 0x07, 0x00,
     0x09, 0x00, 0x00, 0x00, 0x74, 0x79, 0x70, 0x65, 0x5f, 0x74, 0x61, 0x67, 0x00, 0x00, 0x00, 0x00,
     0x17, 0x00, 0x00, 0x00, 0x01, 0x00, 0x00, 0x00, 0x01, 0x00, 0x80, 0xf3, 0x01, 0x00, 0x00, 0x02,
     0x05, 0x00, 0x00, 0x00, 0x64, 0x61, 0x74, 0x61, 0x00, 0x00, 0x00, 0x00, 0x22, 0x00, 0x00, 0x00,
     0x01, 0x00, 0x00, 0x00, 0xf2, 0x5a, 0x80, 0x82, 0xe8, 0x5f, 0xa1, 0xd7, 0xdd, 0xda, 0x4e, 0x16,
     0xd1, 0xbf, 0x1f, 0xf1, 0x02, 0x3a, 0x7e, 0x26, 0xc5, 0x48, 0x65, 0xde, 0x81, 0x1b, 0x56, 0xdd,
     0x88, 0xef]"

definition type_map_blob_sz :: nat where
  "type_map_blob_sz = 258"

definition type_info_blob_sz :: nat where
  "type_info_blob_sz = 100"

record topic_descriptor =
  m_nkeys :: nat
  m_typename :: string
  m_nops :: nat
  m_type_information :: "bytes \<times> nat"
  m_type_mapping :: "bytes \<times> nat"

definition OpaquePayload_desc :: topic_descriptor where
  "OpaquePayload_desc = \<lparr>m_nkeys = 0, m_typename = ''arcal_dds::OpaquePayload'', m_nops = 3,
     m_type_information = (TYPE_INFO_CDR, 100), m_type_mapping = (TYPE_MAP_CDR, 258)\<rparr>"

text \<open>
  A topic of the library and a topic of the monitor have the same type: its name, for which the monitor also
  looks when it discovers topics, and the information that goes with it. The sizes are the sizes, and the
  identifier of the minimal type is the same in both tables.
\<close>

lemma both_sides_have_one_type:
  "m_typename OpaquePayload_desc = getTypeName" "kArcalTypeName = getTypeName"
  "m_type_information OpaquePayload_desc = (type_info_blob, type_info_blob_sz)"
  "m_type_mapping OpaquePayload_desc = (type_map_blob, type_map_blob_sz)"
  by (simp_all add: OpaquePayload_desc_def getTypeName_def kArcalTypeName_def TYPE_INFO_CDR_def TYPE_MAP_CDR_def type_info_blob_def
      type_map_blob_def type_info_blob_sz_def type_map_blob_sz_def)

lemma type_tables_are_whole:
  "length type_map_blob = type_map_blob_sz" "length type_info_blob = type_info_blob_sz"
  "take 14 (drop 20 type_info_blob) = take 14 (drop 8 type_map_blob)"
  by (simp_all add: type_info_blob_def type_map_blob_def type_info_blob_sz_def type_map_blob_sz_def)

section \<open>The table is stable\<close>

text \<open>The marks are all that changes while a table is in use.\<close>

definition marked :: "(nat \<Rightarrow> bool) \<Rightarrow> props_cache \<Rightarrow> props_cache" where
  "marked f c = c\<lparr>props := map (\<lambda>(i, e). e\<lparr>is_present := f i\<rparr>) (enumerate 0 (props c))\<rparr>"

definition unmarked :: "(entity list \<Rightarrow> entity list) \<Rightarrow> bool" where
  "unmarked finish \<longleftrightarrow> (\<forall>es. (\<forall>e \<in> set es. \<not> is_present e) \<longrightarrow> (\<forall>e \<in> set (finish es). \<not> is_present e))"

lemma clear_marks_marked:
  assumes "\<forall>e \<in> set es. \<not> is_present e"
  shows "clear_marks (length es) (map (\<lambda>(i, e). e\<lparr>is_present := f i\<rparr>) (enumerate n es)) = es"
  using assms by (induction es arbitrary: n) (auto simp: clear_marks_def)

lemma get_type_props_stable:
  assumes "unmarked finish"
  shows "get_type_props finish (marked f (get_type_props finish no_props)) = get_type_props finish no_props"
proof -
  have "\<forall>e \<in> set member_table. \<not> is_present e"
    by (simp add: member_table_def entity_properties_t_def)
  with assms have "\<forall>e \<in> set (finish member_table). \<not> is_present e"
    unfolding unmarked_def by blast
  from clear_marks_marked [OF this, of f 0] show ?thesis
    by (simp add: get_type_props_def no_props_def marked_def Let_def)
qed

section \<open>What the library promises\<close>

text \<open>The members are visited in the order of their identifiers when whole samples are streamed.\<close>

definition walks :: "'s cdr_stream \<Rightarrow> entity list \<Rightarrow> bool" where
  "walks L ps \<longleftrightarrow> (\<exists>i j. first_entity L False ps 0 = Some i \<and> m_id (ps ! i) = 0 \<and>
     next_entity L False ps i = Some j \<and> m_id (ps ! j) = 1 \<and> next_entity L False ps j = None)"

text \<open>
  Reading undoes writing. \<open>intact fin s\<close>: the stream \<open>fin\<close> still holds what was written up to \<open>s\<close>; \<open>begun fin s r\<close>: \<open>r\<close>
  reads \<open>fin\<close> and is where the writer was at \<open>s\<close>.
\<close>

definition undoes :: "('s \<Rightarrow> 's \<Rightarrow> bool) \<Rightarrow> ('s \<Rightarrow> 's \<Rightarrow> 's \<Rightarrow> bool) \<Rightarrow> ('s \<Rightarrow> 's option) \<Rightarrow> ('s \<Rightarrow> ('a \<times> 's) option) \<Rightarrow> 'a \<Rightarrow> bool" where
  "undoes intact begun w r v \<longleftrightarrow> (\<forall>s s' fin. w s = Some s' \<longrightarrow> intact fin s' \<longrightarrow> intact fin s \<and>
     (\<forall>x. begun fin s x \<longrightarrow> (\<exists>x'. r x = Some (v, x') \<and> begun fin s' x')))"

definition bracket :: "('s \<Rightarrow> 's option) \<Rightarrow> 's \<Rightarrow> (unit \<times> 's) option" where
  "bracket f s = map_option (Pair ()) (f s)"

definition reads_back :: "'s cdr_stream \<Rightarrow> ('s \<Rightarrow> 's \<Rightarrow> bool) \<Rightarrow> ('s \<Rightarrow> 's \<Rightarrow> 's \<Rightarrow> bool) \<Rightarrow> bool" where
  "reads_back L intact begun \<longleftrightarrow>
     (\<forall>f \<in> range (start_struct L) \<union> range (finish_struct L) \<union> range (start_member L) \<union> range (finish_member L) \<union>
        {start_consecutive L False True, finish_consecutive L}. undoes intact begun f (bracket f) ()) \<and>
     (\<forall>fin s r. begun fin s r \<longrightarrow> begun fin (set_mode L ModeWrite False s) (set_mode L ModeRead False r)) \<and>
     (\<forall>v. undoes intact begun (write_u32 L v) (read_u32 L) v) \<and>
     (\<forall>d. d \<noteq> [] \<longrightarrow> undoes intact begun (write_octets L d) (read_octets L (length d)) d)"

text \<open>
  The size that \<open>move\<close> finds is enough. \<open>at\<close> is the position of a stream and \<open>room\<close> the octets it has; a
  writer at the same position with room up to where the move ends does not fail and ends there.
\<close>

definition foretells :: "('s \<Rightarrow> nat) \<Rightarrow> ('s \<Rightarrow> nat) \<Rightarrow> ('s \<Rightarrow> 's option) \<Rightarrow> ('s \<Rightarrow> 's option) \<Rightarrow> bool" where
  "foretells at_pos room mv w \<longleftrightarrow> (\<forall>m m' s. mv m = Some m' \<longrightarrow> at_pos m \<le> at_pos m' \<and>
     (at_pos s = at_pos m \<longrightarrow> at_pos m' \<le> room s \<longrightarrow> (\<exists>s'. w s = Some s' \<and> at_pos s' = at_pos m' \<and> room s' = room s)))"

definition sizes :: "'s cdr_stream \<Rightarrow> ('s \<Rightarrow> nat) \<Rightarrow> ('s \<Rightarrow> nat) \<Rightarrow> bool" where
  "sizes L at_pos room \<longleftrightarrow>
     (\<forall>f \<in> range (start_struct L) \<union> range (finish_struct L) \<union> range (start_member L) \<union> range (finish_member L) \<union>
        {start_consecutive L False True, finish_consecutive L}. foretells at_pos room f f) \<and>
     (\<forall>k key s. at_pos (set_mode L k key s) = at_pos s \<and> room (set_mode L k key s) = room s) \<and>
     (\<forall>v. foretells at_pos room (move_u32 L v) (write_u32 L v)) \<and>
     (\<forall>d. d \<noteq> [] \<longrightarrow> foretells at_pos room (move_octets L (length d)) (write_octets L d))"

section \<open>The four functions under these laws\<close>

text \<open>A function between two brackets.\<close>

definition between :: "('s \<Rightarrow> 's option) \<Rightarrow> ('s \<Rightarrow> 's option) \<Rightarrow> (opaque_payload \<times> 's \<Rightarrow> (opaque_payload \<times> 's) option) \<Rightarrow>
    opaque_payload \<times> 's \<Rightarrow> (opaque_payload \<times> 's) option" where
  "between f g m x = do { s \<leftarrow> f (snd x); (p, s) \<leftarrow> m (fst x, s); s \<leftarrow> g s; Some (p, s) }"

lemma between_brackets:
  "in_member L e = between (start_member L e) (finish_member L e)"
  "in_sequence L = between (start_consecutive L False True) (finish_consecutive L)"
  by (auto simp: fun_eq_iff in_member_def in_sequence_def between_def)

lemma stream_struct_walks:
  assumes "walks L ps"
  obtains i j where "m_id (ps ! i) = 0" "m_id (ps ! j) = 1"
    "\<And>f x. stream_struct L False ps f x =
      Some (between (start_struct L (ps ! 0)) (finish_struct L (ps ! 0)) (\<lambda>y. Option.bind (f (ps ! i) y) (f (ps ! j))) x)"
proof -
  obtain i j where ij: "first_entity L False ps 0 = Some i" "m_id (ps ! i) = 0" "next_entity L False ps i = Some j"
      "m_id (ps ! j) = 1" "next_entity L False ps j = None"
    using assms unfolding walks_def by blast
  have "stream_struct L False ps f x =
      Some (between (start_struct L (ps ! 0)) (finish_struct L (ps ! 0)) (\<lambda>y. Option.bind (f (ps ! i) y) (f (ps ! j))) x)" for f x
    by (cases "start_struct L (ps ! 0) (snd x)")
      (auto simp: stream_struct_def between_def ij members_loop.simps map_option_case split: option.splits)
  with ij that show thesis by blast
qed

text \<open>The same relations for functions on an instance and a stream; \<open>u\<close> is what reading does to the instance.\<close>

definition reloads ::
    "('s \<Rightarrow> 's \<Rightarrow> bool) \<Rightarrow> ('s \<Rightarrow> 's \<Rightarrow> 's \<Rightarrow> bool) \<Rightarrow> opaque_payload \<Rightarrow>
      (opaque_payload \<times> 's \<Rightarrow> (opaque_payload \<times> 's) option) \<Rightarrow> (opaque_payload \<times> 's \<Rightarrow> (opaque_payload \<times> 's) option) \<Rightarrow>
      (opaque_payload \<Rightarrow> opaque_payload) \<Rightarrow> bool" where
  "reloads intact begun p w r u \<longleftrightarrow> (\<forall>s y. w (p, s) = Some y \<longrightarrow> fst y = p \<and> (\<forall>fin. intact fin (snd y) \<longrightarrow> intact fin s \<and>
     (\<forall>q x. begun fin s x \<longrightarrow> (\<exists>x'. r (q, x) = Some (u q, x') \<and> begun fin (snd y) x'))))"

lemma reloadsI:
  assumes "\<And>s y. w (p, s) = Some y \<Longrightarrow> fst y = p"
    and "\<And>s y fin. w (p, s) = Some y \<Longrightarrow> intact fin (snd y) \<Longrightarrow> intact fin s"
    and "\<And>s y fin q x. w (p, s) = Some y \<Longrightarrow> intact fin (snd y) \<Longrightarrow> begun fin s x \<Longrightarrow>
      \<exists>x'. r (q, x) = Some (u q, x') \<and> begun fin (snd y) x'"
  shows "reloads intact begun p w r u"
  using assms by (auto simp: reloads_def)

lemma undoesD:
  assumes "undoes intact begun w r v" "w s = Some s'" "intact fin s'"
  shows "intact fin s" "begun fin s x \<Longrightarrow> \<exists>x'. r x = Some (v, x') \<and> begun fin s' x'"
  using assms by (auto simp: undoes_def)

lemma reloadsD:
  assumes "reloads intact begun p w r u" "w (p, s) = Some y"
  shows "fst y = p" "intact fin (snd y) \<Longrightarrow> intact fin s"
    "intact fin (snd y) \<Longrightarrow> begun fin s x \<Longrightarrow> \<exists>x'. r (q, x) = Some (u q, x') \<and> begun fin (snd y) x'"
  using assms by (cases y; auto simp: reloads_def)+

lemma reloads_between:
  assumes f: "undoes intact begun f (bracket f) ()" and g: "undoes intact begun g (bracket g) ()" and m: "reloads intact begun p w r u"
  shows "reloads intact begun p (between f g w) (between f g r) u"
proof -
  have parts: "\<exists>s1 s2. f s = Some s1 \<and> w (p, s1) = Some (p, s2) \<and> g s2 = Some (snd y) \<and> fst y = p"
    if "between f g w (p, s) = Some y" for s y
    using that reloadsD(1) [OF m] by (fastforce simp: between_def bind_eq_Some_conv)
  show ?thesis
  proof (rule reloadsI, goal_cases)
    case (1 s y) then show ?case using parts by blast
  next
    case (2 s y fin)
    from parts [OF 2(1)] obtain s1 s2 where c: "f s = Some s1" "w (p, s1) = Some (p, s2)" "g s2 = Some (snd y)" by blast
    from undoesD(1) [OF g c(3) 2(2)] reloadsD(2) [OF m c(2)] undoesD(1) [OF f c(1)] show ?case by simp
  next
    case (3 s y fin q x)
    from parts [OF 3(1)] obtain s1 s2 where c: "f s = Some s1" "w (p, s1) = Some (p, s2)" "g s2 = Some (snd y)" by blast
    have k2: "intact fin s2" by (rule undoesD(1) [OF g c(3) 3(2)])
    with reloadsD(2) [OF m c(2), of fin] have k1: "intact fin s1" by simp
    obtain x1 where 1: "f x = Some x1" "begun fin s1 x1"
      using undoesD(2) [OF f c(1) k1 3(3)] by (auto simp: bracket_def)
    obtain x2 where 2: "r (q, x1) = Some (u q, x2)" "begun fin s2 x2"
      using reloadsD(3) [OF m c(2), of fin x1 q] k2 1(2) by auto
    obtain x3 where "g x2 = Some x3" "begun fin (snd y) x3"
      using undoesD(2) [OF g c(3) 3(2) 2(2)] by (auto simp: bracket_def)
    with 1 2 show ?case by (simp add: between_def)
  qed
qed

lemma reloads_tag:
  assumes "undoes intact begun (write_u32 L (op_tag p)) (read_u32 L) (op_tag p)"
  shows "reloads intact begun p (\<lambda>(p, s). do { s \<leftarrow> write_u32 L (op_tag p) s; Some (p, s) })
    (\<lambda>(p, s). do { (t, s) \<leftarrow> read_u32 L s; Some (p\<lparr>op_tag := t\<rparr>, s) }) (\<lambda>q. q\<lparr>op_tag := op_tag p\<rparr>)"
proof (rule reloadsI, goal_cases)
  case (3 s y fin q x)
  then obtain s' where y: "write_u32 L (op_tag p) s = Some s'" "y = (p, s')" by (auto simp: bind_eq_Some_conv)
  with 3(2) undoesD(2) [OF assms y(1) _ 3(3)] obtain x' where "read_u32 L x = Some (op_tag p, x')" "begun fin s' x'" by auto
  with y show ?case by simp
qed (use assms in \<open>auto simp: bind_eq_Some_conv undoes_def\<close>)

text \<open>A sequence keeps as many octets as its length has modulo \<open>2^32\<close>.\<close>

definition wired :: "opaque_payload \<Rightarrow> opaque_payload" where
  "wired p = p\<lparr>op_data := take (length (op_data p) mod 2 ^ 32) (op_data p)\<rparr>"

lemma unat_length: "unat (of_nat n :: u32) = n mod 2 ^ 32"
  by (simp add: unat_of_nat)

lemma reloads_data:
  assumes w: "\<And>v. undoes intact begun (write_u32 L v) (read_u32 L) v"
    and d: "\<And>d. d \<noteq> [] \<Longrightarrow> undoes intact begun (write_octets L d) (read_octets L (length d)) d"
  shows "reloads intact begun p
    (\<lambda>(p, s). let se_1 = of_nat (length (op_data p)) :: u32 in do {
       s \<leftarrow> write_u32 L se_1 s;
       s \<leftarrow> (if 0 < se_1 then write_octets L (take (unat se_1) (op_data p)) s else Some s);
       Some (p, s) })
    (\<lambda>(p, s). do {
       (se_1, s) \<leftarrow> read_u32 L s;
       (if 0 < se_1 then do { (d, s) \<leftarrow> read_octets L (unat se_1) s; Some (p\<lparr>op_data := d\<rparr>, s) }
        else Some (p\<lparr>op_data := []\<rparr>, s)) })
    (\<lambda>q. q\<lparr>op_data := op_data (wired p)\<rparr>)"
proof -
  define n where "n = (of_nat (length (op_data p)) :: u32)"
  define ds where "ds = take (unat n) (op_data p)"
  have ds: "op_data (wired p) = ds" by (simp add: wired_def ds_def n_def unat_length)
  have len: "length ds = unat n" by (simp add: ds_def n_def unat_length)
  show ?thesis
  proof (cases "0 < n")
    case False
    then have "ds = []" using len by (simp add: word_gt_0)
    have "reloads intact begun p (\<lambda>(p, s). do { s \<leftarrow> write_u32 L n s; Some (p, s) })
      (\<lambda>(p, s). do { (se_1, s) \<leftarrow> read_u32 L s;
         (if 0 < se_1 then do { (d, s) \<leftarrow> read_octets L (unat se_1) s; Some (p\<lparr>op_data := d\<rparr>, s) }
          else Some (p\<lparr>op_data := []\<rparr>, s)) }) (\<lambda>q. q\<lparr>op_data := []\<rparr>)"
    proof (rule reloadsI, goal_cases)
      case (3 s y fin q x)
      then obtain s' where y: "write_u32 L n s = Some s'" "y = (p, s')" by (auto simp: bind_eq_Some_conv)
      with 3(2) undoesD(2) [OF w y(1) _ 3(3)] obtain x' where "read_u32 L x = Some (n, x')" "begun fin s' x'" by auto
      with y False show ?case by simp
    qed (use w [of n] in \<open>auto simp: bind_eq_Some_conv undoes_def\<close>)
    with False \<open>ds = []\<close> show ?thesis
      unfolding reloads_def ds by (simp add: Let_def n_def)
  next
    case True
    then have "ds \<noteq> []" using len by (auto simp: word_gt_0 unat_eq_0)
    from d [OF this] True w [of n] show ?thesis
      unfolding ds
      by (intro reloadsI) (fastforce simp: bind_eq_Some_conv undoes_def Let_def n_def [symmetric] ds_def [symmetric] len)+
  qed
qed

lemma reloads_bind:
  assumes 1: "reloads intact begun p w1 r1 u1" and 2: "reloads intact begun p w2 r2 u2"
  shows "reloads intact begun p (\<lambda>x. Option.bind (w1 x) w2) (\<lambda>x. Option.bind (r1 x) r2) (\<lambda>q. u2 (u1 q))"
proof -
  have parts: "\<exists>s1. w1 (p, s) = Some (p, s1) \<and> w2 (p, s1) = Some y" if "Option.bind (w1 (p, s)) w2 = Some y" for s y
    using that reloadsD(1) [OF 1] by (fastforce simp: bind_eq_Some_conv)
  show ?thesis
  proof (rule reloadsI, goal_cases)
    case (1 s y) then show ?case using parts reloadsD(1) [OF 2] by blast
  next
    case (2 s y fin)
    with parts obtain s1 where c: "w1 (p, s) = Some (p, s1)" "w2 (p, s1) = Some y" by blast
    with reloadsD(2) [OF assms(2) c(2) 2(2)] reloadsD(2) [OF assms(1) c(1), of fin] show ?case by simp
  next
    case (3 s y fin q x)
    with parts obtain s1 where c: "w1 (p, s) = Some (p, s1)" "w2 (p, s1) = Some y" by blast
    have "intact fin s1" by (rule reloadsD(2) [OF assms(2) c(2) 3(2)])
    with reloadsD(3) [OF assms(1) c(1), of fin x q] 3(3) obtain x1 where "r1 (q, x) = Some (u1 q, x1)" "begun fin s1 x1" by auto
    with reloadsD(3) [OF assms(2) c(2) 3(2), of x1 "u1 q"] show ?case by auto
  qed
qed

lemma reloads_struct:
  assumes "reads_back L intact begun" "m_id e0 = 0" "m_id e1 = 1"
  shows "reloads intact begun p
    (between (start_struct L r) (finish_struct L r) (\<lambda>y. Option.bind (write_member L e0 y) (write_member L e1)))
    (between (start_struct L r) (finish_struct L r) (\<lambda>y. Option.bind (read_member L e0 y) (read_member L e1)))
    (\<lambda>_. wired p)"
proof -
  have br: "undoes intact begun (start_struct L e) (bracket (start_struct L e)) ()"
      "undoes intact begun (finish_struct L e) (bracket (finish_struct L e)) ()"
      "undoes intact begun (start_member L e) (bracket (start_member L e)) ()"
      "undoes intact begun (finish_member L e) (bracket (finish_member L e)) ()"
      "undoes intact begun (start_consecutive L False True) (bracket (start_consecutive L False True)) ()"
      "undoes intact begun (finish_consecutive L) (bracket (finish_consecutive L)) ()" for e
    using assms(1) unfolding reads_back_def by blast+
  have u: "undoes intact begun (write_u32 L v) (read_u32 L) v" for v
    using assms(1) by (simp add: reads_back_def)
  have d: "undoes intact begun (write_octets L ds) (read_octets L (length ds)) ds" if "ds \<noteq> []" for ds
    using assms(1) that by (simp add: reads_back_def)
  have "reloads intact begun p (write_member L e0) (read_member L e0) (\<lambda>q. q\<lparr>op_tag := op_tag p\<rparr>)"
    using assms(2) reloads_between [OF br(3,4) reloads_tag [OF u]] by (simp add: write_member_def read_member_def between_brackets)
  moreover have "reloads intact begun p (write_member L e1) (read_member L e1) (\<lambda>q. q\<lparr>op_data := op_data (wired p)\<rparr>)"
    using assms(3) reloads_between [OF br(3,4) reloads_between [OF br(5,6) reloads_data [OF u d]]]
    by (simp add: write_member_def read_member_def between_brackets)
  ultimately have "reloads intact begun p (\<lambda>y. Option.bind (write_member L e0 y) (write_member L e1))
      (\<lambda>y. Option.bind (read_member L e0 y) (read_member L e1)) (\<lambda>q. (q\<lparr>op_tag := op_tag p\<rparr>)\<lparr>op_data := op_data (wired p)\<rparr>)"
    by (rule reloads_bind)
  moreover have "(q\<lparr>op_tag := op_tag p\<rparr>)\<lparr>op_data := op_data (wired p)\<rparr> = wired p" for q :: opaque_payload
    by (simp add: wired_def)
  ultimately show ?thesis by (intro reloads_between [OF br(1,2)]) simp
qed

text \<open>The reader's instance may hold anything, and its thread has a table of its own, with the same entries.\<close>

lemma payload_round_trip:
  assumes "walks L (props (get_type_props finish c))" and "props (get_type_props finish d) = props (get_type_props finish c)"
    and "reads_back L intact begun"
    and "payload_write L finish c False p s = Some (Some (p', s'))" and "intact fin s'" and "begun fin s r"
  shows "\<exists>r'. payload_read L finish d False q r = Some (Some (wired p, r')) \<and> begun fin s' r'"
proof -
  let ?ps = "props (get_type_props finish c)"
  obtain i j where ij: "m_id (?ps ! i) = 0" "m_id (?ps ! j) = 1"
    "\<And>f x. stream_struct L False ?ps f x =
      Some (between (start_struct L (?ps ! 0)) (finish_struct L (?ps ! 0)) (\<lambda>y. Option.bind (f (?ps ! i) y) (f (?ps ! j))) x)"
    by (rule stream_struct_walks [OF assms(1)]) blast
  note R = reloads_struct [OF assms(3) ij(1,2), of p "?ps ! 0"]
  have "between (start_struct L (?ps ! 0)) (finish_struct L (?ps ! 0))
      (\<lambda>y. Option.bind (write_member L (?ps ! i) y) (write_member L (?ps ! j))) (p, set_mode L ModeWrite False s) = Some (p', s')"
    using assms(4) by (simp add: payload_write_def ij(3))
  moreover have "begun fin (set_mode L ModeWrite False s) (set_mode L ModeRead False r)"
    using assms(3,6) by (simp add: reads_back_def)
  ultimately show ?thesis using reloadsD(3) [OF R, of _ _ fin "set_mode L ModeRead False r" q] assms(5)
    by (auto simp: payload_read_def assms(2) ij(3))
qed

text \<open>So a payload comes through whole exactly when its length fits the 32 bits of the sequence length.\<close>

lemma wired_iff: "wired p = p \<longleftrightarrow> length (op_data p) < 2 ^ 32"
proof
  assume "wired p = p"
  then have "length (take (length (op_data p) mod 2 ^ 32) (op_data p)) = length (op_data p)"
    by (metis wired_def opaque_payload.select_convs(2) opaque_payload.surjective opaque_payload.update_convs(2))
  then have "length (op_data p) \<le> length (op_data p) mod 2 ^ 32" by simp
  then show "length (op_data p) < 2 ^ 32" by (meson le_less_trans mod_less_divisor zero_less_numeral zero_less_power)
qed (simp add: wired_def)

section \<open>The size of a payload\<close>

definition provides :: "('s \<Rightarrow> nat) \<Rightarrow> ('s \<Rightarrow> nat) \<Rightarrow> opaque_payload \<Rightarrow> (opaque_payload \<times> 's \<Rightarrow> (opaque_payload \<times> 's) option) \<Rightarrow>
    (opaque_payload \<times> 's \<Rightarrow> (opaque_payload \<times> 's) option) \<Rightarrow> bool" where
  "provides at_pos room p mv w \<longleftrightarrow> (\<forall>m q m' s. mv (p, m) = Some (q, m') \<longrightarrow> q = p \<and> at_pos m \<le> at_pos m' \<and>
     (at_pos s = at_pos m \<longrightarrow> at_pos m' \<le> room s \<longrightarrow>
       (\<exists>s'. w (p, s) = Some (p, s') \<and> at_pos s' = at_pos m' \<and> room s' = room s)))"

lemma foretellsD:
  assumes "foretells at_pos room mv w" "mv m = Some m'"
  shows "at_pos m \<le> at_pos m'"
    "at_pos s = at_pos m \<Longrightarrow> at_pos m' \<le> room s \<Longrightarrow> \<exists>s'. w s = Some s' \<and> at_pos s' = at_pos m' \<and> room s' = room s"
  using assms by (auto simp: foretells_def)

lemma providesD:
  assumes "provides at_pos room p mv w" "mv (p, m) = Some (q, m')"
  shows "q = p" "at_pos m \<le> at_pos m'"
    "at_pos s = at_pos m \<Longrightarrow> at_pos m' \<le> room s \<Longrightarrow> \<exists>s'. w (p, s) = Some (p, s') \<and> at_pos s' = at_pos m' \<and> room s' = room s"
  using assms by (auto simp: provides_def)

lemma provides_between:
  assumes f: "foretells at_pos room f f" and g: "foretells at_pos room g g" and m: "provides at_pos room p mv w"
  shows "provides at_pos room p (between f g mv) (between f g w)"
  unfolding provides_def
proof (intro allI impI)
  fix m q m' s assume "between f g mv (p, m) = Some (q, m')"
  then obtain m1 q' m2 where c: "f m = Some m1" "mv (p, m1) = Some (q', m2)" "g m2 = Some m'" "q = q'"
    by (auto simp: between_def bind_eq_Some_conv)
  note le = foretellsD(1) [OF f c(1)] providesD(2) [OF m c(2)] foretellsD(1) [OF g c(3)]
  have "\<exists>s'. between f g w (p, s) = Some (p, s') \<and> at_pos s' = at_pos m' \<and> room s' = room s"
    if s: "at_pos s = at_pos m" "at_pos m' \<le> room s"
  proof -
    obtain s1 where 1: "f s = Some s1" "at_pos s1 = at_pos m1" "room s1 = room s"
      using foretellsD(2) [OF f c(1) s(1)] le s(2) by auto
    obtain s2 where 2: "w (p, s1) = Some (p, s2)" "at_pos s2 = at_pos m2" "room s2 = room s"
      using providesD(3) [OF m c(2) 1(2)] 1(3) le s(2) by auto
    obtain s3 where "g s2 = Some s3" "at_pos s3 = at_pos m'" "room s3 = room s"
      using foretellsD(2) [OF g c(3) 2(2)] 2(3) s(2) by auto
    with 1 2 show ?thesis by (simp add: between_def)
  qed
  with le c(4) providesD(1) [OF m c(2)] show "q = p \<and> at_pos m \<le> at_pos m' \<and> (at_pos s = at_pos m \<longrightarrow> at_pos m' \<le> room s \<longrightarrow>
      (\<exists>s'. between f g w (p, s) = Some (p, s') \<and> at_pos s' = at_pos m' \<and> room s' = room s))"
    by auto
qed

lemma provides_bind:
  assumes 1: "provides at_pos room p mv1 w1" and 2: "provides at_pos room p mv2 w2"
  shows "provides at_pos room p (\<lambda>x. Option.bind (mv1 x) mv2) (\<lambda>x. Option.bind (w1 x) w2)"
  unfolding provides_def
proof (intro allI impI)
  fix m q m' s assume "Option.bind (mv1 (p, m)) mv2 = Some (q, m')"
  then obtain m1 where c: "mv1 (p, m) = Some (p, m1)" "mv2 (p, m1) = Some (q, m')"
    using providesD(1) [OF 1] by (fastforce simp: bind_eq_Some_conv)
  note le = providesD(2) [OF 1 c(1)] providesD(2) [OF 2 c(2)]
  have "\<exists>s'. Option.bind (w1 (p, s)) w2 = Some (p, s') \<and> at_pos s' = at_pos m' \<and> room s' = room s"
    if s: "at_pos s = at_pos m" "at_pos m' \<le> room s"
  proof -
    obtain s1 where "w1 (p, s) = Some (p, s1)" "at_pos s1 = at_pos m1" "room s1 = room s"
      using providesD(3) [OF 1 c(1) s(1)] le s(2) by auto
    then show ?thesis using providesD(3) [OF 2 c(2), of s1] s(2) by auto
  qed
  with le providesD(1) [OF 2 c(2)] show "q = p \<and> at_pos m \<le> at_pos m' \<and> (at_pos s = at_pos m \<longrightarrow> at_pos m' \<le> room s \<longrightarrow>
      (\<exists>s'. Option.bind (w1 (p, s)) w2 = Some (p, s') \<and> at_pos s' = at_pos m' \<and> room s' = room s))"
    by auto
qed

lemma provides_stream: "foretells at_pos room mv w \<Longrightarrow>
    provides at_pos room p (\<lambda>(p, s). do { s \<leftarrow> mv s; Some (p, s) }) (\<lambda>(p, s). do { s \<leftarrow> w s; Some (p, s) })"
  by (fastforce simp: provides_def foretells_def bind_eq_Some_conv)

lemma provides_data:
  assumes u: "foretells at_pos room (move_u32 L (of_nat (length (op_data p)))) (write_u32 L (of_nat (length (op_data p))))"
    and d: "\<And>d. d \<noteq> [] \<Longrightarrow> foretells at_pos room (move_octets L (length d)) (write_octets L d)"
  shows "provides at_pos room p
    (\<lambda>(p, s). let se_1 = of_nat (length (op_data p)) :: u32 in do {
       s \<leftarrow> move_u32 L se_1 s;
       s \<leftarrow> (if 0 < se_1 then move_octets L (unat se_1) s else Some s);
       Some (p, s) })
    (\<lambda>(p, s). let se_1 = of_nat (length (op_data p)) :: u32 in do {
       s \<leftarrow> write_u32 L se_1 s;
       s \<leftarrow> (if 0 < se_1 then write_octets L (take (unat se_1) (op_data p)) s else Some s);
       Some (p, s) })"
proof -
  define n where "n = (of_nat (length (op_data p)) :: u32)"
  define ds where "ds = take (unat n) (op_data p)"
  have len: "length ds = unat n" by (simp add: ds_def n_def unat_length)
  have "foretells at_pos room (\<lambda>s. if 0 < n then move_octets L (unat n) s else Some s)
      (\<lambda>s. if 0 < n then write_octets L ds s else Some s)"
  proof (cases "0 < n")
    case True
    then have "ds \<noteq> []" using len by (auto simp: word_gt_0 unat_eq_0)
    with d [OF this] True len show ?thesis by simp
  qed (simp add: foretells_def)
  from provides_bind [OF provides_stream [OF u] provides_stream [OF this], of p] show ?thesis
    unfolding provides_def Let_def ds_def n_def by (simp del: unat_of_nat)
qed

lemma provides_struct:
  assumes "sizes L at_pos room" "m_id e0 = 0" "m_id e1 = 1"
  shows "provides at_pos room p
    (between (start_struct L r) (finish_struct L r) (\<lambda>y. Option.bind (move_member L e0 y) (move_member L e1)))
    (between (start_struct L r) (finish_struct L r) (\<lambda>y. Option.bind (write_member L e0 y) (write_member L e1)))"
proof -
  have br: "foretells at_pos room (start_struct L e) (start_struct L e)" "foretells at_pos room (finish_struct L e) (finish_struct L e)"
      "foretells at_pos room (start_member L e) (start_member L e)" "foretells at_pos room (finish_member L e) (finish_member L e)"
      "foretells at_pos room (start_consecutive L False True) (start_consecutive L False True)"
      "foretells at_pos room (finish_consecutive L) (finish_consecutive L)" for e
    using assms(1) unfolding sizes_def by blast+
  have u: "foretells at_pos room (move_u32 L v) (write_u32 L v)" for v
    using assms(1) by (simp add: sizes_def)
  have d: "foretells at_pos room (move_octets L (length ds)) (write_octets L ds)" if "ds \<noteq> []" for ds
    using assms(1) that by (simp add: sizes_def)
  have t: "provides at_pos room p (\<lambda>(p, s). do { s \<leftarrow> move_u32 L (op_tag p) s; Some (p, s) })
      (\<lambda>(p, s). do { s \<leftarrow> write_u32 L (op_tag p) s; Some (p, s) })"
    using provides_stream [OF u [of "op_tag p"], of p] by (simp add: provides_def)
  have "provides at_pos room p (move_member L e0) (write_member L e0)"
    using assms(2) provides_between [OF br(3,4) t] by (simp add: write_member_def move_member_def between_brackets)
  moreover have "provides at_pos room p (move_member L e1) (write_member L e1)"
    using assms(3) provides_between [OF br(3,4) provides_between [OF br(5,6) provides_data [OF u d]]]
    by (simp add: write_member_def move_member_def between_brackets)
  ultimately show ?thesis by (intro provides_between [OF br(1,2)] provides_bind)
qed

lemma payload_fits:
  assumes "walks L (props (get_type_props finish c))" and "sizes L at_pos room"
    and "payload_move L finish c False p m = Some (Some (p', m'))" and "at_pos s = at_pos m" and "at_pos m' \<le> room s"
  shows "\<exists>s'. payload_write L finish c False p s = Some (Some (p, s')) \<and> at_pos s' = at_pos m'"
proof -
  let ?ps = "props (get_type_props finish c)"
  obtain i j where ij: "m_id (?ps ! i) = 0" "m_id (?ps ! j) = 1"
    "\<And>f x. stream_struct L False ?ps f x =
      Some (between (start_struct L (?ps ! 0)) (finish_struct L (?ps ! 0)) (\<lambda>y. Option.bind (f (?ps ! i) y) (f (?ps ! j))) x)"
    by (rule stream_struct_walks [OF assms(1)]) blast
  note P = provides_struct [OF assms(2) ij(1,2), of p "?ps ! 0"]
  have "between (start_struct L (?ps ! 0)) (finish_struct L (?ps ! 0))
      (\<lambda>y. Option.bind (move_member L (?ps ! i) y) (move_member L (?ps ! j))) (p, set_mode L ModeMove False m) = Some (p', m')"
    using assms(3) by (simp add: payload_move_def ij(3))
  moreover have "at_pos (set_mode L ModeWrite False s) = at_pos (set_mode L ModeMove False m)" "room (set_mode L ModeWrite False s) = room s"
    using assms(2,4) by (simp_all add: sizes_def)
  ultimately show ?thesis using providesD(3) [OF P] assms(5) by (fastforce simp: payload_write_def ij(3))
qed

section \<open>A plain stream\<close>

text \<open>A stream that keeps the promises: CDR in a buffer of fixed size, a long at a multiple of four, nothing between the parts.\<close>

record wire =
  wire_octets :: bytes
  wire_pos :: nat

definition wire_align :: "wire \<Rightarrow> wire" where
  "wire_align w = w\<lparr>wire_pos := align_off (wire_pos w) 4\<rparr>"

definition wire_skip :: "nat \<Rightarrow> wire \<Rightarrow> wire option" where
  "wire_skip n w = Some (w\<lparr>wire_pos := wire_pos w + n\<rparr>)"

definition wire_put :: "bytes \<Rightarrow> wire \<Rightarrow> wire option" where
  "wire_put bs w =
     (let e = wire_pos w + length bs in
      if e \<le> length (wire_octets w)
      then Some \<lparr>wire_octets = take (wire_pos w) (wire_octets w) @ bs @ drop e (wire_octets w), wire_pos = e\<rparr> else None)"

definition wire_get :: "nat \<Rightarrow> wire \<Rightarrow> (bytes \<times> wire) option" where
  "wire_get n w =
     (let e = wire_pos w + n in
      if e \<le> length (wire_octets w) then Some (take n (drop (wire_pos w) (wire_octets w)), w\<lparr>wire_pos := e\<rparr>) else None)"

definition plain_stream :: "wire cdr_stream" where
  "plain_stream = \<lparr>set_mode = \<lambda>_ _ s. s, start_struct = \<lambda>_. Some, finish_struct = \<lambda>_. Some,
     first_entity = \<lambda>key ps i. if key then None else Some (i + 1),
     next_entity = \<lambda>key ps i. if i + 1 < length ps then Some (i + 1) else None,
     start_member = \<lambda>_. Some, finish_member = \<lambda>_. Some, start_consecutive = \<lambda>_ _. Some, finish_consecutive = Some,
     write_u32 = \<lambda>v w. wire_put (be_octets 4 v) (wire_align w), write_octets = wire_put,
     read_u32 = \<lambda>w. map_option (\<lambda>(bs, w). (be_word bs, w)) (wire_get 4 (wire_align w)), read_octets = wire_get,
     move_u32 = \<lambda>_ w. wire_skip 4 (wire_align w), move_octets = wire_skip,
     max_u32 = \<lambda>_ w. wire_skip 4 (wire_align w), max_octets = wire_skip, position_max = wire_pos_update (\<lambda>_. 2 ^ 64 - 1)\<rparr>"

definition wire_intact :: "wire \<Rightarrow> wire \<Rightarrow> bool" where
  "wire_intact fin s \<longleftrightarrow> take (wire_pos s) (wire_octets fin) = take (wire_pos s) (wire_octets s)"

definition wire_begun :: "wire \<Rightarrow> wire \<Rightarrow> wire \<Rightarrow> bool" where
  "wire_begun fin s r \<longleftrightarrow> r = \<lparr>wire_octets = wire_octets fin, wire_pos = wire_pos s\<rparr>"

lemma undoes_put: "undoes wire_intact wire_begun (wire_put bs) (wire_get (length bs)) bs"
proof -
  have "wire_intact fin s \<and> wire_get (length bs) \<lparr>wire_octets = wire_octets fin, wire_pos = wire_pos s\<rparr> =
      Some (bs, \<lparr>wire_octets = wire_octets fin, wire_pos = wire_pos s'\<rparr>)"
    if put: "wire_put bs s = Some s'" and fin: "wire_intact fin s'" for s s' fin
  proof -
    let ?p = "wire_pos s" and ?o = "wire_octets s" and ?f = "wire_octets fin"
    have le: "?p + length bs \<le> length ?o" and s': "wire_pos s' = ?p + length bs" "wire_octets s' = take ?p ?o @ bs @ drop (?p + length bs) ?o"
      using put by (auto simp: wire_put_def Let_def split: if_splits)
    have f: "take (?p + length bs) ?f = take ?p ?o @ bs"
      using fin le by (simp add: wire_intact_def s')
    from arg_cong [OF f, of length] le have "?p + length bs \<le> length ?f" by simp
    moreover from arg_cong [OF f, of "take ?p"] le have "take ?p ?f = take ?p ?o" by (simp add: min_def)
    moreover from arg_cong [OF f, of "drop ?p"] le have "take (length bs) (drop ?p ?f) = bs" by (simp add: drop_take)
    ultimately show ?thesis by (simp add: wire_get_def wire_intact_def s')
  qed
  then show ?thesis by (auto simp: undoes_def wire_begun_def)
qed

lemma undoes_align:
  assumes "undoes wire_intact wire_begun f g v"
  shows "undoes wire_intact wire_begun (\<lambda>w. f (wire_align w)) (\<lambda>w. g (wire_align w)) v"
proof -
  have unalign: "wire_intact fin s" if "wire_intact fin (wire_align s)" for fin s
  proof -
    let ?p = "wire_pos s" and ?q = "align_off (wire_pos s) 4"
    from that have "take ?p (take ?q (wire_octets fin)) = take ?p (take ?q (wire_octets s))"
      by (simp add: wire_intact_def wire_align_def)
    with align_off_ge [of ?p 4] show ?thesis by (simp add: wire_intact_def min_def)
  qed
  show ?thesis
    unfolding undoes_def
  proof (intro allI impI conjI)
    fix s s' fin assume w: "f (wire_align s) = Some s'" and fin: "wire_intact fin s'"
    from undoesD(1) [OF assms w fin] show "wire_intact fin s" by (rule unalign)
    fix x assume "wire_begun fin s x"
    then have "wire_begun fin (wire_align s) (wire_align x)" by (simp add: wire_begun_def wire_align_def)
    from undoesD(2) [OF assms w fin this] show "\<exists>x'. g (wire_align x) = Some (v, x') \<and> wire_begun fin s' x'" .
  qed
qed

lemma undoes_map: "undoes K B w r v \<Longrightarrow> undoes K B w (\<lambda>s. map_option (\<lambda>(x, s). (h x, s)) (r s)) (h v)"
  by (fastforce simp: undoes_def)

lemma plain_reads_back: "reads_back plain_stream wire_intact wire_begun"
proof -
  have "undoes wire_intact wire_begun (\<lambda>w. wire_put (be_octets 4 v) (wire_align w))
      (\<lambda>w. map_option (\<lambda>(bs, w). (be_word bs, w)) (wire_get 4 (wire_align w))) (v :: u32)" for v
    using undoes_map [OF undoes_align [OF undoes_put [of "be_octets 4 v"]], of "be_word :: bytes \<Rightarrow> u32"] by (simp add: be_word_be_octets)
  then show ?thesis using undoes_put by (auto simp: reads_back_def plain_stream_def undoes_def bracket_def)
qed

lemma plain_sizes: "sizes plain_stream wire_pos (\<lambda>w. length (wire_octets w))"
  using align_off_ge
  by (auto simp: sizes_def foretells_def plain_stream_def wire_skip_def wire_put_def wire_align_def Let_def
      intro: le_trans trans_le_add1)

lemma plain_walks: "walks plain_stream (props (get_type_props id no_props))"
  by (simp add: walks_def plain_stream_def get_type_props_def no_props_def member_table_def entity_properties_t_def)

text \<open>\<open>max\<close> finds no bound, whatever the payload.\<close>

lemma payload_max_unbounded:
  "payload_max plain_stream id no_props False p w = Some (Some (p, w\<lparr>wire_pos := 2 ^ 64 - 1\<rparr>))"
  by (simp add: payload_max_def stream_struct_def members_loop.simps get_type_props_def no_props_def member_table_def
      entity_properties_t_def plain_stream_def max_member_def in_member_def in_sequence_def wire_skip_def wire_align_def)

text \<open>
  C6: On the wire: under the promises of the library, the size that \<open>move\<close> finds is enough for \<open>write\<close>, which
  then succeeds and uses all of it, and \<open>read\<close> gets the payload back from what was written, into an
  instance with any contents and on any thread, and stops where the writer did. A payload of \<open>2^32\<close> octets or
  more comes back with the first octets only, as many as its length modulo \<open>2^32\<close>.
\<close>

theorem payload_crosses_the_wire:
  assumes "walks L (props (get_type_props finish c))" and "props (get_type_props finish d) = props (get_type_props finish c)"
    and "reads_back L intact begun" and "sizes L at_pos room"
    and "payload_move L finish c False p m = Some (Some (p', m'))" and "at_pos s = at_pos m" and "at_pos m' \<le> room s"
  shows "\<exists>s'. payload_write L finish c False p s = Some (Some (p, s')) \<and> at_pos s' = at_pos m' \<and>
    (\<forall>fin r q. intact fin s' \<longrightarrow> begun fin s r \<longrightarrow>
      (\<exists>r'. payload_read L finish d False q r = Some (Some (wired p, r')) \<and> begun fin s' r')) \<and>
    (wired p = p \<longleftrightarrow> length (op_data p) < 2 ^ 32)"
proof -
  obtain s' where "payload_write L finish c False p s = Some (Some (p, s'))" "at_pos s' = at_pos m'"
    using payload_fits [OF assms(1,4-7)] by blast
  with payload_round_trip [OF assms(1,2,3)] show ?thesis by (auto simp: wired_iff)
qed

text \<open>The second read of a thread, whatever its first left marked.\<close>

theorem payload_crosses_the_wire_witness:
  "\<exists>s' r'. payload_write plain_stream id no_props False (OpaquePayload_of 7 [1, 2, 3]) \<lparr>wire_octets = replicate 11 0, wire_pos = 0\<rparr> =
     Some (Some (OpaquePayload_of 7 [1, 2, 3], s')) \<and>
   payload_read plain_stream id (marked (\<lambda>_. True) (get_type_props id no_props)) False OpaquePayload
     \<lparr>wire_octets = wire_octets s', wire_pos = 0\<rparr> = Some (Some (OpaquePayload_of 7 [1, 2, 3], r'))"
proof -
  let ?p = "OpaquePayload_of 7 [1, 2, 3]" and ?s = "\<lparr>wire_octets = replicate 11 0, wire_pos = 0\<rparr>"
    and ?d = "marked (\<lambda>_. True) (get_type_props id no_props)"
  have d: "props (get_type_props id ?d) = props (get_type_props id no_props)"
    by (simp add: get_type_props_stable unmarked_def)
  have "payload_move plain_stream id no_props False ?p ?s = Some (Some (?p, ?s\<lparr>wire_pos := 11\<rparr>))"
    by (simp add: payload_move_def stream_struct_def members_loop.simps get_type_props_def no_props_def member_table_def
        entity_properties_t_def plain_stream_def move_member_def in_member_def in_sequence_def wire_skip_def wire_align_def
        align_off_def OpaquePayload_of_def word_gt_0)
  from payload_crosses_the_wire [OF plain_walks d plain_reads_back plain_sizes this, of ?s]
  obtain s' where w: "payload_write plain_stream id no_props False ?p ?s = Some (Some (?p, s'))" and fits: "length (op_data ?p) < 2 ^ 32"
    and r: "\<forall>fin r q. wire_intact fin s' \<longrightarrow> wire_begun fin ?s r \<longrightarrow>
      (\<exists>r'. payload_read plain_stream id ?d False q r = Some (Some (wired ?p, r')) \<and> wire_begun fin s' r')"
    by (auto simp: OpaquePayload_of_def)
  have "wired ?p = ?p" by (simp add: wired_def OpaquePayload_of_def)
  moreover have "wire_intact s' s'" "wire_begun s' ?s \<lparr>wire_octets = wire_octets s', wire_pos = 0\<rparr>"
    by (simp_all add: wire_intact_def wire_begun_def)
  ultimately have "\<exists>r'. payload_read plain_stream id ?d False OpaquePayload \<lparr>wire_octets = wire_octets s', wire_pos = 0\<rparr> =
      Some (Some (?p, r'))"
    using r [THEN spec, THEN spec, THEN spec, of s' "\<lparr>wire_octets = wire_octets s', wire_pos = 0\<rparr>" OpaquePayload] by auto
  with w show ?thesis by blast
qed

end
