(* ===== verification/Schema_Model.thy ===== *)
theory Schema_Model
  imports Cdr_Registry "HOL-Library.AList"
begin

text \<open>
  The front end of the schema compiler (\<open>tools/schema_compiler/compiler.py\<close>): the models of types, fields and
  global elements, and the reading of the XSD documents into them. An XML document is the tree that the
  XML library gives, names in it as the queries of the code write them; strings are ASCII. A dictionary is
  the list of its entries in the order of insertion. What Python raises is an error value.
\<close>

section \<open>Python\<close>

datatype py_exn = ValueError string | IndexError | AttributeError

type_synonym 'a py = "py_exn + 'a"

definition pbind :: "'a py \<Rightarrow> ('a \<Rightarrow> 'b py) \<Rightarrow> 'b py" where
  "pbind m f = (case m of Inl e \<Rightarrow> Inl e | Inr x \<Rightarrow> f x)"

lemma pbind_simps [simp]: "pbind (Inl e) f = Inl e" "pbind (Inr x) f = f x"
  by (simp_all add: pbind_def)

lemma pbind_eq_Inr_iff: "pbind m f = Inr y \<longleftrightarrow> (\<exists>x. m = Inr x \<and> f x = Inr y)"
  by (cases m) simp_all

text \<open>A loop that keeps a state, and one that appends what is not \<open>None\<close> to a list.\<close>

fun pfold :: "('a \<Rightarrow> 's \<Rightarrow> 's py) \<Rightarrow> 'a list \<Rightarrow> 's \<Rightarrow> 's py" where
  "pfold f [] s = Inr s"
| "pfold f (x # xs) s = pbind (f x s) (pfold f xs)"

fun pcollect :: "('a \<Rightarrow> 'b option py) \<Rightarrow> 'a list \<Rightarrow> 'b list py" where
  "pcollect f [] = Inr []"
| "pcollect f (x # xs) = pbind (f x) (\<lambda>y. pbind (pcollect f xs) (\<lambda>ys. Inr (case y of None \<Rightarrow> ys | Some v \<Rightarrow> v # ys)))"

lemma pfold_invariant:
  assumes "pfold f xs s = Inr t" and "I s" and "\<And>x s t. I s \<Longrightarrow> f x s = Inr t \<Longrightarrow> I t"
  shows "I t"
  using assms by (induction xs arbitrary: s) (auto simp: pbind_eq_Inr_iff)

lemma pcollect_all:
  assumes "pcollect f xs = Inr ys" and "\<And>x v. f x = Inr (Some v) \<Longrightarrow> P v"
  shows "list_all P ys"
  using assms by (induction xs arbitrary: ys) (auto simp: pbind_eq_Inr_iff split: option.splits)

text \<open>\<open>s.split(sep)[-1]\<close>.\<close>

definition local_name :: "string \<Rightarrow> string" where
  "local_name s = rev (takeWhile (\<lambda>c. c \<noteq> CHR '':'') (rev s))"

definition upper :: "char \<Rightarrow> char" where
  "upper c = (let n = of_char c :: nat in if 97 \<le> n \<and> n \<le> 122 then char_of (n - 32) else c)"

definition lower :: "char \<Rightarrow> char" where
  "lower c = (let n = of_char c :: nat in if 65 \<le> n \<and> n \<le> 90 then char_of (n + 32) else c)"

definition strip :: "string \<Rightarrow> string" where
  "strip s = rev (dropWhile isspace (rev (dropWhile isspace s)))"

text \<open>\<open>int(s)\<close>: white space around, a sign, digits with single underscores between them.\<close>

fun digit_run :: "bool \<Rightarrow> nat \<Rightarrow> string \<Rightarrow> nat option" where
  "digit_run after n [] = (if after then Some n else None)"
| "digit_run after n (c # s) =
     (if c = CHR ''_'' then (if after then digit_run False n s else None)
      else case dec_digit c of None \<Rightarrow> None | Some d \<Rightarrow> digit_run True (10 * n + d) s)"

definition py_int :: "string \<Rightarrow> int py" where
  "py_int s =
     (let (neg, ds) = split_sign (strip s)
      in case digit_run False 0 ds of
           None \<Rightarrow> Inl (ValueError (''invalid literal for int() with base 10: '' @ s))
         | Some n \<Rightarrow> Inr (if neg then - int n else int n))"

text \<open>\<open>a or b\<close> on strings that may be missing.\<close>

definition str_or :: "string option \<Rightarrow> string \<Rightarrow> string" where
  "str_or a b = (case a of None \<Rightarrow> b | Some s \<Rightarrow> if s = [] then b else s)"

definition with_default :: "string \<Rightarrow> string option \<Rightarrow> string" where
  "with_default d a = (case a of None \<Rightarrow> d | Some s \<Rightarrow> s)"

section \<open>XML\<close>

datatype xml = Xml (xml_tag: string) (xml_attrs: "(string \<times> string) list") (xml_children: "xml list")

definition xml_get :: "string \<Rightarrow> xml \<Rightarrow> string option" where
  "xml_get a e = map_of (xml_attrs e) a"

definition findall :: "string \<Rightarrow> xml \<Rightarrow> xml list" where
  "findall t e = filter (\<lambda>c. xml_tag c = t) (xml_children e)"

definition xml_find :: "string \<Rightarrow> xml \<Rightarrow> xml option" where
  "xml_find t e = find (\<lambda>c. xml_tag c = t) (xml_children e)"

section \<open>Tables\<close>

definition UUID_TYPE_NAME :: string where
  "UUID_TYPE_NAME = ''UniversallyUniqueIdentifierType''"

definition UUID_CXX_TYPE :: string where
  "UUID_CXX_TYPE = ''uci::base::UUID''"

definition SCALAR_PRIMITIVE_TYPES :: "string list" where
  "SCALAR_PRIMITIVE_TYPES = [
     ''boolean'', ''byte'', ''short'', ''int'', ''long'', ''float'', ''double'', ''unsignedByte'',
     ''unsignedShort'', ''unsignedInt'', ''unsignedLong'', ''integer'', ''decimal'', ''dateTime'', ''time'',
     ''duration'']"

definition TEXT_PRIMITIVE_TYPES :: "string list" where
  "TEXT_PRIMITIVE_TYPES = [
     ''string'', ''anyURI'', ''dateTimeStamp'', ''date'', ''ID'', ''IDREF'', ''NMTOKEN'']"

definition SCALAR_PRIMITIVE_ACCESSOR_CONST_MAP :: "(string \<times> string) list" where
  "SCALAR_PRIMITIVE_ACCESSOR_CONST_MAP = [
     (''boolean'', ''uci::base::accessorType::booleanAccessor''),
     (''byte'', ''uci::base::accessorType::byteAccessor''),
     (''short'', ''uci::base::accessorType::shortAccessor''),
     (''int'', ''uci::base::accessorType::intAccessor''),
     (''long'', ''uci::base::accessorType::longAccessor''),
     (''float'', ''uci::base::accessorType::floatAccessor''),
     (''double'', ''uci::base::accessorType::doubleAccessor''),
     (''unsignedByte'', ''uci::base::accessorType::byteAccessor''),
     (''unsignedShort'', ''uci::base::accessorType::shortAccessor''),
     (''unsignedInt'', ''uci::base::accessorType::intAccessor''),
     (''unsignedLong'', ''uci::base::accessorType::longAccessor''),
     (''integer'', ''uci::base::accessorType::longAccessor''),
     (''decimal'', ''uci::base::accessorType::doubleAccessor''),
     (''base64Binary'', ''uci::base::accessorType::binaryAccessor''),
     (''hexBinary'', ''uci::base::accessorType::binaryAccessor'')]"

definition SCALAR_BOUNDED_LIST_ELEM_TYPE_MAP :: "(string \<times> string) list" where
  "SCALAR_BOUNDED_LIST_ELEM_TYPE_MAP = [
     (''bool'', ''uci::base::BooleanAccessor''), (''int8_t'', ''uci::base::ByteAccessor''),
     (''int16_t'', ''uci::base::ShortAccessor''), (''int32_t'', ''uci::base::IntAccessor''),
     (''int64_t'', ''uci::base::LongAccessor''), (''float'', ''uci::base::FloatAccessor''),
     (''double'', ''uci::base::DoubleAccessor''), (''uint8_t'', ''uci::base::UnsignedByteAccessor''),
     (''uint16_t'', ''uci::base::UnsignedShortAccessor''),
     (''uint32_t'', ''uci::base::UnsignedIntAccessor''), (''uint64_t'', ''uci::base::UnsignedLongAccessor''),
     (''std::vector<uint8_t>'', ''uci::base::BinaryAccessor'')]"

definition XSD_PRIMITIVE_TO_XS_ALIAS :: "(string \<times> string) list" where
  "XSD_PRIMITIVE_TO_XS_ALIAS = [
     (''boolean'', ''xs::Boolean''), (''byte'', ''xs::Byte''), (''short'', ''xs::Short''),
     (''int'', ''xs::Int''), (''long'', ''xs::Long''), (''float'', ''xs::Float''),
     (''double'', ''xs::Double''), (''unsignedByte'', ''xs::UnsignedByte''),
     (''unsignedShort'', ''xs::UnsignedShort''), (''unsignedInt'', ''xs::UnsignedInt''),
     (''unsignedLong'', ''xs::UnsignedLong''), (''integer'', ''xs::Long''), (''decimal'', ''xs::Double''),
     (''base64Binary'', ''xs::Binary''), (''hexBinary'', ''xs::Binary''), (''string'', ''xs::String''),
     (''anyURI'', ''xs::AnyURI''), (''dateTime'', ''xs::DateTime''),
     (''dateTimeStamp'', ''xs::DateTimeStamp''), (''date'', ''xs::Date''), (''time'', ''xs::Time''),
     (''duration'', ''xs::Duration''), (''ID'', ''xs::ID''), (''IDREF'', ''xs::IDREF''),
     (''NMTOKEN'', ''xs::NMTOKEN'')]"

definition XSD_SCALAR_TO_ACCESSOR_ALIAS :: "(string \<times> string) list" where
  "XSD_SCALAR_TO_ACCESSOR_ALIAS = [
     (''boolean'', ''uci::base::BooleanAccessor''), (''byte'', ''uci::base::ByteAccessor''),
     (''short'', ''uci::base::ShortAccessor''), (''int'', ''uci::base::IntAccessor''),
     (''long'', ''uci::base::LongAccessor''), (''float'', ''uci::base::FloatAccessor''),
     (''double'', ''uci::base::DoubleAccessor''), (''unsignedByte'', ''uci::base::UnsignedByteAccessor''),
     (''unsignedShort'', ''uci::base::UnsignedShortAccessor''),
     (''unsignedInt'', ''uci::base::UnsignedIntAccessor''),
     (''unsignedLong'', ''uci::base::UnsignedLongAccessor''), (''integer'', ''uci::base::LongAccessor''),
     (''decimal'', ''uci::base::DoubleAccessor''), (''base64Binary'', ''uci::base::BinaryAccessor''),
     (''hexBinary'', ''uci::base::BinaryAccessor''), (''dateTime'', ''uci::base::DateTimeAccessor''),
     (''time'', ''uci::base::TimeAccessor''), (''duration'', ''uci::base::DurationAccessor'')]"

definition PRIMITIVE_TYPES :: "string list" where
  "PRIMITIVE_TYPES = [
     ''boolean'', ''byte'', ''short'', ''int'', ''long'', ''float'', ''double'', ''string'', ''anyURI'',
     ''dateTime'', ''dateTimeStamp'', ''unsignedByte'', ''unsignedShort'', ''unsignedInt'', ''unsignedLong'',
     ''integer'', ''decimal'', ''base64Binary'', ''hexBinary'', ''ID'', ''IDREF'', ''NMTOKEN'', ''time'',
     ''date'', ''duration'', ''UniversallyUniqueIdentifierType'']"

definition CXX_PRIMITIVE_MAP :: "(string \<times> string) list" where
  "CXX_PRIMITIVE_MAP = [
     (''boolean'', ''bool''), (''byte'', ''int8_t''), (''short'', ''int16_t''), (''int'', ''int32_t''),
     (''long'', ''int64_t''), (''unsignedByte'', ''uint8_t''), (''unsignedShort'', ''uint16_t''),
     (''unsignedInt'', ''uint32_t''), (''unsignedLong'', ''uint64_t''), (''integer'', ''int64_t''),
     (''decimal'', ''double''), (''float'', ''float''), (''double'', ''double''),
     (''string'', ''std::string''), (''anyURI'', ''std::string''), (''dateTime'', ''int64_t''),
     (''time'', ''int64_t''), (''duration'', ''int64_t''), (''dateTimeStamp'', ''std::string''),
     (''date'', ''std::string''), (''base64Binary'', ''std::vector<uint8_t>''),
     (''hexBinary'', ''std::vector<uint8_t>''), (''ID'', ''std::string''), (''IDREF'', ''std::string''),
     (''NMTOKEN'', ''std::string''), (''UniversallyUniqueIdentifierType'', ''uci::base::UUID'')]"

section \<open>Names\<close>

definition capitalised :: "string \<Rightarrow> string" where
  "capitalised s = (case s of [] \<Rightarrow> [] | c # cs \<Rightarrow> upper c # cs)"

definition xsd_name_to_cxx :: "string \<Rightarrow> string py" where
  "xsd_name_to_cxx name =
     (if name = [] then Inr name
      else let name = (if CHR '':'' \<in> set name then local_name name else name)
           in if name = [] then Inl IndexError else Inr (capitalised name))"

definition first_letter_to_lower :: "string \<Rightarrow> string" where
  "first_letter_to_lower s = (case s of [] \<Rightarrow> [] | c # cs \<Rightarrow> lower c # cs)"

section \<open>Models\<close>

datatype list_kind = NoList | Bounded | Unbounded

record field_model =
  f_name :: string
  f_cxx_name :: string
  f_type_name :: string
  f_cxx_type :: string
  f_optional :: bool
  f_list_kind :: list_kind
  f_min_occurs :: int
  f_max_occurs_val :: int
  f_accessor_type :: string
  f_type_is_abstract :: bool
  f_type_is_generated :: bool
  f_type_is_enum :: bool
  f_type_is_simple_restriction :: bool
  f_type_is_string_restriction :: bool
  f_type_is_complex :: bool
  f_is_scalar_primitive :: bool
  f_is_text_primitive :: bool
  f_storage_cxx_type :: string
  f_is_uuid :: bool
  f_bounded_list_iface_cxx_type :: string
  f_bounded_list_typedef_elem_cxx_type :: string
  f_bounded_list_storage_cxx_type :: "string option"
  f_restriction_cxx_base_type :: "string option"

text \<open>
  The storage type of a list is the alias target of a restriction, which may be \<open>None\<close>, and so is its base type.
\<close>

definition FieldModel :: "string \<Rightarrow> string \<Rightarrow> bool \<Rightarrow> list_kind \<Rightarrow> int \<Rightarrow> int \<Rightarrow> string option \<Rightarrow> field_model py" where
  "FieldModel name type_name optional list_kind min_occurs max_occurs_val resolved_cxx_type =
     pbind (xsd_name_to_cxx name) (\<lambda>cxx_name.
     pbind (case resolved_cxx_type of Some c \<Rightarrow> if c \<noteq> [] then Inr c else xsd_name_to_cxx type_name
            | None \<Rightarrow> xsd_name_to_cxx type_name) (\<lambda>cxx_type.
     Inr \<lparr>f_name = name, f_cxx_name = cxx_name, f_type_name = type_name, f_cxx_type = cxx_type, f_optional = optional,
       f_list_kind = list_kind, f_min_occurs = min_occurs, f_max_occurs_val = max_occurs_val,
       f_accessor_type = ''uci::base::accessorType::ACCESSOR_TYPE_COMPLEX'', f_type_is_abstract = False,
       f_type_is_generated = False, f_type_is_enum = False, f_type_is_simple_restriction = False,
       f_type_is_string_restriction = False, f_type_is_complex = False,
       f_is_scalar_primitive = type_name \<in> set SCALAR_PRIMITIVE_TYPES, f_is_text_primitive = type_name \<in> set TEXT_PRIMITIVE_TYPES,
       f_storage_cxx_type = cxx_type, f_is_uuid = (type_name = UUID_TYPE_NAME), f_bounded_list_iface_cxx_type = [],
       f_bounded_list_typedef_elem_cxx_type = [], f_bounded_list_storage_cxx_type = Some [], f_restriction_cxx_base_type = Some []\<rparr>))"

text \<open>A choice is the list of its variants.\<close>

type_synonym choice_model = "field_model list"

record type_model =
  t_name :: string
  t_cxx_name :: string
  t_fields :: "field_model list"
  t_choices :: "choice_model list"
  t_base_type :: "string option"
  t_enum_values :: "string option list option"
  t_is_simple_restriction :: bool
  t_is_string_restriction :: bool
  t_restriction_xsd_base :: "string option"
  t_restriction_alias_target :: "string option"
  t_restriction_value_alias_target :: "string option"
  t_is_abstract :: bool
  t_derived_types :: "string list"

definition TypeModel :: "string \<Rightarrow> type_model py" where
  "TypeModel name = pbind (xsd_name_to_cxx name) (\<lambda>cxx_name.
     Inr \<lparr>t_name = name, t_cxx_name = cxx_name, t_fields = [], t_choices = [], t_base_type = None, t_enum_values = None,
       t_is_simple_restriction = False, t_is_string_restriction = False, t_restriction_xsd_base = None,
       t_restriction_alias_target = None, t_restriction_value_alias_target = None, t_is_abstract = False, t_derived_types = []\<rparr>)"

definition t_is_enum :: "type_model \<Rightarrow> bool" where
  "t_is_enum t \<longleftrightarrow> t_enum_values t \<noteq> None"

definition uses_uuid :: "type_model \<Rightarrow> bool" where
  "uses_uuid t \<longleftrightarrow> t_base_type t = Some UUID_CXX_TYPE \<or> list_ex f_is_uuid (t_fields t) \<or> list_ex (list_ex f_is_uuid) (t_choices t)"

record global_element =
  g_name :: string
  g_cxx_name :: string
  g_type_name :: string
  g_cxx_type :: string

definition GlobalElementModel :: "string \<Rightarrow> string \<Rightarrow> global_element py" where
  "GlobalElementModel name type_name =
     pbind (xsd_name_to_cxx name) (\<lambda>cxx_name. pbind (xsd_name_to_cxx type_name) (\<lambda>cxx_type.
     Inr \<lparr>g_name = name, g_cxx_name = cxx_name, g_type_name = type_name, g_cxx_type = cxx_type\<rparr>))"

type_synonym types = "(string \<times> type_model) list"

section \<open>Reading a schema\<close>

definition element_to_field :: "xml \<Rightarrow> field_model option py" where
  "element_to_field elem =
     (let name = str_or (xml_get ''name'' elem) (local_name (with_default [] (xml_get ''ref'' elem))) in
      if name = [] then Inr None
      else if xml_get ''type'' elem = None \<and> xml_get ''ref'' elem = None then Inr None
      else
        let type_name = local_name (with_default name (xml_get ''type'' elem));
            max_occ_str = with_default ''1'' (xml_get ''maxOccurs'' elem) in
        pbind (py_int (with_default ''1'' (xml_get ''minOccurs'' elem))) (\<lambda>min_occ.
        pbind (if max_occ_str = ''unbounded'' then Inr (- 1) else py_int max_occ_str) (\<lambda>max_occ.
          let optional = (min_occ = 0 \<and> max_occ = 1);
              list_kind = (if max_occ = - 1 then Unbounded else if max_occ > 1 then Bounded else NoList);
              resolved_type = (if type_name = UUID_TYPE_NAME then Some UUID_CXX_TYPE else map_of CXX_PRIMITIVE_MAP type_name) in
          pbind (FieldModel name type_name optional list_kind min_occ max_occ resolved_type) (\<lambda>f. Inr (Some f)))))"

definition parse_sequence :: "xml \<Rightarrow> field_model list py" where
  "parse_sequence s = pcollect element_to_field (findall ''xs:element'' s)"

definition parse_choice :: "xml \<Rightarrow> choice_model py" where
  "parse_choice c = pcollect element_to_field (findall ''xs:element'' c)"

text \<open>The loops over the sequences and the choices of an extension or of the type itself.\<close>

definition add_sequences :: "xml \<Rightarrow> field_model list \<Rightarrow> field_model list py" where
  "add_sequences e = pfold (\<lambda>s fields. pbind (parse_sequence s) (\<lambda>fs. Inr (fields @ fs))) (findall ''xs:sequence'' e)"

definition add_choices :: "xml \<Rightarrow> choice_model list \<Rightarrow> choice_model list py" where
  "add_choices e = pfold (\<lambda>c choices. pbind (parse_choice c) (\<lambda>m. Inr (choices @ [m]))) (findall ''xs:choice'' e)"

definition add_extension :: "xml \<Rightarrow> field_model list \<times> choice_model list \<times> string option \<Rightarrow>
    (field_model list \<times> choice_model list \<times> string option) py" where
  "add_extension ext = (\<lambda>(fields, choices, base_type).
     let base_type = Some (local_name (with_default [] (xml_get ''base'' ext))) in
     pbind (add_sequences ext fields) (\<lambda>fields. pbind (add_choices ext choices) (\<lambda>choices. Inr (fields, choices, base_type))))"

definition parse_complex_type :: "xml \<Rightarrow> type_model option py" where
  "parse_complex_type ct =
     (let name = with_default [] (xml_get ''name'' ct) in
      if name = [] then Inr None
      else
        pbind (pfold (\<lambda>content_tag st. case xml_find content_tag ct of
                        None \<Rightarrow> Inr st
                      | Some content \<Rightarrow> pfold add_extension (findall ''xs:extension'' content) st)
                 [''xs:complexContent'', ''xs:simpleContent''] ([], [], None)) (\<lambda>(fields, choices, base_type).
        pbind (add_sequences ct fields) (\<lambda>fields. pbind (add_choices ct choices) (\<lambda>choices.
        pbind (TypeModel name) (\<lambda>t.
          Inr (Some (t\<lparr>t_fields := fields, t_choices := choices, t_base_type := base_type,
                      t_is_abstract := xml_get ''abstract'' ct = Some ''true''\<rparr>)))))))"

definition parse_simple_type :: "xml \<Rightarrow> type_model option py" where
  "parse_simple_type st =
     (let name = with_default [] (xml_get ''name'' st) in
      if name = [] then Inr None
      else case xml_find ''xs:restriction'' st of
        None \<Rightarrow> Inr None
      | Some restriction \<Rightarrow>
          let enum_values = map (xml_get ''value'') (findall ''xs:enumeration'' restriction) in
          if enum_values \<noteq> [] then pbind (TypeModel name) (\<lambda>t. Inr (Some (t\<lparr>t_enum_values := Some enum_values\<rparr>)))
          else
            let base = local_name (with_default ''xs:string'' (xml_get ''base'' restriction));
                resolved = (if name = UUID_TYPE_NAME then UUID_CXX_TYPE
                            else with_default ''std::string'' (map_of CXX_PRIMITIVE_MAP base)) in
            pbind (TypeModel name) (\<lambda>t. Inr (Some (t\<lparr>t_base_type := Some resolved, t_is_simple_restriction := True,
              t_is_string_restriction := base \<in> set TEXT_PRIMITIVE_TYPES, t_restriction_xsd_base := Some base,
              t_restriction_alias_target := Some (with_default (with_default ''xs::String'' (map_of XSD_PRIMITIVE_TO_XS_ALIAS base))
                 (map_of XSD_SCALAR_TO_ACCESSOR_ALIAS base)),
              t_restriction_value_alias_target := map_of XSD_PRIMITIVE_TO_XS_ALIAS base\<rparr>))))"

text \<open>The parser's two tables, the types by name and the global elements.\<close>

definition add_global :: "xml \<Rightarrow> types \<times> global_element list \<Rightarrow> (types \<times> global_element list) py" where
  "add_global elem = (\<lambda>(types, globals).
     let name = with_default [] (xml_get ''name'' elem);
         type_name = local_name (with_default [] (xml_get ''type'' elem)) in
     if name = [] then Inr (types, globals)
     else pbind (GlobalElementModel name type_name) (\<lambda>g. Inr (types, globals @ [g])))"

definition add_type :: "(xml \<Rightarrow> type_model option py) \<Rightarrow> xml \<Rightarrow> types \<times> global_element list \<Rightarrow> (types \<times> global_element list) py" where
  "add_type parse e = (\<lambda>(types, globals).
     pbind (parse e) (\<lambda>m. Inr (case m of None \<Rightarrow> types | Some t \<Rightarrow> AList.update (t_name t) t types, globals)))"

definition parse_schema :: "xml \<Rightarrow> types \<times> global_element list \<Rightarrow> (types \<times> global_element list) py" where
  "parse_schema root st =
     pbind (pfold add_global (findall ''xs:element'' root) st) (\<lambda>st.
     pbind (pfold (add_type parse_complex_type) (findall ''xs:complexType'' root) st) (\<lambda>st.
     pfold (add_type parse_simple_type) (findall ''xs:simpleType'' root) st))"

end
