(* ===== verification/Schema_Subset.thy ===== *)
theory Schema_Subset
  imports Schema_Model "HOL-Library.List_Lexorder" "HOL-Library.Char_ord"
begin

text \<open>
  What the schema compiler (\<open>tools/schema_compiler/compiler.py\<close>) does with the models: it resolves the names in
  them, selects a subset with everything the subset depends on, and lists the headers and the handlers to
  generate. The templates that are filled in with the models are in \<open>Cdr_Handlers\<close>, \<open>Json_Handlers\<close> and \<open>Accessors\<close>.
\<close>

section \<open>Resolving names\<close>

definition get_accessor_type :: "types \<Rightarrow> string \<Rightarrow> string" where
  "get_accessor_type types type_name =
     (if type_name = UUID_TYPE_NAME then ''uci::base::accessorType::uuidAccessor''
      else case map_of SCALAR_PRIMITIVE_ACCESSOR_CONST_MAP type_name of Some a \<Rightarrow> a
      | None \<Rightarrow>
          if type_name \<in> set TEXT_PRIMITIVE_TYPES then ''xs::accessorType::ACCESSOR_TYPE_STRING''
          else case map_of types type_name of
            Some t \<Rightarrow>
              if t_is_simple_restriction t then
                (case Option.bind (t_restriction_xsd_base t) (map_of SCALAR_PRIMITIVE_ACCESSOR_CONST_MAP) of
                   Some a \<Rightarrow> a | None \<Rightarrow> ''xs::accessorType::ACCESSOR_TYPE_STRING'')
              else ''uci::type::accessorType::'' @ first_letter_to_lower (capitalised type_name)
          | None \<Rightarrow> ''uci::base::accessorType::ACCESSOR_TYPE_COMPLEX'')"

definition contains_colons :: "string \<Rightarrow> bool" where
  "contains_colons s \<longleftrightarrow> (\<exists>i < length s. take 2 (drop i s) = ''::'')"

definition qualify_filter :: "string \<Rightarrow> string list \<Rightarrow> string \<Rightarrow> string" where
  "qualify_filter cxx_type primitive_types type_name =
     (if type_name \<in> set primitive_types then cxx_type
      else if contains_colons cxx_type then cxx_type
      else ''uci::type::'' @ cxx_type)"

text \<open>The interface and the typedef element of a bounded list are the same in each case.\<close>

definition get_bounded_list_types :: "types \<Rightarrow> field_model \<Rightarrow> string \<times> string" where
  "get_bounded_list_types types f =
     (if f_type_is_simple_restriction f \<and> f_type_name f \<in> fst ` set types
      then let a = with_default [] (t_restriction_alias_target (the (map_of types (f_type_name f)))) in (a, a)
      else if f_is_text_primitive f \<or> f_type_is_string_restriction f then (''std::string'', ''xs::String'')
      else if f_is_scalar_primitive f
      then let w = with_default (f_cxx_type f) (map_of SCALAR_BOUNDED_LIST_ELEM_TYPE_MAP (f_cxx_type f)) in (w, w)
      else if f_is_uuid f then (f_cxx_type f, f_cxx_type f)
      else if f_type_is_generated f then (''uci::type::'' @ f_cxx_type f, ''uci::type::'' @ f_cxx_type f)
      else let q = qualify_filter (f_cxx_type f) PRIMITIVE_TYPES (f_type_name f) in (q, q))"

definition get_bounded_list_storage_type :: "types \<Rightarrow> field_model \<Rightarrow> string option" where
  "get_bounded_list_storage_type types f =
     (if f_type_is_simple_restriction f \<and> f_type_name f \<in> fst ` set types
      then t_restriction_alias_target (the (map_of types (f_type_name f)))
      else if f_is_text_primitive f \<or> f_type_is_string_restriction f then Some ''std::string''
      else if f_is_scalar_primitive f then Some (with_default (f_cxx_type f) (map_of SCALAR_BOUNDED_LIST_ELEM_TYPE_MAP (f_cxx_type f)))
      else if f_is_uuid f then Some (f_cxx_type f)
      else if f_type_is_generated f then Some (''arcal::type::'' @ f_cxx_type f @ ''Impl'')
      else Some (qualify_filter (f_cxx_type f) PRIMITIVE_TYPES (f_type_name f)))"

text \<open>What a field and a variant have in common, and the lists, which only fields are.\<close>

definition resolve_variant :: "types \<Rightarrow> field_model \<Rightarrow> field_model" where
  "resolve_variant types v =
     (let known = map_of types (f_type_name v);
          v = v\<lparr>f_accessor_type := get_accessor_type types (f_type_name v), f_is_uuid := f_type_name v = UUID_TYPE_NAME\<rparr>;
          v = v\<lparr>f_type_is_simple_restriction := (case known of Some t \<Rightarrow> t_is_simple_restriction t | None \<Rightarrow> False)\<rparr>;
          v = v\<lparr>f_type_is_generated := known \<noteq> None \<and> \<not> f_is_uuid v \<and> \<not> f_type_is_simple_restriction v\<rparr>;
          v = v\<lparr>f_type_is_enum := (case known of Some t \<Rightarrow> t_is_enum t | None \<Rightarrow> False)\<rparr>;
          v = v\<lparr>f_type_is_string_restriction := (case known of Some t \<Rightarrow> t_is_string_restriction t | None \<Rightarrow> False)\<rparr>;
          v = v\<lparr>f_type_is_complex := (case known of Some t \<Rightarrow> \<not> (t_is_enum t \<or> t_is_simple_restriction t) | None \<Rightarrow> False)\<rparr>;
          v = (if f_type_is_simple_restriction v then v\<lparr>f_restriction_cxx_base_type := Option.bind known t_base_type\<rparr> else v)
      in if f_type_is_generated v then v\<lparr>f_storage_cxx_type := f_cxx_type v @ ''Impl''\<rparr> else v)"

definition resolve_field :: "types \<Rightarrow> field_model \<Rightarrow> field_model" where
  "resolve_field types f =
     (let f = resolve_variant types f in
      case f_list_kind f of
        Bounded \<Rightarrow> (let (iface, typedef) = get_bounded_list_types types f in
          f\<lparr>f_bounded_list_iface_cxx_type := iface, f_bounded_list_typedef_elem_cxx_type := typedef,
            f_bounded_list_storage_cxx_type := get_bounded_list_storage_type types f\<rparr>)
      | Unbounded \<Rightarrow> f\<lparr>f_bounded_list_storage_cxx_type := get_bounded_list_storage_type types f\<rparr>
      | NoList \<Rightarrow> f)"

definition resolve_accessor_types :: "types \<Rightarrow> types" where
  "resolve_accessor_types types = map (\<lambda>(n, t). (n, t\<lparr>t_fields := map (resolve_field types) (t_fields t),
     t_choices := map (map (resolve_variant types)) (t_choices t)\<rparr>)) types"

definition mark_abstract :: "types \<Rightarrow> field_model \<Rightarrow> field_model" where
  "mark_abstract types f = f\<lparr>f_type_is_abstract := (case map_of types (f_type_name f) of Some t \<Rightarrow> t_is_abstract t | None \<Rightarrow> False)\<rparr>"

definition resolve_inheritance_metadata :: "types \<Rightarrow> types" where
  "resolve_inheritance_metadata types = map (\<lambda>(n, t). (n,
     t\<lparr>t_derived_types := t_derived_types t @ map (\<lambda>(_, d). t_name d) (filter (\<lambda>(_, d). t_base_type d = Some n) types),
       t_fields := map (mark_abstract types) (t_fields t), t_choices := map (map (mark_abstract types)) (t_choices t)\<rparr>)) types"

text \<open>The documents come in the order of their file names.\<close>

definition parse_all :: "xml list \<Rightarrow> (types \<times> global_element list) py" where
  "parse_all roots = pbind (pfold parse_schema roots ([], [])) (\<lambda>(types, globals).
     Inr (resolve_inheritance_metadata (resolve_accessor_types types), globals))"

section \<open>Selecting a subset\<close>

definition join :: "string \<Rightarrow> string list \<Rightarrow> string" where
  "join sep ss = (case ss of [] \<Rightarrow> [] | s # ss \<Rightarrow> s @ concat (map (\<lambda>s. sep @ s) ss))"

text \<open>The lookup tables are filled with \<open>setdefault\<close>: the first element with the key stays.\<close>

definition global_lookup :: "global_element list \<Rightarrow> string \<Rightarrow> global_element option" where
  "global_lookup gs k = find (\<lambda>e. k \<in> {g_name e, g_cxx_name e, g_type_name e, g_cxx_type e}) gs"

definition type_lookup :: "types \<Rightarrow> string \<Rightarrow> string option" where
  "type_lookup types k = map_option fst (find (\<lambda>(n, t). k = n \<or> k = t_cxx_name t) types)"

text \<open>The loop over the requests: what was found, each once, and what was not.\<close>

fun resolve_requests :: "(string \<Rightarrow> 'a option) \<Rightarrow> ('a \<Rightarrow> string) \<Rightarrow> string list \<Rightarrow> 'a list \<times> string list \<Rightarrow> 'a list \<times> string list" where
  "resolve_requests look key [] (found, missing) = (found, missing)"
| "resolve_requests look key (r # rs) (found, missing) = (case look r of
     None \<Rightarrow> resolve_requests look key rs (found, missing @ [r])
   | Some e \<Rightarrow> resolve_requests look key rs (if key e \<in> key ` set found then found else found @ [e], missing))"

definition resolve_global_elements :: "global_element list \<Rightarrow> string list \<Rightarrow> global_element list py" where
  "resolve_global_elements gs requested =
     (let (selected, missing) = resolve_requests (global_lookup gs) g_name requested ([], [])
      in if missing \<noteq> []
         then Inl (ValueError (''unknown subset message type(s): '' @ join '', '' missing @ [CHR 0x0A] @
                ''known global element names include: '' @ join '', '' (sort (map g_name gs))))
         else Inr selected)"

definition resolve_type_roots :: "types \<Rightarrow> string list \<Rightarrow> string list py" where
  "resolve_type_roots types requested =
     (let (resolved, missing) = resolve_requests (type_lookup types) id requested ([], [])
      in if missing \<noteq> []
         then Inl (ValueError (''unknown subset accessor type(s): '' @ join '', '' missing @ [CHR 0x0A] @
                ''known accessor type names include: '' @ join '', '' (sort (map fst types))))
         else Inr resolved)"

text \<open>The names a type refers to, in the order they are pushed.\<close>

definition refers_to :: "types \<Rightarrow> type_model \<Rightarrow> string list" where
  "refers_to types t = filter (\<lambda>n. n \<in> fst ` set types)
     ((case t_base_type t of Some b \<Rightarrow> if b = [] then [] else [b] | None \<Rightarrow> []) @
      map f_type_name (t_fields t) @ concat (map (map f_type_name) (t_choices t)))"

text \<open>The work list is a stack: \<open>pop\<close> takes the last name.\<close>

function required_loop :: "types \<Rightarrow> string set \<Rightarrow> string list \<Rightarrow> string set" where
  "required_loop types required pending =
     (if pending = [] then required
      else let type_name = last pending; pending = butlast pending in
        if type_name \<in> required then required_loop types required pending
        else case map_of types type_name of
          None \<Rightarrow> required_loop types required pending
        | Some t \<Rightarrow> required_loop types (insert type_name required) (pending @ refers_to types t))"
  by pat_completeness auto

termination required_loop
proof (relation "(\<lambda>(types, required, pending). card (fst ` set types - required)) <*mlex*> measure (\<lambda>(types, required, pending). length pending)", goal_cases)
  case 1
  show ?case by (intro wf_mlex wf_measure)
next
  case (2 types required pending n rest)
  then show ?case by (auto intro!: mlex_leq)
next
  case (3 types required pending n rest)
  then show ?case by (auto intro!: mlex_leq)
next
  case (4 types required pending n rest t)
  then have "n \<in> fst ` set types" by (auto dest!: map_of_SomeD intro: rev_image_eqI)
  with 4 have "card (fst ` set types - insert n required) < card (fst ` set types - required)"
    by (intro psubset_card_mono) auto
  then show ?case by (auto intro!: mlex_less)
qed

declare required_loop.simps [simp del]

definition collect_required_type_names :: "types \<Rightarrow> global_element list \<Rightarrow> string list \<Rightarrow> string set" where
  "collect_required_type_names types selected_globals selected_type_roots =
     required_loop types {} (map g_type_name selected_globals @ selected_type_roots)"

definition select_subset :: "types \<Rightarrow> global_element list \<Rightarrow> string list \<Rightarrow> string list \<Rightarrow> (global_element list \<times> type_model list) py" where
  "select_subset types globals messages accessors =
     pbind (resolve_global_elements globals messages) (\<lambda>selected.
     pbind (resolve_type_roots types accessors) (\<lambda>roots.
       let required = collect_required_type_names types selected roots in
       Inr (filter (\<lambda>e. g_name e \<in> g_name ` set selected) globals,
            map snd (filter (\<lambda>(n, _). n \<in> required) types))))"

section \<open>The configuration of a subset\<close>

datatype py_json = PNull | PBool bool | PNumber | PStr string | PList "py_json list" | PDict "(string \<times> py_json) list"

definition non_empty_string :: "py_json \<Rightarrow> bool" where
  "non_empty_string j = (case j of PStr s \<Rightarrow> strip s \<noteq> [] | _ \<Rightarrow> False)"

definition stripped :: "py_json \<Rightarrow> string" where
  "stripped j = (case j of PStr s \<Rightarrow> strip s | _ \<Rightarrow> [])"

definition quoted :: "string \<Rightarrow> string" where
  "quoted s = [CHR 0x27] @ s @ [CHR 0x27]"

text \<open>\<open>SubsetConfig.load\<close> on the document that was read: the suffix, the message types and the accessor types.\<close>

definition SubsetConfig_load :: "py_json \<Rightarrow> (string \<times> string list \<times> string list) py" where
  "SubsetConfig_load raw = (case raw of
     PDict d \<Rightarrow>
       let cal_name_suffix = (case map_of d ''cal_name_suffix'' of None \<Rightarrow> PNull | Some j \<Rightarrow> j);
           message_types = (case map_of d ''message_types'' of None \<Rightarrow> PNull | Some j \<Rightarrow> j);
           accessor_types = (case map_of d ''accessor_types'' of None \<Rightarrow> PList [] | Some j \<Rightarrow> j) in
       if \<not> non_empty_string cal_name_suffix
       then Inl (ValueError (''subset config must contain non-empty string field '' @ quoted ''cal_name_suffix''))
       else (case message_types of
         PList ms \<Rightarrow>
           if ms = [] then Inl (ValueError (''subset config must contain non-empty array field '' @ quoted ''message_types''))
           else if \<not> list_all non_empty_string ms
           then Inl (ValueError (''subset config field '' @ quoted ''message_types'' @ '' must contain only non-empty strings''))
           else (case accessor_types of
             PList as \<Rightarrow>
               if \<not> list_all non_empty_string as
               then Inl (ValueError (''subset config field '' @ quoted ''accessor_types'' @ '' must contain only non-empty strings''))
               else Inr (stripped cal_name_suffix, map stripped ms, map stripped as)
           | _ \<Rightarrow> Inl (ValueError (''subset config field '' @ quoted ''accessor_types'' @ '' must be an array when present'')))
       | _ \<Rightarrow> Inl (ValueError (''subset config must contain non-empty array field '' @ quoted ''message_types'')))
   | _ \<Rightarrow> Inl AttributeError)"

text \<open>What \<open>main\<close> compiles: everything, or the subset of the configuration given.\<close>

definition selected_models :: "xml list \<Rightarrow> py_json option \<Rightarrow> (global_element list \<times> type_model list) py" where
  "selected_models roots subset_config = pbind (parse_all roots) (\<lambda>(types, globals). case subset_config of
     None \<Rightarrow> Inr (globals, map snd types)
   | Some raw \<Rightarrow> pbind (SubsetConfig_load raw) (\<lambda>(_, messages, accessors). select_subset types globals messages accessors))"

section \<open>What is generated\<close>

text \<open>The filters of the templates: where the storage of a field lives, and the identifier of an enumeration value.\<close>

definition storage_qualify_filter :: "field_model \<Rightarrow> string list \<Rightarrow> string" where
  "storage_qualify_filter f primitive_types =
     (if f_type_is_simple_restriction f then qualify_filter (f_cxx_type f) primitive_types (f_type_name f)
      else if f_type_name f \<in> set primitive_types then f_cxx_type f
      else if f_type_is_generated f then ''arcal::type::'' @ f_storage_cxx_type f
      else qualify_filter (f_cxx_type f) primitive_types (f_type_name f))"

definition sanitize_enum :: "string \<Rightarrow> string" where
  "sanitize_enum v =
     (let result = map upper v;
          result = map (\<lambda>c. if c \<in> set ''-. /('' then CHR ''_'' else c) result;
          result = filter (\<lambda>c. c \<noteq> CHR '')'') result;
          result = (if result \<noteq> [] \<and> dec_digit (hd result) \<noteq> None then ''E_'' @ result else result)
      in if result = [] then ''EMPTY'' else result)"

definition append_unique :: "string list \<Rightarrow> string \<Rightarrow> string list" where
  "append_unique items v = (if v \<notin> set items then items @ [v] else items)"

definition add_type_dependency :: "string list \<Rightarrow> field_model \<Rightarrow> string list" where
  "add_type_dependency hs f =
     (if f_type_name f \<in> set PRIMITIVE_TYPES \<or> f_is_uuid f then hs else append_unique hs (f_cxx_type f))"

definition starts_with :: "string \<Rightarrow> string \<Rightarrow> bool" where
  "starts_with p s \<longleftrightarrow> take (length p) s = p"

record header_dependencies =
  include_type_headers :: "string list"
  needs_bounded_list :: bool
  needs_simple_list :: bool
  needs_primitive_accessors :: bool
  needs_xs_accessor_type :: bool

definition collect_public_header_dependencies :: "type_model \<Rightarrow> header_dependencies" where
  "collect_public_header_dependencies t =
     (let fields = t_fields t; variants = concat (t_choices t); bounded = filter (\<lambda>f. f_list_kind f = Bounded) fields in
      \<lparr>include_type_headers = foldl add_type_dependency [] (fields @ variants),
       needs_bounded_list = (bounded \<noteq> []),
       needs_simple_list = list_ex (\<lambda>f. f_list_kind f = Unbounded) fields,
       needs_primitive_accessors = list_ex (\<lambda>f. starts_with ''uci::base::'' (f_bounded_list_typedef_elem_cxx_type f)) bounded,
       needs_xs_accessor_type = list_ex (\<lambda>f. starts_with ''xs::'' (f_bounded_list_typedef_elem_cxx_type f)) bounded \<or>
         list_ex (\<lambda>f. starts_with ''xs::'' (f_accessor_type f)) (fields @ variants)\<rparr>)"

text \<open>The tag a type gets: the arithmetic of Python is unbounded and cut to 32 bits.\<close>

definition py_fnv1a32 :: "string \<Rightarrow> int" where
  "py_fnv1a32 s = foldl (\<lambda>h c. ((h XOR of_char c) * 16777619) AND 0xFFFFFFFF) 2166136261 s"

text \<open>The entries of the generated registration function, unless two types have one tag.\<close>

fun check_tags :: "(string \<times> string \<times> int) list \<Rightarrow> (int \<times> string) list \<Rightarrow> unit py" where
  "check_tags [] seen = Inr ()"
| "check_tags ((_, xsd_name, tag) # es) seen = (case map_of seen tag of
     None \<Rightarrow> check_tags es (seen @ [(tag, xsd_name)])
   | Some previous \<Rightarrow>
       if previous \<noteq> xsd_name
       then Inl (ValueError (''FNV-1a type tag collision: '' @ previous @ '' and '' @ xsd_name @ '' both map to '' @ dec_of_int tag))
       else check_tags es seen)"

definition render_cdr_register_all :: "type_model list \<Rightarrow> (string \<times> string \<times> int) list py" where
  "render_cdr_register_all models =
     (let entries = map (\<lambda>m. (t_cxx_name m, t_name m, py_fnv1a32 (t_name m))) (filter (\<lambda>m. \<not> t_is_simple_restriction m) models)
      in pbind (check_tags entries []) (\<lambda>_. Inr entries))"

definition iter_chunks :: "'a list \<Rightarrow> nat \<Rightarrow> (nat \<times> 'a list) list" where
  "iter_chunks items n = map (\<lambda>k. (k, take n (drop (k * n) items))) [0..<(length items + n - 1) div n]"

definition GENERATED_CORE_SHARD_SIZE :: nat where
  "GENERATED_CORE_SHARD_SIZE = 80"

definition render_type_lifecycle_shards :: "type_model list \<Rightarrow> (nat \<times> string list) list" where
  "render_type_lifecycle_shards models =
     iter_chunks (map t_cxx_name (filter (\<lambda>m. \<not> t_is_simple_restriction m) models)) GENERATED_CORE_SHARD_SIZE"

end
