(* ===== verification/Schema_Facts.thy ===== *)
theory Schema_Facts
  imports Schema_Subset
begin

text \<open>
  What the schema compiler promises: the table of types keeps its invariant, the subset is what is reachable from
  the roots and includes no header outside itself, and the types it accepts are those whose generated
  registration (\<open>Cdr_Registry\<close>) succeeds at run time.
\<close>

section \<open>The table of types\<close>

text \<open>What a field has kept of its name and its type, and what a type of the table has.\<close>

definition field_ok :: "field_model \<Rightarrow> bool" where
  "field_ok f \<longleftrightarrow> (f_type_name f \<in> set PRIMITIVE_TYPES \<or> xsd_name_to_cxx (f_type_name f) = Inr (f_cxx_type f))"

definition type_ok :: "type_model \<Rightarrow> bool" where
  "type_ok t \<longleftrightarrow> t_name t \<noteq> [] \<and> xsd_name_to_cxx (t_name t) = Inr (t_cxx_name t) \<and>
     list_all field_ok (t_fields t) \<and> list_all (list_all field_ok) (t_choices t)"

definition types_ok :: "types \<Rightarrow> bool" where
  "types_ok types \<longleftrightarrow> distinct (map fst types) \<and> (\<forall>(n, t) \<in> set types. n = t_name t \<and> type_ok t)"

lemma primitive_names: "fst ` set CXX_PRIMITIVE_MAP = set PRIMITIVE_TYPES"
  unfolding CXX_PRIMITIVE_MAP_def PRIMITIVE_TYPES_def by auto

lemma uuid_is_primitive: "UUID_TYPE_NAME \<in> set PRIMITIVE_TYPES"
  by (simp add: UUID_TYPE_NAME_def PRIMITIVE_TYPES_def)

lemma FieldModel_ok:
  assumes "FieldModel n tn opt lk mn mx r = Inr f" and "r \<noteq> None \<Longrightarrow> tn \<in> set PRIMITIVE_TYPES"
  shows "field_ok f"
  using assms by (cases r) (auto simp: FieldModel_def pbind_eq_Inr_iff field_ok_def)

lemma element_to_field_ok:
  assumes "element_to_field e = Inr (Some f)"
  shows "field_ok f"
proof -
  let ?tn = "local_name (with_default (str_or (xml_get ''name'' e) (local_name (with_default [] (xml_get ''ref'' e))))
    (xml_get ''type'' e))"
  let ?r = "if ?tn = UUID_TYPE_NAME then Some UUID_CXX_TYPE else map_of CXX_PRIMITIVE_MAP ?tn"
  obtain n opt lk mn mx where "FieldModel n ?tn opt lk mn mx ?r = Inr f"
    using assms by (auto simp: element_to_field_def Let_def pbind_eq_Inr_iff split: if_splits)
  moreover have "?tn \<in> set PRIMITIVE_TYPES" if "?r \<noteq> None"
    using that uuid_is_primitive unfolding primitive_names [symmetric]
    by (auto split: if_splits dest!: map_of_SomeD intro: rev_image_eqI)
  ultimately show ?thesis by (rule FieldModel_ok)
qed

lemma parse_sequence_ok: "parse_sequence s = Inr fs \<Longrightarrow> list_all field_ok fs"
  unfolding parse_sequence_def by (rule pcollect_all, assumption, rule element_to_field_ok)

lemma parse_choice_ok: "parse_choice s = Inr fs \<Longrightarrow> list_all field_ok fs"
  unfolding parse_choice_def by (rule pcollect_all, assumption, rule element_to_field_ok)

lemma add_sequences_ok: "add_sequences e fs = Inr fs' \<Longrightarrow> list_all field_ok fs \<Longrightarrow> list_all field_ok fs'"
  unfolding add_sequences_def by (erule pfold_invariant) (auto simp: pbind_eq_Inr_iff dest: parse_sequence_ok)

lemma add_choices_ok:
  "add_choices e cs = Inr cs' \<Longrightarrow> list_all (list_all field_ok) cs \<Longrightarrow> list_all (list_all field_ok) cs'"
  unfolding add_choices_def by (erule pfold_invariant) (auto simp: pbind_eq_Inr_iff dest: parse_choice_ok)

definition content_ok :: "field_model list \<times> choice_model list \<times> string option \<Rightarrow> bool" where
  "content_ok st \<longleftrightarrow> list_all field_ok (fst st) \<and> list_all (list_all field_ok) (fst (snd st))"

lemma add_extension_ok: "add_extension e st = Inr st' \<Longrightarrow> content_ok st \<Longrightarrow> content_ok st'"
  by (cases st) (auto simp: add_extension_def content_ok_def pbind_eq_Inr_iff dest: add_sequences_ok add_choices_ok)

lemma TypeModel_ok: "TypeModel n = Inr t \<Longrightarrow> n \<noteq> [] \<Longrightarrow> type_ok t"
  by (auto simp: TypeModel_def pbind_eq_Inr_iff type_ok_def)

lemma parse_complex_type_ok:
  assumes "parse_complex_type ct = Inr (Some t)"
  shows "type_ok t"
proof -
  obtain n st fields choices t0 where n: "n \<noteq> []" and t0: "TypeModel n = Inr t0"
    and st: "pfold (\<lambda>content_tag st. case xml_find content_tag ct of None \<Rightarrow> Inr st
        | Some content \<Rightarrow> pfold add_extension (findall ''xs:extension'' content) st)
      [''xs:complexContent'', ''xs:simpleContent''] ([], [], None) = Inr st"
    and "add_sequences ct (fst st) = Inr fields" and "add_choices ct (fst (snd st)) = Inr choices"
    and t: "t = t0\<lparr>t_fields := fields, t_choices := choices, t_base_type := snd (snd st),
      t_is_abstract := xml_get ''abstract'' ct = Some ''true''\<rparr>"
    using assms unfolding parse_complex_type_def Let_def
    by (auto simp: pbind_eq_Inr_iff simp del: pfold.simps split: if_splits prod.splits)
  moreover have "content_ok st"
    using st by (rule pfold_invariant)
      (auto simp: content_ok_def split: option.splits elim!: pfold_invariant [where I = content_ok, unfolded content_ok_def]
        dest: add_extension_ok [unfolded content_ok_def])
  ultimately show ?thesis
    using TypeModel_ok [OF t0 n] by (auto simp: type_ok_def content_ok_def dest: add_sequences_ok add_choices_ok)
qed

lemma parse_simple_type_ok: "parse_simple_type st = Inr (Some t) \<Longrightarrow> type_ok t"
  by (auto simp: parse_simple_type_def Let_def pbind_eq_Inr_iff type_ok_def TypeModel_def split: if_splits option.splits)

lemma set_update_subset: "set (AList.update k v xs) \<subseteq> insert (k, v) (set xs)"
  by (induction xs) (auto split: if_splits)

lemma add_type_ok:
  assumes "add_type parse e st = Inr st'" and "\<And>e t. parse e = Inr (Some t) \<Longrightarrow> type_ok t" and "types_ok (fst st)"
  shows "types_ok (fst st')"
proof -
  obtain a b where st: "st = (a, b)" by (cases st)
  with assms(1) obtain m where m: "parse e = Inr m"
    and "st' = (case m of None \<Rightarrow> a | Some t \<Rightarrow> AList.update (t_name t) t a, b)"
    by (auto simp: add_type_def pbind_eq_Inr_iff)
  then have st': "fst st' = (case m of None \<Rightarrow> fst st | Some t \<Rightarrow> AList.update (t_name t) t (fst st))"
    by (simp add: st cong: option.case_cong)
  show ?thesis
  proof (cases m)
    case None
    with st' assms(3) show ?thesis by simp
  next
    case (Some t)
    with assms(2) m have "type_ok t" by blast
    moreover have "distinct (map fst (fst st))" using assms(3) by (simp add: types_ok_def)
    ultimately show ?thesis
      using assms(3) distinct_update [of "fst st" "t_name t" t] unfolding types_ok_def st' Some
      by (auto dest: subsetD [OF set_update_subset])
  qed
qed

lemma add_globals_ok: "pfold add_global es st = Inr st' \<Longrightarrow> fst st' = fst st"
  by (erule pfold_invariant [where I = "\<lambda>s. fst s = fst st"])
    (auto simp: add_global_def Let_def pbind_eq_Inr_iff split: if_splits)

lemma add_types_ok:
  assumes "pfold (add_type parse) es st = Inr st'" and "types_ok (fst st)" and "\<And>e t. parse e = Inr (Some t) \<Longrightarrow> type_ok t"
  shows "types_ok (fst st')"
  using assms(1,2) by (rule pfold_invariant) (rule add_type_ok [OF _ assms(3)])

lemma parse_schema_ok:
  assumes "parse_schema root st = Inr st'" and "types_ok (fst st)"
  shows "types_ok (fst st')"
proof -
  obtain s1 s2 where s1: "pfold add_global (findall ''xs:element'' root) st = Inr s1"
    and s2: "pfold (add_type parse_complex_type) (findall ''xs:complexType'' root) s1 = Inr s2"
    and st': "pfold (add_type parse_simple_type) (findall ''xs:simpleType'' root) s2 = Inr st'"
    using assms(1) unfolding parse_schema_def pbind_eq_Inr_iff by blast
  have "types_ok (fst s1)" using add_globals_ok [OF s1] assms(2) by simp
  from add_types_ok [OF s2 this parse_complex_type_ok] have "types_ok (fst s2)" .
  from add_types_ok [OF st' this parse_simple_type_ok] show ?thesis .
qed

text \<open>Resolving changes neither the names of a type nor those of its fields.\<close>

lemma field_ok_cong: "f_type_name g = f_type_name f \<Longrightarrow> f_cxx_type g = f_cxx_type f \<Longrightarrow> field_ok g = field_ok f"
  by (simp add: field_ok_def)

lemma field_ok_resolve_variant: "field_ok (resolve_variant types v) = field_ok v"
  by (rule field_ok_cong) (simp_all add: resolve_variant_def Let_def)

lemma field_ok_resolve_field: "field_ok (resolve_field types f) = field_ok f"
  unfolding field_ok_resolve_variant [of types f, symmetric]
  by (rule field_ok_cong) (simp_all add: resolve_field_def Let_def split: list_kind.split prod.split)

lemma field_ok_mark_abstract: "field_ok (mark_abstract types f) = field_ok f"
  by (rule field_ok_cong) (simp_all add: mark_abstract_def)

lemma types_ok_map:
  assumes "types_ok types" and "\<And>n t. type_ok t \<Longrightarrow> t_name (g n t) = t_name t \<and> type_ok (g n t)"
  shows "types_ok (map (\<lambda>(n, t). (n, g n t)) types)"
  using assms by (auto simp: types_ok_def comp_def case_prod_beta)

lemma resolve_accessor_types_ok: "types_ok types \<Longrightarrow> types_ok (resolve_accessor_types types)"
  unfolding resolve_accessor_types_def
  by (rule types_ok_map) (auto simp: type_ok_def list_all_iff field_ok_resolve_field field_ok_resolve_variant)

lemma resolve_inheritance_metadata_ok: "types_ok types \<Longrightarrow> types_ok (resolve_inheritance_metadata types)"
  unfolding resolve_inheritance_metadata_def
  by (rule types_ok_map) (auto simp: type_ok_def list_all_iff field_ok_mark_abstract)

lemma parse_all_ok:
  assumes "parse_all roots = Inr (types, gs)"
  shows "types_ok types"
proof -
  obtain st where st: "pfold parse_schema roots ([], []) = Inr st"
    and types: "types = resolve_inheritance_metadata (resolve_accessor_types (fst st))"
    using assms by (auto simp: parse_all_def pbind_eq_Inr_iff split: prod.splits)
  have "types_ok (fst ([] :: types, [] :: global_element list))" by (simp add: types_ok_def)
  with st have "types_ok (fst st)" by (rule pfold_invariant) (rule parse_schema_ok)
  then show ?thesis unfolding types by (intro resolve_inheritance_metadata_ok resolve_accessor_types_ok)
qed

section \<open>What a subset needs\<close>

text \<open>A declared type is needed when it is asked for, or when a needed type has it as its base, in a field or in a variant.\<close>

inductive needed :: "types \<Rightarrow> string set \<Rightarrow> string \<Rightarrow> bool" for types roots where
  root: "n \<in> roots \<Longrightarrow> n \<in> fst ` set types \<Longrightarrow> needed types roots n"
| base: "needed types roots m \<Longrightarrow> map_of types m = Some t \<Longrightarrow> t_base_type t = Some n \<Longrightarrow> n \<noteq> [] \<Longrightarrow> n \<in> fst ` set types \<Longrightarrow>
    needed types roots n"
| in_field: "needed types roots m \<Longrightarrow> map_of types m = Some t \<Longrightarrow> f \<in> set (t_fields t) \<Longrightarrow> f_type_name f \<in> fst ` set types \<Longrightarrow>
    needed types roots (f_type_name f)"
| in_variant: "needed types roots m \<Longrightarrow> map_of types m = Some t \<Longrightarrow> c \<in> set (t_choices t) \<Longrightarrow> f \<in> set c \<Longrightarrow>
    f_type_name f \<in> fst ` set types \<Longrightarrow> needed types roots (f_type_name f)"

lemma refers_to_iff:
  "n \<in> set (refers_to types t) \<longleftrightarrow> n \<in> fst ` set types \<and>
     (t_base_type t = Some n \<and> n \<noteq> [] \<or> (\<exists>f \<in> set (t_fields t). n = f_type_name f) \<or>
      (\<exists>c \<in> set (t_choices t). \<exists>f \<in> set c. n = f_type_name f))"
  by (cases "t_base_type t") (auto simp: refers_to_def)

lemma needed_refers:
  assumes "needed types roots m" and "map_of types m = Some t" and "n \<in> set (refers_to types t)"
  shows "needed types roots n"
  using assms(3) unfolding refers_to_iff
proof (elim conjE disjE bexE)
  fix f
  assume "n \<in> fst ` set types" "f \<in> set (t_fields t)" "n = f_type_name f"
  then show ?thesis using needed.in_field [OF assms(1,2)] by metis
next
  fix c f
  assume "n \<in> fst ` set types" "c \<in> set (t_choices t)" "f \<in> set c" "n = f_type_name f"
  then show ?thesis using needed.in_variant [OF assms(1,2)] by metis
qed (rule needed.base [OF assms(1,2)])

lemma needed_least:
  assumes "needed types roots n" and "\<And>n. n \<in> roots \<Longrightarrow> n \<in> fst ` set types \<Longrightarrow> n \<in> S"
    and "\<And>m t n. m \<in> S \<Longrightarrow> map_of types m = Some t \<Longrightarrow> n \<in> set (refers_to types t) \<Longrightarrow> n \<in> S"
  shows "n \<in> S"
  using assms(1)
proof induction
  case (root n)
  then show ?case by (rule assms(2))
next
  case (base m t n)
  show ?case by (rule assms(3) [OF base.IH base.hyps(2)]) (use base.hyps in \<open>simp add: refers_to_iff\<close>)
next
  case (in_field m t f)
  show ?case by (rule assms(3) [OF in_field.IH in_field.hyps(2)]) (use in_field.hyps in \<open>auto simp: refers_to_iff\<close>)
next
  case (in_variant m t c f)
  show ?case by (rule assms(3) [OF in_variant.IH in_variant.hyps(2)]) (use in_variant.hyps in \<open>auto simp: refers_to_iff\<close>)
qed

lemma required_loop_Nil: "required_loop types required [] = required"
  by (simp add: required_loop.simps)

lemma required_loop_skip:
  "n \<in> required \<or> map_of types n = None \<Longrightarrow> required_loop types required (pending @ [n]) = required_loop types required pending"
  by (subst required_loop.simps) (auto simp: Let_def)

lemma required_loop_take:
  "n \<notin> required \<Longrightarrow> map_of types n = Some t \<Longrightarrow>
     required_loop types required (pending @ [n]) = required_loop types (insert n required) (pending @ refers_to types t)"
  by (subst required_loop.simps) (simp add: Let_def)

text \<open>The induction of the loop, its three cases apart.\<close>

lemma required_loop_induct [case_names Nil skip take]:
  assumes "\<And>required. P required []"
    and "\<And>required pending n. n \<in> required \<or> map_of types n = None \<Longrightarrow> P required pending \<Longrightarrow> P required (pending @ [n])"
    and "\<And>required pending n t. n \<notin> required \<Longrightarrow> map_of types n = Some t \<Longrightarrow>
      P (insert n required) (pending @ refers_to types t) \<Longrightarrow> P required (pending @ [n])"
  shows "P required pending"
proof (induction types' \<equiv> types required pending rule: required_loop.induct)
  case (1 required pending)
  show ?case
  proof (cases pending rule: rev_cases)
    case Nil
    with assms(1) show ?thesis by simp
  next
    case (snoc rest n)
    then have ne: "pending \<noteq> []" "last pending = n" "butlast pending = rest" by simp_all
    consider "n \<in> required" | "n \<notin> required" "map_of types n = None" | t where "n \<notin> required" "map_of types n = Some t" by blast
    then show ?thesis
    proof cases
      case 1
      with "1.hyps"(1) ne have "P required rest" by simp
      with assms(2) 1 snoc show ?thesis by simp
    next
      case 2
      with "1.hyps"(2) ne have "P required rest" by simp
      with assms(2) 2 snoc show ?thesis by simp
    next
      case (3 t)
      with "1.hyps"(3) ne have "P (insert n required) (rest @ refers_to types t)" by simp
      with assms(3) 3 snoc show ?thesis by simp
    qed
  qed
qed

lemma required_loop_sound:
  "required \<subseteq> Collect (needed types roots) \<Longrightarrow> (\<forall>p \<in> set pending. p \<in> fst ` set types \<longrightarrow> needed types roots p) \<Longrightarrow>
     required_loop types required pending \<subseteq> Collect (needed types roots)"
proof (induction required pending rule: required_loop_induct [of _ types])
  case (Nil required)
  then show ?case by (simp add: required_loop_Nil)
next
  case (skip required pending n)
  then show ?case by (simp add: required_loop_skip)
next
  case (take required pending n t)
  then have "n \<in> fst ` set types" by (auto dest!: map_of_SomeD intro: rev_image_eqI)
  with take.prems have "needed types roots n" by simp
  with take show ?case by (simp add: required_loop_take) (blast intro: needed_refers)
qed

lemma required_loop_closed:
  "(\<forall>m t. m \<in> required \<longrightarrow> map_of types m = Some t \<longrightarrow> set (refers_to types t) \<subseteq> required \<union> set pending) \<Longrightarrow>
   required \<subseteq> required_loop types required pending \<and> set pending \<inter> fst ` set types \<subseteq> required_loop types required pending \<and>
   (\<forall>m t. m \<in> required_loop types required pending \<longrightarrow> map_of types m = Some t \<longrightarrow>
      set (refers_to types t) \<subseteq> required_loop types required pending)"
proof (induction required pending rule: required_loop_induct [of _ types])
  case (Nil required)
  then show ?case by (simp add: required_loop_Nil)
next
  case (skip required pending n)
  from skip.hyps have dom: "n \<in> required \<or> n \<notin> fst ` set types" by (auto simp: map_of_eq_None_iff)
  have "\<forall>m t. m \<in> required \<longrightarrow> map_of types m = Some t \<longrightarrow> set (refers_to types t) \<subseteq> required \<union> set pending"
  proof (intro allI impI)
    fix m t
    assume "m \<in> required" "map_of types m = Some t"
    with skip.prems have "set (refers_to types t) \<subseteq> required \<union> set (pending @ [n])" by blast
    moreover have "set (refers_to types t) \<subseteq> fst ` set types" by (auto simp: refers_to_def)
    ultimately show "set (refers_to types t) \<subseteq> required \<union> set pending" using dom by auto
  qed
  from skip.IH [OF this] dom show ?case unfolding required_loop_skip [OF skip.hyps] by auto
next
  case (take required pending n t)
  have "\<forall>m u. m \<in> insert n required \<longrightarrow> map_of types m = Some u \<longrightarrow>
      set (refers_to types u) \<subseteq> insert n required \<union> set (pending @ refers_to types t)"
    using take.prems take.hyps by fastforce
  from take.IH [OF this] show ?case unfolding required_loop_take [OF take.hyps] by auto
qed

lemma collected_types:
  "set (map g_type_name gs @ roots) \<inter> fst ` set types \<subseteq> collect_required_type_names types gs roots"
  "m \<in> collect_required_type_names types gs roots \<Longrightarrow> map_of types m = Some t \<Longrightarrow> n \<in> set (refers_to types t) \<Longrightarrow>
     n \<in> collect_required_type_names types gs roots"
  using required_loop_closed [of "{}" types "map g_type_name gs @ roots"]
  unfolding collect_required_type_names_def by (simp, blast)

text \<open>
  C27: The names the compiler collects for a subset are the declared types that are needed: those asked for, and
  with a type its base and the types of its fields and of the variants of its choices, and no other.
\<close>

theorem required_types_are_reachable:
  "collect_required_type_names types gs roots = {n. needed types (g_type_name ` set gs \<union> set roots) n}"
proof
  let ?R = "g_type_name ` set gs \<union> set roots"
  show "collect_required_type_names types gs roots \<subseteq> {n. needed types ?R n}"
    unfolding collect_required_type_names_def by (rule required_loop_sound) (auto intro: root)
  show "{n. needed types ?R n} \<subseteq> collect_required_type_names types gs roots"
  proof
    fix n
    assume "n \<in> {n. needed types ?R n}"
    then have "needed types ?R n" by simp
    then show "n \<in> collect_required_type_names types gs roots"
      by (rule needed_least) (use collected_types(1) [of gs roots types] collected_types(2) in \<open>auto\<close>)
  qed
qed

section \<open>What a subset includes\<close>

lemma chosen_type_in_table:
  "types_ok types \<Longrightarrow> t \<in> set (map snd (filter P types)) \<longleftrightarrow> map_of types (t_name t) = Some t \<and> P (t_name t, t)"
  by (auto simp: types_ok_def map_of_eq_Some_iff image_iff)

lemma include_type_headers_iff:
  "h \<in> set (foldl add_type_dependency hs fs) \<longleftrightarrow>
     h \<in> set hs \<or> (\<exists>f \<in> set fs. f_type_name f \<notin> set PRIMITIVE_TYPES \<and> \<not> f_is_uuid f \<and> h = f_cxx_type f)"
  by (induction fs arbitrary: hs) (auto simp: add_type_dependency_def append_unique_def)

lemma include_type_headers_distinct: "distinct hs \<Longrightarrow> distinct (foldl add_type_dependency hs fs)"
  by (induction fs arbitrary: hs) (auto simp: add_type_dependency_def append_unique_def)

lemma subset_types:
  assumes "select_subset types gs ms as = Inr (gs', ts)"
  obtains selected roots where "ts = map snd (filter (\<lambda>(n, _). n \<in> collect_required_type_names types selected roots) types)"
    and "resolve_global_elements gs ms = Inr selected" and "resolve_type_roots types as = Inr roots"
  using assms unfolding select_subset_def Let_def by (auto simp: pbind_eq_Inr_iff)

lemma subset_type_headers:
  assumes "types_ok types" and "select_subset types gs ms as = Inr (gs', ts)" and "t \<in> set ts"
  shows "(\<forall>h \<in> set (include_type_headers (collect_public_header_dependencies t)).
      (\<exists>u \<in> set ts. t_cxx_name u = h) \<or>
      (\<exists>f \<in> set (t_fields t @ concat (t_choices t)). f_cxx_type f = h \<and> f_type_name f \<notin> fst ` set types)) \<and>
    (\<forall>b. t_base_type t = Some b \<longrightarrow> b \<noteq> [] \<longrightarrow> b \<in> fst ` set types \<longrightarrow> (\<exists>u \<in> set ts. t_name u = b))"
proof -
  note ok = assms(1)
  obtain selected names where ts: "ts = map snd (filter (\<lambda>(n, _). n \<in> collect_required_type_names types selected names) types)"
    using assms(2) by (rule subset_types)
  note in_ts = chosen_type_in_table [OF ok, of _ "\<lambda>(n, _). n \<in> collect_required_type_names types selected names", folded ts, simplified]
  have t: "map_of types (t_name t) = Some t" "t_name t \<in> collect_required_type_names types selected names"
    using assms(3) in_ts by auto
  have t_ok: "type_ok t" using ok t(1) by (auto simp: types_ok_def dest: map_of_SomeD)
  have referred: "\<exists>u \<in> set ts. t_name u = n \<and> xsd_name_to_cxx n = Inr (t_cxx_name u)" if "n \<in> set (refers_to types t)" for n
  proof -
    have "n \<in> fst ` set types" using that by (simp add: refers_to_iff)
    then obtain u where u: "map_of types n = Some u" by (metis map_of_eq_None_iff not_None_eq)
    then have "t_name u = n" "type_ok u" using ok by (auto simp: types_ok_def dest!: map_of_SomeD)
    with u collected_types(2) [OF t(2,1) that] show ?thesis using in_ts by (auto simp: type_ok_def)
  qed
  show ?thesis
  proof (intro conjI ballI allI impI)
    fix h
    assume "h \<in> set (include_type_headers (collect_public_header_dependencies t))"
    then obtain f where f: "f \<in> set (t_fields t @ concat (t_choices t))" "f_type_name f \<notin> set PRIMITIVE_TYPES" "h = f_cxx_type f"
      by (auto simp: collect_public_header_dependencies_def Let_def include_type_headers_iff)
    then have cxx: "xsd_name_to_cxx (f_type_name f) = Inr h" using t_ok by (auto simp: type_ok_def list_all_iff field_ok_def)
    show "(\<exists>u \<in> set ts. t_cxx_name u = h) \<or>
      (\<exists>f \<in> set (t_fields t @ concat (t_choices t)). f_cxx_type f = h \<and> f_type_name f \<notin> fst ` set types)"
    proof (cases "f_type_name f \<in> fst ` set types")
      case True
      with f(1) have "f_type_name f \<in> set (refers_to types t)" by (auto simp: refers_to_iff)
      from referred [OF this] cxx show ?thesis by auto
    next
      case False
      with f show ?thesis by blast
    qed
  next
    fix b
    assume "t_base_type t = Some b" "b \<noteq> []" "b \<in> fst ` set types"
    then show "\<exists>u \<in> set ts. t_name u = b" using referred [of b] by (auto simp: refers_to_iff)
  qed
qed

text \<open>What the requests give: what is found is one of the candidates, and a request that is not missing has its key there.\<close>

lemma resolve_requests_found:
  "resolve_requests look key rs (found, missing) = (found', []) \<Longrightarrow>
     missing = [] \<and> key ` set found \<subseteq> key ` set found' \<and> (\<forall>r \<in> set rs. \<exists>e. look r = Some e \<and> key e \<in> key ` set found')"
proof (induction look key rs "(found, missing)" arbitrary: found missing rule: resolve_requests.induct)
  case (1 look key found missing)
  then show ?case by simp
next
  case (2 look key r rs found missing)
  show ?case
  proof (cases "look r")
    case None
    with 2 show ?thesis by fastforce
  next
    case (Some e)
    with "2.hyps"(2) [OF Some] "2.prems" show ?thesis by (fastforce split: if_splits)
  qed
qed

lemma find_Some: "find P xs = Some x \<Longrightarrow> x \<in> set xs \<and> P x"
  by (induction xs) (auto split: if_splits)

lemma subset_requests:
  assumes "types_ok types" and "select_subset types gs ms as = Inr (gs', ts)"
  shows "\<forall>m \<in> set ms. \<exists>e \<in> set gs'. m \<in> {g_name e, g_cxx_name e, g_type_name e, g_cxx_type e}"
    and "\<forall>a \<in> set as. \<exists>u \<in> set ts. a \<in> {t_name u, t_cxx_name u}"
proof -
  obtain selected names where ts: "ts = map snd (filter (\<lambda>(n, _). n \<in> collect_required_type_names types selected names) types)"
    and selected: "resolve_global_elements gs ms = Inr selected" and names: "resolve_type_roots types as = Inr names"
    using assms(2) by (rule subset_types)
  have gs': "gs' = filter (\<lambda>e. g_name e \<in> g_name ` set selected) gs"
    using assms(2) selected by (auto simp: select_subset_def Let_def pbind_eq_Inr_iff)
  obtain missing where "resolve_requests (global_lookup gs) g_name ms ([], []) = (selected, missing)" "missing = []"
    using selected by (auto simp: resolve_global_elements_def Let_def split: prod.splits if_splits)
  then have found: "\<forall>m \<in> set ms. \<exists>e. global_lookup gs m = Some e \<and> g_name e \<in> g_name ` set selected"
    using resolve_requests_found by blast
  show "\<forall>m \<in> set ms. \<exists>e \<in> set gs'. m \<in> {g_name e, g_cxx_name e, g_type_name e, g_cxx_type e}"
  proof
    fix m
    assume "m \<in> set ms"
    with found obtain e where e: "global_lookup gs m = Some e" "g_name e \<in> g_name ` set selected" by blast
    then have "e \<in> set gs" "m \<in> {g_name e, g_cxx_name e, g_type_name e, g_cxx_type e}"
      by (auto simp: global_lookup_def dest!: find_Some)
    with e(2) show "\<exists>e \<in> set gs'. m \<in> {g_name e, g_cxx_name e, g_type_name e, g_cxx_type e}"
      unfolding gs' by (intro bexI [of _ e]) simp_all
  qed
  obtain missing where "resolve_requests (type_lookup types) id as ([], []) = (names, missing)" "missing = []"
    using names by (auto simp: resolve_type_roots_def Let_def split: prod.splits if_splits)
  then have found: "\<forall>a \<in> set as. \<exists>n. type_lookup types a = Some n \<and> n \<in> set names"
    using resolve_requests_found by fastforce
  show "\<forall>a \<in> set as. \<exists>u \<in> set ts. a \<in> {t_name u, t_cxx_name u}"
  proof
    fix a
    assume "a \<in> set as"
    with found obtain n where n: "type_lookup types a = Some n" "n \<in> set names" by blast
    then obtain t where t: "(n, t) \<in> set types" "a = n \<or> a = t_cxx_name t"
      by (auto simp: type_lookup_def dest!: find_Some)
    then have "t_name t = n" using assms(1) by (auto simp: types_ok_def)
    moreover have "n \<in> collect_required_type_names types selected names"
      using collected_types(1) [of selected names types] n(2) t(1) by force
    ultimately show "\<exists>u \<in> set ts. a \<in> {t_name u, t_cxx_name u}"
      using t unfolding ts by (intro bexI [of _ t]) (auto intro: rev_image_eqI)
  qed
qed

text \<open>
  C28: A subset has every message and accessor asked for, and is closed: the header that a type's header includes for
  a field or a variant is that of a type of the subset, and the declared base of a type is in the subset. Only what
  the schema does not declare can be missing.
\<close>

theorem subset_is_self_contained:
  assumes "parse_all roots = Inr (types, gs)" and "select_subset types gs ms as = Inr (gs', ts)"
  shows "(\<forall>m \<in> set ms. \<exists>e \<in> set gs'. m \<in> {g_name e, g_cxx_name e, g_type_name e, g_cxx_type e}) \<and>
    (\<forall>a \<in> set as. \<exists>u \<in> set ts. a \<in> {t_name u, t_cxx_name u}) \<and>
    (\<forall>t \<in> set ts.
      (\<forall>h \<in> set (include_type_headers (collect_public_header_dependencies t)).
        (\<exists>u \<in> set ts. t_cxx_name u = h) \<or>
        (\<exists>f \<in> set (t_fields t @ concat (t_choices t)). f_cxx_type f = h \<and> f_type_name f \<notin> fst ` set types)) \<and>
      (\<forall>b. t_base_type t = Some b \<longrightarrow> b \<noteq> [] \<longrightarrow> b \<in> fst ` set types \<longrightarrow> (\<exists>u \<in> set ts. t_name u = b)))"
  using subset_requests [OF parse_all_ok [OF assms(1)] assms(2)]
    subset_type_headers [OF parse_all_ok [OF assms(1)] assms(2)] by (intro conjI ballI) blast+

section \<open>What is registered\<close>

lemma byte_of_char_uint: "uint (byte_of_char c) = of_char c"
proof -
  have "uint (byte_of_char c) = int (of_char c)"
    unfolding byte_of_char_alt by (simp add: unsigned_of_nat take_bit_nat_eq_self)
  then show ?thesis by (simp only: of_nat_of_char)
qed

lemma py_fnv_step: "((uint (w :: u32) XOR of_char c) * 16777619) AND 0xFFFFFFFF = uint ((w XOR ucast (byte_of_char c)) * 16777619)"
proof -
  have "x AND 0xFFFFFFFF = take_bit 32 x" for x :: int
    by (simp add: take_bit_eq_mask mask_eq_exp_minus_1)
  moreover have "uint (ucast (byte_of_char c) :: u32) = of_char c"
    using byte_of_char_uint [of c] by (simp add: uint_up_ucast is_up)
  then have "uint w XOR of_char c = uint (w XOR ucast (byte_of_char c))"
    by (simp add: uint_xor)
  ultimately show ?thesis by (simp add: uint_word_ariths take_bit_eq_mod)
qed

lemma py_fnv1a32_eq: "c_string s \<Longrightarrow> py_fnv1a32 s = uint (type_tag s)"
proof -
  assume "c_string s"
  then have "foldl (\<lambda>h c. ((h XOR of_char c) * 16777619) AND 0xFFFFFFFF) (uint h) s = uint (fnv1a32 s h)" for h
    by (induction s arbitrary: h) (simp_all only: foldl.simps fnv1a32.simps c_string_simps py_fnv_step if_False simp_thms)
  from this [of fnv_offset] show ?thesis by (simp add: py_fnv1a32_def type_tag_def fnv_offset_def)
qed

text \<open>With names that all differ, the check is whether the tags do.\<close>

lemma check_tags_iff:
  "distinct (map (fst \<circ> snd) es) \<Longrightarrow> (\<forall>e \<in> set es. fst (snd e) \<notin> snd ` set seen) \<Longrightarrow>
     (\<exists>u. check_tags es seen = Inr u) \<longleftrightarrow>
     distinct (map (snd \<circ> snd) es) \<and> (\<forall>e \<in> set es. snd (snd e) \<notin> fst ` set seen)"
proof (induction es seen rule: check_tags.induct)
  case (1 seen)
  then show ?case by simp
next
  case (2 c n tag es seen)
  have n: "\<forall>e \<in> set es. fst (snd e) \<noteq> n" and dist: "distinct (map (fst \<circ> snd) es)"
    and old: "n \<notin> snd ` set seen" "\<forall>e \<in> set es. fst (snd e) \<notin> snd ` set seen"
    using "2.prems" by (auto simp: comp_def)
  show ?case
  proof (cases "map_of seen tag")
    case None
    then have tag: "tag \<notin> fst ` set seen" by (simp add: map_of_eq_None_iff)
    have "\<forall>e \<in> set es. fst (snd e) \<notin> snd ` set (seen @ [(tag, n)])" using n old(2) by simp
    from "2.IH"(1) [OF None dist this] show ?thesis using None tag by auto
  next
    case (Some m)
    then have "(tag, m) \<in> set seen" by (rule map_of_SomeD)
    then have "tag \<in> fst ` set seen" "m \<in> snd ` set seen" by (auto intro: rev_image_eqI)
    then have "tag \<in> fst ` set seen" "m \<noteq> n" using old(1) by auto
    with Some show ?thesis by simp
  qed
qed

definition cdr_types :: "type_model list \<Rightarrow> type_model list" where
  "cdr_types models = filter (\<lambda>m. \<not> t_is_simple_restriction m) models"

lemma render_cdr_register_all_eq:
  "render_cdr_register_all models = pbind (check_tags (map (\<lambda>m. (t_cxx_name m, t_name m, py_fnv1a32 (t_name m))) (cdr_types models)) [])
     (\<lambda>_. Inr (map (\<lambda>m. (t_cxx_name m, t_name m, py_fnv1a32 (t_name m))) (cdr_types models)))"
  by (simp add: render_cdr_register_all_def cdr_types_def Let_def)

lemma selected_models_ok:
  assumes "selected_models roots subset_config = Inr (gs, ts)"
  shows "distinct (map t_name ts) \<and> list_all type_ok ts"
proof -
  obtain types globals where parsed: "parse_all roots = Inr (types, globals)"
    and sel: "(case subset_config of None \<Rightarrow> Inr (globals, map snd types)
        | Some raw \<Rightarrow> pbind (SubsetConfig_load raw) (\<lambda>(_, messages, accessors). select_subset types globals messages accessors)) = Inr (gs, ts)"
    using assms by (auto simp: selected_models_def pbind_eq_Inr_iff)
  have ok: "types_ok types" using parsed by (rule parse_all_ok)
  have "\<exists>P. ts = map snd (filter P types)"
  proof (cases subset_config)
    case None
    with sel have "ts = map snd (filter (\<lambda>_. True) types)" by simp
    then show ?thesis by blast
  next
    case (Some c)
    with sel show ?thesis by (auto simp: pbind_eq_Inr_iff elim!: subset_types)
  qed
  then obtain P where ts: "ts = map snd (filter P types)" ..
  have keys: "map (\<lambda>e. t_name (snd e)) types = map fst types" using ok by (auto simp: types_ok_def)
  have "distinct (map (\<lambda>e. t_name (snd e)) types)" unfolding keys using ok by (simp add: types_ok_def)
  then have "distinct (map (\<lambda>e. t_name (snd e)) (filter P types))" by (rule distinct_map_filter)
  moreover have "list_all type_ok ts" using ok by (auto simp: ts types_ok_def list_all_iff)
  ultimately show ?thesis by (simp add: ts comp_def)
qed

text \<open>
  C29: The compiler accepts a schema or a subset exactly when the registration it generates succeeds at run time: the
  tags it compares are those of the library, computed in 32 bits, and the entries it lists are registered with them.
\<close>

theorem accepted_types_register:
  assumes "selected_models roots subset_config = Inr (gs, ts)" and "\<forall>t \<in> set ts. c_string (t_name t)"
  shows "((\<exists>es. render_cdr_register_all ts = Inr es) \<longleftrightarrow>
      (\<exists>r. register_all_cdr_handlers (map (\<lambda>t. (t_name t, h t)) (filter (\<lambda>t. \<not> t_is_simple_restriction t) ts)) empty_cdr_registry = Inr r)) \<and>
    (\<forall>es. render_cdr_register_all ts = Inr es \<longrightarrow>
      es = map (\<lambda>t. (t_cxx_name t, t_name t, uint (type_tag (t_name t)))) (filter (\<lambda>t. \<not> t_is_simple_restriction t) ts))"
proof -
  let ?ts = "cdr_types ts"
  have names: "distinct (map t_name ?ts)"
    using selected_models_ok [OF assms(1)] by (simp add: cdr_types_def distinct_map_filter)
  have c: "\<forall>t \<in> set ?ts. c_string (t_name t)" using assms(2) by (simp add: cdr_types_def)
  let ?es = "map (\<lambda>m. (t_cxx_name m, t_name m, py_fnv1a32 (t_name m))) ?ts"
  have es: "?es = map (\<lambda>t. (t_cxx_name t, t_name t, uint (type_tag (t_name t)))) ?ts"
    using c by (simp add: py_fnv1a32_eq)
  have "distinct (map (fst \<circ> snd) ?es)" using names by (simp add: comp_def)
  then have "(\<exists>u. check_tags ?es [] = Inr u) \<longleftrightarrow> distinct (map (snd \<circ> snd) ?es)"
    by (subst check_tags_iff) simp_all
  also have "\<dots> \<longleftrightarrow> distinct (map uint (map (\<lambda>t. type_tag (t_name t)) ?ts))" unfolding es by (simp add: comp_def)
  also have "\<dots> \<longleftrightarrow> distinct (map (\<lambda>t. type_tag (t_name t)) ?ts)"
    unfolding distinct_map [of uint] by (simp add: inj_on_def word_uint_eq_iff)
  also have "\<dots> \<longleftrightarrow> (\<exists>r. register_all_cdr_handlers (map (\<lambda>t. (t_name t, h t)) ?ts) empty_cdr_registry = Inr r)"
    unfolding register_all_cdr_handlers_iff by (simp add: comp_def)
  finally have "(\<exists>u. check_tags ?es [] = Inr u) \<longleftrightarrow>
      (\<exists>r. register_all_cdr_handlers (map (\<lambda>t. (t_name t, h t)) ?ts) empty_cdr_registry = Inr r)" .
  then show ?thesis
    unfolding render_cdr_register_all_eq pbind_eq_Inr_iff es cdr_types_def [symmetric] by auto
qed

section \<open>A schema\<close>

text \<open>A message with a base, a field of an enumeration, a bounded list and a choice; one type that nothing refers to.\<close>

definition elem :: "string \<Rightarrow> string \<Rightarrow> (string \<times> string) list \<Rightarrow> xml" where
  "elem n t as = Xml ''xs:element'' ((''name'', n) # (''type'', t) # as) []"

definition demo_schema :: "xml list" where
  "demo_schema = [Xml ''xs:schema'' [] [
     elem ''Entity'' ''EntityMT'' [],
     Xml ''xs:complexType'' [(''name'', ''EntityMT'')] [
       Xml ''xs:complexContent'' [] [Xml ''xs:extension'' [(''base'', ''MessageType'')] [
         Xml ''xs:sequence'' [] [elem ''ID'' ''UniversallyUniqueIdentifierType'' [], elem ''kind'' ''KindEnum'' [(''minOccurs'', ''0'')],
           elem ''Note'' ''xs:string'' [(''maxOccurs'', ''4'')]]]]],
     Xml ''xs:complexType'' [(''name'', ''MessageType''), (''abstract'', ''true'')] [
       Xml ''xs:choice'' [] [elem ''A'' ''pointType'' [], elem ''B'' ''xs:int'' []]],
     Xml ''xs:complexType'' [(''name'', ''pointType'')] [Xml ''xs:sequence'' [] [elem ''X'' ''xs:double'' []]],
     Xml ''xs:complexType'' [(''name'', ''OtherType'')] [],
     Xml ''xs:simpleType'' [(''name'', ''KindEnum'')] [Xml ''xs:restriction'' [(''base'', ''xs:string'')]
       [Xml ''xs:enumeration'' [(''value'', ''ONE'')] []]]]]"

definition demo_config :: py_json where
  "demo_config = PDict [(''cal_name_suffix'', PStr ''demo''), (''message_types'', PList [PStr ''Entity '', PStr ''EntityMT''])]"

lemma demo_selected:
  "map_sum id (\<lambda>(gs, ts). (map g_name gs, map (\<lambda>t. (t_name t, include_type_headers (collect_public_header_dependencies t))) ts))
     (selected_models demo_schema (Some demo_config)) =
   Inr ([''Entity''], [(''EntityMT'', [''KindEnum'']), (''MessageType'', [''PointType'']), (''pointType'', []), (''KindEnum'', [])])"
  by code_simp

lemma demo_config_read: "SubsetConfig_load demo_config = Inr (''demo'', [''Entity'', ''EntityMT''], [])"
  by code_simp

lemma demo_selected_names:
  obtains gs ts where "selected_models demo_schema (Some demo_config) = Inr (gs, ts)"
    and "map t_name ts = [''EntityMT'', ''MessageType'', ''pointType'', ''KindEnum'']"
  using demo_selected by (cases "selected_models demo_schema (Some demo_config)") (auto simp: comp_def)

theorem subset_is_self_contained_witness:
  "\<exists>types gs gs' ts. parse_all demo_schema = Inr (types, gs) \<and> select_subset types gs [''Entity'', ''EntityMT''] [] = Inr (gs', ts) \<and>
     map t_name ts = [''EntityMT'', ''MessageType'', ''pointType'', ''KindEnum''] \<and> (\<exists>e \<in> set gs'. ''Entity'' \<in> {g_name e, g_cxx_name e, g_type_name e, g_cxx_type e})"
proof -
  obtain gs' ts where sel: "selected_models demo_schema (Some demo_config) = Inr (gs', ts)"
    and names: "map t_name ts = [''EntityMT'', ''MessageType'', ''pointType'', ''KindEnum'']" by (rule demo_selected_names)
  from sel obtain types gs where p: "parse_all demo_schema = Inr (types, gs)"
    and s: "select_subset types gs [''Entity'', ''EntityMT''] [] = Inr (gs', ts)"
    by (auto simp: selected_models_def pbind_eq_Inr_iff demo_config_read)
  from subset_is_self_contained [OF p s] have "\<forall>m \<in> set [''Entity'', ''EntityMT'']. \<exists>e \<in> set gs'. m \<in> {g_name e, g_cxx_name e, g_type_name e, g_cxx_type e}"
    by (rule conjunct1)
  with p s names show ?thesis by auto
qed

theorem accepted_types_register_witness:
  "\<exists>gs ts. selected_models demo_schema (Some demo_config) = Inr (gs, ts) \<and>
     ((\<exists>es. render_cdr_register_all ts = Inr es) \<longleftrightarrow>
      (\<exists>r. register_all_cdr_handlers (map (\<lambda>t. (t_name t, ())) (filter (\<lambda>t. \<not> t_is_simple_restriction t) ts)) empty_cdr_registry = Inr r))"
proof -
  obtain gs ts where sel: "selected_models demo_schema (Some demo_config) = Inr (gs, ts)"
    and names: "map t_name ts = [''EntityMT'', ''MessageType'', ''pointType'', ''KindEnum'']" by (rule demo_selected_names)
  have "\<forall>n \<in> set (map t_name ts). c_string n" unfolding names by (simp add: byte_of_char_def)
  then have "\<forall>t \<in> set ts. c_string (t_name t)" by simp
  from accepted_types_register [OF sel this, of "\<lambda>_. ()"] sel show ?thesis by blast
qed

section \<open>What the reading of names and occurrences does\<close>

text \<open>Names that differ only in the case of the first letter are one C++ class, with one header.\<close>

lemma cxx_names_collide: "xsd_name_to_cxx ''fooType'' = xsd_name_to_cxx ''FooType''"
  by code_simp

text \<open>An element that may not occur at all becomes a mandatory field.\<close>

lemma max_occurs_zero_is_mandatory:
  "map_sum id (map_option (\<lambda>f. (f_optional f, f_list_kind f))) (element_to_field (elem ''X'' ''xs:int'' [(''minOccurs'', ''0''), (''maxOccurs'', ''0'')])) =
   Inr (Some (False, NoList))"
  by code_simp

text \<open>
  A value made of letters, digits, underscores and the characters that are replaced becomes a C++ identifier; two
  such values may become the same one.
\<close>

definition letter_or_digit :: "char \<Rightarrow> bool" where
  "letter_or_digit c = (let n = of_char c :: nat in 48 \<le> n \<and> n \<le> 57 \<or> 65 \<le> n \<and> n \<le> 90 \<or> 97 \<le> n \<and> n \<le> 122)"

definition cxx_identifier :: "string \<Rightarrow> bool" where
  "cxx_identifier s \<longleftrightarrow> s \<noteq> [] \<and> dec_digit (hd s) = None \<and> list_all (\<lambda>c. letter_or_digit c \<or> c = CHR ''_'') s"

lemma letter_or_digit_upper: "letter_or_digit c \<Longrightarrow> letter_or_digit (upper c)"
  by (auto simp: letter_or_digit_def upper_def Let_def)

lemma replaced_character:
  assumes "letter_or_digit d \<or> d \<in> set ''_-. /()''" and "e = (if upper d \<in> set ''-. /('' then CHR ''_'' else upper d)" and "e \<noteq> CHR '')''"
  shows "letter_or_digit e \<or> e = CHR ''_''"
  using assms(1)
proof
  assume "letter_or_digit d"
  with assms(2) letter_or_digit_upper show ?thesis by (cases "upper d \<in> set ''-. /(''") simp_all
next
  assume d: "d \<in> set ''_-. /()''"
  then have "upper d = d" by (auto simp: upper_def)
  with d assms(2,3) show ?thesis by auto
qed

lemma sanitize_enum_identifier:
  assumes "list_all (\<lambda>c. letter_or_digit c \<or> c \<in> set ''_-. /()'') v"
  shows "cxx_identifier (sanitize_enum v)"
proof -
  define g where "g = (\<lambda>c. if c \<in> set ''-. /('' then CHR ''_'' else c)"
  define r where "r = filter (\<lambda>c. c \<noteq> CHR '')'') (map g (map upper v))"
  have all: "list_all (\<lambda>c. letter_or_digit c \<or> c = CHR ''_'') r"
    unfolding list_all_iff
  proof
    fix c
    assume "c \<in> set r"
    then obtain d where d: "d \<in> set v" and c: "c = g (upper d)" "c \<noteq> CHR '')''"
      unfolding r_def set_filter set_map by blast
    have "letter_or_digit d \<or> d \<in> set ''_-. /()''" using assms d unfolding list_all_iff by blast
    then show "letter_or_digit c \<or> c = CHR ''_''" using c unfolding g_def by (rule replaced_character)
  qed
  have fixed: "cxx_identifier ''EMPTY''" "dec_digit CHR ''E'' = None" "letter_or_digit CHR ''E''" by code_simp+
  have "sanitize_enum v = (if r = [] then ''EMPTY'' else if dec_digit (hd r) \<noteq> None then ''E_'' @ r else r)"
    by (simp add: sanitize_enum_def Let_def r_def g_def)
  with all fixed show ?thesis by (simp add: cxx_identifier_def)
qed

lemma enum_names_collide: "sanitize_enum ''A-B'' = sanitize_enum ''a b''"
  by code_simp

section \<open>Shards\<close>

lemma concat_chunks:
  "0 < n \<Longrightarrow> concat (map snd (iter_chunks items n)) = items"
proof -
  assume n: "0 < n"
  have "concat (map (\<lambda>k. take n (drop (k * n) items)) [0..<m]) = take (m * n) items" for m
    by (induction m) (simp_all add: take_add add.commute [of n])
  moreover have "length items \<le> (length items + n - 1) div n * n"
  proof -
    have "length items + n - 1 < ((length items + n - 1) div n + 1) * n" using n by (simp add: dividend_less_div_times)
    then show ?thesis using n by (simp add: algebra_simps)
  qed
  ultimately show ?thesis by (simp add: iter_chunks_def comp_def)
qed

text \<open>The shards list every class once, in the order of the types, and none has more than its share.\<close>

lemma shards_list_every_class:
  "concat (map snd (render_type_lifecycle_shards models)) = map t_cxx_name (filter (\<lambda>m. \<not> t_is_simple_restriction m) models) \<and>
   (\<forall>(k, shard) \<in> set (render_type_lifecycle_shards models). length shard \<le> 80 \<and> shard \<noteq> [])"
proof
  show "concat (map snd (render_type_lifecycle_shards models)) = map t_cxx_name (filter (\<lambda>m. \<not> t_is_simple_restriction m) models)"
    unfolding render_type_lifecycle_shards_def by (rule concat_chunks) (simp add: GENERATED_CORE_SHARD_SIZE_def)
  have "take 80 (drop (k * 80) xs) \<noteq> []" if "k < (length xs + 79) div 80" for k and xs :: "string list"
  proof -
    from that have "Suc k \<le> (length xs + 79) div 80" by simp
    then have "Suc k * 80 \<le> length xs + 79" by (simp add: less_eq_div_iff_mult_less_eq)
    then show ?thesis by simp
  qed
  then show "\<forall>(k, shard) \<in> set (render_type_lifecycle_shards models). length shard \<le> 80 \<and> shard \<noteq> []"
    by (auto simp: render_type_lifecycle_shards_def iter_chunks_def GENERATED_CORE_SHARD_SIZE_def)
qed

end
