(* ===== verification/Schema_Output.thy ===== *)
theory Schema_Output
  imports Schema_Facts
begin

text \<open>
  What a run of the schema compiler (\<open>main\<close> of \<open>tools/schema_compiler/compiler.py\<close>) leaves: the entries
  of the accessor factory, the files written and the stale files removed. What the template engine makes of a template
  is an argument; a directory is the list of its files with their contents.
\<close>

section \<open>What the lists in the generated files hold\<close>

text \<open>The entries of the accessor factory: the first element of each C++ type, with the tag of its type's name.\<close>

fun factory_loop :: "global_element list \<Rightarrow> string set \<Rightarrow> (string \<times> int) list" where
  "factory_loop [] seen = []"
| "factory_loop (e # es) seen =
     (if g_type_name e \<noteq> [] \<and> g_cxx_type e \<notin> seen
      then (g_cxx_type e, py_fnv1a32 (g_type_name e)) # factory_loop es (insert (g_cxx_type e) seen)
      else factory_loop es seen)"

definition render_accessor_factory :: "global_element list \<Rightarrow> (string \<times> int) list" where
  "render_accessor_factory elems = factory_loop elems {}"

definition render_json_register_all :: "type_model list \<Rightarrow> (string \<times> string) list" where
  "render_json_register_all models = map (\<lambda>m. (t_cxx_name m, t_name m)) (filter (\<lambda>m. \<not> t_is_simple_restriction m) models)"

definition render_accessor_type_h :: "type_model list \<Rightarrow> (string \<times> string \<times> int) list" where
  "render_accessor_type_h models = map (\<lambda>m. (t_cxx_name m, t_name m, py_fnv1a32 (t_name m))) models"

section \<open>Files\<close>

datatype dir = Type_Dir | Cdr_Dir | Json_Dir | Impl_Dir

type_synonym files = "(string \<times> string) list"

record run_state =
  dirs :: "dir \<Rightarrow> files"
  written :: "(dir \<times> string) list"

definition write_text_if_changed :: "string \<Rightarrow> string \<Rightarrow> files \<Rightarrow> files" where
  "write_text_if_changed path content fs = (if map_of fs path = Some content then fs else AList.update path content fs)"

definition emit_file :: "dir \<Rightarrow> string \<Rightarrow> string \<Rightarrow> run_state \<Rightarrow> run_state" where
  "emit_file d path content out =
     out\<lparr>dirs := (dirs out)(d := write_text_if_changed path content (dirs out d)), written := (d, path) # written out\<rparr>"

text \<open>What is rendered, by template.\<close>

record templates =
  r_type :: "type_model \<Rightarrow> global_element option \<Rightarrow> string"
  r_type_impl :: "type_model \<Rightarrow> string"
  r_type_impl_cpp :: "type_model \<Rightarrow> global_element option \<Rightarrow> string"
  r_cdr :: "type_model \<Rightarrow> string"
  r_json :: "type_model \<Rightarrow> string"
  r_accessor_type_h :: "(string \<times> string \<times> int) list \<Rightarrow> string"
  r_cdr_register_all :: "(string \<times> string \<times> int) list \<Rightarrow> string"
  r_json_register_all :: "(string \<times> string) list \<Rightarrow> string"
  r_global_element :: "global_element \<Rightarrow> string"
  r_accessor_factory :: "(string \<times> int) list \<Rightarrow> string"

text \<open>The files of a type; the name \<open>main\<close> computes for them is the C++ name of the model.\<close>

definition write_type :: "templates \<Rightarrow> (string \<Rightarrow> global_element option) \<Rightarrow> type_model \<Rightarrow> run_state \<Rightarrow> run_state" where
  "write_type T global_element_for_type t out =
     (let name = t_cxx_name t; ge = global_element_for_type (t_name t);
          out = emit_file Type_Dir (name @ ''.h'') (r_type T t ge) out
      in if t_is_simple_restriction t then out
         else emit_file Json_Dir (name @ ''_json.cpp'') (r_json T t)
             (emit_file Cdr_Dir (name @ ''_cdr.cpp'') (r_cdr T t)
             (emit_file Impl_Dir (name @ ''Impl.cpp'') (r_type_impl_cpp T t ge)
             (emit_file Impl_Dir (name @ ''Impl.h'') (r_type_impl T t) out))))"

definition ends_with :: "string \<Rightarrow> string \<Rightarrow> bool" where
  "ends_with x s \<longleftrightarrow> length x \<le> length s \<and> drop (length s - length x) s = x"

text \<open>The patterns of the files that were there before; the others are never removed.\<close>

definition globbed :: "dir \<Rightarrow> string \<Rightarrow> bool" where
  "globbed d path = (case d of Type_Dir \<Rightarrow> ends_with ''.h'' path | Cdr_Dir \<Rightarrow> ends_with ''.cpp'' path
     | Json_Dir \<Rightarrow> ends_with ''.cpp'' path | Impl_Dir \<Rightarrow> ends_with ''.h'' path \<or> ends_with ''.cpp'' path)"

definition unlink_stale :: "(dir \<Rightarrow> files) \<Rightarrow> run_state \<Rightarrow> (dir \<Rightarrow> files)" where
  "unlink_stale before out = (\<lambda>d. filter (\<lambda>(path, _).
     \<not> (path \<in> fst ` set (before d) \<and> globbed d path \<and> (d, path) \<notin> set (written out))) (dirs out d))"

text \<open>A run: the directories afterwards, and whether it raised. What was written before an exception stays.\<close>

definition main_run :: "templates \<Rightarrow> xml list \<Rightarrow> py_json option \<Rightarrow> (dir \<Rightarrow> files) \<Rightarrow>
    (dir \<Rightarrow> files) \<times> unit py" where
  "main_run T roots subset_config before =
     (case selected_models roots subset_config of
        Inl e \<Rightarrow> (before, Inl e)
      | Inr (elems, models) \<Rightarrow>
          let ge = map_of (rev (map (\<lambda>e. (g_type_name e, e)) elems));
              out = fold (write_type T ge) models \<lparr>dirs = before, written = []\<rparr>;
              out = emit_file Type_Dir ''accessorType.h'' (r_accessor_type_h T (render_accessor_type_h models)) out
          in case render_cdr_register_all models of
               Inl e \<Rightarrow> (dirs out, Inl e)
             | Inr entries \<Rightarrow>
                 let out = emit_file Cdr_Dir ''cdr_register_all.cpp'' (r_cdr_register_all T entries) out;
                     out = emit_file Json_Dir ''json_register_all.cpp'' (r_json_register_all T (render_json_register_all models)) out;
                     out = fold (\<lambda>e. emit_file Type_Dir (g_cxx_name e @ ''.h'') (r_global_element T e)) elems out;
                     out = emit_file Cdr_Dir ''accessor_factory_all.cpp'' (r_accessor_factory T (render_accessor_factory elems)) out
                 in (unlink_stale before out, Inr ()))"

section \<open>What a run leaves\<close>

lemma map_of_write: "map_of (write_text_if_changed path content fs) = (map_of fs)(path \<mapsto> content)"
  by (auto simp: write_text_if_changed_def update_conv fun_eq_iff)

text \<open>Everything a run does to the files are such steps: it writes a file and notes that it did.\<close>

definition agrees :: "(dir \<Rightarrow> files) \<Rightarrow> run_state \<Rightarrow> bool" where
  "agrees before out \<longleftrightarrow> (\<forall>d path. (d, path) \<notin> set (written out) \<longrightarrow> map_of (dirs out d) path = map_of (before d) path) \<and>
     (\<forall>(d, path) \<in> set (written out). map_of (dirs out d) path \<noteq> None)"

lemma agrees_start: "agrees before \<lparr>dirs = before, written = []\<rparr>"
  by (simp add: agrees_def)

lemma agrees_emit: "agrees before out \<Longrightarrow> agrees before (emit_file d path content out)"
  by (auto simp: agrees_def emit_file_def map_of_write)

lemma written_emit: "written (emit_file d path content out) = (d, path) # written out"
  by (simp add: emit_file_def)

lemma agrees_write_type: "agrees before out \<Longrightarrow> agrees before (write_type T ge t out)"
  by (simp add: write_type_def Let_def agrees_emit)

lemma agrees_fold:
  "(\<And>x out. agrees before out \<Longrightarrow> agrees before (f x out)) \<Longrightarrow> agrees before out \<Longrightarrow> agrees before (fold f xs out)"
  by (induction xs arbitrary: out) auto

definition type_files :: "type_model \<Rightarrow> (dir \<times> string) set" where
  "type_files t = insert (Type_Dir, t_cxx_name t @ ''.h'') (if t_is_simple_restriction t then {} else
     {(Impl_Dir, t_cxx_name t @ ''Impl.h''), (Impl_Dir, t_cxx_name t @ ''Impl.cpp''), (Cdr_Dir, t_cxx_name t @ ''_cdr.cpp''),
      (Json_Dir, t_cxx_name t @ ''_json.cpp'')})"

lemma written_types: "set (written (fold (write_type T ge) ts out)) = \<Union> (type_files ` set ts) \<union> set (written out)"
  by (induction ts arbitrary: out) (auto simp: write_type_def Let_def written_emit type_files_def)

lemma written_elements:
  "set (written (fold (\<lambda>e. emit_file Type_Dir (g_cxx_name e @ ''.h'') (c e)) es out)) =
     (\<lambda>e. (Type_Dir, g_cxx_name e @ ''.h'')) ` set es \<union> set (written out)"
  by (induction es arbitrary: out) (auto simp: written_emit)

definition generated_files :: "global_element list \<Rightarrow> type_model list \<Rightarrow> (dir \<times> string) set" where
  "generated_files elems models = \<Union> (type_files ` set models) \<union> (\<lambda>e. (Type_Dir, g_cxx_name e @ ''.h'')) ` set elems \<union>
     {(Type_Dir, ''accessorType.h''), (Cdr_Dir, ''cdr_register_all.cpp''), (Cdr_Dir, ''accessor_factory_all.cpp''),
      (Json_Dir, ''json_register_all.cpp'')}"

lemma map_of_filter_fst: "map_of (filter (\<lambda>(k, _). P k) xs) k = (if P k then map_of xs k else None)"
  by (induction xs) auto

lemma unlink_stale_result:
  assumes "agrees before out"
  shows "path \<in> fst ` set (unlink_stale before out d) \<longleftrightarrow>
     (d, path) \<in> set (written out) \<or> (path \<in> fst ` set (before d) \<and> \<not> globbed d path)"
proof -
  have in_dom: "path \<in> fst ` set fs \<longleftrightarrow> map_of fs path \<noteq> None" for fs :: files
    by (simp add: map_of_eq_None_iff)
  have kept: "map_of (unlink_stale before out d) path =
      (if path \<in> fst ` set (before d) \<and> globbed d path \<and> (d, path) \<notin> set (written out) then None else map_of (dirs out d) path)"
    unfolding unlink_stale_def by (subst map_of_filter_fst) simp
  show ?thesis
  proof (cases "(d, path) \<in> set (written out)")
    case True
    with assms have "map_of (dirs out d) path \<noteq> None" by (auto simp: agrees_def)
    with True show ?thesis unfolding in_dom [of "unlink_stale before out d"] kept by simp
  next
    case False
    with assms have "map_of (dirs out d) path = map_of (before d) path" by (simp add: agrees_def)
    with False show ?thesis unfolding in_dom [of "unlink_stale before out d"] kept by (auto simp: in_dom)
  qed
qed

text \<open>
  A run that succeeds leaves in its directories the files of the selected types and messages and the files on all of
  them, no source of an earlier run, and every file that does not look like a generated one.
\<close>

theorem run_leaves_generated_files:
  assumes "main_run T roots subset_config before = (after, Inr ())"
  shows "\<exists>elems models. selected_models roots subset_config = Inr (elems, models) \<and>
    (\<forall>d path. path \<in> fst ` set (after d) \<longleftrightarrow>
       (d, path) \<in> generated_files elems models \<or> (path \<in> fst ` set (before d) \<and> \<not> globbed d path))"
proof -
  obtain elems models entries where sel: "selected_models roots subset_config = Inr (elems, models)"
    and entries: "render_cdr_register_all models = Inr entries"
    using assms by (auto simp: main_run_def Let_def split: sum.splits prod.splits)
  let ?ge = "map_of (rev (map (\<lambda>e. (g_type_name e, e)) elems))"
  let ?o1 = "emit_file Type_Dir ''accessorType.h'' (r_accessor_type_h T (render_accessor_type_h models))
    (fold (write_type T ?ge) models \<lparr>dirs = before, written = []\<rparr>)"
  let ?o2 = "emit_file Json_Dir ''json_register_all.cpp'' (r_json_register_all T (render_json_register_all models))
    (emit_file Cdr_Dir ''cdr_register_all.cpp'' (r_cdr_register_all T entries) ?o1)"
  let ?o3 = "emit_file Cdr_Dir ''accessor_factory_all.cpp'' (r_accessor_factory T (render_accessor_factory elems))
    (fold (\<lambda>e. emit_file Type_Dir (g_cxx_name e @ ''.h'') (r_global_element T e)) elems ?o2)"
  have after: "after = unlink_stale before ?o3"
    using assms by (simp add: main_run_def sel entries Let_def)
  have "agrees before ?o3" by (intro agrees_emit agrees_fold agrees_write_type agrees_start)
  note left = unlink_stale_result [OF this, folded after]
  have "set (written ?o3) = generated_files elems models"
    by (auto simp: written_emit written_elements written_types generated_files_def)
  with left have "path \<in> fst ` set (after d) \<longleftrightarrow>
      (d, path) \<in> generated_files elems models \<or> (path \<in> fst ` set (before d) \<and> \<not> globbed d path)" for d path
    by simp
  with sel show ?thesis by blast
qed

section \<open>A run\<close>

text \<open>The template engine that names the template; an old header and a note are there before the run.\<close>

definition demo_templates :: templates where
  "demo_templates = \<lparr>r_type = (\<lambda>t _. t_name t), r_type_impl = t_name, r_type_impl_cpp = (\<lambda>t _. t_name t), r_cdr = t_name, r_json = t_name,
     r_accessor_type_h = (\<lambda>_. []), r_cdr_register_all = (\<lambda>_. []), r_json_register_all = (\<lambda>_. []), r_global_element = g_name,
     r_accessor_factory = (\<lambda>_. [])\<rparr>"

definition demo_before :: "dir \<Rightarrow> files" where
  "demo_before d = (case d of Type_Dir \<Rightarrow> [(''OldType.h'', []), (''notes.txt'', [])] | _ \<Rightarrow> [])"

lemma demo_run:
  "(case main_run demo_templates demo_schema (Some demo_config) demo_before of
      (after, r) \<Rightarrow> (r, map fst (after Type_Dir), map fst (after Json_Dir))) =
   (Inr (), [''notes.txt'', ''EntityMT.h'', ''MessageType.h'', ''PointType.h'', ''KindEnum.h'', ''accessorType.h'', ''Entity.h''],
    [''EntityMT_json.cpp'', ''MessageType_json.cpp'', ''PointType_json.cpp'', ''KindEnum_json.cpp'', ''json_register_all.cpp''])"
  by code_simp

theorem run_leaves_generated_files_witness:
  "\<exists>after elems models. main_run demo_templates demo_schema (Some demo_config) demo_before = (after, Inr ()) \<and>
     selected_models demo_schema (Some demo_config) = Inr (elems, models) \<and>
     (Type_Dir, ''OldType.h'') \<notin> generated_files elems models \<and> (Type_Dir, ''PointType.h'') \<in> generated_files elems models"
proof -
  obtain after where run: "main_run demo_templates demo_schema (Some demo_config) demo_before = (after, Inr ())"
    and files: "map fst (after Type_Dir) = [''notes.txt'', ''EntityMT.h'', ''MessageType.h'', ''PointType.h'', ''KindEnum.h'', ''accessorType.h'', ''Entity.h'']"
    using demo_run by (cases "main_run demo_templates demo_schema (Some demo_config) demo_before") auto
  from run_leaves_generated_files [OF run] obtain elems models
    where sel: "selected_models demo_schema (Some demo_config) = Inr (elems, models)"
      and left: "\<And>d path. path \<in> fst ` set (after d) \<longleftrightarrow>
        (d, path) \<in> generated_files elems models \<or> (path \<in> fst ` set (demo_before d) \<and> \<not> globbed d path)"
    by blast
  have here: "path \<in> fst ` set (after Type_Dir) \<longleftrightarrow> path \<in> set (map fst (after Type_Dir))" for path by simp
  have "(Type_Dir, ''OldType.h'') \<notin> generated_files elems models"
    using left [of "''OldType.h''" Type_Dir] unfolding here files by simp
  moreover have "(Type_Dir, ''PointType.h'') \<in> generated_files elems models"
    using left [of "''PointType.h''" Type_Dir] unfolding here files by (simp add: demo_before_def)
  ultimately show ?thesis using run sel by blast
qed

section \<open>The accessor factory\<close>

lemma factory_entries:
  "(c, tag) \<in> set (factory_loop es seen) \<Longrightarrow> c \<notin> seen \<and> (\<exists>e \<in> set es. g_type_name e \<noteq> [] \<and> c = g_cxx_type e \<and> tag = py_fnv1a32 (g_type_name e))"
  by (induction es seen rule: factory_loop.induct) (auto split: if_splits)

lemma factory_distinct: "distinct (map fst (factory_loop es seen))"
  by (induction es seen rule: factory_loop.induct) (auto dest: factory_entries)

lemma factory_complete:
  "e \<in> set es \<Longrightarrow> g_type_name e \<noteq> [] \<Longrightarrow> g_cxx_type e \<notin> seen \<Longrightarrow> g_cxx_type e \<in> fst ` set (factory_loop es seen)"
  by (induction es seen rule: factory_loop.induct) (auto split: if_splits)

definition element_ok :: "global_element \<Rightarrow> bool" where
  "element_ok e \<longleftrightarrow> xsd_name_to_cxx (g_type_name e) = Inr (g_cxx_type e)"

lemma parse_schema_elements:
  assumes "parse_schema root st = Inr st'" and "list_all element_ok (snd st)"
  shows "list_all element_ok (snd st')"
proof -
  have types: "list_all element_ok (snd s')" if "pfold (add_type parse) es s = Inr s'" "list_all element_ok (snd s)" for parse es s s'
    using that by (rule pfold_invariant) (auto simp: add_type_def pbind_eq_Inr_iff split: prod.splits)
  have globals: "list_all element_ok (snd s')" if "pfold add_global es s = Inr s'" "list_all element_ok (snd s)" for es s s'
    using that by (rule pfold_invariant)
      (auto simp: add_global_def Let_def GlobalElementModel_def element_ok_def pbind_eq_Inr_iff split: if_splits prod.splits)
  show ?thesis using assms unfolding parse_schema_def by (auto simp: pbind_eq_Inr_iff dest: types globals)
qed

lemma parse_all_elements:
  assumes "parse_all roots = Inr (types, gs)"
  shows "list_all element_ok gs"
proof -
  obtain st where st: "pfold parse_schema roots ([], []) = Inr st" and gs: "gs = snd st"
    using assms by (auto simp: parse_all_def pbind_eq_Inr_iff split: prod.splits)
  have "list_all element_ok (snd ([] :: types, [] :: global_element list))" by simp
  with st have "list_all element_ok (snd st)" by (rule pfold_invariant) (rule parse_schema_elements)
  then show ?thesis by (simp add: gs)
qed

lemma selected_elements:
  assumes "selected_models roots subset_config = Inr (gs, ts)"
  shows "list_all element_ok gs"
proof -
  obtain types globals where parsed: "parse_all roots = Inr (types, globals)"
    and sel: "(case subset_config of None \<Rightarrow> Inr (globals, map snd types)
        | Some raw \<Rightarrow> pbind (SubsetConfig_load raw) (\<lambda>(_, messages, accessors). select_subset types globals messages accessors)) = Inr (gs, ts)"
    using assms by (auto simp: selected_models_def pbind_eq_Inr_iff)
  have "set gs \<subseteq> set globals"
    using sel by (cases subset_config) (auto simp: select_subset_def Let_def pbind_eq_Inr_iff)
  with parse_all_elements [OF parsed] show ?thesis by (auto simp: list_all_iff)
qed

text \<open>
  C30: The accessor factory has one entry for every C++ type of a message, and the class it creates for a tag is the one
  whose CDR and JSON handlers are registered: under that tag, and under the name of the schema type.
\<close>

theorem factory_matches_registration:
  assumes "selected_models roots subset_config = Inr (gs, ts)" and "render_cdr_register_all ts = Inr entries"
  shows "distinct (map fst (render_accessor_factory gs)) \<and>
    (\<forall>e \<in> set gs. g_type_name e \<noteq> [] \<longrightarrow> g_cxx_type e \<in> fst ` set (render_accessor_factory gs)) \<and>
    (\<forall>(c, tag) \<in> set (render_accessor_factory gs). \<exists>e \<in> set gs. c = g_cxx_type e \<and> tag = py_fnv1a32 (g_type_name e) \<and>
       (\<forall>t \<in> set ts. t_name t = g_type_name e \<longrightarrow> \<not> t_is_simple_restriction t \<longrightarrow>
          (c, t_name t, tag) \<in> set entries \<and> (c, t_name t) \<in> set (render_json_register_all ts)))"
proof -
  have entries: "entries = map (\<lambda>m. (t_cxx_name m, t_name m, py_fnv1a32 (t_name m))) (cdr_types ts)"
    using assms(2) by (auto simp: render_cdr_register_all_eq pbind_eq_Inr_iff)
  have same: "g_cxx_type e = t_cxx_name t" if "e \<in> set gs" "t \<in> set ts" "t_name t = g_type_name e" for e t
    using selected_elements [OF assms(1)] selected_models_ok [OF assms(1)] that by (auto simp: list_all_iff element_ok_def type_ok_def)
  have "\<exists>e \<in> set gs. c = g_cxx_type e \<and> tag = py_fnv1a32 (g_type_name e) \<and>
      (\<forall>t \<in> set ts. t_name t = g_type_name e \<longrightarrow> \<not> t_is_simple_restriction t \<longrightarrow>
        (c, t_name t, tag) \<in> set entries \<and> (c, t_name t) \<in> set (render_json_register_all ts))"
    if "(c, tag) \<in> set (render_accessor_factory gs)" for c tag
  proof -
    from that obtain e where e: "e \<in> set gs" "c = g_cxx_type e" "tag = py_fnv1a32 (g_type_name e)"
      by (auto simp: render_accessor_factory_def dest: factory_entries)
    then show ?thesis
      by (intro bexI [of _ e]) (auto simp: entries cdr_types_def render_json_register_all_def same intro!: rev_image_eqI)
  qed
  then show ?thesis using factory_complete [of _ gs "{}"] factory_distinct [of gs "{}"] by (auto simp: render_accessor_factory_def)
qed

lemma demo_factory:
  "map_sum id (\<lambda>(gs, ts). (render_accessor_factory gs, map_sum id (map fst) (render_cdr_register_all ts)))
     (selected_models demo_schema (Some demo_config)) =
   Inr ([(''EntityMT'', py_fnv1a32 ''EntityMT'')], Inr [''EntityMT'', ''MessageType'', ''PointType'', ''KindEnum''])"
  by code_simp

theorem factory_matches_registration_witness:
  "\<exists>gs ts entries. selected_models demo_schema (Some demo_config) = Inr (gs, ts) \<and> render_cdr_register_all ts = Inr entries \<and>
     render_accessor_factory gs = [(''EntityMT'', py_fnv1a32 ''EntityMT'')] \<and> (\<exists>e \<in> set gs. g_cxx_type e = ''EntityMT'')"
proof -
  obtain gs ts where sel: "selected_models demo_schema (Some demo_config) = Inr (gs, ts)"
    and gs: "render_accessor_factory gs = [(''EntityMT'', py_fnv1a32 ''EntityMT'')]"
    and "map_sum id (map fst) (render_cdr_register_all ts) = Inr [''EntityMT'', ''MessageType'', ''PointType'', ''KindEnum'']"
    using demo_factory by (cases "selected_models demo_schema (Some demo_config)") auto
  then obtain entries where entries: "render_cdr_register_all ts = Inr entries"
    by (cases "render_cdr_register_all ts") auto
  from factory_matches_registration [OF sel entries] have "\<exists>e \<in> set gs. g_cxx_type e = ''EntityMT''"
    unfolding gs by auto
  with sel entries gs show ?thesis by blast
qed

end
