(* ===== verification/Spec2Isabelle.thy ===== *)
theory Spec2Isabelle
  imports Uuid_Bits Dds_Listeners Asb_Connection Accessors Owning_Ptrs Owp_Server Demo_Live Dds_Payload Schema_Output
begin

text \<open>
  A verification library for arcal, a C++ implementation of the OMS critical abstraction layer (CAL) over
  DDS. A schema compiler emits accessor types and their CDR and JSON handlers; messages travel as an opaque
  payload of a type tag and CDR octets; a local server (\<open>lacal\<close>) turns what it sees on DDS into JSON lines
  for WebSocket clients. The theories follow the code from the octets up; every definition is translated
  from the function it is named after, and is a function of its state unless two threads share it, when it
  is a step relation.

  \<^bold>\<open>Conventions.\<close> \<open>Prelude\<close> has the machine integers as words, the exceptions (\<open>exn\<close>) and the result type
  \<open>exn + 'a\<close>; \<open>Digits\<close> and \<open>Big_Endian\<close> the number formats. A \<open>std::string\<close> is a list of its octets as
  characters. Undefined behaviour of C++ and loops that do not end are \<open>None\<close>. An \<open>unordered_map\<close> is an
  association list in some order of its entries, or a map where the order cannot be seen.

  \<^bold>\<open>UUIDs\<close> (\<open>src/UUID.cpp\<close>): \<open>Uuid\<close> has the class, \<open>Uuid_String\<close> the parser and printer (the strings that
  \<open>fromString\<close> accepts, which are more than the printed ones), \<open>Uuid_Bits\<close> versions, variants, fields, order and
  the collisions of the name-based constructor.

  \<^bold>\<open>CDR\<close> (\<open>externalizer/cdr\<close>, the CDR template of \<open>tools/schema_compiler/compiler.py\<close>, \<open>src/dds/CdrBridge.cpp\<close>,
  \<open>src/ExternalizerLoader.cpp\<close>): \<open>Cdr_Primitives\<close> and \<open>Cdr_Codec\<close> are the encoders and decoders with the
  locale every one of them satisfies (extends the buffer, reads back anywhere, detects every truncation);
  \<open>Cdr_Handlers\<close> the emitted functions, a schema type being an argument (\<open>ty\<close>), and \<open>Cdr_Messages\<close> their round
  trip and what they do on arbitrary octets; \<open>Cdr_Registry\<close> the type tags and registries; \<open>Cdr_Dispatch\<close> the
  bridge, externalizer and loader.

  \<^bold>\<open>JSON\<close> (\<open>externalizer/json\<close>, the JSON template): \<open>Json_Api\<close> is the JSON library the code calls, a record of
  functions; \<open>Json_Text\<close> what the emitters write, \<open>Json_Documents\<close> what is assumed of the library (a parser
  gives the document of a text this code prints, typed access) with an executable library that satisfies it;
  \<open>Json_Parse\<close> the typed readers; \<open>Json_Handlers\<close> the emitted functions, \<open>Json_Messages\<close> their round trip through
  text, \<open>Json_Externalizer\<close> the externalizer and its registration.

  \<^bold>\<open>Accessors\<close> (\<open>include/uci\<close>): \<open>Accessor_Lists\<close> are the bounded and simple list with their index iterators,
  under one locale, and the proof that the readers fill a list through its \<open>push_back\<close>; \<open>Accessors\<close> the primitive
  accessors and the generated \<open>copy\<close>; \<open>Owning_Ptrs\<close> the four owning pointers over a heap, with the conservation
  of ownership; \<open>Client_Utils\<close> message and scoped listeners, identifiers and the quality of service.

  \<^bold>\<open>Transport\<close> (\<open>src/dds\<close>): \<open>Dds_Transport\<close> is a writer and a reader as one thread sees them; \<open>Dds_Listeners\<close> the
  application thread, the background thread and their two mutexes as a step relation, with the destruction of the
  reader, which ends; \<open>Cal_Config\<close> the configuration file and the identity it gives a service, against a
  reference on the declarations;
  \<open>Asb_Connection\<close> the connection with its status, its listeners and the monitor thread; \<open>Dds_Payload\<close> the
  payload type (\<open>arcal_payload.hpp\<close>) with the functions that put it on the wire and take it off again.

  \<^bold>\<open>Local server\<close> (\<open>lacal/src\<close>): \<open>Owp_Protocol\<close> is the line syntax and the glob matcher; \<open>Owp_Session\<close> the
  operations of a session, \<open>Owp_Subscriptions\<close> what they do to its subscriptions and to the lines it is sent;
  \<open>Topic_Monitor\<close> discovery, draining and publishing; \<open>Owp_Connection\<close> the HTTP upgrade, the reading of frames
  and the accept loop as events; \<open>Owp_Server\<close> the command line and \<open>runServer\<close>.

  \<^bold>\<open>Demo services\<close> (\<open>examples/amti_service_demo/main.cpp\<close>, \<open>examples/smti_service_demo/main.cpp\<close>): two
  programs over the library, a service and a client each. \<open>Demo_World\<close> has the fields of the messages they use
  and the processes they are written as, over a script of clock samples and outcomes of reads, where any call
  of the library may throw; a process that has used its script up waits. \<open>Amti_Demo\<close> is the program that
  releases its resources by hand, \<open>Smti_Demo\<close> the one that uses the owning pointers and callback listeners.
  \<open>Demo_Runs\<close> has the rules for such processes (a longer script continues a run, what a run holds, what it
  achieves), \<open>Demo_Spec\<close> the contract of a service and of a client as locales; \<open>Amti_Runs\<close> and \<open>Smti_Runs\<close>
  show that the programs meet them and release what they create, \<open>Demo_Pair\<close> runs a service and a client
  against each other over a bus that may lose messages, and \<open>Demo_Live\<close> gives the executions in which both
  end well. A client that ends with 0 agrees with its service on the commands and on the activity.

  \<^bold>\<open>Schema compiler\<close> (\<open>tools/schema_compiler/compiler.py\<close>; its templates are in the components they emit): \<open>Schema_Model\<close>
  is the model of a schema and the reading of XSD documents into it, \<open>Schema_Subset\<close> the resolution of names, the
  configuration of a subset and its selection, and the lists that the generated files hold. \<open>Schema_Facts\<close> shows
  that the table of types keeps its invariant, that a subset is what is reachable from its roots and is closed, and
  that the compiler accepts exactly the types whose registration at run time succeeds (\<open>Cdr_Registry\<close>);
  \<open>Schema_Output\<close> has the accessor factory and a run of \<open>main\<close> over its four directories.

  \<^bold>\<open>What the parts promise each other\<close> is in locales, interpreted on the definitions of the part that provides
  it: codecs (\<open>cdr_codec\<close>), registries, the declarations of a configuration, sequences (\<open>sequence\<close>), the
  disposal of owned objects (\<open>disposer\<close>) and the two sides of a demo (\<open>service_program\<close>, \<open>client_program\<close>,
  \<open>demo_pair\<close>, \<open>answering_pair\<close>). The end-to-end properties compose them: a message written to DDS is
  read by every listener, and reaches a WebSocket session as JSON that reads back as the message.

  \<^bold>\<open>Bounds and fuel.\<close> The document parser of \<open>Json_Documents\<close> runs on fuel, the length of the text, which is
  shown to be enough for every printed document; the waiting loops of the demos end because each turn consumes
  a part of the script; the glob loop and the range-based loop are partial functions that are shown to
  return. Lengths are bounded where the wire format bounds them: fewer than \<open>2^32\<close> items,
  octets and characters.

  \<^bold>\<open>Parameters\<close>, none of it under \<open>src\<close>: the JSON library, \<open>printf\<close> of floating point numbers, the random
  octets, \<open>dlopen\<close>, the environment and the file system, the DDS library (a record of functions over a state of
  its own, with an executable broker that meets what is assumed) and its CDR streams, the I/O library (its
  completions are events), the XML parser (its trees are the input) and the template engine of the compiler.

  \<^bold>\<open>Not modelled\<close>: the text of the templates of the class headers, the command line of the schema compiler, the
  messages the programs print, the capacity of a vector, memory exhaustion, and the tests.
\<close>

end
